(* ===== verification/Prelude.thy ===== *)
theory Prelude
  imports Main "HOL-Library.Word" "HOL-Library.Char_ord" "HOL-Library.List_Lexorder"
begin

text \<open>
  Shared vocabulary of the development: the machine integers and byte strings of the C++
  code, the values that stand for what a C++ function can do besides returning (throw, run
  into undefined behaviour, never return), the state-and-exception programs the stateful
  components are written in, little- and big-endian encodings, and lemmas on lists, words
  and bytes that several components use.
\<close>

unbundle bit_operations_syntax

named_theorems prog_simps "equations that run a state-and-exception program"
named_theorems grows_intros "programs that let a measure of the state grow"

section \<open>Machine integers and byte strings\<close>

type_synonym u8 = "8 word"
type_synonym u16 = "16 word"
type_synonym u32 = "32 word"
type_synonym u64 = "64 word"
type_synonym bytes = "u8 list"

section \<open>What a C++ function can do\<close>

text \<open>
  \<open>Gpm_Exception\<close> is a throw of \<open>gpm::exception\<close> (the macro THROW_GPM_EXCEPTION of
  libs/gpm/exception.hpp) with the text of its format string; \<open>Unpack_Error\<close> is whatever the
  third-party \<open>boost::rpc::raw::unpack\<close> does when it is given bytes it cannot read;
  \<open>Undefined_Behaviour\<close> marks a step the C++ standard gives no meaning to (an access out of
  range, a null dereference), where the model stops; \<open>Diverges\<close> marks a loop that never
  returns. Only the first two can be caught by a C++ handler.
\<close>

datatype exn =
    Gpm_Exception string
  | Unpack_Error
  | Undefined_Behaviour string
  | Diverges

fun catchable :: "exn \<Rightarrow> bool" where
  "catchable (Gpm_Exception m) = True"
| "catchable Unpack_Error = True"
| "catchable (Undefined_Behaviour m) = False"
| "catchable Diverges = False"

section \<open>Programs over a state that may throw\<close>

text \<open>
  A C++ method on an object of type \<open>'s\<close> becomes a function from the state to the outcome
  (\<open>Inl\<close> the exception, \<open>Inr\<close> the value returned) and the state it leaves. The state
  survives an exception: what was changed before a throw stays changed, as in C++.
\<close>

type_synonym ('s, 'a) prog = "'s \<Rightarrow> (exn + 'a) \<times> 's"

definition ret :: "'a \<Rightarrow> ('s, 'a) prog" where
  "ret x s = (Inr x, s)"

definition throw :: "exn \<Rightarrow> ('s, 'a) prog" where
  "throw e s = (Inl e, s)"

definition bindP :: "('s, 'a) prog \<Rightarrow> ('a \<Rightarrow> ('s, 'b) prog) \<Rightarrow> ('s, 'b) prog" where
  "bindP f g s = (case f s of (Inl e, s') \<Rightarrow> (Inl e, s') | (Inr x, s') \<Rightarrow> g x s')"

definition liftE :: "exn + 'a \<Rightarrow> ('s, 'a) prog" where
  "liftE v s = (v, s)"

definition modify :: "('s \<Rightarrow> 's) \<Rightarrow> ('s, unit) prog" where
  "modify f s = (Inr (), f s)"

definition asks :: "('s \<Rightarrow> 'a) \<Rightarrow> ('s, 'a) prog" where
  "asks f s = (Inr (f s), s)"

definition loopP :: "('s \<Rightarrow> ((exn + 'a) \<times> 's) option) \<Rightarrow> ('s, 'a) prog" where
  \<comment> \<open>a loop defined by \<^theory_text>\<open>partial_function (option)\<close>, where \<open>None\<close> is "does not return"\<close>
  "loopP f s = (case f s of None \<Rightarrow> (Inl Diverges, s) | Some r \<Rightarrow> r)"

lemma ret_run [prog_simps]: "ret x s = (Inr x, s)"
  by (simp add: ret_def)

lemma throw_run [prog_simps]: "throw e s = (Inl e, s)"
  by (simp add: throw_def)

lemma liftE_run [prog_simps]: "liftE v s = (v, s)"
  by (simp add: liftE_def)

lemma modify_run [prog_simps]: "modify f s = (Inr (), f s)"
  by (simp add: modify_def)

lemma asks_run [prog_simps]: "asks f s = (Inr (f s), s)"
  by (simp add: asks_def)

lemma bindP_run_Inr [prog_simps]: "f s = (Inr x, s') \<Longrightarrow> bindP f g s = g x s'"
  by (simp add: bindP_def)

lemma bindP_run_Inl [prog_simps]: "f s = (Inl e, s') \<Longrightarrow> bindP f g s = (Inl e, s')"
  by (simp add: bindP_def)

lemma bindP_assoc: "bindP (bindP f g) h = bindP f (\<lambda>x. bindP (g x) h)"
  by (rule ext) (simp add: bindP_def split: prod.split sum.split)

lemma bindP_liftE [simp]: "bindP (liftE (Inr x)) g = g x" "bindP (liftE (Inl e)) g = throw e"
  by (rule ext, simp add: bindP_def liftE_def throw_def)+

lemma bindP_ret [simp]: "bindP (ret x) g = g x" "bindP f ret = f"
  by (rule ext, simp add: bindP_def ret_def split: prod.split sum.split)+

lemma bindP_InrE:
  assumes "bindP f g s = (Inr y, s'')"
  obtains x s' where "f s = (Inr x, s')" and "g x s' = (Inr y, s'')"
  using assms by (auto simp: bindP_def split: prod.splits sum.splits)

text \<open>
  Programs that only let a measure of their state grow, and what a program computes if the
  state it leaves is still below a limit of that measure: this is how the components below
  state that they are correct as long as nothing has grown too large for the code's integers.
\<close>

definition grows :: "('s \<Rightarrow> nat) \<Rightarrow> ('s, 'a) prog \<Rightarrow> bool" where
  "grows m f \<longleftrightarrow> (\<forall>s. m s \<le> m (snd (f s)))"

definition runs :: "('s \<Rightarrow> nat) \<Rightarrow> nat \<Rightarrow> ('s, 'a) prog \<Rightarrow> 's \<Rightarrow> exn + 'a \<Rightarrow> ('s \<Rightarrow> bool) \<Rightarrow> bool" where
  "runs m lim f s x P \<longleftrightarrow> (m (snd (f s)) < lim \<longrightarrow> fst (f s) = x \<and> P (snd (f s)))"

lemma growsD: "grows m f \<Longrightarrow> m s \<le> m (snd (f s))"
  by (simp add: grows_def)

lemma grows_same: "(\<And>s. m (snd (f s)) = m s) \<Longrightarrow> grows m f"
  by (simp add: grows_def)

lemma grows_ret [grows_intros]: "grows m (ret x)"
  by (simp add: grows_def ret_def)

lemma grows_throw [grows_intros]: "grows m (throw e)"
  by (simp add: grows_def throw_def)

lemma grows_liftE [grows_intros]: "grows m (liftE v)"
  by (simp add: grows_def liftE_def)

lemma grows_asks [grows_intros]: "grows m (asks f)"
  by (simp add: grows_def asks_def)

lemma grows_bindP [grows_intros]:
  assumes f: "grows m f" and g: "\<And>x. grows m (g x)"
  shows "grows m (bindP f g)"
  unfolding grows_def
proof
  fix s
  show "m s \<le> m (snd (bindP f g s))"
  proof (cases "fst (f s)")
    case (Inl e)
    then show ?thesis using growsD [OF f, of s] by (cases "f s") (simp add: bindP_def)
  next
    case (Inr x)
    then show ?thesis using growsD [OF f, of s] growsD [OF g [of x], of "snd (f s)"]
      by (cases "f s") (simp add: bindP_def)
  qed
qed

lemma grows_if [grows_intros]:
  "grows m f \<Longrightarrow> grows m g \<Longrightarrow> grows m (if b then f else g)"
  by simp

lemma grows_case_prod [grows_intros]:
  "(\<And>a b. grows m (f a b)) \<Longrightarrow> grows m (case p of (a, b) \<Rightarrow> f a b)"
  by (cases p) simp

lemma grows_case_option [grows_intros]:
  "grows m f \<Longrightarrow> (\<And>a. grows m (g a)) \<Longrightarrow> grows m (case p of None \<Rightarrow> f | Some a \<Rightarrow> g a)"
  by (cases p) simp_all

lemma grows_Let [grows_intros]: "(\<And>x. grows m (f x)) \<Longrightarrow> grows m (let x = v in f x)"
  by simp

lemma runs_ret: "P s \<Longrightarrow> runs m lim (ret x) s (Inr x) P"
  by (simp add: runs_def ret_def)

lemma runs_throw: "P s \<Longrightarrow> runs m lim (throw e) s (Inl e) P"
  by (simp add: runs_def throw_def)

lemma runs_liftE: "P s \<Longrightarrow> runs m lim (liftE v) s v P"
  by (simp add: runs_def liftE_def)

lemma runs_asks: "P s \<Longrightarrow> runs m lim (asks f) s (Inr (f s)) P"
  by (simp add: runs_def asks_def)

lemma bindP_fits:
  assumes "\<And>x. grows m (g x)" and "m (snd (bindP f g s)) < lim"
  shows "m (snd (f s)) < lim"
proof (cases "f s")
  case (Pair r s')
  show ?thesis
  proof (cases r)
    case (Inr x)
    then show ?thesis
      using assms(2) growsD [OF assms(1), of s' x] Pair by (simp add: bindP_def)
  qed (use assms(2) Pair in \<open>simp add: bindP_def\<close>)
qed

lemma runs_bindP:
  assumes f: "runs m lim f s (Inr x) P" and mono: "\<And>x. grows m (g x)"
    and g: "\<And>s'. P s' \<Longrightarrow> runs m lim (g x) s' y Q"
  shows "runs m lim (bindP f g) s y Q"
  unfolding runs_def
proof
  assume fits: "m (snd (bindP f g s)) < lim"
  have "fst (f s) = Inr x" "P (snd (f s))"
    using f bindP_fits [OF mono fits] by (simp_all add: runs_def)
  then show "fst (bindP f g s) = y \<and> Q (snd (bindP f g s))"
    using fits g [of "snd (f s)"] by (cases "f s") (simp add: bindP_def runs_def)
qed

lemma runs_bindP_Inl:
  assumes f: "runs m lim f s (Inl e) P" and mono: "\<And>x. grows m (g x)" and PQ: "\<And>s'. P s' \<Longrightarrow> Q s'"
  shows "runs m lim (bindP f g) s (Inl e) Q"
  unfolding runs_def
proof
  assume fits: "m (snd (bindP f g s)) < lim"
  have "fst (f s) = Inl e" "P (snd (f s))"
    using f bindP_fits [OF mono fits] by (simp_all add: runs_def)
  then show "fst (bindP f g s) = Inl e \<and> Q (snd (bindP f g s))"
    using PQ by (cases "f s") (simp add: bindP_def)
qed

lemma runs_fits:
  assumes "grows m f" and "m s < lim \<Longrightarrow> runs m lim f s x P"
  shows "runs m lim f s x P"
  using assms(2) growsD [OF assms(1), of s] by (fastforce simp: runs_def)

lemma runs_conseq: "runs m lim f s x P \<Longrightarrow> (\<And>s'. P s' \<Longrightarrow> Q s') \<Longrightarrow> runs m lim f s x Q"
  by (auto simp: runs_def)

text \<open>
  What every run of a program keeps, whatever it returns or throws: a relation between the state
  before and after that composes. A component states what it leaves alone as such a relation
  and gets the rules for its programs from this interface.
\<close>

definition follows :: "('s \<Rightarrow> 's \<Rightarrow> bool) \<Rightarrow> ('s, 'a) prog \<Rightarrow> bool" where
  "follows R f \<longleftrightarrow> (\<forall>s. R s (snd (f s)))"

lemma followsD: "follows R f \<Longrightarrow> R s (snd (f s))"
  by (simp add: follows_def)

lemma followsI: "(\<And>s. R s (snd (f s))) \<Longrightarrow> follows R f"
  by (simp add: follows_def)

lemma followsE: "follows R f \<Longrightarrow> f s = (r, s') \<Longrightarrow> R s s'"
  by (metis followsD snd_conv)

locale kept_by_steps =
  fixes R :: "'s \<Rightarrow> 's \<Rightarrow> bool"
  assumes kept_refl: "R s s" and kept_trans: "R s t \<Longrightarrow> R t u \<Longrightarrow> R s u"
begin

lemma plain: "follows R (ret x)" "follows R (throw e)" "follows R (liftE v)" "follows R (asks g)"
  by (simp_all add: follows_def prog_simps kept_refl)

lemma bind:
  assumes f: "follows R f" and g: "\<And>x. follows R (g x)"
  shows "follows R (bindP f g)"
proof (rule followsI)
  fix s
  obtain r s' where fs: "f s = (r, s')" by fastforce
  have "R s s'" using followsE [OF f fs] .
  then show "R s (snd (bindP f g s))"
    using kept_trans [OF _ followsD [OF g]] by (cases r) (simp_all add: bindP_def fs)
qed

lemma bind_at:
  assumes "\<And>r s'. f s = (r, s') \<Longrightarrow> R s s'" and "\<And>x s'. f s = (Inr x, s') \<Longrightarrow> R s s' \<Longrightarrow> R s' (snd (g x s'))"
  shows "R s (snd (bindP f g s))"
  using assms kept_trans by (cases "f s") (fastforce simp: bindP_def split: sum.split)

lemma branch: "follows R f \<Longrightarrow> follows R g \<Longrightarrow> follows R (if b then f else g)"
  by simp

lemma on_pair: "(\<And>a b. follows R (f a b)) \<Longrightarrow> follows R (case p of (a, b) \<Rightarrow> f a b)"
  by (cases p) simp

lemma on_option: "follows R f \<Longrightarrow> (\<And>a. follows R (g a)) \<Longrightarrow> follows R (case p of None \<Rightarrow> f | Some a \<Rightarrow> g a)"
  by (cases p) simp_all

lemma on_let: "(\<And>x. follows R (f x)) \<Longrightarrow> follows R (let x = v in f x)"
  by simp

lemma on_loop: "(\<And>s y. f s = Some y \<Longrightarrow> R s (snd y)) \<Longrightarrow> follows R (loopP f)"
  by (rule followsI) (auto simp: loopP_def kept_refl split: option.split)

lemmas rules = plain bind branch on_pair on_option on_let

end

section \<open>Lists\<close>

definition overlay :: "'a list \<Rightarrow> 'a list \<Rightarrow> 'a list" where
  \<comment> \<open>the first bytes of a buffer replaced by the bytes a read put there\<close>
  "overlay new old = new @ drop (length new) old"

lemma overlay_full: "length old \<le> length new \<Longrightarrow> overlay new old = new"
  by (simp add: overlay_def)

lemma length_overlay: "length (overlay new old) = max (length new) (length old)"
  by (simp add: overlay_def max_def)

definition patch :: "nat \<Rightarrow> 'a list \<Rightarrow> 'a list \<Rightarrow> 'a list" where
  \<comment> \<open>\<open>new\<close> written over \<open>old\<close> from offset \<open>off\<close> (\<open>off \<le> length old\<close>)\<close>
  "patch off new old = take off old @ new @ drop (off + length new) old"

lemma length_patch: "off \<le> length old \<Longrightarrow> length (patch off new old) = max (length old) (off + length new)"
  by (auto simp: patch_def max_def)

lemma patch_end: "off = length old \<Longrightarrow> patch off new old = old @ new"
  by (simp add: patch_def)

lemma patch_Nil [simp]: "off \<le> length old \<Longrightarrow> patch off [] old = old"
  by (simp add: patch_def)

lemma nth_patch:
  assumes "off \<le> length old" and "i < max (length old) (off + length new)"
  shows "patch off new old ! i = (if off \<le> i \<and> i < off + length new then new ! (i - off) else old ! i)"
  using assms by (auto simp: patch_def nth_append min_def)

lemma take_drop_nth_eqI:
  assumes "length xs = n" and "a + n \<le> length ys" and "\<And>i. i < n \<Longrightarrow> xs ! i = ys ! (a + i)"
  shows "xs = take n (drop a ys)"
  using assms by (intro nth_equalityI) auto

definition resize :: "nat \<Rightarrow> bytes \<Rightarrow> bytes" where
  \<comment> \<open>\<open>vector::resize\<close>\<close>
  "resize n xs = take n xs @ replicate (n - length xs) 0"

section \<open>Little- and big-endian integers\<close>

primrec le_bytes :: "nat \<Rightarrow> nat \<Rightarrow> bytes" where
  "le_bytes 0 v = []"
| "le_bytes (Suc n) v = of_nat (v mod 256) # le_bytes n (v div 256)"

primrec le_val :: "bytes \<Rightarrow> nat" where
  "le_val [] = 0"
| "le_val (b # bs) = unat b + 256 * le_val bs"

definition be_val :: "bytes \<Rightarrow> nat" where
  "be_val bs = le_val (rev bs)"

definition be_bytes :: "nat \<Rightarrow> nat \<Rightarrow> bytes" where
  "be_bytes n v = rev (le_bytes n v)"

lemma length_le_bytes [simp]: "length (le_bytes n v) = n"
  by (induction n arbitrary: v) auto

lemma length_be_bytes [simp]: "length (be_bytes n v) = n"
  by (simp add: be_bytes_def)

lemma unat_u8_bound: "unat (b :: u8) < 256"
  using unsigned_less [where 'a = nat, of b] by simp

lemma le_val_bound: "le_val bs < 256 ^ length bs"
proof (induction bs)
  case (Cons b bs)
  then have "le_val bs + 1 \<le> 256 ^ length bs" by simp
  then have "256 * (le_val bs + 1) \<le> 256 * 256 ^ length bs" by (rule mult_le_mono2)
  then show ?case using unat_u8_bound [of b] by simp
qed simp

lemma unat_of_nat_u8: "v < 256 \<Longrightarrow> unat (of_nat v :: u8) = v"
  by (simp add: unat_of_nat)

lemma le_val_le_bytes: "v < 256 ^ n \<Longrightarrow> le_val (le_bytes n v) = v"
proof (induction n arbitrary: v)
  case (Suc n)
  then have "v div 256 < 256 ^ n"
    by (simp add: less_mult_imp_div_less mult.commute)
  then show ?case by (simp add: Suc.IH unat_of_nat_u8)
qed simp

lemma le_bytes_le_val: "le_bytes (length bs) (le_val bs) = bs"
proof (induction bs)
  case (Cons b bs)
  have "(unat b + 256 * le_val bs) mod 256 = unat b"
    using unat_u8_bound [of b] by simp
  moreover have "(unat b + 256 * le_val bs) div 256 = le_val bs"
    using unat_u8_bound [of b] by simp
  ultimately show ?case using Cons by simp
qed simp

lemma le_val_append: "le_val (xs @ ys) = le_val xs + 256 ^ length xs * le_val ys"
  by (induction xs) (auto simp: algebra_simps)

lemma be_val_be_bytes: "v < 256 ^ n \<Longrightarrow> be_val (be_bytes n v) = v"
  by (simp add: be_val_def be_bytes_def le_val_le_bytes)

lemma be_val_bound: "be_val bs < 256 ^ length bs"
  using le_val_bound [of "rev bs"] by (simp add: be_val_def)

lemma le_val_replicate_0 [simp]: "le_val (replicate n 0) = 0"
  by (induction n) auto

lemma be_val_pad: "be_val (replicate n 0 @ bs) = be_val bs"
  by (simp add: be_val_def le_val_append)

section \<open>Characters\<close>

definition byte_of_char :: "char \<Rightarrow> u8" where
  "byte_of_char c = of_nat (of_char c)"

definition char_of_byte :: "u8 \<Rightarrow> char" where
  "char_of_byte b = char_of (unat b)"

lemma char_of_byte_of_char [simp]: "char_of_byte (byte_of_char c) = c"
proof -
  have "unat (of_nat (of_char c) :: u8) = of_char c" by (simp add: unat_of_nat)
  then show ?thesis by (simp add: char_of_byte_def byte_of_char_def)
qed

lemma byte_of_char_of_byte [simp]: "byte_of_char (char_of_byte b) = b"
proof -
  have "unat b mod 256 = unat b" using unat_u8_bound [of b] by simp
  then show ?thesis by (simp add: char_of_byte_def byte_of_char_def)
qed

section \<open>Words\<close>

lemma unat_of_nat_u64: "n < 2 ^ 64 \<Longrightarrow> unat (of_nat n :: u64) = n"
  by (simp add: unat_of_nat)

lemma unat_of_nat_u32: "n < 2 ^ 32 \<Longrightarrow> unat (of_nat n :: u32) = n"
  by (simp add: unat_of_nat)

lemma unat_minus_one_u64: "unat (-1 :: u64) = 2 ^ 64 - 1"
  using unat_minus_one [of "0 :: u64"] by (simp add: unsigned_minus_1_eq_mask mask_eq_exp_minus_1)

lemma unat_add_u64: "unat a + unat b < 2 ^ 64 \<Longrightarrow> unat (a + b :: u64) = unat a + unat b"
  by (simp add: unat_word_ariths)

lemma of_nat_neq_minus_one_u64:
  assumes n: "n < 2 ^ 64 - 1"
  shows "(of_nat n :: u64) \<noteq> -1"
proof
  assume "(of_nat n :: u64) = -1"
  then have "unat (of_nat n :: u64) = 2 ^ 64 - 1" by (simp only: unat_minus_one_u64)
  with n show False by (simp add: unat_of_nat)
qed

lemma unat_ucast_u32: "unat (m :: u64) < 2 ^ 31 \<Longrightarrow> unat (ucast m :: u32) = unat m"
  by (simp add: unsigned_ucast_eq take_bit_nat_eq_self)

lemma ucast_ucast_u32: "unat (m :: u64) < 2 ^ 31 \<Longrightarrow> ucast (ucast m :: u32) = m"
proof -
  assume m: "unat m < 2 ^ 31"
  have "unat (ucast (ucast m :: u32) :: u64) = take_bit 64 (unat (ucast m :: u32))"
    by (subst unsigned_ucast_eq) simp
  also have "\<dots> = unat m" using m by (simp only: unat_ucast_u32) (simp add: take_bit_nat_eq_self)
  finally show "ucast (ucast m :: u32) = m" by (simp only: word_unat_eq_iff)
qed

lemma not_sless_0_u32:
  assumes "unat (w :: u32) < 2 ^ 31"
  shows "\<not> w <s 0"
proof -
  have "uint w < 2 ^ 31"
    using assms of_nat_less_iff [where 'a = int, of "unat w" "2 ^ 31"] by simp
  moreover have "- (2 ^ 31) \<le> uint w" by (rule order_trans [of _ 0]) simp_all
  ultimately have "signed_take_bit 31 (uint w) = uint w" by (intro signed_take_bit_int_eq_self)
  then have "sint w = uint w" by (simp add: sint_uint)
  then show ?thesis by (simp add: word_sless_alt)
qed

end
