(* ===== verification/Blowfish.thy ===== *)
theory Blowfish
  imports BlowfishTables
begin

text \<open>
  The Blowfish cipher of libs/gpm/crypto/blowfish.hpp and blowfish.cpp: the 64-bit block,
  the key schedule (\<open>start\<close>), the sixteen rounds and their inverse, the byte shuffling, and
  the three buffer modes, in place and from one buffer to another. A C buffer of \<open>n\<close> bytes is
  a list of \<open>n\<close> bytes; the loops \<open>for(; n >= 8; n -= 8)\<close> become recursion on the list, eight
  bytes at a time.
\<close>

section \<open>Blocks and bytes\<close>

record sblock =
  m_uil :: u32
  m_uir :: u32

definition sblock_xor :: "sblock \<Rightarrow> sblock \<Rightarrow> sblock" where
  "sblock_xor a b = \<lparr>m_uil = m_uil a XOR m_uil b, m_uir = m_uir a XOR m_uir b\<rparr>"

definition Byte :: "u32 \<Rightarrow> u8" where
  "Byte ui = ucast (ui AND 0xff)"

definition BytesToBlock :: "bytes \<Rightarrow> sblock" where
  "BytesToBlock p =
     \<lparr>m_uil = push_bit 24 (ucast (p ! 0)) OR push_bit 16 (ucast (p ! 1))
                OR push_bit 8 (ucast (p ! 2)) OR ucast (p ! 3),
      m_uir = push_bit 24 (ucast (p ! 4)) OR push_bit 16 (ucast (p ! 5))
                OR push_bit 8 (ucast (p ! 6)) OR ucast (p ! 7)\<rparr>"

definition BlockToBytes :: "sblock \<Rightarrow> bytes" where
  \<comment> \<open>the code writes the eight bytes downwards from the end of the block; in memory order\<close>
  "BlockToBytes b =
     [Byte (drop_bit 24 (m_uil b)), Byte (drop_bit 16 (m_uil b)), Byte (drop_bit 8 (m_uil b)), Byte (m_uil b),
      Byte (drop_bit 24 (m_uir b)), Byte (drop_bit 16 (m_uir b)), Byte (drop_bit 8 (m_uir b)), Byte (m_uir b)]"

section \<open>The cipher state and one block\<close>

record blowfish =
  m_oChain0 :: sblock
  m_oChain :: sblock
  m_auiP :: "u32 list"
  m_auiS :: "u32 list list"

definition reset_chain :: "blowfish \<Rightarrow> blowfish" where
  "reset_chain bf = bf\<lparr>m_oChain := m_oChain0 bf\<rparr>"

definition blowfish_F :: "blowfish \<Rightarrow> u32 \<Rightarrow> u32" where
  "blowfish_F bf ui =
     (((m_auiS bf ! 0) ! unat (Byte (drop_bit 24 ui)) + (m_auiS bf ! 1) ! unat (Byte (drop_bit 16 ui)))
        XOR (m_auiS bf ! 2) ! unat (Byte (drop_bit 8 ui)))
      + (m_auiS bf ! 3) ! unat (Byte ui)"

text \<open>
  One source line of the rounds, \<open>uiRight ^= F(uiLeft)^m_auiP[i]; uiLeft ^= F(uiRight)^m_auiP[j];\<close>,
  on the pair of the two halves.
\<close>

definition two_rounds :: "blowfish \<Rightarrow> nat \<Rightarrow> nat \<Rightarrow> u32 \<times> u32 \<Rightarrow> u32 \<times> u32" where
  "two_rounds bf i j lr =
     (let uiLeft = fst lr; uiRight = snd lr;
          uiRight = uiRight XOR (blowfish_F bf uiLeft XOR m_auiP bf ! i);
          uiLeft = uiLeft XOR (blowfish_F bf uiRight XOR m_auiP bf ! j)
      in (uiLeft, uiRight))"

definition encrypt_block :: "blowfish \<Rightarrow> sblock \<Rightarrow> sblock" where
  "encrypt_block bf block =
     (let lr = (m_uil block XOR m_auiP bf ! 0, m_uir block);
          lr = two_rounds bf 1 2 lr;
          lr = two_rounds bf 3 4 lr;
          lr = two_rounds bf 5 6 lr;
          lr = two_rounds bf 7 8 lr;
          lr = two_rounds bf 9 10 lr;
          lr = two_rounds bf 11 12 lr;
          lr = two_rounds bf 13 14 lr;
          lr = two_rounds bf 15 16 lr
      in \<lparr>m_uil = snd lr XOR m_auiP bf ! 17, m_uir = fst lr\<rparr>)"

definition decrypt_block :: "blowfish \<Rightarrow> sblock \<Rightarrow> sblock" where
  "decrypt_block bf block =
     (let lr = (m_uil block XOR m_auiP bf ! 17, m_uir block);
          lr = two_rounds bf 16 15 lr;
          lr = two_rounds bf 14 13 lr;
          lr = two_rounds bf 12 11 lr;
          lr = two_rounds bf 10 9 lr;
          lr = two_rounds bf 8 7 lr;
          lr = two_rounds bf 6 5 lr;
          lr = two_rounds bf 4 3 lr;
          lr = two_rounds bf 2 1 lr
      in \<lparr>m_uil = snd lr XOR m_auiP bf ! 0, m_uir = fst lr\<rparr>)"

section \<open>The key schedule\<close>

text \<open>
  The inner loop of \<open>start\<close> builds one subkey word from four key bytes, cycling through the
  local key: \<open>k\<close> is \<open>iCount\<close>, which is also the offset of the pointer \<open>p\<close> into
  \<open>aucLocalKey\<close>, and \<open>n\<close> the bytes still to take.
\<close>

primrec key_word :: "bytes \<Rightarrow> nat \<Rightarrow> nat \<Rightarrow> u32 \<Rightarrow> u32 \<times> nat" where
  "key_word key 0 k x = (x, k)"
| "key_word key (Suc n) k x =
     (let x = push_bit 8 x OR ucast (key ! k);
          k = (if Suc k = length key then 0 else Suc k)
      in key_word key n k x)"

primrec load_P :: "bytes \<Rightarrow> nat \<Rightarrow> u32 list \<Rightarrow> u32 list" where
  "load_P key k [] = []"
| "load_P key k (w # ws) =
     (let (x, k') = key_word key 4 k 0 in (w XOR x) # load_P key k' ws)"

definition fill_P :: "nat \<Rightarrow> blowfish \<times> sblock \<Rightarrow> blowfish \<times> sblock" where
  "fill_P i s =
     (let b = encrypt_block (fst s) (snd s)
      in ((fst s)\<lparr>m_auiP := (m_auiP (fst s))[i := m_uil b, i + 1 := m_uir b]\<rparr>, b))"

definition fill_S :: "nat \<Rightarrow> nat \<Rightarrow> blowfish \<times> sblock \<Rightarrow> blowfish \<times> sblock" where
  "fill_S j k s =
     (let b = encrypt_block (fst s) (snd s)
      in ((fst s)\<lparr>m_auiS := (m_auiS (fst s))[j := (m_auiS (fst s) ! j)[k := m_uil b, k + 1 := m_uir b]]\<rparr>, b))"

definition evolve :: "blowfish \<Rightarrow> blowfish" where
  \<comment> \<open>reflecting the P and S boxes through the evolving cipher, from an all-zero block\<close>
  "evolve bf =
     (let s = (bf, \<lparr>m_uil = 0, m_uir = 0\<rparr>);
          s = fold fill_P (map (\<lambda>i. 2 * i) [0..<9]) s;
          s = fold (\<lambda>j. fold (fill_S j) (map (\<lambda>k. 2 * k) [0..<128])) [0..<4] s
      in fst s)"

definition blowfish_start :: "bytes \<Rightarrow> nat \<Rightarrow> sblock \<Rightarrow> (blowfish, unit) prog" where
  "blowfish_start ucKey keysize roChain bf =
     (let bf = bf\<lparr>m_oChain0 := roChain, m_oChain := roChain\<rparr> in
      if keysize < 1 then (Inl (Gpm_Exception ''Incorrect key length''), bf)
      else
        let keysize = (if keysize > 56 then 56 else keysize) in
        if length ucKey < keysize then (Inl (Undefined_Behaviour ''memcpy past the key''), bf)
        else
          let aucLocalKey = take keysize ucKey;
              bf = bf\<lparr>m_auiP := load_P aucLocalKey 0 scm_auiInitP, m_auiS := scm_auiInitS\<rparr>
          in (Inr (), evolve bf))"

section \<open>Buffers\<close>

definition ECB :: int where "ECB = 0"
definition CBC :: int where "CBC = 1"
definition CFB :: int where "CFB = 2"

text \<open>
  The loops over a buffer in place, one for each mode and direction; \<open>f\<close> is the block
  function they call.
\<close>

fun ecb_loop :: "(sblock \<Rightarrow> sblock) \<Rightarrow> bytes \<Rightarrow> bytes" where
  "ecb_loop f buf =
     (if length buf < 8 then buf
      else BlockToBytes (f (BytesToBlock (take 8 buf))) @ ecb_loop f (drop 8 buf))"

fun cbc_encrypt_loop :: "(sblock \<Rightarrow> sblock) \<Rightarrow> sblock \<Rightarrow> bytes \<Rightarrow> bytes" where
  "cbc_encrypt_loop f chain buf =
     (if length buf < 8 then buf
      else let work = f (sblock_xor (BytesToBlock (take 8 buf)) chain)
           in BlockToBytes work @ cbc_encrypt_loop f work (drop 8 buf))"

fun cbc_decrypt_loop :: "(sblock \<Rightarrow> sblock) \<Rightarrow> sblock \<Rightarrow> bytes \<Rightarrow> bytes" where
  "cbc_decrypt_loop f chain buf =
     (if length buf < 8 then buf
      else let crypt = BytesToBlock (take 8 buf); work = sblock_xor (f crypt) chain
           in BlockToBytes work @ cbc_decrypt_loop f crypt (drop 8 buf))"

fun cfb_encrypt_loop :: "(sblock \<Rightarrow> sblock) \<Rightarrow> sblock \<Rightarrow> bytes \<Rightarrow> bytes" where
  "cfb_encrypt_loop f chain buf =
     (if length buf < 8 then buf
      else let work = sblock_xor (BytesToBlock (take 8 buf)) (f chain)
           in BlockToBytes work @ cfb_encrypt_loop f work (drop 8 buf))"

fun cfb_decrypt_loop :: "(sblock \<Rightarrow> sblock) \<Rightarrow> sblock \<Rightarrow> bytes \<Rightarrow> bytes" where
  "cfb_decrypt_loop f chain buf =
     (if length buf < 8 then buf
      else let crypt = BytesToBlock (take 8 buf); work = sblock_xor crypt (f chain)
           in BlockToBytes work @ cfb_decrypt_loop f crypt (drop 8 buf))"

declare ecb_loop.simps [simp del] cbc_encrypt_loop.simps [simp del] cbc_decrypt_loop.simps [simp del]
  cfb_encrypt_loop.simps [simp del] cfb_decrypt_loop.simps [simp del]

definition encrypt_buffer :: "blowfish \<Rightarrow> bytes \<Rightarrow> int \<Rightarrow> exn + bytes" where
  "encrypt_buffer bf buf iMode =
     (if length buf = 0 \<or> length buf mod 8 \<noteq> 0 then Inl (Gpm_Exception ''Incorrect buffer length'')
      else if iMode = CBC then Inr (cbc_encrypt_loop (encrypt_block bf) (m_oChain bf) buf)
      else if iMode = CFB then Inr (cfb_encrypt_loop (encrypt_block bf) (m_oChain bf) buf)
      else Inr (ecb_loop (encrypt_block bf) buf))"

definition decrypt_buffer :: "blowfish \<Rightarrow> bytes \<Rightarrow> int \<Rightarrow> exn + bytes" where
  "decrypt_buffer bf buf iMode =
     (if length buf = 0 \<or> length buf mod 8 \<noteq> 0 then Inl (Gpm_Exception ''Incorrect buffer length'')
      else if iMode = CBC then Inr (cbc_decrypt_loop (decrypt_block bf) (m_oChain bf) buf)
      else if iMode = CFB then Inr (cfb_decrypt_loop (encrypt_block bf) (m_oChain bf) buf)
      else Inr (ecb_loop (decrypt_block bf) buf))"

text \<open>
  The overloads with an input and an output buffer: the same loops, reading \<open>in\<close> and writing
  \<open>out\<close>, which are different buffers of at least \<open>n\<close> bytes; bytes of \<open>out\<close> past \<open>n\<close> stay.
\<close>

fun ecb_loop_to :: "(sblock \<Rightarrow> sblock) \<Rightarrow> nat \<Rightarrow> bytes \<Rightarrow> bytes \<Rightarrow> bytes" where
  "ecb_loop_to f n inb out =
     (if n < 8 then out
      else BlockToBytes (f (BytesToBlock (take 8 inb))) @ ecb_loop_to f (n - 8) (drop 8 inb) (drop 8 out))"

fun cbc_encrypt_loop_to :: "(sblock \<Rightarrow> sblock) \<Rightarrow> sblock \<Rightarrow> nat \<Rightarrow> bytes \<Rightarrow> bytes \<Rightarrow> bytes" where
  "cbc_encrypt_loop_to f chain n inb out =
     (if n < 8 then out
      else let work = f (sblock_xor (BytesToBlock (take 8 inb)) chain)
           in BlockToBytes work @ cbc_encrypt_loop_to f work (n - 8) (drop 8 inb) (drop 8 out))"

fun cbc_decrypt_loop_to :: "(sblock \<Rightarrow> sblock) \<Rightarrow> sblock \<Rightarrow> nat \<Rightarrow> bytes \<Rightarrow> bytes \<Rightarrow> bytes" where
  "cbc_decrypt_loop_to f chain n inb out =
     (if n < 8 then out
      else let crypt = BytesToBlock (take 8 inb); work = sblock_xor (f crypt) chain
           in BlockToBytes work @ cbc_decrypt_loop_to f crypt (n - 8) (drop 8 inb) (drop 8 out))"

fun cfb_encrypt_loop_to :: "(sblock \<Rightarrow> sblock) \<Rightarrow> sblock \<Rightarrow> nat \<Rightarrow> bytes \<Rightarrow> bytes \<Rightarrow> bytes" where
  "cfb_encrypt_loop_to f chain n inb out =
     (if n < 8 then out
      else let work = sblock_xor (BytesToBlock (take 8 inb)) (f chain)
           in BlockToBytes work @ cfb_encrypt_loop_to f work (n - 8) (drop 8 inb) (drop 8 out))"

fun cfb_decrypt_loop_to :: "(sblock \<Rightarrow> sblock) \<Rightarrow> sblock \<Rightarrow> nat \<Rightarrow> bytes \<Rightarrow> bytes \<Rightarrow> bytes" where
  "cfb_decrypt_loop_to f chain n inb out =
     (if n < 8 then out
      else let crypt = BytesToBlock (take 8 inb); work = sblock_xor crypt (f chain)
           in BlockToBytes work @ cfb_decrypt_loop_to f crypt (n - 8) (drop 8 inb) (drop 8 out))"

declare ecb_loop_to.simps [simp del] cbc_encrypt_loop_to.simps [simp del] cbc_decrypt_loop_to.simps [simp del]
  cfb_encrypt_loop_to.simps [simp del] cfb_decrypt_loop_to.simps [simp del]

definition encrypt_to :: "blowfish \<Rightarrow> bytes \<Rightarrow> bytes \<Rightarrow> nat \<Rightarrow> int \<Rightarrow> exn + bytes" where
  "encrypt_to bf inb out n iMode =
     (if n = 0 \<or> n mod 8 \<noteq> 0 then Inl (Gpm_Exception ''Incorrect buffer length'')
      else if length inb < n \<or> length out < n then Inl (Undefined_Behaviour ''buffer shorter than n'')
      else if iMode = CBC then Inr (cbc_encrypt_loop_to (encrypt_block bf) (m_oChain bf) n inb out)
      else if iMode = CFB then Inr (cfb_encrypt_loop_to (encrypt_block bf) (m_oChain bf) n inb out)
      else Inr (ecb_loop_to (encrypt_block bf) n inb out))"

definition decrypt_to :: "blowfish \<Rightarrow> bytes \<Rightarrow> bytes \<Rightarrow> nat \<Rightarrow> int \<Rightarrow> exn + bytes" where
  "decrypt_to bf inb out n iMode =
     (if n = 0 \<or> n mod 8 \<noteq> 0 then Inl (Gpm_Exception ''Incorrect buffer length'')
      else if length inb < n \<or> length out < n then Inl (Undefined_Behaviour ''buffer shorter than n'')
      else if iMode = CBC then Inr (cbc_decrypt_loop_to (decrypt_block bf) (m_oChain bf) n inb out)
      else if iMode = CFB then Inr (cfb_decrypt_loop_to (encrypt_block bf) (m_oChain bf) n inb out)
      else Inr (ecb_loop_to (decrypt_block bf) n inb out))"

end
