(* ===== verification/BlowfishProofs.thy ===== *)
theory BlowfishProofs
  imports Blowfish
begin

text \<open>
  Correctness of the Blowfish model: the block permutation and its inverse, the byte
  shuffling, the buffer modes for any block cipher (locale \<open>block_cipher\<close>, interpreted on
  the code's rounds for every cipher state), the key schedule.
\<close>

section \<open>Bytes and blocks\<close>

lemma length_BlockToBytes [simp]: "length (BlockToBytes b) = 8"
  by (simp add: BlockToBytes_def)

lemma Byte_alt: "Byte ui = ucast ui"
proof -
  have "ui AND 0xff = take_bit 8 ui"
    by (simp add: take_bit_eq_mask mask_eq_exp_minus_1)
  then show ?thesis
    by (intro bit_word_eqI) (simp only: Byte_def, simp add: bit_simps)
qed

lemma BytesToBlock_BlockToBytes: "BytesToBlock (BlockToBytes b) = b"
proof -
  have half: "push_bit 24 (ucast (ucast (drop_bit 24 x) :: u8)) OR push_bit 16 (ucast (ucast (drop_bit 16 x) :: u8))
      OR push_bit 8 (ucast (ucast (drop_bit 8 x) :: u8)) OR ucast (ucast x :: u8) = x"
    (is "?lhs x = x") for x :: u32
  proof (rule bit_word_eqI)
    fix n assume n: "n < LENGTH(32)"
    consider "n < 8" | "8 \<le> n" "n < 16" | "16 \<le> n" "n < 24" | "24 \<le> n" by linarith
    then show "bit (?lhs x) n = bit x n"
      using n by cases (auto simp: bit_simps)
  qed
  show ?thesis
    by (simp add: BytesToBlock_def BlockToBytes_def Byte_alt half)
qed

lemma BlockToBytes_BytesToBlock:
  assumes "length p = 8"
  shows "BlockToBytes (BytesToBlock p) = p"
proof -
  obtain a b c d e f g h where p: "p = [a, b, c, d, e, f, g, h]"
    using assms by (auto simp: length_Suc_conv numeral_eq_Suc)
  have "ucast (drop_bit 24 (push_bit 24 (ucast a) OR push_bit 16 (ucast b) OR push_bit 8 (ucast c) OR ucast d :: u32)) = a"
    and "ucast (drop_bit 16 (push_bit 24 (ucast a) OR push_bit 16 (ucast b) OR push_bit 8 (ucast c) OR ucast d :: u32)) = b"
    and "ucast (drop_bit 8 (push_bit 24 (ucast a) OR push_bit 16 (ucast b) OR push_bit 8 (ucast c) OR ucast d :: u32)) = c"
    and "ucast (push_bit 24 (ucast a) OR push_bit 16 (ucast b) OR push_bit 8 (ucast c) OR ucast d :: u32) = d"
    for a b c d :: u8
    by (rule bit_word_eqI, auto simp: bit_simps dest: bit_imp_le_length)+
  then show ?thesis
    by (simp add: p BytesToBlock_def BlockToBytes_def Byte_alt)
qed

lemma sblock_xor_self: "sblock_xor (sblock_xor a b) b = a"
  by (simp add: sblock_xor_def xor.assoc)

section \<open>One block\<close>

lemma xor_undo: "(x XOR y) XOR y = x" for x y :: u32
  by (simp add: xor.assoc)

lemma two_rounds_inverse:
  "two_rounds bf j i (snd (two_rounds bf i j s), fst (two_rounds bf i j s)) = (snd s, fst s)"
  by (simp only: two_rounds_def Let_def fst_conv snd_conv xor_undo)

text \<open>Swapping the halves around two rounds gives the two rounds of the other direction.\<close>

lemma two_rounds_undo:
  assumes "two_rounds bf i j s = s'"
  shows "two_rounds bf j i (snd s', fst s') = (snd s, fst s)"
  using two_rounds_inverse [of bf j i s] assms by simp

lemma decrypt_encrypt_block: "decrypt_block bf (encrypt_block bf b) = b"
proof -
  define s0 where "s0 = (m_uil b XOR m_auiP bf ! 0, m_uir b)"
  define s1 where "s1 = two_rounds bf 1 2 s0"
  define s2 where "s2 = two_rounds bf 3 4 s1"
  define s3 where "s3 = two_rounds bf 5 6 s2"
  define s4 where "s4 = two_rounds bf 7 8 s3"
  define s5 where "s5 = two_rounds bf 9 10 s4"
  define s6 where "s6 = two_rounds bf 11 12 s5"
  define s7 where "s7 = two_rounds bf 13 14 s6"
  define s8 where "s8 = two_rounds bf 15 16 s7"
  note inv = s1_def s2_def s3_def s4_def s5_def s6_def s7_def s8_def
  have enc: "encrypt_block bf b = \<lparr>m_uil = snd s8 XOR m_auiP bf ! 17, m_uir = fst s8\<rparr>"
    by (simp only: encrypt_block_def Let_def inv s0_def)
  show ?thesis
    by (simp add: enc decrypt_block_def Let_def xor_undo inv [symmetric, THEN two_rounds_undo]
        s0_def del: One_nat_def)
qed

lemma encrypt_decrypt_block: "encrypt_block bf (decrypt_block bf b) = b"
proof -
  define s0 where "s0 = (m_uil b XOR m_auiP bf ! 17, m_uir b)"
  define s1 where "s1 = two_rounds bf 16 15 s0"
  define s2 where "s2 = two_rounds bf 14 13 s1"
  define s3 where "s3 = two_rounds bf 12 11 s2"
  define s4 where "s4 = two_rounds bf 10 9 s3"
  define s5 where "s5 = two_rounds bf 8 7 s4"
  define s6 where "s6 = two_rounds bf 6 5 s5"
  define s7 where "s7 = two_rounds bf 4 3 s6"
  define s8 where "s8 = two_rounds bf 2 1 s7"
  note inv = s1_def s2_def s3_def s4_def s5_def s6_def s7_def s8_def
  have dec: "decrypt_block bf b = \<lparr>m_uil = snd s8 XOR m_auiP bf ! 0, m_uir = fst s8\<rparr>"
    by (simp only: decrypt_block_def Let_def inv s0_def)
  show ?thesis
    by (simp add: dec encrypt_block_def Let_def xor_undo inv [symmetric, THEN two_rounds_undo]
        s0_def del: One_nat_def)
qed

section \<open>Buffer modes over any block cipher\<close>

text \<open>The loops consume a buffer eight bytes at a time: one induction rule for all of them.\<close>

lemma buffer_induct [case_names short block]:
  assumes "\<And>buf :: bytes. length buf < 8 \<Longrightarrow> P buf"
    and "\<And>buf. 8 \<le> length buf \<Longrightarrow> P (drop 8 buf) \<Longrightarrow> P buf"
  shows "P buf"
proof (induction "length buf" arbitrary: buf rule: less_induct)
  case less
  show ?case
  proof (cases "length buf < 8")
    case False
    then have "P (drop 8 buf)" by (intro less) auto
    with False show ?thesis by (metis assms(2) not_less)
  qed (rule assms(1))
qed

text \<open>The loops on a short buffer and on a first block, as conditional rewrite rules.\<close>

lemma loops_short:
  assumes "length buf < 8"
  shows "ecb_loop f buf = buf"
    and "cbc_encrypt_loop f chain buf = buf"
    and "cbc_decrypt_loop f chain buf = buf"
    and "cfb_encrypt_loop f chain buf = buf"
    and "cfb_decrypt_loop f chain buf = buf"
  using assms
  by (simp_all add: ecb_loop.simps [of f buf] cbc_encrypt_loop.simps [of f _ buf] cbc_decrypt_loop.simps [of f _ buf]
      cfb_encrypt_loop.simps [of f _ buf] cfb_decrypt_loop.simps [of f _ buf])

lemma loops_block:
  assumes "8 \<le> length buf"
  shows "ecb_loop f buf = BlockToBytes (f (BytesToBlock (take 8 buf))) @ ecb_loop f (drop 8 buf)"
    and "cbc_encrypt_loop f chain buf = BlockToBytes (f (sblock_xor (BytesToBlock (take 8 buf)) chain))
       @ cbc_encrypt_loop f (f (sblock_xor (BytesToBlock (take 8 buf)) chain)) (drop 8 buf)"
    and "cbc_decrypt_loop f chain buf = BlockToBytes (sblock_xor (f (BytesToBlock (take 8 buf))) chain)
       @ cbc_decrypt_loop f (BytesToBlock (take 8 buf)) (drop 8 buf)"
    and "cfb_encrypt_loop f chain buf = BlockToBytes (sblock_xor (BytesToBlock (take 8 buf)) (f chain))
       @ cfb_encrypt_loop f (sblock_xor (BytesToBlock (take 8 buf)) (f chain)) (drop 8 buf)"
    and "cfb_decrypt_loop f chain buf = BlockToBytes (sblock_xor (BytesToBlock (take 8 buf)) (f chain))
       @ cfb_decrypt_loop f (BytesToBlock (take 8 buf)) (drop 8 buf)"
  using assms
  by (simp_all add: Let_def ecb_loop.simps [of f buf] cbc_encrypt_loop.simps [of f _ buf] cbc_decrypt_loop.simps [of f _ buf]
      cfb_encrypt_loop.simps [of f _ buf] cfb_decrypt_loop.simps [of f _ buf])

lemma loops_to_short:
  assumes "n < 8"
  shows "ecb_loop_to f n inb out = out"
    and "cbc_encrypt_loop_to f chain n inb out = out"
    and "cbc_decrypt_loop_to f chain n inb out = out"
    and "cfb_encrypt_loop_to f chain n inb out = out"
    and "cfb_decrypt_loop_to f chain n inb out = out"
  using assms
  by (simp_all add: ecb_loop_to.simps [of f n] cbc_encrypt_loop_to.simps [of f _ n] cbc_decrypt_loop_to.simps [of f _ n]
      cfb_encrypt_loop_to.simps [of f _ n] cfb_decrypt_loop_to.simps [of f _ n])

lemma loops_to_block:
  assumes "8 \<le> n"
  shows "ecb_loop_to f n inb out = BlockToBytes (f (BytesToBlock (take 8 inb))) @ ecb_loop_to f (n - 8) (drop 8 inb) (drop 8 out)"
    and "cbc_encrypt_loop_to f chain n inb out = BlockToBytes (f (sblock_xor (BytesToBlock (take 8 inb)) chain))
       @ cbc_encrypt_loop_to f (f (sblock_xor (BytesToBlock (take 8 inb)) chain)) (n - 8) (drop 8 inb) (drop 8 out)"
    and "cbc_decrypt_loop_to f chain n inb out = BlockToBytes (sblock_xor (f (BytesToBlock (take 8 inb))) chain)
       @ cbc_decrypt_loop_to f (BytesToBlock (take 8 inb)) (n - 8) (drop 8 inb) (drop 8 out)"
    and "cfb_encrypt_loop_to f chain n inb out = BlockToBytes (sblock_xor (BytesToBlock (take 8 inb)) (f chain))
       @ cfb_encrypt_loop_to f (sblock_xor (BytesToBlock (take 8 inb)) (f chain)) (n - 8) (drop 8 inb) (drop 8 out)"
    and "cfb_decrypt_loop_to f chain n inb out = BlockToBytes (sblock_xor (BytesToBlock (take 8 inb)) (f chain))
       @ cfb_decrypt_loop_to f (BytesToBlock (take 8 inb)) (n - 8) (drop 8 inb) (drop 8 out)"
  using assms
  by (simp_all add: Let_def ecb_loop_to.simps [of f n] cbc_encrypt_loop_to.simps [of f _ n] cbc_decrypt_loop_to.simps [of f _ n]
      cfb_encrypt_loop_to.simps [of f _ n] cfb_decrypt_loop_to.simps [of f _ n])

lemmas block_bytes = BytesToBlock_BlockToBytes BlockToBytes_BytesToBlock sblock_xor_self

lemma length_loops [simp]:
  "length (ecb_loop f buf) = length buf"
  "length (cbc_encrypt_loop f chain buf) = length buf"
  "length (cbc_decrypt_loop f chain buf) = length buf"
  "length (cfb_encrypt_loop f chain buf) = length buf"
  "length (cfb_decrypt_loop f chain buf) = length buf"
  by (induction buf arbitrary: chain rule: buffer_induct) (auto simp: loops_short loops_block)

text \<open>
  What the mode loops rely on: a block function and its inverse. The lemmas hold for buffers
  of any length (a tail shorter than a block is left as it is).
\<close>

locale block_cipher =
  fixes enc :: "sblock \<Rightarrow> sblock" and dec :: "sblock \<Rightarrow> sblock"
  assumes dec_enc: "dec (enc b) = b" and enc_dec: "enc (dec b) = b"
begin

lemma ecb_roundtrip: "ecb_loop dec (ecb_loop enc buf) = buf"
  by (induction buf rule: buffer_induct) (simp_all add: loops_short loops_block block_bytes dec_enc)

lemma cbc_roundtrip: "cbc_decrypt_loop dec chain (cbc_encrypt_loop enc chain buf) = buf"
  by (induction buf arbitrary: chain rule: buffer_induct)
    (simp_all add: loops_short loops_block block_bytes dec_enc)

lemma cfb_roundtrip: "cfb_decrypt_loop enc chain (cfb_encrypt_loop enc chain buf) = buf"
  by (induction buf arbitrary: chain rule: buffer_induct)
    (simp_all add: loops_short loops_block block_bytes)

text \<open>Two buffers with one ciphertext are the same buffer, in every mode.\<close>

lemma modes_inj:
  "ecb_loop enc buf = ecb_loop enc buf' \<Longrightarrow> buf = buf'"
  "cbc_encrypt_loop enc chain buf = cbc_encrypt_loop enc chain buf' \<Longrightarrow> buf = buf'"
  "cfb_encrypt_loop enc chain buf = cfb_encrypt_loop enc chain buf' \<Longrightarrow> buf = buf'"
  by (metis ecb_roundtrip, metis cbc_roundtrip, metis cfb_roundtrip)

end

interpretation bf: block_cipher "encrypt_block B" "decrypt_block B" for B
  by unfold_locales (rule decrypt_encrypt_block, rule encrypt_decrypt_block)

text \<open>A count that is a multiple of eight, eight at a time.\<close>

lemma count_induct [consumes 1, case_names zero block]:
  assumes "n mod 8 = 0" and "P 0"
    and "\<And>n. 8 \<le> n \<Longrightarrow> P (n - 8) \<Longrightarrow> P n"
  shows "P (n :: nat)"
proof -
  have "P (8 * k)" for k
  proof (induction k)
    case (Suc k)
    then show ?case using assms(3) [of "8 * Suc k"] by simp
  qed (simp add: assms(2))
  then show ?thesis using assms(1) by (auto elim!: mod_eq_0_iff_dvd [THEN iffD1, THEN dvdE])
qed

lemma loop_to:
  assumes "n mod 8 = 0"
  shows "n \<le> length inb \<Longrightarrow> ecb_loop_to f n inb out = ecb_loop f (take n inb) @ drop n out"
    and "n \<le> length inb \<Longrightarrow> cbc_encrypt_loop_to f chain n inb out = cbc_encrypt_loop f chain (take n inb) @ drop n out"
    and "n \<le> length inb \<Longrightarrow> cbc_decrypt_loop_to f chain n inb out = cbc_decrypt_loop f chain (take n inb) @ drop n out"
    and "n \<le> length inb \<Longrightarrow> cfb_encrypt_loop_to f chain n inb out = cfb_encrypt_loop f chain (take n inb) @ drop n out"
    and "n \<le> length inb \<Longrightarrow> cfb_decrypt_loop_to f chain n inb out = cfb_decrypt_loop f chain (take n inb) @ drop n out"
  using assms
  by (induction n arbitrary: inb out chain rule: count_induct)
    (auto simp: loops_short loops_block loops_to_short loops_to_block min_def drop_take add.commute)


section \<open>Encrypting and decrypting whole buffers\<close>

lemma encrypt_buffer_length: "encrypt_buffer B buf m = Inr out \<Longrightarrow> length out = length buf"
  by (auto simp: encrypt_buffer_def split: if_splits)

lemma loops_Nil_iff [simp]:
  "ecb_loop f buf = [] \<longleftrightarrow> buf = []"
  "cbc_encrypt_loop f chain buf = [] \<longleftrightarrow> buf = []"
  "cfb_encrypt_loop f chain buf = [] \<longleftrightarrow> buf = []"
  by (simp_all only: length_0_conv [symmetric] length_loops)

lemma decrypt_encrypt_buffer:
  assumes "encrypt_buffer B buf m = Inr out"
  shows "decrypt_buffer B out m = Inr buf"
  using assms
  by (auto simp: encrypt_buffer_def decrypt_buffer_def bf.ecb_roundtrip bf.cbc_roundtrip bf.cfb_roundtrip
      split: if_splits)

lemma buffer_errors:
  "(\<exists>out. encrypt_buffer B buf m = Inr out) \<longleftrightarrow> length buf \<noteq> 0 \<and> 8 dvd length buf"
  "(\<exists>out. decrypt_buffer B buf m = Inr out) \<longleftrightarrow> length buf \<noteq> 0 \<and> 8 dvd length buf"
  by (auto simp: encrypt_buffer_def decrypt_buffer_def dvd_eq_mod_eq_0)

lemma encrypt_to_buffer:
  assumes "n \<le> length inb" and "n \<le> length out"
  shows "encrypt_to B inb out n m
    = (case encrypt_buffer B (take n inb) m of Inl e \<Rightarrow> Inl e | Inr c \<Rightarrow> Inr (overlay c out))"
  using assms by (simp add: encrypt_to_def encrypt_buffer_def loop_to overlay_def)

lemma decrypt_to_buffer:
  assumes "n \<le> length inb" and "n \<le> length out"
  shows "decrypt_to B inb out n m
    = (case decrypt_buffer B (take n inb) m of Inl e \<Rightarrow> Inl e | Inr c \<Rightarrow> Inr (overlay c out))"
  using assms by (simp add: decrypt_to_def decrypt_buffer_def loop_to overlay_def)

section \<open>The key schedule\<close>

definition wf_blowfish :: "blowfish \<Rightarrow> bool" where
  \<comment> \<open>the array sizes declared in blowfish.hpp: every index of the rounds is in range\<close>
  "wf_blowfish B \<longleftrightarrow> length (m_auiP B) = 18 \<and> length (m_auiS B) = 4 \<and> (\<forall>b \<in> set (m_auiS B). length b = 256)"

lemma length_load_P [simp]: "length (load_P key k ws) = length ws"
  by (induction ws arbitrary: k) (auto simp: Let_def split: prod.split)

lemma fill_P_wf: "wf_blowfish (fst s) \<Longrightarrow> wf_blowfish (fst (fill_P i s))"
  by (simp add: fill_P_def wf_blowfish_def Let_def)

lemma fill_S_wf: "wf_blowfish (fst s) \<Longrightarrow> j < 4 \<Longrightarrow> wf_blowfish (fst (fill_S j k s))"
  by (auto simp: fill_S_def wf_blowfish_def Let_def dest!: set_update_subset_insert [THEN subsetD])

lemma fold_inv:
  assumes "\<And>x s. x \<in> set xs \<Longrightarrow> P s \<Longrightarrow> P (f x s)" and "P s"
  shows "P (fold f xs s)"
  using assms by (induction xs arbitrary: s) auto

lemma evolve_wf:
  assumes "wf_blowfish B"
  shows "wf_blowfish (evolve B)"
proof -
  have "wf_blowfish (fst (fold fill_P xs (B, b)))" for xs b
    by (rule fold_inv [where P = "\<lambda>s. wf_blowfish (fst s)"]) (simp_all add: fill_P_wf assms)
  moreover have "wf_blowfish (fst (fold (\<lambda>j. fold (fill_S j) ks) [0..<4] s))" if "wf_blowfish (fst s)" for ks s
    using that
    by (intro fold_inv [where P = "\<lambda>s. wf_blowfish (fst s)"]) (simp_all add: fill_S_wf)
  ultimately show ?thesis by (simp only: evolve_def Let_def)
qed

lemma chain_fill:
  "m_oChain (fst (fill_P i s)) = m_oChain (fst s)" "m_oChain0 (fst (fill_P i s)) = m_oChain0 (fst s)"
  "m_oChain (fst (fill_S j k s)) = m_oChain (fst s)" "m_oChain0 (fst (fill_S j k s)) = m_oChain0 (fst s)"
  by (simp_all add: fill_P_def fill_S_def Let_def)

lemma evolve_chain: "m_oChain (evolve B) = m_oChain B" "m_oChain0 (evolve B) = m_oChain0 B"
proof -
  let ?Q = "\<lambda>s. m_oChain (fst s) = m_oChain B \<and> m_oChain0 (fst s) = m_oChain0 B"
  have "?Q (fold fill_P xs (B, b))" for xs b
    by (rule fold_inv [where P = ?Q]) (simp_all add: chain_fill)
  moreover have "?Q (fold (\<lambda>j. fold (fill_S j) ks) js s)" if "?Q s" for ks js s
    using that by (intro fold_inv [where P = ?Q]) (simp_all add: chain_fill)
  ultimately show "m_oChain (evolve B) = m_oChain B" "m_oChain0 (evolve B) = m_oChain0 B"
    by (simp_all only: evolve_def Let_def)
qed

text \<open>
  The cyclic key: the four bytes of a subkey are the bytes at the next four positions of the
  infinite repetition of the key.
\<close>

definition cyc :: "bytes \<Rightarrow> nat \<Rightarrow> u8" where
  "cyc key i = key ! (i mod length key)"

primrec cyc_word :: "bytes \<Rightarrow> nat \<Rightarrow> nat \<Rightarrow> u32 \<Rightarrow> u32" where
  "cyc_word key 0 i x = x"
| "cyc_word key (Suc n) i x = cyc_word key n (Suc i) (push_bit 8 x OR ucast (cyc key i))"

lemma key_word_cyc:
  assumes "key \<noteq> []"
  shows "key_word key n (i mod length key) x = (cyc_word key n i x, (i + n) mod length key)"
proof (induction n arbitrary: i x)
  case (Suc n)
  have "(if Suc (i mod length key) = length key then 0 else Suc (i mod length key)) = Suc i mod length key"
    by (simp add: mod_Suc)
  then show ?case using Suc [of "Suc i"] by (simp add: Let_def cyc_def)
qed simp

lemma load_P_cyc:
  assumes "key \<noteq> []"
  shows "load_P key (i mod length key) ws = map (\<lambda>(j, w). w XOR cyc_word key 4 (i + 4 * j) 0) (enumerate 0 ws)"
proof (induction ws arbitrary: i)
  case (Cons w ws)
  have "enumerate (Suc 0) ws = map (\<lambda>(j, w). (Suc j, w)) (enumerate 0 ws)"
    by (auto simp: enumerate_Suc_eq)
  then show ?case
    using Cons [of "i + 4"]
    by (simp add: key_word_cyc [OF assms] case_prod_unfold algebra_simps del: enumerate_Suc_eq)
qed simp

lemma cyc_word_cong: "(\<And>i. cyc key i = cyc key' i) \<Longrightarrow> cyc_word key n i x = cyc_word key' n i x"
  by (induction n arbitrary: i x) auto

lemma load_P_cong:
  assumes "key \<noteq> []" and "key' \<noteq> []" and "\<And>i. cyc key i = cyc key' i"
  shows "load_P key 0 ws = load_P key' 0 ws"
proof -
  have "cyc_word key 4 i 0 = cyc_word key' 4 i 0" for i
    using assms(3) by (rule cyc_word_cong)
  then show ?thesis
    using load_P_cyc [OF assms(1), of 0 ws] load_P_cyc [OF assms(2), of 0 ws] by simp
qed

lemma cyc_double:
  assumes "key \<noteq> []"
  shows "cyc (key @ key) i = cyc key i"
proof -
  let ?n = "length key"
  have n: "i mod ?n < ?n" using assms by simp
  have m: "i mod (?n + ?n) = ?n * (i div ?n mod 2) + i mod ?n"
    using mod_mult2_eq [of i ?n 2] by (simp add: mult_2_right)
  have "i div ?n mod 2 = 0 \<or> i div ?n mod 2 = 1" by linarith
  then show ?thesis
    using n by (auto simp: cyc_def nth_append m)
qed

text \<open>\<open>start\<close> with the cipher it computes named, and what that cipher looks like.\<close>

definition keyed :: "sblock \<Rightarrow> bytes \<Rightarrow> blowfish" where
  "keyed chain key = evolve \<lparr>m_oChain0 = chain, m_oChain = chain, m_auiP = load_P key 0 scm_auiInitP, m_auiS = scm_auiInitS\<rparr>"

lemma init_blowfish:
  "B\<lparr>m_oChain0 := c0, m_oChain := c, m_auiP := p, m_auiS := s\<rparr> = \<lparr>m_oChain0 = c0, m_oChain = c, m_auiP = p, m_auiS = s\<rparr>"
  by (cases B) simp

lemma blowfish_start_eq:
  assumes "n \<le> length key"
  shows "blowfish_start key n chain B =
    (if n = 0 then (Inl (Gpm_Exception ''Incorrect key length''), B\<lparr>m_oChain0 := chain, m_oChain := chain\<rparr>)
     else (Inr (), keyed chain (take (min n 56) key)))"
  using assms by (auto simp: blowfish_start_def Let_def keyed_def init_blowfish min_def)

lemma keyed_wf: "wf_blowfish (keyed chain key)"
  unfolding keyed_def
  by (rule evolve_wf) (simp add: wf_blowfish_def length_scm_auiInitP length_scm_auiInitS scm_auiInitS_boxes)

lemma keyed_chain: "m_oChain (keyed chain key) = chain" "m_oChain0 (keyed chain key) = chain"
  by (simp_all add: keyed_def evolve_chain)

text \<open>A cipher object before \<open>start\<close>, for the witnesses below.\<close>

definition blank_block :: sblock where
  "blank_block = \<lparr>m_uil = 0, m_uir = 0\<rparr>"

definition blank_cipher :: blowfish where
  "blank_cipher = \<lparr>m_oChain0 = blank_block, m_oChain = blank_block, m_auiP = [], m_auiS = []\<rparr>"

section \<open>Properties\<close>

text \<open>C30: \<open>decrypt\<close> and \<open>encrypt\<close> on one block are inverse to each other, for every state of
  the subkeys and substitution boxes (sixteen Feistel rounds run backwards undo themselves).\<close>

theorem block_permutation:
  "decrypt_block B (encrypt_block B b) = b \<and> encrypt_block B (decrypt_block B b) = b"
  by (simp add: decrypt_encrypt_block encrypt_decrypt_block)

text \<open>C31: encrypting a buffer throws exactly when its length is zero or not a multiple of eight;
  otherwise the result has the same length and decrypting it in the same mode (ECB, CBC or
  CFB, from the same chain block) gives the buffer back.\<close>

theorem buffer_roundtrip:
  "case encrypt_buffer B buf m of
     Inl e \<Rightarrow> e = Gpm_Exception ''Incorrect buffer length'' \<and> \<not> (buf \<noteq> [] \<and> 8 dvd length buf)
   | Inr out \<Rightarrow> buf \<noteq> [] \<and> 8 dvd length buf \<and> length out = length buf \<and> decrypt_buffer B out m = Inr buf"
proof (cases "encrypt_buffer B buf m")
  case (Inl e)
  then show ?thesis by (auto simp: encrypt_buffer_def dvd_eq_mod_eq_0 split: if_splits)
next
  case (Inr out)
  then show ?thesis
    using decrypt_encrypt_buffer [OF Inr] encrypt_buffer_length [OF Inr] buffer_errors(1) [of B buf m]
    by auto
qed

text \<open>The overloads that read one buffer and write another compute what the in-place
  overloads compute on the first \<open>n\<close> bytes, and leave the output buffer unchanged past \<open>n\<close>.\<close>

theorem to_buffer_equiv:
  assumes "n \<le> length inb" and "n \<le> length out"
  shows "encrypt_to B inb out n m
      = (case encrypt_buffer B (take n inb) m of Inl e \<Rightarrow> Inl e | Inr c \<Rightarrow> Inr (c @ drop n out))
    \<and> decrypt_to B inb out n m
      = (case decrypt_buffer B (take n inb) m of Inl e \<Rightarrow> Inl e | Inr c \<Rightarrow> Inr (c @ drop n out))"
  using assms by (simp_all add: encrypt_to_def decrypt_to_def encrypt_buffer_def decrypt_buffer_def loop_to)

lemma to_buffer_equiv_witness:
  "decrypt_to blank_cipher (replicate 16 3) (replicate 17 1) 8 CBC
     = Inr (cbc_decrypt_loop (decrypt_block blank_cipher) (m_oChain blank_cipher) (replicate 8 3) @ replicate 9 1)"
  using to_buffer_equiv [of 8 "replicate 16 3" "replicate 17 1" blank_cipher CBC]
  by (simp add: decrypt_buffer_def)

text \<open>The key schedule. \<open>start\<close> throws exactly for an empty key and then leaves the boxes
  alone; otherwise the cipher it leaves has boxes of the declared sizes, both chain blocks are
  the given one, and nothing of the previous cipher and no key byte past the 56th matters.\<close>

theorem start_spec:
  assumes "n \<le> length key"
  shows "case blowfish_start key n chain B of
     (Inl e, B') \<Rightarrow> e = Gpm_Exception ''Incorrect key length'' \<and> n = 0
        \<and> m_auiP B' = m_auiP B \<and> m_auiS B' = m_auiS B
   | (Inr u, B') \<Rightarrow> n \<noteq> 0 \<and> wf_blowfish B' \<and> m_oChain B' = chain \<and> m_oChain0 B' = chain
        \<and> (Inr (), B') = blowfish_start (take 56 (take n key)) (min n 56) chain B2"
  using assms by (auto simp: blowfish_start_eq keyed_wf keyed_chain)

lemma start_spec_witness:
  "case blowfish_start [1, 2, 3] 3 blank_block blank_cipher of
     (Inl e, B') \<Rightarrow> False
   | (Inr u, B') \<Rightarrow> wf_blowfish B' \<and> m_oChain B' = blank_block"
  using start_spec [where n = 3 and key = "[1, 2, 3]" and chain = blank_block and B = blank_cipher
      and ?B2.0 = blank_cipher]
  by (simp split: prod.splits sum.splits)

text \<open>A key and its repetition give the same cipher (the schedule cycles through the key),
  as long as the repetition still fits into the 56 bytes that are used.\<close>

theorem start_cyclic_key:
  assumes "key \<noteq> []" and "length key \<le> 28"
  shows "blowfish_start (key @ key) (2 * length key) chain B = blowfish_start key (length key) chain B2"
  using assms load_P_cong [of "key @ key" key scm_auiInitP, OF _ _ cyc_double]
  by (simp add: blowfish_start_eq keyed_def min_def)

lemma start_cyclic_key_witness:
  "blowfish_start [1, 2, 3, 1, 2, 3] 6 blank_block blank_cipher = blowfish_start [1, 2, 3] 3 blank_block blank_cipher"
  using start_cyclic_key [of "[1, 2, 3]" blank_block blank_cipher blank_cipher] by (simp add: eval_nat_numeral)

end
