(* ===== verification/OrderedMap.thy ===== *)
theory OrderedMap
  imports Prelude
begin

text \<open>
  The parts of \<open>std::map\<close> the program uses. A map is the list of its entries in key order; an
  iterator is the rest of that list from the entry it points at, so \<open>end()\<close> is the empty
  list and \<open>++itr\<close> is the tail.
\<close>

type_synonym ('k, 'v) omap = "('k \<times> 'v) list"

definition om_empty :: "('k, 'v) omap" where
  "om_empty = []"

primrec om_find :: "'k \<Rightarrow> ('k :: linorder, 'v) omap \<Rightarrow> 'v option" where
  "om_find k [] = None"
| "om_find k (e # m) = (if fst e = k then Some (snd e) else om_find k m)"

primrec om_set :: "'k \<Rightarrow> 'v \<Rightarrow> ('k :: linorder, 'v) omap \<Rightarrow> ('k, 'v) omap" where
  \<comment> \<open>\<open>m[k] = v\<close>\<close>
  "om_set k v [] = [(k, v)]"
| "om_set k v (e # m) =
     (if k < fst e then (k, v) # e # m
      else if k = fst e then (k, v) # m
      else e # om_set k v m)"

definition om_erase :: "'k \<Rightarrow> ('k :: linorder, 'v) omap \<Rightarrow> ('k, 'v) omap" where
  "om_erase k m = filter (\<lambda>e. fst e \<noteq> k) m"

definition om_lower_bound :: "'k \<Rightarrow> ('k :: linorder, 'v) omap \<Rightarrow> ('k, 'v) omap" where
  "om_lower_bound k m = dropWhile (\<lambda>e. fst e < k) m"

definition om_upper_bound :: "'k \<Rightarrow> ('k :: linorder, 'v) omap \<Rightarrow> ('k, 'v) omap" where
  "om_upper_bound k m = dropWhile (\<lambda>e. fst e \<le> k) m"

definition om_wf :: "('k :: linorder, 'v) omap \<Rightarrow> bool" where
  "om_wf m \<longleftrightarrow> sorted_wrt (<) (map fst m)"

lemma om_wf_empty [simp]: "om_wf om_empty" "om_wf []"
  by (simp_all add: om_wf_def om_empty_def)

lemma om_find_empty [simp]: "om_find k om_empty = None"
  by (simp add: om_empty_def)

lemma om_find_set: "om_find k (om_set k' v m) = (if k = k' then Some v else om_find k m)"
  by (induction m) auto

lemma fst_set_om_set: "fst ` set (om_set k v m) = insert k (fst ` set m)"
  by (induction m) auto

lemma om_wf_Cons: "om_wf (e # m) \<longleftrightarrow> (\<forall>x \<in> set m. fst e < fst x) \<and> om_wf m"
  by (simp add: om_wf_def)

lemma set_om_set: "x \<in> set (om_set k v m) \<Longrightarrow> x = (k, v) \<or> x \<in> set m"
  by (induction m) (auto split: if_splits)

lemma om_set_wf: "om_wf m \<Longrightarrow> om_wf (om_set k v m)"
proof (induction m)
  case (Cons e m)
  consider "k < fst e" | "k = fst e" | "fst e < k" by (rule linorder_cases)
  then show ?case
  proof cases
    case 1
    then show ?thesis using Cons.prems by (auto simp: om_wf_Cons intro: order.strict_trans)
  next
    case 2
    then show ?thesis using Cons.prems by (simp add: om_wf_Cons)
  next
    case 3
    then have "\<forall>x \<in> set (om_set k v m). fst e < fst x"
      using Cons.prems by (auto simp: om_wf_Cons dest: set_om_set)
    with 3 Cons show ?thesis by (auto simp: om_wf_Cons)
  qed
qed (simp add: om_wf_Cons)

lemma om_find_map_of: "om_find k m = map_of m k"
  by (induction m) auto

lemma om_erase_find: "om_find k (om_erase k' m) = (if k = k' then None else om_find k m)"
  by (induction m) (auto simp: om_erase_def)

lemma om_erase_wf: "om_wf m \<Longrightarrow> om_wf (om_erase k m)"
  by (induction m) (auto simp: om_erase_def om_wf_Cons)

lemma om_find_None_iff: "om_find k m = None \<longleftrightarrow> k \<notin> fst ` set m"
  by (induction m) auto

lemma om_find_in:
  assumes "om_wf m"
  shows "om_find k m = Some v \<longleftrightarrow> (k, v) \<in> set m"
proof -
  have "distinct (map fst m)"
    using assms by (simp add: om_wf_def strict_sorted_iff)
  then show ?thesis by (simp add: om_find_map_of)
qed

lemma om_find_empty_iff: "(\<forall>k. om_find k m = None) \<longleftrightarrow> m = []"
  by (cases m) auto

lemma om_dropWhile_set:
  assumes "om_wf m" and "\<And>a b. a \<le> b \<Longrightarrow> P b \<Longrightarrow> P a"
  shows "set (dropWhile (\<lambda>e. P (fst e)) m) = {e \<in> set m. \<not> P (fst e)}"
  using assms(1)
proof (induction m)
  case (Cons e m)
  show ?case
  proof (cases "P (fst e)")
    case False
    then have "\<forall>x \<in> set m. \<not> P (fst x)"
      using Cons.prems assms(2) by (auto simp: om_wf_Cons dest: order.strict_implies_order)
    with False show ?thesis by auto
  qed (use Cons in \<open>auto simp: om_wf_Cons\<close>)
qed simp

lemma om_lower_bound_set: "om_wf m \<Longrightarrow> set (om_lower_bound k m) = {e \<in> set m. k \<le> fst e}"
  unfolding om_lower_bound_def by (subst om_dropWhile_set) auto

lemma om_upper_bound_set: "om_wf m \<Longrightarrow> set (om_upper_bound k m) = {e \<in> set m. k < fst e}"
  unfolding om_upper_bound_def by (subst om_dropWhile_set) auto

section \<open>The interface\<close>

text \<open>
  What the clients rely on: finding a key after it was set, and that the operations keep the
  order of the entries.
\<close>

locale finite_map =
  fixes find :: "'k \<Rightarrow> 'm \<Rightarrow> 'v option" and set_at :: "'k \<Rightarrow> 'v \<Rightarrow> 'm \<Rightarrow> 'm" and empty :: 'm
    and wf :: "'m \<Rightarrow> bool"
  assumes find_set: "find k (set_at k' v m) = (if k = k' then Some v else find k m)"
    and find_empty: "find k empty = None"
    and wf_empty: "wf empty"
    and wf_set: "wf m \<Longrightarrow> wf (set_at k v m)"
begin

definition put_all :: "('k \<times> 'v) list \<Rightarrow> 'm \<Rightarrow> 'm" where
  "put_all kvs m = fold (\<lambda>(k, v). set_at k v) kvs m"

lemma put_all_wf: "wf m \<Longrightarrow> wf (put_all kvs m)"
  by (induction kvs arbitrary: m) (auto simp: put_all_def wf_set)

lemma find_put_all: "find k (put_all kvs m) = (case map_of (rev kvs) k of Some v \<Rightarrow> Some v | None \<Rightarrow> find k m)"
proof (induction kvs arbitrary: m)
  case (Cons e kvs)
  then show ?case
    by (cases e) (auto simp: put_all_def find_set map_add_def split: option.split)
qed (simp add: put_all_def)

lemma find_put_all_empty: "find k (put_all kvs empty) = map_of (rev kvs) k"
  by (simp add: find_put_all find_empty split: option.split)

end

interpretation om: finite_map om_find om_set om_empty om_wf
  by unfold_locales (simp_all add: om_find_set om_set_wf)

end
