(* ===== verification/TrxFile.thy ===== *)
theory TrxFile
  imports OrderedMap
begin

text \<open>
  libs/gpm/statedb/trx_file.hpp and trx_file.cpp: the interface \<open>abstract_file\<close>, the class
  \<open>file\<close> over a C stream, and \<open>file_transaction\<close>, which keeps writes to another
  \<open>abstract_file\<close> in dirty pages of 1024 bytes until it is committed. Positions and sizes are
  natural numbers; the sums that can leave 64 bits are written with \<open>wrap64\<close>. Devices do not fail,
  so that \<open>ferror\<close> is only set by a write to a stream opened for reading; a write right after a
  read, which ISO C leaves undefined, has the effect it has in the C library of Linux.
\<close>

definition wrap64 :: "nat \<Rightarrow> nat" where
  "wrap64 n = n mod 2 ^ 64"

definition wrap32 :: "nat \<Rightarrow> nat" where
  "wrap32 n = n mod 2 ^ 32"

section \<open>The interface\<close>

text \<open>
  The virtual functions of \<open>abstract_file\<close>, as a table of functions on the object's state.
  A read returns the bytes it put at the start of the caller's buffer.
\<close>

record 'f abstract_file =
  af_read :: "nat \<Rightarrow> ('f, bytes) prog"
  af_write :: "bytes \<Rightarrow> ('f, nat) prog"
  af_seek :: "nat \<Rightarrow> ('f, unit) prog"
  af_size :: "('f, nat) prog"
  af_pos :: "('f, nat) prog"
  af_eof :: "('f, bool) prog"

section \<open>A file over a C stream\<close>

text \<open>
  An open stream of the C library: the bytes of the file, the position, the end-of-file flag
  and whether the mode allows writing. The library calls on it behave as documented: a read
  stops at the end of the file and sets the flag, a write past the end fills the gap with
  zeros, \<open>fseeko\<close> clears the flag and refuses an offset that is negative as a signed 64-bit
  number. Reads and writes the mode allows do not fail (no device errors).
\<close>

record FILE =
  f_data :: bytes
  f_pos :: nat
  f_eof :: bool
  f_writable :: bool

datatype stream =
    Null
  | Closed \<comment> \<open>a pointer that was closed and not reset\<close>
  | Open FILE

record cfile =
  m_file :: stream
  m_path :: string

definition cfile_new :: cfile where
  "cfile_new = \<lparr>m_file = Null, m_path = []\<rparr>"

definition fopen :: "bytes option \<Rightarrow> string \<Rightarrow> FILE option" where
  \<comment> \<open>the modes the program passes; the first argument is the file on disk, if there is one\<close>
  "fopen disk mode =
     (if mode = ''wb+'' then Some \<lparr>f_data = [], f_pos = 0, f_eof = False, f_writable = True\<rparr>
      else case disk of
        None \<Rightarrow> None
      | Some d \<Rightarrow> Some \<lparr>f_data = d, f_pos = 0, f_eof = False, f_writable = (mode = ''rb+'')\<rparr>)"

definition cfile_close :: "(cfile, unit) prog" where
  \<comment> \<open>the code does not reset \<open>m_file\<close>\<close>
  "cfile_close f =
     (case m_file f of
        Null \<Rightarrow> (Inr (), f)
      | Closed \<Rightarrow> (Inl (Undefined_Behaviour ''stream closed twice''), f)
      | Open s \<Rightarrow> (Inr (), f\<lparr>m_file := Closed\<rparr>))"

definition cfile_destroy :: "(cfile, unit) prog" where
  "cfile_destroy f = (if m_file f = Null then (Inr (), f) else cfile_close f)"

definition cfile_open :: "bytes option \<Rightarrow> string \<Rightarrow> string \<Rightarrow> (cfile, unit) prog" where
  "cfile_open disk p mode =
     bindP cfile_close (\<lambda>_ f.
     let f = f\<lparr>m_path := p, m_file := (case fopen disk mode of None \<Rightarrow> Null | Some s \<Rightarrow> Open s)\<rparr>
     in if m_file f = Null then (Inl (Gpm_Exception ''Error opening file''), f) else (Inr (), f))"

definition on_stream :: "(FILE \<Rightarrow> (exn + 'a) \<times> FILE) \<Rightarrow> (cfile, 'a) prog" where
  \<comment> \<open>a C library call on the stream, which must be open\<close>
  "on_stream g f =
     (case m_file f of
        Open s \<Rightarrow> (case g s of (r, s') \<Rightarrow> (r, f\<lparr>m_file := Open s'\<rparr>))
      | _ \<Rightarrow> (Inl (Undefined_Behaviour ''stream not open''), f))"

definition cfile_flush :: "(cfile, unit) prog" where
  "cfile_flush f = (if m_file f = Null then (Inr (), f) else on_stream (\<lambda>s. (Inr (), s)) f)"

definition fread :: "nat \<Rightarrow> FILE \<Rightarrow> (exn + bytes) \<times> FILE" where
  "fread len s =
     (let bs = take len (drop (f_pos s) (f_data s))
      in (Inr bs, s\<lparr>f_pos := f_pos s + length bs, f_eof := (f_eof s \<or> length bs < len)\<rparr>))"

definition cfile_read :: "nat \<Rightarrow> (cfile, bytes) prog" where
  "cfile_read len = on_stream (fread len)"

definition fwrite :: "bytes \<Rightarrow> FILE \<Rightarrow> nat \<times> FILE" where
  "fwrite bs s =
     (if \<not> f_writable s \<or> bs = [] then (0, s)
      else let old = f_data s @ replicate (f_pos s - length (f_data s)) 0
           in (length bs, s\<lparr>f_data := patch (f_pos s) bs old, f_pos := f_pos s + length bs\<rparr>))"

definition cfile_write :: "bytes \<Rightarrow> (cfile, nat) prog" where
  "cfile_write bs = on_stream (\<lambda>s. case fwrite bs s of (r, s') \<Rightarrow>
     if r \<noteq> length bs then (Inl (Gpm_Exception ''Error writing file''), s') else (Inr r, s'))"

definition fseeko_set :: "nat \<Rightarrow> FILE \<Rightarrow> FILE" where
  "fseeko_set p s = (if p < 2 ^ 63 then s\<lparr>f_pos := p, f_eof := False\<rparr> else s)"

definition cfile_seek :: "nat \<Rightarrow> (cfile, unit) prog" where
  "cfile_seek p = on_stream (\<lambda>s. (Inr (), fseeko_set p s))"

definition cfile_pos :: "(cfile, nat) prog" where
  "cfile_pos = on_stream (\<lambda>s. (Inr (f_pos s), s))"

definition cfile_size :: "(cfile, nat) prog" where
  "cfile_size =
     bindP cfile_pos (\<lambda>cp.
     bindP (on_stream (\<lambda>s. (Inr (), s\<lparr>f_pos := length (f_data s), f_eof := False\<rparr>))) (\<lambda>_.
     bindP cfile_pos (\<lambda>n.
     bindP (cfile_seek cp) (\<lambda>_.
     ret n))))"

definition cfile_eof :: "(cfile, bool) prog" where
  "cfile_eof = on_stream (\<lambda>s. (Inr (f_eof s), s))"

definition cfile_ops :: "cfile abstract_file" where
  "cfile_ops = \<lparr>af_read = cfile_read, af_write = cfile_write, af_seek = cfile_seek,
     af_size = cfile_size, af_pos = cfile_pos, af_eof = cfile_eof\<rparr>"

section \<open>A transaction over an abstract file\<close>

definition page_size :: nat where
  "page_size = 1024"

record 'f file_transaction =
  t_pos :: nat
  t_size :: nat
  t_dirty :: "(nat, bytes) omap"
  t_file :: 'f

definition on_base :: "('f, 'a) prog \<Rightarrow> ('f file_transaction, 'a) prog" where
  "on_base g t = (case g (t_file t) of (r, f') \<Rightarrow> (r, t\<lparr>t_file := f'\<rparr>))"

definition file_transaction_new :: "'f abstract_file \<Rightarrow> 'f \<Rightarrow> (exn + 'f file_transaction) \<times> 'f" where
  \<comment> \<open>the constructor, for a base that is not null\<close>
  "file_transaction_new A =
     bindP (af_pos A) (\<lambda>p.
     bindP (af_size A) (\<lambda>n f.
     (Inr \<lparr>t_pos = p, t_size = n, t_dirty = om_empty, t_file = f\<rparr>, f)))"

definition find_page :: "nat \<Rightarrow> 'f file_transaction \<Rightarrow> bytes option" where
  "find_page p t = om_find p (t_dirty t)"

definition set_page :: "nat \<Rightarrow> bytes \<Rightarrow> ('f file_transaction, unit) prog" where
  "set_page p np = modify (\<lambda>t. t\<lparr>t_dirty := om_set p np (t_dirty t)\<rparr>)"

definition dirty_page :: "'f abstract_file \<Rightarrow> nat \<Rightarrow> ('f file_transaction, bytes) prog" where
  "dirty_page A p t =
     (case find_page p t of
        Some pg \<Rightarrow> (Inr pg, t)
      | None \<Rightarrow>
          (let zero = replicate page_size 0 in
           bindP (set_page p zero) (\<lambda>_.
           bindP (on_base (af_pos A)) (\<lambda>old_pos.
           bindP (on_base (af_seek A (wrap64 (p * page_size)))) (\<lambda>_.
           bindP (on_base (af_read A page_size)) (\<lambda>bs.
           bindP (set_page p (overlay bs zero)) (\<lambda>_.
           bindP (on_base (af_seek A old_pos)) (\<lambda>_.
           ret (overlay bs zero))))))) t))"

text \<open>
  The loop of \<open>read\<close>: \<open>done\<close> is \<open>pos - data\<close> and \<open>out\<close> the bytes written to the caller's
  buffer so far.
\<close>

definition read_step_size :: "nat \<Rightarrow> nat \<Rightarrow> 'f file_transaction \<Rightarrow> nat" where
  \<comment> \<open>\<open>read_size\<close> before the end of the file is looked at\<close>
  "read_step_size len done t = wrap32 (min (page_size - t_pos t mod page_size) (len - done))"

definition read_step_clip :: "nat \<Rightarrow> nat \<Rightarrow> 'f file_transaction \<Rightarrow> nat" where
  "read_step_clip len done t =
     (if t_size t \<le> wrap64 (t_pos t + read_step_size len done t)
      then wrap32 (t_size t - t_pos t) else read_step_size len done t)"

definition base_read_at :: "'f abstract_file \<Rightarrow> nat \<Rightarrow> nat \<Rightarrow> ('f file_transaction, bytes) prog" where
  \<comment> \<open>the branch of \<open>read\<close> without a dirty page\<close>
  "base_read_at A p n =
     bindP (on_base (af_pos A)) (\<lambda>fp.
     bindP (on_base (af_seek A p)) (\<lambda>_.
     bindP (on_base (af_read A n)) (\<lambda>bs.
     bindP (on_base (af_seek A fp)) (\<lambda>_.
     ret bs))))"

lemma read_step_size_pos: "done < len \<Longrightarrow> 0 < read_step_size len done t"
  by (simp add: read_step_size_def wrap32_def page_size_def)

lemma read_step_size_le: "read_step_size len done t \<le> len - done"
  by (simp add: read_step_size_def wrap32_def page_size_def min_def)

lemma read_step_size_page: "read_step_size len done t \<le> page_size - t_pos t mod page_size"
  by (simp add: read_step_size_def wrap32_def page_size_def min_def)

function trx_read_loop ::
  "'f abstract_file \<Rightarrow> nat \<Rightarrow> nat \<Rightarrow> bytes \<Rightarrow> ('f file_transaction, bytes) prog" where
  "trx_read_loop A len done out t =
     (if \<not> done < len \<or> t_pos t = t_size t then (Inr out, t)
      else if t_size t \<le> wrap64 (t_pos t + read_step_size len done t) \<and> t_size t \<le> t_pos t then (Inr out, t)
      else
        let n = read_step_clip len done t in
        case find_page (t_pos t div page_size) t of
          Some p \<Rightarrow>
            trx_read_loop A len (done + n) (out @ take n (drop (t_pos t mod page_size) p))
              (t\<lparr>t_pos := wrap64 (t_pos t + n)\<rparr>)
        | None \<Rightarrow>
            (case base_read_at A (t_pos t) n t of
               (Inl e, t) \<Rightarrow> (Inl e, t)
             | (Inr bs, t) \<Rightarrow>
                 if length bs \<noteq> n then (Inr (out @ bs), t\<lparr>t_pos := wrap64 (t_pos t + length bs)\<rparr>)
                 else trx_read_loop A len (done + n) (out @ bs) (t\<lparr>t_pos := wrap64 (t_pos t + n)\<rparr>)))"
  by pat_completeness auto
termination
proof (relation "measure (\<lambda>(A, len, done, out, t). len - done)")
  have clip: "0 < read_step_clip len done t"
    if "done < len" "\<not> (t_size t \<le> wrap64 (t_pos t + read_step_size len done t) \<and> t_size t \<le> t_pos t)"
    for len "done" and t :: "'f file_transaction"
  proof (cases "t_size t \<le> wrap64 (t_pos t + read_step_size len done t)")
    case True
    have "wrap64 m \<le> m" for m by (simp add: wrap64_def)
    with True have "t_size t - t_pos t \<le> read_step_size len done t"
      by (metis add.commute le_diff_conv order_trans)
    also have "\<dots> \<le> page_size" using read_step_size_page [of len "done" t] by simp
    finally show ?thesis
      using True that by (simp add: read_step_clip_def wrap32_def page_size_def)
  next
    case False
    then show ?thesis using that by (simp add: read_step_clip_def read_step_size_pos)
  qed
  show "((A, len, done + n, out @ take n (drop (t_pos t mod page_size) p), t\<lparr>t_pos := wrap64 (t_pos t + n)\<rparr>), A, len, done, out, t)
     \<in> measure (\<lambda>(A, len, done, out, t). len - done)"
    if "\<not> (\<not> done < len \<or> t_pos t = t_size t)"
      "\<not> (t_size t \<le> wrap64 (t_pos t + read_step_size len done t) \<and> t_size t \<le> t_pos t)"
      "n = read_step_clip len done t"
    for A :: "'f abstract_file" and len "done" out t n p
    using that clip [of "done" len t] by (auto intro!: diff_less_mono2)
  show "((A, len, done + n, out @ bs, s\<lparr>t_pos := wrap64 (t_pos s + n)\<rparr>), A, len, done, out, t)
     \<in> measure (\<lambda>(A, len, done, out, t). len - done)"
    if "\<not> (\<not> done < len \<or> t_pos t = t_size t)"
      "\<not> (t_size t \<le> wrap64 (t_pos t + read_step_size len done t) \<and> t_size t \<le> t_pos t)"
      "n = read_step_clip len done t"
    for A :: "'f abstract_file" and len "done" out t n bs and s :: "'f file_transaction"
    using that clip [of "done" len t] by (auto intro!: diff_less_mono2)
qed simp

declare trx_read_loop.simps [simp del]

definition trx_read :: "'f abstract_file \<Rightarrow> nat \<Rightarrow> ('f file_transaction, bytes) prog" where
  "trx_read A len = trx_read_loop A len 0 []"

function trx_write_loop :: "'f abstract_file \<Rightarrow> bytes \<Rightarrow> ('f file_transaction, unit) prog" where
  "trx_write_loop A data t =
     (if data = [] then (Inr (), t)
      else
        let page_pos = t_pos t mod page_size;
            n = min (page_size - page_pos) (length data) in
        case dirty_page A (t_pos t div page_size) t of
          (Inl e, t) \<Rightarrow> (Inl e, t)
        | (Inr pg, t) \<Rightarrow>
            let t = t\<lparr>t_dirty := om_set (t_pos t div page_size) (patch page_pos (take n data) pg) (t_dirty t)\<rparr>;
                t = t\<lparr>t_pos := wrap64 (t_pos t + n)\<rparr>;
                t = (if t_pos t > t_size t then t\<lparr>t_size := t_pos t\<rparr> else t)
            in trx_write_loop A (drop n data) t)"
  by pat_completeness auto
termination
  by (relation "measure (\<lambda>(A, data, t). length data)") (auto simp: page_size_def)

declare trx_write_loop.simps [simp del]

definition trx_write :: "'f abstract_file \<Rightarrow> bytes \<Rightarrow> ('f file_transaction, nat) prog" where
  "trx_write A data = bindP (trx_write_loop A data) (\<lambda>_. ret (length data))"

definition trx_pos :: "('f file_transaction, nat) prog" where
  "trx_pos = asks t_pos"

definition trx_size :: "('f file_transaction, nat) prog" where
  "trx_size = asks t_size"

definition trx_eof :: "('f file_transaction, bool) prog" where
  "trx_eof = asks (\<lambda>t. t_size t \<le> t_pos t)"

definition trx_seek :: "nat \<Rightarrow> ('f file_transaction, unit) prog" where
  "trx_seek p = modify (\<lambda>t. t\<lparr>t_pos := p\<rparr>)"

text \<open>
  \<open>commit\<close> writes the dirty pages in the order of the map, each clipped to the size of the
  file; a write of no byte makes it give up, with the dirty pages kept.
\<close>

definition commit_len :: "nat \<Rightarrow> nat \<Rightarrow> nat" where
  "commit_len p sz =
     (if wrap64 ((p + 1) * page_size) < sz then page_size
      else nat ((int sz - int (p * page_size)) mod 2 ^ 64))"

primrec trx_commit_loop :: "'f abstract_file \<Rightarrow> (nat \<times> bytes) list \<Rightarrow> ('f file_transaction, bool) prog" where
  "trx_commit_loop A [] = ret True"
| "trx_commit_loop A (e # es) =
     bindP (on_base (af_pos A)) (\<lambda>cp.
     bindP (on_base (af_seek A (wrap64 (fst e * page_size)))) (\<lambda>_.
     bindP (asks t_size) (\<lambda>sz.
     bindP (if length (snd e) < commit_len (fst e) sz then throw (Undefined_Behaviour ''write past the page'')
            else on_base (af_write A (take (commit_len (fst e) sz) (snd e)))) (\<lambda>w.
     if w = 0 then ret False
     else bindP (on_base (af_seek A cp)) (\<lambda>_. trx_commit_loop A es)))))"

definition trx_commit :: "'f abstract_file \<Rightarrow> ('f file_transaction, bool) prog" where
  "trx_commit A t =
     bindP (trx_commit_loop A (t_dirty t)) (\<lambda>ok.
     if ok then bindP (modify (\<lambda>t. t\<lparr>t_dirty := om_empty\<rparr>)) (\<lambda>_. ret True)
     else ret False) t"

definition change_source :: "'f \<Rightarrow> 'f file_transaction \<Rightarrow> 'f file_transaction" where
  "change_source s t = t\<lparr>t_file := s\<rparr>"

definition trx_ops :: "'f abstract_file \<Rightarrow> 'f file_transaction abstract_file" where
  "trx_ops A = \<lparr>af_read = trx_read A, af_write = trx_write A, af_seek = trx_seek,
     af_size = trx_size, af_pos = trx_pos, af_eof = trx_eof\<rparr>"

end
