(* ===== verification/TrxFileProofs.thy ===== *)
theory TrxFileProofs
  imports TrxFile
begin

text \<open>
  What the classes of trx_file.cpp promise. Locale \<open>file_like\<close> is the contract of
  \<open>abstract_file\<close>: a byte string with a position. \<open>file\<close> meets it (interpretation \<open>cf\<close>), and
  a \<open>file_transaction\<close> over anything that meets it meets it again (sublocale \<open>trx\<close>), so
  transactions can be chained as the header says.
\<close>

section \<open>The contract of a file\<close>

locale file_like =
  fixes A :: "'f abstract_file" and content :: "'f \<Rightarrow> bytes" and at :: "'f \<Rightarrow> nat" and good :: "'f \<Rightarrow> bool"
  assumes read_law: "good f \<Longrightarrow> \<exists>f'. af_read A n f = (Inr (take n (drop (at f) (content f))), f') \<and> good f'
      \<and> content f' = content f \<and> at f' = at f + length (take n (drop (at f) (content f)))"
    and write_law: "good f \<Longrightarrow> at f \<le> length (content f) \<Longrightarrow> at f + length bs < 2 ^ 63 \<Longrightarrow>
      \<exists>f'. af_write A bs f = (Inr (length bs), f') \<and> good f' \<and> content f' = patch (at f) bs (content f)
        \<and> at f' = at f + length bs"
    and seek: "good f \<Longrightarrow> p < 2 ^ 63 \<Longrightarrow>
      \<exists>f'. af_seek A p f = (Inr (), f') \<and> good f' \<and> content f' = content f \<and> at f' = p"
    and size: "good f \<Longrightarrow>
      \<exists>f'. af_size A f = (Inr (length (content f)), f') \<and> good f' \<and> content f' = content f \<and> at f' = at f"
    and pos: "good f \<Longrightarrow> af_pos A f = (Inr (at f), f)"
    and bounds: "good f \<Longrightarrow> length (content f) < 2 ^ 63 \<and> at f < 2 ^ 63"
begin

text \<open>Reading at a place and going back, as \<open>file_transaction\<close> does with its base.\<close>

lemma read_at:
  assumes "good f" and "p < 2 ^ 63"
  shows "\<exists>f1 f2 f3. af_seek A p f = (Inr (), f1) \<and> af_read A n f1 = (Inr (take n (drop p (content f))), f2)
    \<and> af_seek A (at f) f2 = (Inr (), f3) \<and> good f3 \<and> content f3 = content f \<and> at f3 = at f"
proof -
  obtain f1 where 1: "af_seek A p f = (Inr (), f1)" "good f1" "content f1 = content f" "at f1 = p"
    using seek [OF assms] by blast
  obtain f2 where 2: "af_read A n f1 = (Inr (take n (drop p (content f))), f2)" "good f2" "content f2 = content f"
    using read_law [OF 1(2), of n] 1 by auto
  have "at f < 2 ^ 63" using bounds [OF assms(1)] by simp
  then show ?thesis using seek [OF 2(2)] 1 2 by metis
qed

text \<open>Writing at a place and going back, as \<open>commit\<close> does.\<close>

lemma write_at:
  assumes "good f" and "p \<le> length (content f)" and "p + length bs < 2 ^ 63"
  shows "\<exists>f1 f2 f3. af_seek A p f = (Inr (), f1) \<and> af_write A bs f1 = (Inr (length bs), f2)
    \<and> af_seek A (at f) f2 = (Inr (), f3) \<and> good f3 \<and> content f3 = patch p bs (content f) \<and> at f3 = at f"
proof -
  obtain f1 where 1: "af_seek A p f = (Inr (), f1)" "good f1" "content f1 = content f" "at f1 = p"
    using seek [OF assms(1), of p] assms by auto
  obtain f2 where 2: "af_write A bs f1 = (Inr (length bs), f2)" "good f2" "content f2 = patch p bs (content f)"
    using write_law [OF 1(2), of bs] 1 assms by auto
  have "at f < 2 ^ 63" using bounds [OF assms(1)] by simp
  then show ?thesis using seek [OF 2(2)] 1 2 by metis
qed

end

section \<open>The class file\<close>

definition cf_stream :: "cfile \<Rightarrow> FILE" where
  "cf_stream f = (case m_file f of Open s \<Rightarrow> s | _ \<Rightarrow> \<lparr>f_data = [], f_pos = 0, f_eof = False, f_writable = False\<rparr>)"

definition cf_content :: "cfile \<Rightarrow> bytes" where
  "cf_content f = f_data (cf_stream f)"

definition cf_at :: "cfile \<Rightarrow> nat" where
  "cf_at f = f_pos (cf_stream f)"

definition cf_good :: "cfile \<Rightarrow> bool" where
  "cf_good f \<longleftrightarrow> (\<exists>s. m_file f = Open s \<and> f_writable s \<and> length (f_data s) < 2 ^ 63 \<and> f_pos s < 2 ^ 63)"

lemmas cf_defs = cf_content_def cf_at_def cf_good_def cf_stream_def
lemmas cfile_defs = cfile_ops_def cfile_read_def cfile_write_def cfile_seek_def cfile_pos_def cfile_size_def
  on_stream_def fread_def fwrite_def fseeko_set_def

lemma cf_size:
  "cf_good f \<Longrightarrow> \<exists>f'. cfile_size f = (Inr (length (cf_content f)), f') \<and> cf_good f'
     \<and> cf_content f' = cf_content f \<and> cf_at f' = cf_at f"
  by (auto simp: cf_defs cfile_defs bindP_def ret_def)

interpretation cf: file_like cfile_ops cf_content cf_at cf_good
proof
  fix f n assume "cf_good f"
  then show "\<exists>f'. af_read cfile_ops n f = (Inr (take n (drop (cf_at f) (cf_content f))), f') \<and> cf_good f'
      \<and> cf_content f' = cf_content f \<and> cf_at f' = cf_at f + length (take n (drop (cf_at f) (cf_content f)))"
    by (auto simp: cf_defs cfile_defs)
next
  fix f and bs :: bytes assume "cf_good f" "cf_at f \<le> length (cf_content f)" "cf_at f + length bs < 2 ^ 63"
  then show "\<exists>f'. af_write cfile_ops bs f = (Inr (length bs), f') \<and> cf_good f'
      \<and> cf_content f' = patch (cf_at f) bs (cf_content f) \<and> cf_at f' = cf_at f + length bs"
    by (auto simp: cf_defs cfile_defs length_patch)
next
  fix f and p :: nat assume "cf_good f" "p < 2 ^ 63"
  then show "\<exists>f'. af_seek cfile_ops p f = (Inr (), f') \<and> cf_good f' \<and> cf_content f' = cf_content f \<and> cf_at f' = p"
    by (auto simp: cf_defs cfile_defs)
next
  fix f assume "cf_good f"
  then show "\<exists>f'. af_size cfile_ops f = (Inr (length (cf_content f)), f') \<and> cf_good f'
      \<and> cf_content f' = cf_content f \<and> cf_at f' = cf_at f"
    using cf_size by (simp add: cfile_ops_def)
next
  fix f assume "cf_good f"
  then show "af_pos cfile_ops f = (Inr (cf_at f), f)" "length (cf_content f) < 2 ^ 63 \<and> cf_at f < 2 ^ 63"
    by (auto simp: cf_defs cfile_defs)
qed

section \<open>What a transaction shows\<close>

definition trx_byte :: "('f \<Rightarrow> bytes) \<Rightarrow> 'f file_transaction \<Rightarrow> nat \<Rightarrow> u8" where
  "trx_byte content t i =
     (case find_page (i div page_size) t of Some pg \<Rightarrow> pg ! (i mod page_size) | None \<Rightarrow> content (t_file t) ! i)"

definition trx_content :: "('f \<Rightarrow> bytes) \<Rightarrow> 'f file_transaction \<Rightarrow> bytes" where
  "trx_content content t = map (trx_byte content t) [0..<t_size t]"

definition trx_good :: "('f \<Rightarrow> bytes) \<Rightarrow> ('f \<Rightarrow> bool) \<Rightarrow> 'f file_transaction \<Rightarrow> bool" where
  \<comment> \<open>whole pages within the size, and no byte of the file is neither in a page nor in the base\<close>
  "trx_good content good t \<longleftrightarrow>
     good (t_file t) \<and> om_wf (t_dirty t) \<and> t_pos t < 2 ^ 63 \<and> t_size t < 2 ^ 63
     \<and> (\<forall>p pg. find_page p t = Some pg \<longrightarrow> length pg = page_size \<and> p * page_size < t_size t)
     \<and> (\<forall>i < t_size t. find_page (i div page_size) t = None \<longrightarrow> i < length (content (t_file t)))
     \<and> length (content (t_file t)) \<le> t_size t"

lemma length_trx_content [simp]: "length (trx_content content t) = t_size t"
  by (simp add: trx_content_def)

lemma nth_trx_content: "i < t_size t \<Longrightarrow> trx_content content t ! i = trx_byte content t i"
  by (simp add: trx_content_def)

lemma find_page_good:
  assumes "trx_good content good t" and "find_page p t = Some pg"
  shows "length pg = page_size \<and> p * page_size < t_size t"
  using assms by (simp add: trx_good_def)

text \<open>Positions within one page.\<close>

lemma same_page:
  assumes "i < s - a mod (s :: nat)"
  shows "(a + i) div s = a div s" and "(a + i) mod s = a mod s + i"
proof -
  have lt: "a mod s + i < s" using assms by simp
  have a: "a + i = (a mod s + i) + s * (a div s)" by simp
  show "(a + i) div s = a div s"
    unfolding a using lt by (subst div_mult_self2) auto
  show "(a + i) mod s = a mod s + i"
    unfolding a using lt by (subst mod_mult_self2) auto
qed

lemma page_size_pos: "0 < page_size"
  by (simp add: page_size_def)

lemma wrap64_id: "n < 2 ^ 63 \<Longrightarrow> wrap64 n = n"
  by (simp add: wrap64_def)

lemma read_step_clip_eq:
  assumes "t_pos t < t_size t" and "t_size t < 2 ^ 63" and "done < len"
  shows "read_step_clip len done t = min (page_size - t_pos t mod page_size) (min (len - done) (t_size t - t_pos t))"
proof -
  have w: "read_step_size len done t = min (page_size - t_pos t mod page_size) (len - done)"
    by (simp add: read_step_size_def wrap32_def page_size_def)
  then have small: "read_step_size len done t \<le> 1024" by (simp add: page_size_def)
  then have nowrap: "wrap64 (t_pos t + read_step_size len done t) = t_pos t + read_step_size len done t"
    using assms by (simp add: wrap64_def)
  show ?thesis
  proof (cases "t_size t \<le> t_pos t + read_step_size len done t")
    case True
    then have "t_size t - t_pos t \<le> read_step_size len done t" by linarith
    moreover from this small have "wrap32 (t_size t - t_pos t) = t_size t - t_pos t"
      by (simp add: wrap32_def)
    ultimately show ?thesis using True w nowrap by (simp add: read_step_clip_def)
  next
    case False
    then have "read_step_size len done t \<le> t_size t - t_pos t" by linarith
    then have "min (read_step_size len done t) (t_size t - t_pos t) = read_step_size len done t"
      by (rule min_absorb1)
    with False nowrap show ?thesis by (simp add: read_step_clip_def w min.assoc)
  qed
qed

lemma page_bytes:
  assumes "find_page (t_pos t div page_size) t = Some pg" and "length pg = page_size"
    and "n \<le> page_size - t_pos t mod page_size" and "t_pos t + n \<le> t_size t"
  shows "take n (drop (t_pos t mod page_size) pg) = take n (drop (t_pos t) (trx_content content t))"
proof (rule take_drop_nth_eqI)
  show "length (take n (drop (t_pos t mod page_size) pg)) = n"
    using assms page_size_pos by simp
  fix i assume "i < n"
  with assms show "take n (drop (t_pos t mod page_size) pg) ! i = trx_content content t ! (t_pos t + i)"
    by (simp add: nth_trx_content trx_byte_def same_page)
qed (use assms in simp)

lemma base_bytes:
  assumes "trx_good content good t" and "find_page (t_pos t div page_size) t = None"
    and "0 < n" and "n \<le> page_size - t_pos t mod page_size" and "t_pos t + n \<le> t_size t"
  shows "take n (drop (t_pos t) (content (t_file t))) = take n (drop (t_pos t) (trx_content content t))"
    and "t_pos t + n \<le> length (content (t_file t))"
proof -
  have none: "find_page ((t_pos t + i) div page_size) t = None" if "i < n" for i
    using that assms by (simp add: same_page)
  show len: "t_pos t + n \<le> length (content (t_file t))"
  proof -
    have "t_pos t + (n - 1) < length (content (t_file t))"
      using assms none [of "n - 1"] unfolding trx_good_def by simp
    then show ?thesis using assms(3) by simp
  qed
  show "take n (drop (t_pos t) (content (t_file t))) = take n (drop (t_pos t) (trx_content content t))"
  proof (rule take_drop_nth_eqI)
    show "length (take n (drop (t_pos t) (content (t_file t)))) = n" using len by simp
    fix i assume "i < n"
    then show "take n (drop (t_pos t) (content (t_file t))) ! i = trx_content content t ! (t_pos t + i)"
      using assms none [of i] len by (simp add: nth_trx_content trx_byte_def)
  qed (use assms in simp)
qed

lemma trx_good_file:
  assumes "trx_good content good t" and "good f" and "content f = content (t_file t)" and "p < 2 ^ 63"
  shows "trx_good content good (t\<lparr>t_file := f, t_pos := p\<rparr>)"
    and "trx_content content (t\<lparr>t_file := f, t_pos := p\<rparr>) = trx_content content t"
  using assms by (simp_all add: trx_good_def trx_content_def trx_byte_def find_page_def split: option.split)

section \<open>A transaction over a file is a file\<close>

locale trx_base = base: file_like A content "at" good
  for A :: "'f abstract_file" and content "at" good
begin

lemma on_base_run: "g (t_file t) = (Inr x, f) \<Longrightarrow> on_base g t = (Inr x, t\<lparr>t_file := f\<rparr>)"
  by (simp add: on_base_def)

lemma base_read_at_run:
  assumes "good (t_file t)" and "p < 2 ^ 63"
  shows "\<exists>f. base_read_at A p n t = (Inr (take n (drop p (content (t_file t)))), t\<lparr>t_file := f\<rparr>)
    \<and> good f \<and> content f = content (t_file t)"
proof -
  obtain f1 f2 f3 where run: "af_seek A p (t_file t) = (Inr (), f1)"
      "af_read A n f1 = (Inr (take n (drop p (content (t_file t)))), f2)"
      "af_seek A (at (t_file t)) f2 = (Inr (), f3)" and f3: "good f3" "content f3 = content (t_file t)"
    using base.read_at [OF assms, of n] by blast
  have "base_read_at A p n t = (Inr (take n (drop p (content (t_file t)))), t\<lparr>t_file := f3\<rparr>)"
    using base.pos [OF assms(1)] run by (simp add: base_read_at_def on_base_def bindP_def ret_def)
  with f3 show ?thesis by blast
qed

abbreviation tc :: "'f file_transaction \<Rightarrow> bytes" where
  "tc \<equiv> trx_content content"

abbreviation tgood :: "'f file_transaction \<Rightarrow> bool" where
  "tgood \<equiv> trx_good content good"

lemma trx_read_loop_run:
  assumes "tgood t" and "done \<le> len"
  shows "\<exists>t'. trx_read_loop A len done out t = (Inr (out @ take (len - done) (drop (t_pos t) (tc t))), t')
    \<and> tgood t' \<and> tc t' = tc t \<and> content (t_file t') = content (t_file t)
    \<and> t_pos t' = t_pos t + length (take (len - done) (drop (t_pos t) (tc t)))"
  using assms
proof (induction "len - done" arbitrary: "done" out t rule: less_induct)
  case less
  note t = less.prems(1)
  have lt: "t_pos t < 2 ^ 63" "t_size t < 2 ^ 63" using t by (simp_all add: trx_good_def)
  consider (stop) "done = len \<or> t_pos t = t_size t" | (beyond) "done < len" "t_size t < t_pos t"
    | (go) "done < len" "t_pos t < t_size t" using less.prems(2) by linarith
  then show ?case
  proof cases
    case stop
    then show ?thesis using t by (auto simp: trx_read_loop.simps [of A len "done"])
  next
    case beyond
    have "read_step_size len done t \<le> 1024"
      using read_step_size_page [of len "done" t] by (simp add: page_size_def)
    then have "t_size t \<le> wrap64 (t_pos t + read_step_size len done t)"
      using lt beyond by (simp add: wrap64_def)
    with beyond t show ?thesis by (auto simp: trx_read_loop.simps [of A len "done"])
  next
    case go
    define n where "n = read_step_clip len done t"
    have n_eq: "n = min (page_size - t_pos t mod page_size) (min (len - done) (t_size t - t_pos t))"
      unfolding n_def by (rule read_step_clip_eq) (use go lt in simp_all)
    then have "n \<le> t_size t - t_pos t" and n: "0 < n" "n \<le> len - done" "n \<le> page_size - t_pos t mod page_size"
      using go page_size_pos
      by (simp_all add: min.coboundedI1 min.coboundedI2 del: min.bounded_iff)
    with go have n: "0 < n" "n \<le> len - done" "n \<le> page_size - t_pos t mod page_size" "t_pos t + n \<le> t_size t"
      by linarith+
    then have w: "wrap64 (t_pos t + n) = t_pos t + n" and small: "t_pos t + n < 2 ^ 63"
      using lt by (simp_all add: wrap64_def)
    let ?bs = "take n (drop (t_pos t) (tc t))"
    have len_bs: "length ?bs = n" using n by simp
    have advance: "len - (done + n) < len - done" "done + n \<le> len" using n go by linarith+
    have next_state: "\<exists>t'. trx_read_loop A len (done + n) (out @ ?bs) s
        = (Inr (out @ take (len - done) (drop (t_pos t) (tc t))), t')
      \<and> tgood t' \<and> tc t' = tc t \<and> content (t_file t') = content (t_file t)
      \<and> t_pos t' = t_pos t + length (take (len - done) (drop (t_pos t) (tc t)))"
      if s: "tgood s" "tc s = tc t" "content (t_file s) = content (t_file t)" "t_pos s = t_pos t + n" for s
    proof -
      have "take (len - done) (drop (t_pos t) (tc t)) = ?bs @ take (len - (done + n)) (drop (t_pos t + n) (tc t))"
        using take_add [of n "len - (done + n)" "drop (t_pos t) (tc t)"] n by (simp add: add.commute)
      then show ?thesis
        using less.hyps [of "done + n" s "out @ ?bs"] s len_bs advance by (simp add: add.assoc)
    qed
    have step: "trx_read_loop A len done out t =
       (case find_page (t_pos t div page_size) t of
          Some p \<Rightarrow> trx_read_loop A len (done + n) (out @ take n (drop (t_pos t mod page_size) p)) (t\<lparr>t_pos := wrap64 (t_pos t + n)\<rparr>)
        | None \<Rightarrow> (case base_read_at A (t_pos t) n t of
             (Inl e, t) \<Rightarrow> (Inl e, t)
           | (Inr bs, t) \<Rightarrow>
               if length bs \<noteq> n then (Inr (out @ bs), t\<lparr>t_pos := wrap64 (t_pos t + length bs)\<rparr>)
               else trx_read_loop A len (done + n) (out @ bs) (t\<lparr>t_pos := wrap64 (t_pos t + n)\<rparr>)))"
      using go by (simp add: trx_read_loop.simps [of A len "done" out t] Let_def n_def [symmetric])
    show ?thesis
    proof (cases "find_page (t_pos t div page_size) t")
      case (Some pg)
      have "take n (drop (t_pos t mod page_size) pg) = ?bs"
        by (rule page_bytes [OF Some _ n(3,4)]) (use find_page_good [OF t Some] in simp)
      moreover have "tgood (t\<lparr>t_pos := t_pos t + n\<rparr>)" "tc (t\<lparr>t_pos := t_pos t + n\<rparr>) = tc t"
        using trx_good_file [OF t, of "t_file t" "t_pos t + n"] t small by (simp_all add: trx_good_def)
      ultimately show ?thesis using step Some w next_state [of "t\<lparr>t_pos := t_pos t + n\<rparr>"] by simp
    next
      case None
      have bs: "take n (drop (t_pos t) (content (t_file t))) = ?bs"
        by (rule base_bytes(1) [OF t None n(1,3,4)])
      obtain f where f: "base_read_at A (t_pos t) n t = (Inr ?bs, t\<lparr>t_file := f\<rparr>)"
          "good f" "content f = content (t_file t)"
        using base_read_at_run [of t "t_pos t" n] t lt bs by (auto simp: trx_good_def)
      show ?thesis
        using step None f len_bs w next_state [of "t\<lparr>t_file := f, t_pos := t_pos t + n\<rparr>"]
          trx_good_file [OF t f(2,3) small] by simp
    qed
  qed
qed

lemma dirty_page_run:
  assumes t: "tgood t" and p: "p * page_size < 2 ^ 63"
  shows "\<exists>pg t'. dirty_page A p t = (Inr pg, t') \<and> length pg = page_size \<and> om_wf (t_dirty t')
    \<and> (\<forall>q. q \<noteq> p \<longrightarrow> find_page q t' = find_page q t)
    \<and> t_pos t' = t_pos t \<and> t_size t' = t_size t \<and> good (t_file t') \<and> content (t_file t') = content (t_file t)
    \<and> (\<forall>i < t_size t. i div page_size = p \<longrightarrow> pg ! (i mod page_size) = tc t ! i)"
proof (cases "find_page p t")
  case (Some pg)
  then show ?thesis
    using t find_page_good [OF t Some] by (auto simp: dirty_page_def trx_good_def nth_trx_content trx_byte_def)
next
  case None
  let ?zero = "replicate page_size 0 :: bytes"
  let ?bs = "take page_size (drop (p * page_size) (content (t_file t)))"
  let ?pg = "overlay ?bs ?zero"
  have g: "good (t_file t)" using t by (simp add: trx_good_def)
  have w: "wrap64 (p * page_size) = p * page_size" using p by (simp add: wrap64_def)
  obtain f1 f2 f3 where run: "af_seek A (p * page_size) (t_file t) = (Inr (), f1)"
      "af_read A page_size f1 = (Inr ?bs, f2)"
      "af_seek A (at (t_file t)) f2 = (Inr (), f3)" and f3: "good f3" "content f3 = content (t_file t)"
    using base.read_at [OF g p, of page_size] by blast
  let ?t = "t\<lparr>t_dirty := om_set p ?pg (om_set p ?zero (t_dirty t)), t_file := f3\<rparr>"
  have "dirty_page A p t = (Inr ?pg, ?t)"
    using None base.pos [OF g] run w
    by (simp add: dirty_page_def Let_def bindP_def ret_def on_base_def set_page_def modify_def)
  moreover have "length ?pg = page_size"
    by (simp add: length_overlay)
  moreover have "?pg ! (i mod page_size) = tc t ! i" if i: "i < t_size t" "i div page_size = p" for i
  proof -
    have "find_page (i div page_size) t = None" using i None by simp
    then have "i < length (content (t_file t))" using t i unfolding trx_good_def by blast
    moreover have i_eq: "i = p * page_size + i mod page_size" using i by (metis div_mult_mod_eq)
    ultimately have "i mod page_size < length (content (t_file t)) - p * page_size" by linarith
    moreover have "i mod page_size < page_size" using page_size_pos by simp
    ultimately have "?pg ! (i mod page_size) = content (t_file t) ! (p * page_size + i mod page_size)"
      by (simp add: overlay_def nth_append)
    then have "?pg ! (i mod page_size) = content (t_file t) ! i" using i_eq by simp
    then show ?thesis using i None by (simp add: nth_trx_content trx_byte_def)
  qed
  moreover have "om_wf (om_set p ?pg (om_set p ?zero (t_dirty t)))"
    using t by (intro om_set_wf) (simp add: trx_good_def)
  ultimately show ?thesis
    using f3 by (auto simp: find_page_def om_find_set)
qed

lemma write_step:
  assumes t: "tgood t" and at: "t_pos t \<le> t_size t" and bs: "bs \<noteq> []"
    and fits: "length bs \<le> page_size - t_pos t mod page_size" and lt: "t_pos t + length bs < 2 ^ 63"
    and pg: "length pg = page_size"
      "\<forall>i < t_size t. i div page_size = t_pos t div page_size \<longrightarrow> pg ! (i mod page_size) = tc t ! i"
    and s: "om_wf (t_dirty s)" "find_page (t_pos t div page_size) s = Some (patch (t_pos t mod page_size) bs pg)"
      "\<forall>q. q \<noteq> t_pos t div page_size \<longrightarrow> find_page q s = find_page q t"
      "t_pos s = t_pos t + length bs" "t_size s = max (t_size t) (t_pos t + length bs)"
      "good (t_file s)" "content (t_file s) = content (t_file t)"
  shows "tgood s" and "tc s = patch (t_pos t) bs (tc t)"
proof -
  let ?a = "t_pos t" and ?n = "length bs"
  have off: "?a mod page_size < page_size" using page_size_pos by simp
  have "?a mod page_size + ?n \<le> page_size" using fits off by linarith
  then have len: "length (patch (?a mod page_size) bs pg) = page_size"
    using pg off by (simp add: length_patch)
  have size: "t_size t \<le> t_size s" "?a + ?n \<le> t_size s" using s(5) by simp_all
  have inside: "i div page_size = ?a div page_size" if "?a \<le> i" "i < ?a + ?n" for i
    using same_page(1) [of "i - ?a" page_size ?a] that fits by simp
  show "tgood s"
    unfolding trx_good_def
  proof (intro conjI allI impI)
    fix q pg' assume q: "find_page q s = Some pg'"
    show "length pg' = page_size" and "q * page_size < t_size s"
    proof -
      have "length pg' = page_size \<and> q * page_size < t_size s"
      proof (cases "q = ?a div page_size")
        case True
        have "?a div page_size * page_size \<le> ?a" by simp
        also have "\<dots> < ?a + ?n" using bs by simp
        finally show ?thesis using True q s(2) len size by simp
      next
        case False
        then show ?thesis using q s(3) find_page_good [OF t, of q pg'] size by simp
      qed
      then show "length pg' = page_size" and "q * page_size < t_size s" by simp_all
    qed
  next
    fix i assume i: "i < t_size s" "find_page (i div page_size) s = None"
    then have other: "i div page_size \<noteq> ?a div page_size" using s(2) by auto
    then have "i < t_size t" using inside [of i] i at s(5) by linarith
    then show "i < length (content (t_file s))"
      using i other s(3,7) t unfolding trx_good_def by simp
  qed (use s lt t size in \<open>auto simp: trx_good_def\<close>)
  show "tc s = patch (t_pos t) bs (tc t)"
  proof (rule nth_equalityI)
    show "length (tc s) = length (patch ?a bs (tc t))"
      using at s(5) by (simp add: length_patch)
  next
    fix i assume "i < length (tc s)"
    then have i: "i < t_size s" by simp
    have old: "i < t_size t" if "\<not> (?a \<le> i \<and> i < ?a + ?n)" using that i at s(5) by linarith
    have rhs: "patch ?a bs (tc t) ! i = (if ?a \<le> i \<and> i < ?a + ?n then bs ! (i - ?a) else tc t ! i)"
      using i at s(5) by (intro nth_patch) simp_all
    show "tc s ! i = patch ?a bs (tc t) ! i"
    proof (cases "i div page_size = ?a div page_size")
      case True
      then have "i = ?a div page_size * page_size + i mod page_size" by (metis div_mult_mod_eq)
      moreover have "?a = ?a div page_size * page_size + ?a mod page_size" by simp
      ultimately have cmp: "?a \<le> i \<longleftrightarrow> ?a mod page_size \<le> i mod page_size"
          "i < ?a + ?n \<longleftrightarrow> i mod page_size < ?a mod page_size + ?n"
          "i - ?a = i mod page_size - ?a mod page_size" by linarith+
      have "tc s ! i = patch (?a mod page_size) bs pg ! (i mod page_size)"
        using i True s(2) by (simp add: nth_trx_content trx_byte_def)
      also have "\<dots> = (if ?a \<le> i \<and> i < ?a + ?n then bs ! (i - ?a) else pg ! (i mod page_size))"
        unfolding cmp using off pg(1) page_size_pos by (intro nth_patch) (simp_all add: less_max_iff_disj)
      also have "\<dots> = patch ?a bs (tc t) ! i"
        unfolding rhs using pg(2) True old by auto
      finally show ?thesis .
    next
      case False
      then have "\<not> (?a \<le> i \<and> i < ?a + ?n)" using inside [of i] by blast
      then show ?thesis
        unfolding rhs using False i old s(3,7) by (auto simp: nth_trx_content trx_byte_def split: option.split)
    qed
  qed
qed

lemma t_size_same: "t_size u = x \<Longrightarrow> u\<lparr>t_size := x\<rparr> = u"
  by (cases u) simp

lemma patch_patch:
  assumes "off \<le> length old" and "n \<le> length new"
  shows "patch (off + n) (drop n new) (patch off (take n new) old) = patch off new old"
  using assms by (simp add: patch_def add.commute min_def)

lemma trx_write_loop_run:
  assumes "tgood t" and "t_pos t \<le> t_size t" and "t_pos t + length data < 2 ^ 63"
  shows "\<exists>t'. trx_write_loop A data t = (Inr (), t') \<and> tgood t' \<and> tc t' = patch (t_pos t) data (tc t)
    \<and> content (t_file t') = content (t_file t) \<and> t_pos t' = t_pos t + length data"
  using assms
proof (induction "length data" arbitrary: data t rule: less_induct)
  case less
  note t = less.prems(1)
  show ?case
  proof (cases "data = []")
    case True
    then show ?thesis using less.prems by (auto simp: trx_write_loop.simps [of A "[]"])
  next
    case False
    define p where "p = t_pos t div page_size"
    define n where "n = min (page_size - t_pos t mod page_size) (length data)"
    have n: "0 < n" "n \<le> length data" "n \<le> page_size - t_pos t mod page_size"
      using False page_size_pos by (simp_all add: n_def)
    have "p * page_size \<le> t_pos t" by (simp add: p_def)
    then have "p * page_size < 2 ^ 63" using less.prems(3) by linarith
    then obtain pg t1 where run: "dirty_page A p t = (Inr pg, t1)" and pg: "length pg = page_size"
        "\<forall>i < t_size t. i div page_size = p \<longrightarrow> pg ! (i mod page_size) = tc t ! i"
      and t1: "om_wf (t_dirty t1)" "\<forall>q. q \<noteq> p \<longrightarrow> find_page q t1 = find_page q t"
        "t_pos t1 = t_pos t" "t_size t1 = t_size t" "good (t_file t1)" "content (t_file t1) = content (t_file t)"
      using dirty_page_run [OF t] by blast
    define s where "s = t1\<lparr>t_dirty := om_set p (patch (t_pos t mod page_size) (take n data) pg) (t_dirty t1),
      t_pos := t_pos t + n, t_size := max (t_size t) (t_pos t + n)\<rparr>"
    have lt: "t_pos t + n < 2 ^ 63" using n less.prems(3) by linarith
    have s_good: "tgood s" and s_tc: "tc s = patch (t_pos t) (take n data) (tc t)"
      using write_step [OF t less.prems(2), of "take n data" pg s] False n lt pg t1
      by (auto simp: s_def p_def find_page_def om_find_set om_set_wf)
    have "trx_write_loop A data t = trx_write_loop A (drop n data) s"
      using False run lt t1
      by (simp add: trx_write_loop.simps [of A data] Let_def p_def [symmetric] n_def [symmetric] s_def wrap64_def max_def t_size_same)
    moreover have "\<exists>t'. trx_write_loop A (drop n data) s = (Inr (), t') \<and> tgood t'
        \<and> tc t' = patch (t_pos t + n) (drop n data) (tc s)
        \<and> content (t_file t') = content (t_file s) \<and> t_pos t' = t_pos t + n + length (drop n data)"
      using less.hyps [of "drop n data" s] n s_good less.prems(3) by (simp add: s_def)
    moreover have "patch (t_pos t + n) (drop n data) (tc s) = patch (t_pos t) data (tc t)"
      unfolding s_tc using less.prems(2) n by (intro patch_patch) simp_all
    moreover have "content (t_file s) = content (t_file t)" using t1 by (simp add: s_def)
    ultimately show ?thesis using n by simp
  qed
qed

section \<open>Commit\<close>

lemma commit_len_eq:
  assumes "p * page_size < n" and "n < 2 ^ 63"
  shows "commit_len p n = min page_size (n - p * page_size)"
proof -
  have "wrap64 ((p + 1) * page_size) = (p + 1) * page_size"
    using assms by (simp add: wrap64_def page_size_def)
  moreover have "int n - int (p * page_size) = int (n - p * page_size)"
    using assms by (simp only: of_nat_diff less_imp_le)
  moreover have "int (n - p * page_size) mod 2 ^ 64 = int (n - p * page_size)"
  proof (rule mod_pos_pos_trivial)
    have "n - p * page_size < 2 ^ 64" using assms by simp
    then show "int (n - p * page_size) < 2 ^ 64" by (metis of_nat_less_iff of_nat_numeral of_nat_power)
  qed simp
  ultimately have "wrap64 ((p + 1) * page_size) = (p + 1) * page_size"
    and "nat ((int n - int (p * page_size)) mod 2 ^ 64) = n - p * page_size"
    by (simp_all only: nat_int)
  then show ?thesis
    unfolding commit_len_def using assms(1) by (auto simp del: of_nat_mult)
qed

text \<open>
  Writing the remaining dirty pages \<open>es\<close> completes the base to the file's bytes \<open>v\<close>, if
  every byte outside these pages is there already.
\<close>

lemma commit_loop_run:
  assumes "om_wf es" and "\<forall>(p, pg) \<in> set es. length pg = page_size \<and> p * page_size < length v
      \<and> (\<forall>i < length v. i div page_size = p \<longrightarrow> v ! i = pg ! (i mod page_size))"
    and "t_size t = length v" and "length v < 2 ^ 63" and "good (t_file t)"
    and "length (content (t_file t)) \<le> length v"
    and "\<forall>i < length v. i div page_size \<notin> fst ` set es \<longrightarrow> i < length (content (t_file t)) \<and> content (t_file t) ! i = v ! i"
  shows "\<exists>f. trx_commit_loop A es t = (Inr True, t\<lparr>t_file := f\<rparr>) \<and> good f \<and> content f = v"
  using assms
proof (induction es arbitrary: t)
  case Nil
  have "length v \<le> length (content (t_file t))"
  proof (rule ccontr)
    assume "\<not> ?thesis"
    then show False using Nil.prems(7) [rule_format, of "length (content (t_file t))"] by auto
  qed
  with Nil have "content (t_file t) = v" by (intro nth_equalityI) auto
  then show ?case using Nil by (auto simp: ret_def intro: exI [of _ "t_file t"])
next
  case (Cons e es)
  obtain p pg where e: "e = (p, pg)" by (cases e)
  have pg: "length pg = page_size" "p * page_size < length v"
      "\<forall>i < length v. i div page_size = p \<longrightarrow> v ! i = pg ! (i mod page_size)"
    using Cons.prems(2) e by auto
  have later: "p < q" if "q \<in> fst ` set es" for q using Cons.prems(1) that e by (auto simp: om_wf_Cons)
  let ?D = "content (t_file t)" and ?n = "min page_size (length v - p * page_size)"
  have at: "p * page_size \<le> length ?D"
  proof (cases "p * page_size")
    case (Suc i)
    then have "i < p * page_size" by simp
    then have "i div page_size < p" using page_size_pos by (simp add: div_less_iff_less_mult)
    then have "i div page_size \<notin> fst ` set (e # es)" using e later by fastforce
    then have "i < length ?D" using Cons.prems(7) [rule_format, of i] Suc pg(2) by simp
    then show ?thesis using Suc by simp
  qed auto
  have n: "?n \<noteq> 0" "p * page_size + ?n \<le> length v" using pg(2) page_size_pos by auto
  define bs where "bs = take ?n pg"
  have bs: "length bs = ?n" using pg(1) by (simp add: bs_def)
  obtain f1 f2 f3 where run: "af_seek A (p * page_size) (t_file t) = (Inr (), f1)"
      "af_write A bs f1 = (Inr (length bs), f2)" "af_seek A (at (t_file t)) f2 = (Inr (), f3)"
    and f3: "good f3" "content f3 = patch (p * page_size) bs ?D"
    using base.write_at [OF Cons.prems(5) at, of bs] n bs Cons.prems(4) by auto
  have w: "wrap64 (p * page_size) = p * page_size" using pg(2) Cons.prems(4) by (simp add: wrap64_def)
  have "trx_commit_loop A (e # es) t = trx_commit_loop A es (t\<lparr>t_file := f3\<rparr>)"
    using run base.pos [OF Cons.prems(5)] w n pg(1) commit_len_eq [OF pg(2) Cons.prems(4)] Cons.prems(3) bs
    by (simp add: e bindP_def on_base_def asks_def bs_def) (simp add: min_def)
  moreover have "\<exists>f. trx_commit_loop A es (t\<lparr>t_file := f3\<rparr>) = (Inr True, t\<lparr>t_file := f3\<rparr>\<lparr>t_file := f\<rparr>) \<and> good f \<and> content f = v"
  proof (rule Cons.IH)
    show "length (content (t_file (t\<lparr>t_file := f3\<rparr>))) \<le> length v"
      using Cons.prems(6) at n bs f3 by (simp add: length_patch)
    show "\<forall>i < length v. i div page_size \<notin> fst ` set es \<longrightarrow>
        i < length (content (t_file (t\<lparr>t_file := f3\<rparr>))) \<and> content (t_file (t\<lparr>t_file := f3\<rparr>)) ! i = v ! i"
    proof (intro allI impI)
      fix i assume i: "i < length v" "i div page_size \<notin> fst ` set es"
      have nth: "patch (p * page_size) bs ?D ! i = (if p * page_size \<le> i \<and> i < p * page_size + ?n then bs ! (i - p * page_size) else ?D ! i)"
        if "i < max (length ?D) (p * page_size + ?n)"
        using that at bs by (simp add: nth_patch)
      show "i < length (content (t_file (t\<lparr>t_file := f3\<rparr>))) \<and> content (t_file (t\<lparr>t_file := f3\<rparr>)) ! i = v ! i"
      proof (cases "i div page_size = p")
        case True
        then have i_eq: "i = p * page_size + i mod page_size" by (metis div_mult_mod_eq)
        have "i mod page_size < page_size" using page_size_pos by simp
        with i_eq i(1) have pos_in: "p * page_size \<le> i" "i < p * page_size + ?n" "i - p * page_size = i mod page_size"
          by linarith+
        note pos_in
        moreover from pos_in(2) have "i < max (length ?D) (p * page_size + ?n)" by (rule max.strict_coboundedI2)
        moreover have "i mod page_size < ?n"
          using i_eq pos_in by linarith
        then have "take ?n pg ! (i mod page_size) = pg ! (i mod page_size)" by (rule nth_take)
        ultimately show ?thesis
          using nth pg(3) i(1) True f3 at bs by (simp add: length_patch bs_def)
      next
        case False
        then have old: "i < length ?D" "?D ! i = v ! i" using Cons.prems(7) i e by auto
        have "\<not> (p * page_size \<le> i \<and> i < p * page_size + ?n)"
        proof
          assume in_page: "p * page_size \<le> i \<and> i < p * page_size + ?n"
          have "?n \<le> page_size" by (rule min.cobounded1)
          with in_page have "i < p * page_size + page_size" by linarith
          then show False using in_page False div_nat_eqI [of page_size p i] by (simp add: mult.commute)
        qed
        moreover have "i < max (length ?D) (p * page_size + ?n)" using old(1) by (rule max.strict_coboundedI1)
        ultimately show ?thesis using nth old f3 at bs by (auto simp: length_patch)
      qed
    qed
  qed (use Cons.prems f3 in \<open>auto simp: om_wf_Cons\<close>)
  ultimately show ?case by simp
qed

lemma trx_commit_run:
  assumes t: "tgood t"
  shows "\<exists>t'. trx_commit A t = (Inr True, t') \<and> tgood t' \<and> tc t' = tc t \<and> content (t_file t') = tc t
    \<and> t_dirty t' = om_empty \<and> t_pos t' = t_pos t \<and> t_size t' = t_size t"
proof -
  have "\<exists>f. trx_commit_loop A (t_dirty t) t = (Inr True, t\<lparr>t_file := f\<rparr>) \<and> good f \<and> content f = tc t"
  proof (rule commit_loop_run)
    show "\<forall>(p, pg) \<in> set (t_dirty t). length pg = page_size \<and> p * page_size < length (tc t)
        \<and> (\<forall>i < length (tc t). i div page_size = p \<longrightarrow> tc t ! i = pg ! (i mod page_size))"
    proof (clarify)
      fix p pg assume "(p, pg) \<in> set (t_dirty t)"
      then have "find_page p t = Some pg" using t by (simp add: find_page_def om_find_in trx_good_def)
      then show "length pg = page_size \<and> p * page_size < length (tc t)
          \<and> (\<forall>i < length (tc t). i div page_size = p \<longrightarrow> tc t ! i = pg ! (i mod page_size))"
        using find_page_good [OF t, of p pg] by (auto simp: nth_trx_content trx_byte_def)
    qed
    show "\<forall>i < length (tc t). i div page_size \<notin> fst ` set (t_dirty t) \<longrightarrow>
        i < length (content (t_file t)) \<and> content (t_file t) ! i = tc t ! i"
      using t by (auto simp: nth_trx_content trx_byte_def trx_good_def find_page_def om_find_None_iff [symmetric])
  qed (use t in \<open>auto simp: trx_good_def\<close>)
  then obtain f where f: "trx_commit_loop A (t_dirty t) t = (Inr True, t\<lparr>t_file := f\<rparr>)" "good f" "content f = tc t"
    by blast
  let ?t = "t\<lparr>t_file := f, t_dirty := om_empty\<rparr>"
  have "trx_commit A t = (Inr True, ?t)"
    using f by (simp add: trx_commit_def bindP_def modify_def ret_def)
  moreover have "tc ?t = tc t"
    by (rule nth_equalityI) (simp_all add: nth_trx_content trx_byte_def [of _ ?t] find_page_def f)
  moreover have "tgood ?t"
    using t f by (simp add: trx_good_def find_page_def)
  ultimately show ?thesis using f by simp
qed

section \<open>A transaction is a file again\<close>

lemma trx_read_run:
  assumes "tgood t"
  shows "\<exists>t'. trx_read A n t = (Inr (take n (drop (t_pos t) (tc t))), t') \<and> tgood t' \<and> tc t' = tc t
    \<and> content (t_file t') = content (t_file t) \<and> t_pos t' = t_pos t + length (take n (drop (t_pos t) (tc t)))"
  using trx_read_loop_run [OF assms, of 0 n "[]"] by (simp add: trx_read_def)

lemma trx_write_run:
  assumes "tgood t" and "t_pos t \<le> t_size t" and "t_pos t + length data < 2 ^ 63"
  shows "\<exists>t'. trx_write A data t = (Inr (length data), t') \<and> tgood t' \<and> tc t' = patch (t_pos t) data (tc t)
    \<and> content (t_file t') = content (t_file t) \<and> t_pos t' = t_pos t + length data"
  using trx_write_loop_run [OF assms] by (auto simp: trx_write_def bindP_def ret_def)

lemma trx_seek_run:
  assumes "tgood t" and "p < 2 ^ 63"
  shows "trx_seek p t = (Inr (), t\<lparr>t_pos := p\<rparr>)" and "tgood (t\<lparr>t_pos := p\<rparr>)"
    and "tc (t\<lparr>t_pos := p\<rparr>) = tc t"
  using trx_good_file [OF assms(1), of "t_file t" p] assms
  by (simp_all add: trx_seek_def modify_def trx_good_def)

lemma trx_new_run:
  assumes "good f"
  shows "\<exists>t f'. file_transaction_new A f = (Inr t, f') \<and> tgood t \<and> tc t = content f \<and> t_pos t = at f
    \<and> content (t_file t) = content f"
proof -
  obtain f' where f': "af_size A f = (Inr (length (content f)), f')" "good f'" "content f' = content f"
    using base.size [OF assms] by blast
  let ?t = "\<lparr>t_pos = at f, t_size = length (content f), t_dirty = om_empty, t_file = f'\<rparr>"
  have "file_transaction_new A f = (Inr ?t, f')"
    using base.pos [OF assms] f' by (simp add: file_transaction_new_def bindP_def)
  moreover have "tgood ?t" using base.bounds [OF assms] f' by (simp add: trx_good_def find_page_def)
  moreover have "tc ?t = content f"
    by (rule nth_equalityI) (simp_all add: nth_trx_content trx_byte_def find_page_def f')
  ultimately show ?thesis using f' by auto
qed

end

sublocale trx_base \<subseteq> trx: file_like "trx_ops A" "trx_content content" t_pos "trx_good content good"
proof
  fix t n assume t: "tgood t"
  show "\<exists>t'. af_read (trx_ops A) n t = (Inr (take n (drop (t_pos t) (tc t))), t') \<and> tgood t'
      \<and> tc t' = tc t \<and> t_pos t' = t_pos t + length (take n (drop (t_pos t) (tc t)))"
    using trx_read_run [OF t, of n] by (auto simp: trx_ops_def)
  show "\<exists>t'. af_size (trx_ops A) t = (Inr (length (tc t)), t') \<and> tgood t' \<and> tc t' = tc t \<and> t_pos t' = t_pos t"
    using t by (simp add: trx_ops_def trx_size_def asks_def)
  show "af_pos (trx_ops A) t = (Inr (t_pos t), t)"
    by (simp add: trx_ops_def trx_pos_def asks_def)
  show "length (tc t) < 2 ^ 63 \<and> t_pos t < 2 ^ 63"
    using t by (simp add: trx_good_def)
next
  fix t and bs :: bytes assume "tgood t" "t_pos t \<le> length (tc t)" "t_pos t + length bs < 2 ^ 63"
  then show "\<exists>t'. af_write (trx_ops A) bs t = (Inr (length bs), t') \<and> tgood t'
      \<and> tc t' = patch (t_pos t) bs (tc t) \<and> t_pos t' = t_pos t + length bs"
    using trx_write_run [of t bs] by (auto simp: trx_ops_def)
next
  fix t and p :: nat assume "tgood t" "p < 2 ^ 63"
  then show "\<exists>t'. af_seek (trx_ops A) p t = (Inr (), t') \<and> tgood t' \<and> tc t' = tc t \<and> t_pos t' = p"
    using trx_seek_run [of t p] by (auto simp: trx_ops_def)
qed

text \<open>On a file, and on a transaction on a file.\<close>

interpretation ft: trx_base cfile_ops cf_content cf_at cf_good
  by unfold_locales

interpretation tt: trx_base "trx_ops cfile_ops" "trx_content cf_content" t_pos "trx_good cf_content cf_good"
  by unfold_locales

section \<open>Properties\<close>

text \<open>An open file of three bytes and a fresh transaction on it, for the witnesses.\<close>

definition sample_file :: cfile where
  "sample_file = \<lparr>m_file = Open \<lparr>f_data = [1, 2, 3], f_pos = 1, f_eof = False, f_writable = True\<rparr>, m_path = ''state''\<rparr>"

definition sample_trx :: "cfile file_transaction" where
  "sample_trx = \<lparr>t_pos = 1, t_size = 3, t_dirty = om_empty, t_file = sample_file\<rparr>"

lemma sample_good: "cf_good sample_file" "trx_good cf_content cf_good sample_trx"
    "trx_content cf_content sample_trx = [1, 2, 3]"
  by (simp_all add: sample_file_def sample_trx_def cf_defs trx_good_def find_page_def trx_content_def trx_byte_def
      upt_rec)

text \<open>A read from a transaction returns the bytes of its own view from its position, clipped
  at its size, whether they lie in dirty pages, in the file below or in several of both, and
  moves only the position.\<close>

theorem trx_read_view:
  assumes "trx_good cf_content cf_good t"
  shows "\<exists>t'. trx_read cfile_ops n t = (Inr (take n (drop (t_pos t) (trx_content cf_content t))), t')
    \<and> trx_good cf_content cf_good t' \<and> trx_content cf_content t' = trx_content cf_content t
    \<and> t_pos t' = t_pos t + min n (t_size t - t_pos t)"
proof -
  have "length (take n (drop (t_pos t) (trx_content cf_content t))) = min n (t_size t - t_pos t)" by simp
  then show ?thesis using ft.trx_read_run [OF assms, of n] by metis
qed

lemma trx_read_view_witness:
  "\<exists>t'. trx_read cfile_ops 7 sample_trx = (Inr [2, 3], t') \<and> t_pos t' = 3"
  using trx_read_view [OF sample_good(2), of 7] by (simp add: sample_good) (auto simp: sample_trx_def)

text \<open>C32: a write to a transaction (from a position not past its end) changes its view exactly as
  writing the bytes into a file would, and leaves the file below untouched; reading them back
  from the same position returns them.\<close>

theorem trx_write_view:
  assumes "trx_good cf_content cf_good t" and "t_pos t \<le> t_size t" and "t_pos t + length data < 2 ^ 63"
  shows "\<exists>t'. trx_write cfile_ops data t = (Inr (length data), t') \<and> trx_good cf_content cf_good t'
    \<and> trx_content cf_content t' = patch (t_pos t) data (trx_content cf_content t)
    \<and> cf_content (t_file t') = cf_content (t_file t) \<and> t_pos t' = t_pos t + length data
    \<and> (\<exists>t''. bindP (trx_seek (t_pos t)) (\<lambda>_. trx_read cfile_ops (length data)) t' = (Inr data, t''))"
proof -
  obtain t' where t': "trx_write cfile_ops data t = (Inr (length data), t')" "trx_good cf_content cf_good t'"
      "trx_content cf_content t' = patch (t_pos t) data (trx_content cf_content t)"
      "cf_content (t_file t') = cf_content (t_file t)" "t_pos t' = t_pos t + length data"
    using ft.trx_write_run [OF assms] by blast
  have p: "t_pos t < 2 ^ 63" using assms(1) by (simp add: trx_good_def)
  have "take (length data) (drop (t_pos t) (patch (t_pos t) data (trx_content cf_content t))) = data"
    using assms(2) by (simp add: patch_def)
  then have "\<exists>t''. trx_read cfile_ops (length data) (t'\<lparr>t_pos := t_pos t\<rparr>) = (Inr data, t'')"
    using ft.trx_read_run [OF ft.trx_seek_run(2) [OF t'(2) p], of "length data"]
      ft.trx_seek_run(3) [OF t'(2) p] t'(3) by auto
  then show ?thesis
    using t' ft.trx_seek_run(1) [OF t'(2) p] by (simp add: bindP_def)
qed

lemma trx_write_view_witness:
  "\<exists>t'. trx_write cfile_ops [8, 9] sample_trx = (Inr 2, t') \<and> trx_content cf_content t' = [1, 8, 9]
     \<and> cf_content (t_file t') = [1, 2, 3]"
  using trx_write_view [OF sample_good(2), of "[8, 9]"]
  by (simp add: sample_good) (auto simp: sample_trx_def patch_def sample_file_def cf_defs)

text \<open>C33: \<open>commit\<close> of a transaction succeeds, makes the file below byte for byte what the
  transaction showed, empties the dirty pages and does not change what the transaction shows.\<close>

theorem trx_commit_flushes:
  assumes "trx_good cf_content cf_good t"
  shows "\<exists>t'. trx_commit cfile_ops t = (Inr True, t') \<and> trx_good cf_content cf_good t'
    \<and> cf_content (t_file t') = trx_content cf_content t \<and> trx_content cf_content t' = trx_content cf_content t
    \<and> t_dirty t' = om_empty \<and> t_pos t' = t_pos t"
  using ft.trx_commit_run [OF assms] by blast

lemma trx_commit_flushes_witness:
  "\<exists>t'. trx_commit cfile_ops sample_trx = (Inr True, t') \<and> cf_content (t_file t') = [1, 2, 3]"
  using trx_commit_flushes [OF sample_good(2)] by (auto simp: sample_good)

text \<open>Transactions chain. Committing a transaction whose base is itself a transaction makes
  the base transaction show what it showed, and committing the base then writes that to the file.\<close>

theorem trx_chain_commit:
  assumes "trx_good (trx_content cf_content) (trx_good cf_content cf_good) t"
  shows "\<exists>t' b'. trx_commit (trx_ops cfile_ops) t = (Inr True, t')
    \<and> trx_content cf_content (t_file t') = trx_content (trx_content cf_content) t
    \<and> trx_commit cfile_ops (t_file t') = (Inr True, b')
    \<and> cf_content (t_file b') = trx_content (trx_content cf_content) t"
proof -
  obtain t' where t': "trx_commit (trx_ops cfile_ops) t = (Inr True, t')"
      "trx_good (trx_content cf_content) (trx_good cf_content cf_good) t'"
      "trx_content cf_content (t_file t') = trx_content (trx_content cf_content) t"
    using tt.trx_commit_run [OF assms] by blast
  then have "trx_good cf_content cf_good (t_file t')" by (simp add: trx_good_def)
  then obtain b' where "trx_commit cfile_ops (t_file t') = (Inr True, b')"
      "cf_content (t_file b') = trx_content cf_content (t_file t')"
    using ft.trx_commit_run by blast
  then show ?thesis using t' by auto
qed

lemma trx_chain_commit_witness:
  "\<exists>t' b'. trx_commit (trx_ops cfile_ops) \<lparr>t_pos = 0, t_size = 3, t_dirty = om_empty, t_file = sample_trx\<rparr> = (Inr True, t')
     \<and> trx_commit cfile_ops (t_file t') = (Inr True, b') \<and> cf_content (t_file b') = [1, 2, 3]"
proof -
  let ?t = "\<lparr>t_pos = 0, t_size = 3, t_dirty = om_empty, t_file = sample_trx\<rparr>"
  have good: "trx_good (trx_content cf_content) (trx_good cf_content cf_good) ?t"
    using sample_good by (simp add: trx_good_def [of _ _ ?t] find_page_def)
  have view: "trx_content (trx_content cf_content) ?t = [1, 2, 3]"
    by (simp add: trx_content_def [of _ ?t] trx_byte_def [of _ ?t] find_page_def sample_good upt_rec)
  show ?thesis using trx_chain_commit [OF good] unfolding view by blast
qed

text \<open>\<open>file::close\<close> does not reset the stream, so a file that was closed explicitly is closed a
  second time when it is destroyed (or opened again), which C leaves undefined.\<close>

theorem close_then_destroy:
  "m_file f = Open s \<Longrightarrow> \<exists>f'. bindP cfile_close (\<lambda>_. cfile_destroy) f = (Inl (Undefined_Behaviour ''stream closed twice''), f')"
  by (simp add: bindP_def cfile_close_def cfile_destroy_def)

lemma close_then_destroy_witness:
  "\<exists>f'. bindP cfile_close (\<lambda>_. cfile_destroy) sample_file = (Inl (Undefined_Behaviour ''stream closed twice''), f')"
  using close_then_destroy [of sample_file] by (simp add: sample_file_def)

end
