(* ===== verification/KeyValueDb.thy ===== *)
theory KeyValueDb
  imports OrderedMap
begin

text \<open>
  libs/gpm/bdb/keyvalue_db.hpp: a class that "should behave the same as std::map except the
  back end is a database". Berkeley DB and the packing of keys and values
  (\<open>boost::rpc::raw\<close>) are third-party code, so they are parameters: \<open>'d bdb\<close> holds the calls
  on a database of type \<open>'d\<close>, \<open>'a codec\<close> the packing of a type. The predicates \<open>bdb_laws\<close> and
  \<open>codec_laws\<close> state what they are documented to do.
\<close>

section \<open>Packing\<close>

record 'a codec =
  pack :: "'a \<Rightarrow> bytes"
  unpack :: "bytes \<Rightarrow> exn + 'a"

definition codec_laws :: "'a codec \<Rightarrow> 'a set \<Rightarrow> bool" where
  \<comment> \<open>unpacking what was packed, for the values of \<open>V\<close>; \<open>raw\<close> reads a prefix of the bytes\<close>
  "codec_laws c V \<longleftrightarrow> (\<forall>x \<in> V. \<forall>rest. unpack c (pack c x @ rest) = Inr x)"

lemma codec_unpack: "codec_laws c V \<Longrightarrow> x \<in> V \<Longrightarrow> unpack c (pack c x) = Inr x"
  unfolding codec_laws_def by (metis append_Nil2)

lemma codec_unpack_append: "codec_laws c V \<Longrightarrow> x \<in> V \<Longrightarrow> unpack c (pack c x @ rest) = Inr x"
  unfolding codec_laws_def by blast

lemma codec_inj: "codec_laws c V \<Longrightarrow> x \<in> V \<Longrightarrow> y \<in> V \<Longrightarrow> pack c x = pack c y \<longleftrightarrow> x = y"
  by (metis Inr_inject codec_unpack)

section \<open>The database library\<close>

text \<open>
  A cursor is the key it stands at (\<open>None\<close> before the first \<open>DB_NEXT\<close>). \<open>db_get\<close> gives the
  entry found or \<open>None\<close> for \<open>DB_NOTFOUND\<close>; every call gets the comparison the class installed
  with \<open>set_bt_compare\<close>.
\<close>

type_synonym bt_compare = "bytes \<Rightarrow> bytes \<Rightarrow> exn + int"

datatype db_op =
    DB_SET bytes
  | DB_SET_RANGE bytes
  | DB_NEXT "bytes option"

record 'd bdb =
  db_put :: "bt_compare \<Rightarrow> bytes \<Rightarrow> bytes \<Rightarrow> 'd \<Rightarrow> 'd"
  db_del :: "bt_compare \<Rightarrow> bytes \<Rightarrow> 'd \<Rightarrow> bool \<times> 'd"
  db_get :: "bt_compare \<Rightarrow> db_op \<Rightarrow> 'd \<Rightarrow> (bytes \<times> bytes) option"

section \<open>The class\<close>

definition kv_compare :: "'k :: linorder codec \<Rightarrow> bt_compare" where
  "kv_compare kc key1 key2 =
     (case unpack kc key1 of
        Inl e \<Rightarrow> Inl e
      | Inr k1 \<Rightarrow>
          (case unpack kc key2 of
             Inl e \<Rightarrow> Inl e
           | Inr k2 \<Rightarrow> Inr (if k1 > k2 then 1 else if k1 = k2 then 0 else -1)))"

definition kv_set :: "'d bdb \<Rightarrow> 'k :: linorder codec \<Rightarrow> 'v codec \<Rightarrow> 'k \<Rightarrow> 'v \<Rightarrow> 'd \<Rightarrow> 'd" where
  "kv_set D kc vc k v d =
     (let vd = pack vc v; kd = pack kc k in db_put D (kv_compare kc) kd vd d)"

definition kv_remove :: "'d bdb \<Rightarrow> 'k :: linorder codec \<Rightarrow> 'k \<Rightarrow> 'd \<Rightarrow> bool \<times> 'd" where
  "kv_remove D kc k d = db_del D (kv_compare kc) (pack kc k) d"

text \<open>
  An iterator: the cursor, whether the last call found nothing (\<open>rtn == DB_NOTFOUND\<close>), and
  the unpacked key and value, \<open>None\<close> while they are not set.
\<close>

record ('k, 'v) kv_iterator =
  it_cur :: "bytes option"
  it_end :: bool
  it_key :: "'k option"
  it_value :: "'v option"

definition kv_load :: "'k codec \<Rightarrow> 'v codec \<Rightarrow> ('k, 'v) kv_iterator \<Rightarrow> (bytes \<times> bytes) option \<Rightarrow> exn + ('k, 'v) kv_iterator" where
  \<comment> \<open>what \<open>search\<close> and \<open>begin\<close> do with the entry the cursor found: unpack key and value\<close>
  "kv_load kc vc itr found =
     (case found of
        None \<Rightarrow> Inr (itr\<lparr>it_end := True\<rparr>)
      | Some (kd, vd) \<Rightarrow>
          (case unpack kc kd of
             Inl e \<Rightarrow> Inl e
           | Inr k \<Rightarrow>
               (case unpack vc vd of
                  Inl e \<Rightarrow> Inl e
                | Inr v \<Rightarrow> Inr \<lparr>it_cur = Some kd, it_end = False, it_key = Some k, it_value = Some v\<rparr>)))"

definition kv_search :: "'d bdb \<Rightarrow> 'k :: linorder codec \<Rightarrow> 'v codec \<Rightarrow> 'k \<Rightarrow> 'd \<Rightarrow> exn + ('k, 'v) kv_iterator" where
  "kv_search D kc vc k d =
     kv_load kc vc \<lparr>it_cur = None, it_end = False, it_key = Some k, it_value = None\<rparr>
       (db_get D (kv_compare kc) (DB_SET_RANGE (pack kc k)) d)"

definition kv_begin :: "'d bdb \<Rightarrow> 'k :: linorder codec \<Rightarrow> 'v codec \<Rightarrow> 'd \<Rightarrow> exn + ('k, 'v) kv_iterator" where
  "kv_begin D kc vc d =
     kv_load kc vc \<lparr>it_cur = None, it_end = False, it_key = None, it_value = None\<rparr>
       (db_get D (kv_compare kc) (DB_NEXT None) d)"

definition kv_next :: "'d bdb \<Rightarrow> 'k :: linorder codec \<Rightarrow> 'v codec \<Rightarrow> ('k, 'v) kv_iterator \<Rightarrow> 'd \<Rightarrow> exn + ('k, 'v) kv_iterator" where
  \<comment> \<open>both \<open>operator++\<close>; an empty key or value is not unpacked\<close>
  "kv_next D kc vc itr d =
     (case db_get D (kv_compare kc) (DB_NEXT (it_cur itr)) d of
        None \<Rightarrow> Inr (itr\<lparr>it_end := True\<rparr>)
      | Some (kd, vd) \<Rightarrow>
          (case (if kd = [] then Inr (it_key itr) else map_sum id Some (unpack kc kd)) of
             Inl e \<Rightarrow> Inl e
           | Inr k \<Rightarrow>
               (case (if vd = [] then Inr (it_value itr) else map_sum id Some (unpack vc vd)) of
                  Inl e \<Rightarrow> Inl e
                | Inr v \<Rightarrow> Inr \<lparr>it_cur = Some kd, it_end = False, it_key = k, it_value = v\<rparr>)))"

definition kv_find :: "'d bdb \<Rightarrow> 'k :: linorder codec \<Rightarrow> 'v codec \<Rightarrow> 'k \<Rightarrow> 'd \<Rightarrow> exn + ('k, 'v) kv_iterator" where
  "kv_find D kc vc k d =
     (let itr = \<lparr>it_cur = None, it_end = False, it_key = Some k, it_value = None\<rparr> in
      case db_get D (kv_compare kc) (DB_SET (pack kc k)) d of
        None \<Rightarrow> Inr (itr\<lparr>it_end := True\<rparr>)
      | Some (kd, vd) \<Rightarrow>
          (case unpack vc vd of
             Inl e \<Rightarrow> Inl e
           | Inr v \<Rightarrow> Inr (itr\<lparr>it_cur := Some kd, it_value := Some v\<rparr>)))"

definition kv_get :: "'d bdb \<Rightarrow> 'k :: linorder codec \<Rightarrow> 'v codec \<Rightarrow> 'k \<Rightarrow> 'd \<Rightarrow> exn + 'v option" where
  "kv_get D kc vc k d =
     (case kv_find D kc vc k d of
        Inl e \<Rightarrow> Inl e
      | Inr itr \<Rightarrow> if it_end itr then Inr None else Inr (it_value itr))"

text \<open>
  The operations of an iterator on itself. The copy constructor duplicates the cursor and copies
  \<open>rtn\<close>, but leaves key and value as the default constructors make them; assignment copies all.
\<close>

definition kv_iterator_copy :: "('k, 'v) kv_iterator \<Rightarrow> ('k, 'v) kv_iterator" where
  "kv_iterator_copy itr = itr\<lparr>it_key := None, it_value := None\<rparr>"

definition kv_iterator_assign :: "('k, 'v) kv_iterator \<Rightarrow> ('k, 'v) kv_iterator \<Rightarrow> ('k, 'v) kv_iterator" where
  "kv_iterator_assign itr i = i"

definition kv_iterator_remove ::
  "'d bdb \<Rightarrow> 'k :: linorder codec \<Rightarrow> ('k, 'v) kv_iterator \<Rightarrow> 'd \<Rightarrow> ('k, 'v) kv_iterator \<times> 'd" where
  \<comment> \<open>\<open>cur->del\<close> removes the entry at the cursor; without one the library reports an error, which is ignored\<close>
  "kv_iterator_remove D kc itr d =
     (itr\<lparr>it_end := True\<rparr>, case it_cur itr of None \<Rightarrow> d | Some kd \<Rightarrow> snd (db_del D (kv_compare kc) kd d))"

text \<open>
  \<open>count\<close> walks the cursor to the end. \<open>None\<close> is a walk that does not end; \<open>c\<close> is an \<open>int\<close>,
  kept at 32 bits.
\<close>

partial_function (option) kv_count_loop :: "'d bdb \<Rightarrow> bt_compare \<Rightarrow> 'd \<Rightarrow> bytes option \<Rightarrow> 32 word \<Rightarrow> 32 word option" where
  "kv_count_loop D cmp d cur c =
     (case db_get D cmp (DB_NEXT cur) d of
        None \<Rightarrow> Some c
      | Some (kd, vd) \<Rightarrow> kv_count_loop D cmp d (Some kd) (c + 1))"

definition kv_count :: "'d bdb \<Rightarrow> 'k :: linorder codec \<Rightarrow> 'd \<Rightarrow> exn + 32 word" where
  "kv_count D kc d =
     (case kv_count_loop D (kv_compare kc) d None 0 of None \<Rightarrow> Inl Diverges | Some c \<Rightarrow> Inr c)"

section \<open>What Berkeley DB is documented to do\<close>

text \<open>
  A B-tree keeps its entries in the order of the comparison; these are the operations on the
  list of entries.
\<close>

definition cmp_val :: "bt_compare \<Rightarrow> bytes \<Rightarrow> bytes \<Rightarrow> int" where
  "cmp_val cmp a b = (case cmp a b of Inl e \<Rightarrow> 0 | Inr i \<Rightarrow> i)"

primrec bt_put :: "bt_compare \<Rightarrow> bytes \<Rightarrow> bytes \<Rightarrow> (bytes \<times> bytes) list \<Rightarrow> (bytes \<times> bytes) list" where
  "bt_put cmp k v [] = [(k, v)]"
| "bt_put cmp k v (e # es) =
     (if cmp_val cmp k (fst e) < 0 then (k, v) # e # es
      else if cmp_val cmp k (fst e) = 0 then (fst e, v) # es
      else e # bt_put cmp k v es)"

fun bt_get :: "bt_compare \<Rightarrow> db_op \<Rightarrow> (bytes \<times> bytes) list \<Rightarrow> (bytes \<times> bytes) option" where
  "bt_get cmp (DB_SET k) es = List.find (\<lambda>e. cmp_val cmp (fst e) k = 0) es"
| "bt_get cmp (DB_SET_RANGE k) es = List.find (\<lambda>e. cmp_val cmp (fst e) k \<ge> 0) es"
| "bt_get cmp (DB_NEXT None) es = List.find (\<lambda>e. True) es"
| "bt_get cmp (DB_NEXT (Some k)) es = List.find (\<lambda>e. cmp_val cmp (fst e) k > 0) es"

definition bt_del :: "bt_compare \<Rightarrow> bytes \<Rightarrow> (bytes \<times> bytes) list \<Rightarrow> bool \<times> (bytes \<times> bytes) list" where
  "bt_del cmp k es =
     (bt_get cmp (DB_SET k) es \<noteq> None, filter (\<lambda>e. cmp_val cmp (fst e) k \<noteq> 0) es)"

definition bdb_laws :: "'d bdb \<Rightarrow> ('d \<Rightarrow> (bytes \<times> bytes) list) \<Rightarrow> bool" where
  "bdb_laws D ents \<longleftrightarrow>
     (\<forall>cmp k v d. ents (db_put D cmp k v d) = bt_put cmp k v (ents d))
     \<and> (\<forall>cmp k d. fst (db_del D cmp k d) = fst (bt_del cmp k (ents d))
          \<and> ents (snd (db_del D cmp k d)) = snd (bt_del cmp k (ents d)))
     \<and> (\<forall>cmp op d. db_get D cmp op d = bt_get cmp op (ents d))"

definition list_bdb :: "(bytes \<times> bytes) list bdb" where
  \<comment> \<open>a database that meets the laws: its list of entries\<close>
  "list_bdb = \<lparr>db_put = bt_put, db_del = bt_del, db_get = bt_get\<rparr>"

lemma list_bdb_laws: "bdb_laws list_bdb (\<lambda>es. es)"
  by (simp add: bdb_laws_def list_bdb_def)

section \<open>The class is a map\<close>

definition kv_ok ::
  "'d bdb \<Rightarrow> ('d \<Rightarrow> (bytes \<times> bytes) list) \<Rightarrow> 'k codec \<Rightarrow> 'v codec \<Rightarrow> 'k set \<Rightarrow> 'v set \<Rightarrow> bool" where
  \<comment> \<open>what the class relies on: the database, and packing of the keys \<open>K\<close> and values \<open>V\<close>\<close>
  "kv_ok D ents kc vc K V \<longleftrightarrow> bdb_laws D ents \<and> codec_laws kc K \<and> codec_laws vc V
     \<and> (\<forall>k \<in> K. pack kc k \<noteq> []) \<and> (\<forall>v \<in> V. pack vc v \<noteq> [])"

definition kv_repr :: "'k codec \<Rightarrow> 'v codec \<Rightarrow> ('k, 'v) omap \<Rightarrow> (bytes \<times> bytes) list" where
  "kv_repr kc vc m = map (\<lambda>(k, v). (pack kc k, pack vc v)) m"

definition kv_rep ::
  "('d \<Rightarrow> (bytes \<times> bytes) list) \<Rightarrow> 'k :: linorder codec \<Rightarrow> 'v codec \<Rightarrow> 'k set \<Rightarrow> 'v set \<Rightarrow> 'd \<Rightarrow> ('k, 'v) omap \<Rightarrow> bool" where
  \<comment> \<open>the database \<open>d\<close> holds the map \<open>m\<close>\<close>
  "kv_rep ents kc vc K V d m \<longleftrightarrow> ents d = kv_repr kc vc m \<and> om_wf m \<and> set m \<subseteq> K \<times> V"

definition kv_at :: "'k codec \<Rightarrow> ('k, 'v) kv_iterator \<Rightarrow> ('k, 'v) omap \<Rightarrow> bool" where
  \<comment> \<open>the database iterator stands where the map iterator \<open>s\<close> (the rest of the map) stands\<close>
  "kv_at kc itr s \<longleftrightarrow>
     (case s of
        [] \<Rightarrow> it_end itr
      | e # s' \<Rightarrow> itr = \<lparr>it_cur = Some (pack kc (fst e)), it_end = False, it_key = Some (fst e), it_value = Some (snd e)\<rparr>)"

lemma cmp_pack:
  assumes "codec_laws kc K" and "a \<in> K" and "b \<in> K"
  shows "cmp_val (kv_compare kc) (pack kc a) (pack kc b) = (if a > b then 1 else if a = b then 0 else -1)"
  using codec_unpack [OF assms(1,2)] codec_unpack [OF assms(1,3)] by (simp add: cmp_val_def kv_compare_def)

lemma cmp_pack_sign:
  assumes "codec_laws kc K" and "a \<in> K" and "b \<in> K"
  shows "cmp_val (kv_compare kc) (pack kc a) (pack kc b) < 0 \<longleftrightarrow> a < b"
    and "cmp_val (kv_compare kc) (pack kc a) (pack kc b) = 0 \<longleftrightarrow> a = b"
    and "cmp_val (kv_compare kc) (pack kc a) (pack kc b) > 0 \<longleftrightarrow> b < a"
    and "cmp_val (kv_compare kc) (pack kc a) (pack kc b) \<ge> 0 \<longleftrightarrow> b \<le> a"
  using cmp_pack [OF assms] by auto

lemma bt_put_repr:
  assumes "codec_laws kc K" and "k \<in> K" and "set m \<subseteq> K \<times> V"
  shows "bt_put (kv_compare kc) (pack kc k) (pack vc v) (kv_repr kc vc m) = kv_repr kc vc (om_set k v m)"
  using assms(3)
proof (induction m)
  case (Cons e m)
  obtain a b where e: "e = (a, b)" by (cases e)
  with Cons have "a \<in> K" by auto
  note cmp = cmp_pack_sign [OF assms(1,2) this]
  show ?case
    using Cons by (simp add: kv_repr_def cmp e)
qed (simp add: kv_repr_def)

lemma find_repr:
  assumes "\<forall>e \<in> set m. P (pack kc (fst e)) = Q (fst e)"
  shows "List.find (\<lambda>e. P (fst e)) (kv_repr kc vc m) = map_option (\<lambda>(k, v). (pack kc k, pack vc v)) (List.find (\<lambda>e. Q (fst e)) m)"
  using assms by (induction m) (simp_all add: kv_repr_def case_prod_unfold)

lemma find_dropWhile: "List.find P m = (case dropWhile (\<lambda>e. \<not> P e) m of [] \<Rightarrow> None | e # s \<Rightarrow> Some e)"
  by (induction m) auto

lemma find_om_find: "List.find (\<lambda>e. fst e = k) m = map_option (\<lambda>v. (k, v)) (om_find k m)"
  by (induction m) auto

text \<open>The three cursor calls, on a database that holds the map \<open>m\<close>.\<close>

lemma db_get_repr:
  assumes "kv_ok D ents kc vc K V" and "kv_rep ents kc vc K V d m" and k: "k \<in> K"
  shows "db_get D (kv_compare kc) (DB_SET (pack kc k)) d
      = map_option (\<lambda>(k, v). (pack kc k, pack vc v)) (List.find (\<lambda>e. fst e = k) m)"
    and "db_get D (kv_compare kc) (DB_SET_RANGE (pack kc k)) d
      = map_option (\<lambda>(k, v). (pack kc k, pack vc v)) (List.find (\<lambda>e. k \<le> fst e) m)"
    and "db_get D (kv_compare kc) (DB_NEXT (Some (pack kc k))) d
      = map_option (\<lambda>(k, v). (pack kc k, pack vc v)) (List.find (\<lambda>e. k < fst e) m)"
proof -
  have c: "codec_laws kc K" and laws: "bdb_laws D ents" using assms(1) by (simp_all add: kv_ok_def)
  have get: "db_get D cmp op d = bt_get cmp op (kv_repr kc vc m)" for cmp op
    using laws assms(2) by (simp add: bdb_laws_def kv_rep_def)
  have mK: "fst e \<in> K" if "e \<in> set m" for e using assms(2) that by (auto simp: kv_rep_def)
  show "db_get D (kv_compare kc) (DB_SET (pack kc k)) d
      = map_option (\<lambda>(k, v). (pack kc k, pack vc v)) (List.find (\<lambda>e. fst e = k) m)"
    unfolding get bt_get.simps
    by (rule find_repr [where P = "\<lambda>b. cmp_val (kv_compare kc) b (pack kc k) = 0"])
      (intro ballI cmp_pack_sign(2) [OF c _ k] mK)
  show "db_get D (kv_compare kc) (DB_SET_RANGE (pack kc k)) d
      = map_option (\<lambda>(k, v). (pack kc k, pack vc v)) (List.find (\<lambda>e. k \<le> fst e) m)"
    unfolding get bt_get.simps
    by (rule find_repr [where P = "\<lambda>b. cmp_val (kv_compare kc) b (pack kc k) \<ge> 0"])
      (intro ballI cmp_pack_sign(4) [OF c _ k] mK)
  show "db_get D (kv_compare kc) (DB_NEXT (Some (pack kc k))) d
      = map_option (\<lambda>(k, v). (pack kc k, pack vc v)) (List.find (\<lambda>e. k < fst e) m)"
    unfolding get bt_get.simps
    by (rule find_repr [where P = "\<lambda>b. cmp_val (kv_compare kc) b (pack kc k) > 0"])
      (intro ballI cmp_pack_sign(3) [OF c _ k] mK)
qed

lemma kv_get_map:
  assumes "kv_ok D ents kc vc K V" and "kv_rep ents kc vc K V d m" and "k \<in> K"
  shows "kv_get D kc vc k d = Inr (om_find k m)"
proof -
  have *: "db_get D (kv_compare kc) (DB_SET (pack kc k)) d = map_option (\<lambda>v. (pack kc k, pack vc v)) (om_find k m)"
    by (simp add: db_get_repr [OF assms] find_om_find option.map_comp comp_def)
  show ?thesis
  proof (cases "om_find k m")
    case None
    with * show ?thesis by (simp add: kv_get_def kv_find_def)
  next
    case (Some v)
    then have "v \<in> V" using assms(2) by (auto simp: kv_rep_def om_find_in)
    then have "unpack vc (pack vc v) = Inr v" using assms(1) by (auto simp: kv_ok_def intro: codec_unpack)
    with * Some show ?thesis by (simp add: kv_get_def kv_find_def)
  qed
qed

lemma kv_set_map:
  assumes "kv_ok D ents kc vc K V" and "kv_rep ents kc vc K V d m" and "k \<in> K" and "v \<in> V"
  shows "kv_rep ents kc vc K V (kv_set D kc vc k v d) (om_set k v m)"
proof -
  have "ents (kv_set D kc vc k v d) = kv_repr kc vc (om_set k v m)"
    using assms bt_put_repr [of kc K k m V vc v] by (simp add: kv_set_def kv_ok_def kv_rep_def bdb_laws_def)
  moreover have "set (om_set k v m) \<subseteq> K \<times> V"
    using assms set_om_set [of _ k v m] by (auto simp: kv_rep_def)
  ultimately show ?thesis using assms by (simp add: kv_rep_def om_set_wf)
qed

lemma kv_remove_map:
  assumes "kv_ok D ents kc vc K V" and "kv_rep ents kc vc K V d m" and "k \<in> K"
  shows "kv_rep ents kc vc K V (snd (kv_remove D kc k d)) (om_erase k m)"
    and "fst (kv_remove D kc k d) \<longleftrightarrow> om_find k m \<noteq> None"
proof -
  have c: "codec_laws kc K" and e: "ents d = kv_repr kc vc m" and mK: "set m \<subseteq> K \<times> V"
    using assms(1,2) by (simp_all add: kv_ok_def kv_rep_def)
  have "filter (\<lambda>e. cmp_val (kv_compare kc) (fst e) (pack kc k) \<noteq> 0) (kv_repr kc vc m) = kv_repr kc vc (om_erase k m)"
    using mK
  proof (induction m)
    case (Cons x m)
    then have "fst x \<in> K" by auto
    then have "cmp_val (kv_compare kc) (pack kc (fst x)) (pack kc k) = 0 \<longleftrightarrow> fst x = k"
      by (rule cmp_pack_sign(2) [OF c _ assms(3)])
    then show ?case using Cons by (simp add: kv_repr_def om_erase_def case_prod_unfold)
  qed (simp add: kv_repr_def om_erase_def)
  then have "ents (snd (kv_remove D kc k d)) = kv_repr kc vc (om_erase k m)"
    using assms(1) e by (simp add: kv_remove_def kv_ok_def bdb_laws_def bt_del_def)
  then show "kv_rep ents kc vc K V (snd (kv_remove D kc k d)) (om_erase k m)"
    using assms(2) mK om_erase_wf [of m k] by (auto simp: kv_rep_def om_erase_def)
  have "fst (kv_remove D kc k d) \<longleftrightarrow> db_get D (kv_compare kc) (DB_SET (pack kc k)) d \<noteq> None"
    using assms(1) e by (simp add: kv_remove_def kv_ok_def bdb_laws_def bt_del_def)
  then show "fst (kv_remove D kc k d) \<longleftrightarrow> om_find k m \<noteq> None"
    by (simp add: db_get_repr [OF assms] find_om_find)
qed

lemma kv_iterator_remove_map:
  assumes "kv_ok D ents kc vc K V" and "kv_rep ents kc vc K V d m" and "k \<in> K" and "it_cur itr = Some (pack kc k)"
  shows "kv_rep ents kc vc K V (snd (kv_iterator_remove D kc itr d)) (om_erase k m)"
  using kv_remove_map(1) [OF assms(1-3)] assms(4) by (simp add: kv_iterator_remove_def kv_remove_def)

lemma kv_find_map:
  assumes "kv_ok D ents kc vc K V" and "kv_rep ents kc vc K V d m" and "k \<in> K"
  shows "\<exists>itr. kv_find D kc vc k d = Inr itr \<and> it_end itr = (om_find k m = None)
    \<and> (\<forall>v. om_find k m = Some v \<longrightarrow> it_value itr = Some v)"
proof -
  have *: "db_get D (kv_compare kc) (DB_SET (pack kc k)) d = map_option (\<lambda>v. (pack kc k, pack vc v)) (om_find k m)"
    by (simp add: db_get_repr [OF assms] find_om_find option.map_comp comp_def)
  show ?thesis
  proof (cases "om_find k m")
    case None
    with * show ?thesis by (simp add: kv_find_def)
  next
    case (Some v)
    then have "v \<in> V" using assms(2) by (auto simp: kv_rep_def om_find_in)
    then have "unpack vc (pack vc v) = Inr v" using assms(1) by (auto simp: kv_ok_def intro: codec_unpack)
    with * Some show ?thesis by (simp add: kv_find_def)
  qed
qed

lemma kv_load_at:
  assumes "kv_ok D ents kc vc K V" and "set s \<subseteq> K \<times> V"
  shows "\<exists>itr. kv_load kc vc itr0 (case s of [] \<Rightarrow> None | e # s' \<Rightarrow> Some (pack kc (fst e), pack vc (snd e))) = Inr itr
    \<and> kv_at kc itr s"
proof (cases s)
  case (Cons e s')
  then have "unpack kc (pack kc (fst e)) = Inr (fst e)" "unpack vc (pack vc (snd e)) = Inr (snd e)"
    using assms by (auto simp: kv_ok_def intro!: codec_unpack)
  then show ?thesis by (simp add: kv_load_def kv_at_def Cons)
qed (simp add: kv_load_def kv_at_def)

lemma case_map_option: "map_option f (case s of [] \<Rightarrow> None | e # s' \<Rightarrow> Some e) = (case s of [] \<Rightarrow> None | e # s' \<Rightarrow> Some (f e))"
  by (cases s) auto

lemma kv_search_at:
  assumes "kv_ok D ents kc vc K V" and "kv_rep ents kc vc K V d m" and "k \<in> K"
  shows "\<exists>itr. kv_search D kc vc k d = Inr itr \<and> kv_at kc itr (om_lower_bound k m)"
proof -
  have "db_get D (kv_compare kc) (DB_SET_RANGE (pack kc k)) d
      = map_option (\<lambda>(k, v). (pack kc k, pack vc v)) (List.find (\<lambda>e. k \<le> fst e) m)"
    by (rule db_get_repr [OF assms])
  also have "List.find (\<lambda>e. k \<le> fst e) m = (case om_lower_bound k m of [] \<Rightarrow> None | e # s \<Rightarrow> Some e)"
    by (simp add: find_dropWhile om_lower_bound_def not_le)
  finally have "db_get D (kv_compare kc) (DB_SET_RANGE (pack kc k)) d
      = (case om_lower_bound k m of [] \<Rightarrow> None | e # s \<Rightarrow> Some (pack kc (fst e), pack vc (snd e)))"
    by (simp add: case_map_option case_prod_unfold)
  moreover have "set (om_lower_bound k m) \<subseteq> K \<times> V"
    using assms(2) by (auto simp: om_lower_bound_def kv_rep_def dest: set_dropWhileD)
  ultimately show ?thesis
    using kv_load_at [OF assms(1)] by (simp add: kv_search_def)
qed

lemma db_next_at:
  assumes "kv_ok D ents kc vc K V" and "kv_rep ents kc vc K V d (pre @ e # s)"
  shows "db_get D (kv_compare kc) (DB_NEXT (Some (pack kc (fst e)))) d
    = (case s of [] \<Rightarrow> None | e # s' \<Rightarrow> Some (pack kc (fst e), pack vc (snd e)))"
proof -
  have K: "fst x \<in> K" if "x \<in> set (pre @ e # s)" for x using assms(2) that by (auto simp: kv_rep_def)
  have "db_get D (kv_compare kc) (DB_NEXT (Some (pack kc (fst e)))) d
      = map_option (\<lambda>(k, v). (pack kc k, pack vc v)) (List.find (\<lambda>x. fst e < fst x) (pre @ e # s))"
    by (rule db_get_repr [OF assms]) (simp add: K)
  also have "List.find (\<lambda>x. fst e < fst x) (pre @ e # s) = List.find (\<lambda>x. fst e < fst x) s"
  proof -
    have "om_wf (pre @ e # s)" using assms(2) by (simp add: kv_rep_def)
    then show ?thesis by (induction pre) (auto simp: om_wf_Cons)
  qed
  also have "\<dots> = (case s of [] \<Rightarrow> None | e # s' \<Rightarrow> Some e)"
    using assms(2) by (cases s) (auto simp: kv_rep_def om_wf_def sorted_wrt_append)
  finally show ?thesis by (simp add: case_map_option case_prod_unfold)
qed

lemma kv_next_at:
  assumes "kv_ok D ents kc vc K V" and "kv_rep ents kc vc K V d (pre @ e # s)" and "kv_at kc itr (e # s)"
  shows "\<exists>itr'. kv_next D kc vc itr d = Inr itr' \<and> kv_at kc itr' s"
proof -
  have cur: "it_cur itr = Some (pack kc (fst e))" using assms(3) by (simp add: kv_at_def)
  show ?thesis
  proof (cases s)
    case Nil
    then show ?thesis using db_next_at [OF assms(1,2)] cur by (simp add: kv_next_def kv_at_def)
  next
    case (Cons e' s')
    have "fst e' \<in> K" "snd e' \<in> V" using assms(2) Cons by (auto simp: kv_rep_def)
    then have "unpack kc (pack kc (fst e')) = Inr (fst e')" "unpack vc (pack vc (snd e')) = Inr (snd e')"
        "pack kc (fst e') \<noteq> []" "pack vc (snd e') \<noteq> []"
      using assms(1) by (auto simp: kv_ok_def intro!: codec_unpack)
    then show ?thesis using db_next_at [OF assms(1,2)] cur Cons by (simp add: kv_next_def kv_at_def)
  qed
qed

lemma kv_count_suffix:
  assumes "kv_ok D ents kc vc K V" and "kv_rep ents kc vc K V d (pre @ e # s)"
  shows "kv_count_loop D (kv_compare kc) d (Some (pack kc (fst e))) c = Some (c + of_nat (length s))"
  using assms(2)
proof (induction s arbitrary: pre e c)
  case Nil
  then show ?case using db_next_at [OF assms(1) Nil] by (simp add: kv_count_loop.simps)
next
  case (Cons e' s)
  then show ?case
    using db_next_at [OF assms(1) Cons.prems] Cons.IH [of "pre @ [e]" e' "c + 1"]
    by (simp add: kv_count_loop.simps [of _ _ _ "Some (pack kc (fst e))"] algebra_simps)
qed

lemma kv_count_map:
  assumes "kv_ok D ents kc vc K V" and "kv_rep ents kc vc K V d m"
  shows "kv_count D kc d = Inr (of_nat (length m))"
proof -
  have "db_get D (kv_compare kc) (DB_NEXT None) d
      = (case m of [] \<Rightarrow> None | e # s' \<Rightarrow> Some (pack kc (fst e), pack vc (snd e)))"
    using assms by (cases m) (auto simp: kv_ok_def kv_rep_def bdb_laws_def kv_repr_def)
  then show ?thesis
    using assms kv_count_suffix [OF assms(1), where pre = "[]"]
    by (cases m) (auto simp: kv_count_def kv_count_loop.simps [of _ _ _ None])
qed

section \<open>Properties\<close>

text \<open>Packing of a 64-bit number, and a database of two entries, for the witnesses.\<close>

definition u64_codec :: "u64 codec" where
  "u64_codec = \<lparr>pack = \<lambda>x. le_bytes 8 (unat x),
     unpack = \<lambda>bs. if length bs < 8 then Inl Unpack_Error else Inr (of_nat (le_val (take 8 bs)))\<rparr>"

lemma u64_codec_laws: "codec_laws u64_codec UNIV" "pack u64_codec x \<noteq> []"
proof -
  have "unat x < 256 ^ 8" for x :: u64 using unsigned_less [where 'a = nat, of x] by simp
  then show "codec_laws u64_codec UNIV"
    by (simp add: codec_laws_def u64_codec_def le_val_le_bytes)
  show "pack u64_codec x \<noteq> []" by (simp add: u64_codec_def flip: length_0_conv)
qed

lemma sample_kv: "kv_ok list_bdb (\<lambda>es. es) u64_codec u64_codec UNIV UNIV"
  "kv_rep (\<lambda>es. es) u64_codec u64_codec UNIV UNIV (kv_repr u64_codec u64_codec [(3, 7), (5, 9)]) [(3, 7), (5, 9)]"
  by (simp_all add: kv_ok_def list_bdb_laws u64_codec_laws kv_rep_def om_wf_def)

text \<open>C39: the database class behaves like \<open>std::map\<close>: over a database that holds the map \<open>m\<close>, \<open>get\<close>
  finds what the map holds, \<open>set\<close> makes it hold the updated map, and \<open>count\<close> is its size (as a
  32-bit int).\<close>

theorem keyvalue_db_is_map:
  assumes "kv_ok D ents kc vc K V" and "kv_rep ents kc vc K V d m" and "k \<in> K" and "v \<in> V"
  shows "kv_get D kc vc k d = Inr (om_find k m)
    \<and> kv_rep ents kc vc K V (kv_set D kc vc k v d) (om_set k v m)
    \<and> kv_count D kc d = Inr (of_nat (length m))"
  using kv_get_map [OF assms(1-3)] kv_set_map [OF assms] kv_count_map [OF assms(1,2)] by simp

lemma keyvalue_db_is_map_witness:
  "kv_get list_bdb u64_codec u64_codec 5 (kv_repr u64_codec u64_codec [(3, 7), (5, 9)]) = Inr (Some 9)"
  using keyvalue_db_is_map [OF sample_kv, of 5 0] by simp

text \<open>C40: \<open>search\<close> puts an iterator on the map's \<open>lower_bound\<close> and \<open>++\<close> moves it to the next entry, so
  a walk over the database visits the entries of the map from there in key order.\<close>

theorem keyvalue_db_iterates:
  assumes "kv_ok D ents kc vc K V" and "kv_rep ents kc vc K V d m" and "k \<in> K"
  shows "(\<exists>itr. kv_search D kc vc k d = Inr itr \<and> kv_at kc itr (om_lower_bound k m))
    \<and> (\<forall>pre e s itr. m = pre @ e # s \<and> kv_at kc itr (e # s) \<longrightarrow>
          (\<exists>itr'. kv_next D kc vc itr d = Inr itr' \<and> kv_at kc itr' s))"
  using kv_search_at [OF assms] kv_next_at [OF assms(1)] assms(2) by blast

lemma keyvalue_db_iterates_witness:
  "\<exists>itr. kv_search list_bdb u64_codec u64_codec 4 (kv_repr u64_codec u64_codec [(3, 7), (5, 9)]) = Inr itr
     \<and> it_key itr = Some 5 \<and> it_value itr = Some 9"
  using keyvalue_db_iterates [OF sample_kv, of 4] by (auto simp: om_lower_bound_def kv_at_def)

end
