(* ===== verification/Types.thy ===== *)
theory Types
  imports KeyValueDb
begin

text \<open>
  The data of the market: the commands and transactions of libs/gpm/block_chain/command.hpp
  and transaction.hpp, the block structures of block.hpp, the log records and the account key
  of libs/gpm/statedb/state_database.hpp, and the record \<open>env\<close> of the third-party functions
  the program calls. A C++ field \<open>x\<close> of a struct with short name \<open>s\<close> is the field \<open>s_x\<close>.
\<close>

section \<open>Hashes, keys and signatures\<close>

type_synonym sha1 = "160 word" \<comment> \<open>the 20 bytes of a \<open>sha1_hashcode\<close>, the first the most significant\<close>
type_synonym public_key = "2048 word" \<comment> \<open>the 256 bytes of \<open>public_key<2048>\<close>\<close>
type_synonym signature = "2048 word"

definition empty_public_key :: public_key where
  "empty_public_key = 0"

section \<open>Commands\<close>

record register_name =
  rn_name :: string
  rn_pub_key :: public_key

record issue_cmd =
  is_stock_name :: string

record transfer_cmd =
  tr_amount :: u64
  tr_stock_name :: string
  tr_from_name :: string
  tr_to_name :: string

definition register_name_id :: u16 where "register_name_id = 1"
definition issue_id :: u16 where "issue_id = 2"
definition transfer_id :: u16 where "transfer_id = 3"

record command =
  c_id :: u16
  c_data :: bytes

section \<open>Transactions\<close>

record transaction =
  trx_utc_time :: u64
  trx_commands :: "command list"

record signed_transaction =
  strx_trx :: transaction
  strx_sigs :: "signature list"

definition strx_less :: "signed_transaction \<Rightarrow> signed_transaction \<Rightarrow> bool" where
  "strx_less a b \<longleftrightarrow> trx_utc_time (strx_trx a) < trx_utc_time (strx_trx b)"

section \<open>Blocks\<close>

record block =
  blk_prev_block :: sha1
  blk_version :: u16
  blk_utc_time :: u32
  blk_state :: sha1
  blk_nonce :: u64

definition block_new :: block where
  \<comment> \<open>the default constructor; a default \<open>sha1_hashcode\<close> is zero\<close>
  "block_new = \<lparr>blk_prev_block = 0, blk_version = 0, blk_utc_time = 0, blk_state = 0, blk_nonce = 0\<rparr>"

record block_state =
  bs_index :: u32
  bs_generator_name :: string
  bs_state_db :: sha1
  bs_signed_transactions :: "sha1 list"

record full_block_state =
  fbs_index :: "32 word"
  fbs_head_index :: "32 word"
  fbs_blk :: block
  fbs_blk_state :: block_state
  fbs_trxs :: "signed_transaction list"

type_synonym block_chain = "block list"

section \<open>Records of the state log\<close>

record define_name =
  dn_name :: string
  dn_key :: public_key

record update_name =
  un_name_idx :: u64
  un_key :: public_key
  un_last_update_idx :: u64

record transfer_log =
  tl_amount :: u64
  tl_type_name :: u64
  tl_from_name :: u64
  tl_to_name :: u64
  tl_new_from_bal :: u64
  tl_new_to_bal :: u64
  tl_last_from_trx :: u64
  tl_last_to_trx :: u64
  tl_trx_idx :: u64

record start_trx =
  st_trx_hash :: sha1
  st_utc_time :: u64

record end_block = \<comment> \<open>without \<open>block_num\<close>, which is neither packed nor read\<close>
  eb_blk :: block
  eb_generator :: string

definition define_name_id :: u16 where "define_name_id = 1"
definition update_name_id :: u16 where "update_name_id = 2"
definition transfer_log_id :: u16 where "transfer_log_id = 3"
definition start_trx_id :: u16 where "start_trx_id = 4"
definition end_block_id :: u16 where "end_block_id = 5"

record state_record =
  sr_id :: u16
  sr_data :: bytes
  sr_previous :: u64

definition state_record_new :: state_record where
  "state_record_new = \<lparr>sr_id = 0, sr_data = [], sr_previous = 0\<rparr>"

definition state_record_of :: "'m codec \<Rightarrow> u16 \<Rightarrow> 'm \<Rightarrow> state_record" where
  \<comment> \<open>the constructor from a message; it leaves \<open>previous\<close> unset, and \<open>append_record\<close> sets it\<close>
  "state_record_of c i m = \<lparr>sr_id = i, sr_data = pack c m, sr_previous = 0\<rparr>"

definition cast_record :: "'m codec \<Rightarrow> u16 \<Rightarrow> state_record \<Rightarrow> exn + 'm" where
  "cast_record c i r =
     (if sr_id r \<noteq> i then Inl (Gpm_Exception ''Invalid attempt to cast record'') else unpack c (sr_data r))"

definition cast_command :: "'m codec \<Rightarrow> u16 \<Rightarrow> command \<Rightarrow> exn + 'm" where
  "cast_command c i m =
     (if c_id m \<noteq> i then Inl (Gpm_Exception ''Invalid attempt to cast command'') else unpack c (c_data m))"

definition command_of :: "'m codec \<Rightarrow> u16 \<Rightarrow> 'm \<Rightarrow> command" where
  "command_of c i m = \<lparr>c_id = i, c_data = pack c m\<rparr>"

section \<open>Account keys and their order\<close>

datatype account_key = Account_Key (account_name: u64) (type_name: u64)

definition account_key_less :: "account_key \<Rightarrow> account_key \<Rightarrow> bool" where
  "account_key_less k c =
     (if account_name k < account_name c then True
      else account_name k = account_name c \<and> type_name k < type_name c)"

definition account_key_greater :: "account_key \<Rightarrow> account_key \<Rightarrow> bool" where
  "account_key_greater k c =
     (if account_name k > account_name c then True
      else account_name k = account_name c \<and> type_name k > type_name c)"

instantiation account_key :: linorder
begin

definition less_account_key :: "account_key \<Rightarrow> account_key \<Rightarrow> bool" where
  "less_account_key = account_key_less"

definition less_eq_account_key :: "account_key \<Rightarrow> account_key \<Rightarrow> bool" where
  "less_eq_account_key a b \<longleftrightarrow> account_key_less a b \<or> a = b"

instance
proof
  fix x y z :: account_key
  show "x < y \<longleftrightarrow> x \<le> y \<and> \<not> y \<le> x"
    by (cases x; cases y) (auto simp: less_account_key_def less_eq_account_key_def account_key_less_def)
  show "x \<le> x" by (simp add: less_eq_account_key_def)
  show "x \<le> y \<Longrightarrow> y \<le> z \<Longrightarrow> x \<le> z"
    by (cases x; cases y; cases z) (auto simp: less_eq_account_key_def account_key_less_def split: if_splits)
  show "x \<le> y \<Longrightarrow> y \<le> x \<Longrightarrow> x = y"
    by (cases x; cases y) (auto simp: less_eq_account_key_def account_key_less_def split: if_splits)
  show "x \<le> y \<or> y \<le> x"
    by (cases x; cases y) (auto simp: less_eq_account_key_def account_key_less_def)
qed

end

lemma account_key_less_eq: "account_key_less a b \<longleftrightarrow> a < b"
  by (simp add: less_account_key_def)

lemma account_key_greater_eq: "account_key_greater a b \<longleftrightarrow> b < a"
  by (cases a; cases b) (auto simp: account_key_greater_def less_account_key_def account_key_less_def)

section \<open>Third-party functions\<close>

text \<open>
  What the program calls in other libraries, with its argument and result types: the packing
  of the structs (\<open>boost::rpc::raw\<close>) and the hashes of packed structs, SHA-1 of bytes and the
  order of hashes, super-fast-hash and base 64 (boost.rpc), RSA verification (OpenSSL),
  Berkeley DB over a database type \<open>'d\<close>, and \<open>std::sort\<close> on transactions by their time, which
  may order transactions of one time in any way.
\<close>

record 'd env =
  e_record :: "state_record codec"
  e_define_name :: "define_name codec"
  e_update_name :: "update_name codec"
  e_transfer_log :: "transfer_log codec"
  e_start_trx :: "start_trx codec"
  e_end_block :: "end_block codec"
  e_register_name :: "register_name codec"
  e_issue :: "issue_cmd codec"
  e_transfer :: "transfer_cmd codec"
  e_account_key :: "account_key codec"
  e_string :: "string codec"
  e_uint64 :: "u64 codec"
  e_trx_key :: "(u32 \<times> sha1) codec"
  e_strx :: "signed_transaction codec"
  e_sha1_key :: "sha1 codec"
  e_block_state :: "block_state codec"
  e_chain :: "block_chain codec"
  e_sha1 :: "bytes \<Rightarrow> sha1"
  e_hash_pub :: "public_key \<Rightarrow> sha1"
  e_hash_trx :: "transaction \<Rightarrow> sha1"
  e_hash_strx :: "signed_transaction \<Rightarrow> sha1"
  e_hash_block :: "block \<Rightarrow> sha1"
  e_hash_block_state :: "block_state \<Rightarrow> sha1"
  e_hash_hashes :: "sha1 list \<Rightarrow> sha1"
  e_hash_greater :: "sha1 \<Rightarrow> sha1 \<Rightarrow> bool"
  e_hash_less :: "sha1 \<Rightarrow> sha1 \<Rightarrow> bool"
  e_super_fast_hash :: "bytes \<Rightarrow> u32"
  e_base64_encode :: "bytes \<Rightarrow> string"
  e_base64_decode :: "string \<Rightarrow> bytes"
  e_rsa_verify :: "public_key \<Rightarrow> sha1 \<Rightarrow> signature \<Rightarrow> bool"
  e_rsa_sign :: "bytes \<Rightarrow> sha1 \<Rightarrow> exn + signature"
  e_sort_by_time :: "(sha1 \<times> signed_transaction) list \<Rightarrow> (sha1 \<times> signed_transaction) list"
  e_bdb :: "'d bdb"

definition strx_verify :: "'d env \<Rightarrow> signed_transaction \<Rightarrow> public_key \<Rightarrow> bool" where
  \<comment> \<open>some signature of the transaction is by the key\<close>
  "strx_verify E s pk = (let hash = e_hash_trx E (strx_trx s) in list_ex (\<lambda>sig. e_rsa_verify E pk hash sig) (strx_sigs s))"

definition strx_sign :: "'d env \<Rightarrow> bytes \<Rightarrow> signed_transaction \<Rightarrow> exn + signed_transaction" where
  \<comment> \<open>\<open>sign\<close>, for a private key given by its PEM bytes\<close>
  "strx_sign E priv s =
     (case e_rsa_sign E priv (e_hash_trx E (strx_trx s)) of
        Inl e \<Rightarrow> Inl e
      | Inr sig \<Rightarrow> Inr (s\<lparr>strx_sigs := strx_sigs s @ [sig]\<rparr>))"

lemma strx_verify_iff:
  "strx_verify E s pk \<longleftrightarrow> (\<exists>sig \<in> set (strx_sigs s). e_rsa_verify E pk (e_hash_trx E (strx_trx s)) sig)"
  by (simp add: strx_verify_def list_ex_iff Let_def)

section \<open>Addresses\<close>

text \<open>\<open>encode_address\<close> and \<open>validate_address_format\<close> of libs/gpm/block_chain/block.cpp.\<close>

definition sha1_to_bytes :: "sha1 \<Rightarrow> bytes" where
  "sha1_to_bytes h = be_bytes 20 (unat h)"

definition validate_address_format :: "'d env \<Rightarrow> string \<Rightarrow> bool" where
  "validate_address_format E addr =
     (let dec = e_base64_decode E addr in
      if length dec < 20 then False
      else
        let sfh = take 4 dec;
            test = le_bytes 4 (unat (e_super_fast_hash E (take 16 (drop 4 dec))));
            test = test[0 := 0xff]
        in sfh = test)"

definition encode_address :: "'d env \<Rightarrow> public_key \<Rightarrow> string" where
  "encode_address E pub =
     (let hc = sha1_to_bytes (e_hash_pub E pub);
          hc = le_bytes 4 (unat (e_super_fast_hash E (drop 4 hc))) @ drop 4 hc;
          h = hc[0 := 0xff];
          en = e_base64_encode E h
      in if \<not> validate_address_format E en then ''ERROR'' else en)"

lemma encode_address_format:
  assumes "\<And>b. e_base64_decode E (e_base64_encode E b) = b"
  shows "validate_address_format E (encode_address E pub)"
proof -
  let ?h = "sha1_to_bytes (e_hash_pub E pub)"
  have len: "length ?h = 20" by (simp add: sha1_to_bytes_def)
  let ?v = "le_bytes 4 (unat (e_super_fast_hash E (drop 4 ?h)))"
  have v4: "length ?v = 4" by simp
  let ?d = "(?v @ drop 4 ?h)[0 := 0xff]"
  have d: "?d = ?v[0 := 0xff] @ drop 4 ?h" using v4 by (simp add: list_update_append1 del: length_le_bytes)
  have "validate_address_format E (e_base64_encode E ?d)"
    unfolding validate_address_format_def assms Let_def d using len by simp
  then show ?thesis by (simp add: encode_address_def Let_def)
qed

end
