(* ===== verification/StateDb.thy ===== *)
theory StateDb
  imports Types TrxFile
begin

text \<open>
  libs/gpm/statedb/state_database.hpp and state_database.cpp: the log of all changes to names
  and balances, as a chain of transactions over a database on disk.

  An object of the class hierarchy is a value of \<open>'d sdb\<close>: \<open>Trx b l\<close> is a
  \<open>state_database_transaction\<close> with base \<open>b\<close> and the members it keeps itself in \<open>l\<close>;
  \<open>State_Db f td nd l\<close> is an opened \<open>state_database\<close>, with the stream of its file \<open>state\<close>, its
  two Berkeley databases and its own \<open>l\<close> (its \<open>base\<close> is null). A virtual function is a
  function on \<open>'d sdb\<close> by cases; the functions defined once in the base class call it on the
  whole object. Positions and lengths are 64-bit words, as in the code. \<open>size()\<close> of the file
  leaves the stream as it was, but for the end-of-file flag, which nothing reads; the position
  of the stream is part of the state, because \<open>commit\<close> writes at it.
\<close>

section \<open>Objects\<close>

record layer =
  local_changes :: bytes
  last_transfer_map :: "(account_key, u64) omap"
  last_name_edit_map :: "(string, u64) omap"

definition empty_layer :: layer where
  "empty_layer = \<lparr>local_changes = [], last_transfer_map = om_empty, last_name_edit_map = om_empty\<rparr>"

datatype 'd sdb =
    Trx "'d sdb option" layer
  | State_Db FILE 'd 'd layer

definition trx_new :: "'d sdb option \<Rightarrow> 'd sdb" where
  "trx_new base = Trx base empty_layer"

primrec layer_of :: "'d sdb \<Rightarrow> layer" where
  "layer_of (Trx b l) = l"
| "layer_of (State_Db f td nd l) = l"

primrec set_layer :: "layer \<Rightarrow> 'd sdb \<Rightarrow> 'd sdb" where
  "set_layer l' (Trx b l) = Trx b l'"
| "set_layer l' (State_Db f td nd l) = State_Db f td nd l'"

definition on_layer :: "(layer \<Rightarrow> layer) \<Rightarrow> ('d sdb, unit) prog" where
  "on_layer g s = (Inr (), set_layer (g (layer_of s)) s)"

section \<open>Size and reading\<close>

definition len64 :: "'a list \<Rightarrow> u64" where
  "len64 xs = of_nat (length xs)"

fun sdb_size :: "'d sdb \<Rightarrow> u64" where
  "sdb_size (Trx None l) = 0 + len64 (local_changes l)"
| "sdb_size (Trx (Some b) l) = sdb_size b + len64 (local_changes l)"
| "sdb_size (State_Db f td nd l) = len64 (f_data f) + len64 (local_changes l)"

fun sdb_start :: "'d sdb \<Rightarrow> u64" where
  "sdb_start (Trx None l) = 0"
| "sdb_start (Trx (Some b) l) = sdb_size b"
| "sdb_start (State_Db f td nd l) = 0"

text \<open>
  \<open>read\<close>: the bytes put at the start of the caller's buffer. A copy that would leave
  \<open>local_changes\<close> is where the model stops; \<open>av\<close> is an \<open>int\<close>, so a count of \<open>2 ^ 31\<close> or more
  turns negative (and \<open>memcpy\<close> takes it as a huge one).
\<close>

definition copy_local :: "bytes \<Rightarrow> u64 \<Rightarrow> u64 \<Rightarrow> exn + bytes" where
  \<comment> \<open>\<open>memcpy( buf, &local_changes[off], n )\<close>\<close>
  "copy_local lc off n =
     (if length lc < unat off + unat n then Inl (Undefined_Behaviour ''memcpy past local_changes'')
      else Inr (take (unat n) (drop (unat off) lc)))"

definition trx_copy :: "bytes \<Rightarrow> u64 \<Rightarrow> u64 \<Rightarrow> exn + bytes" where
  \<comment> \<open>the last part of \<open>state_database_transaction::read\<close>\<close>
  "trx_copy lc off len =
     (if lc = [] then Inr []
      else
        let av = (ucast (min len (len64 lc - off)) :: 32 word) in
        if av <s 0 then Inl (Undefined_Behaviour ''memcpy of a negative length'')
        else copy_local lc off (ucast av))"

definition db_read :: "FILE \<Rightarrow> layer \<Rightarrow> u64 \<Rightarrow> u64 \<Rightarrow> (exn + bytes) \<times> FILE" where
  "db_read f l pos len =
     (let (bs, f) =
        (if pos < len64 (f_data f)
         then (case fread (unat len) (fseeko_set (unat pos) f) of
                 (Inr bs, f) \<Rightarrow> (bs, f) | (Inl e, f) \<Rightarrow> ([], f))
         else ([], f));
          len = len - len64 bs;
          pos = pos + len64 bs
      in if len \<noteq> 0 \<and> local_changes l \<noteq> [] then
           let off = pos - len64 (f_data f);
               m = min (len64 (local_changes l) - off) len
           in (map_sum id (\<lambda>b. bs @ b) (copy_local (local_changes l) off m), f)
         else (Inr bs, f))"

fun sdb_read :: "u64 \<Rightarrow> u64 \<Rightarrow> ('d sdb, bytes) prog" where
  "sdb_read pos len (Trx None l) = (trx_copy (local_changes l) pos len, Trx None l)"
| "sdb_read pos len (Trx (Some b) l) =
     (let s = Trx (Some b) l in
      if pos < sdb_size b then
        (case sdb_read pos len b of
           (Inl e, b) \<Rightarrow> (Inl e, Trx (Some b) l)
         | (Inr bs, b) \<Rightarrow>
             (let s = Trx (Some b) l; pos = pos + len64 bs; len = len - len64 bs in
              if len = 0 then (Inr bs, s)
              else if pos < sdb_size b then (Inl (Gpm_Exception ''Invariant broken!''), s)
              else (map_sum id (\<lambda>b'. bs @ b') (trx_copy (local_changes l) (pos - sdb_size b) len), s)))
      else (trx_copy (local_changes l) (pos - sdb_size b) len, s))"
| "sdb_read pos len (State_Db f td nd l) =
     (case db_read f l pos len of (r, f) \<Rightarrow> (r, State_Db f td nd l))"

section \<open>Records\<close>

text \<open>
  \<open>get_record(loc, r)\<close> fills the record \<open>r\<close> of the caller and returns its length, 0 when it
  cannot be read; the model gets the caller's \<open>r\<close> and returns both. \<open>state_database\<close> reads the
  members one after the other, so that after a short read some of them are set.
\<close>

definition read_le :: "u64 \<Rightarrow> nat \<Rightarrow> nat \<Rightarrow> ('d sdb, nat \<times> nat) prog" where
  \<comment> \<open>reads into an integer of \<open>n\<close> bytes that holds \<open>v\<close>: the count, and the integer after it\<close>
  "read_le loc n v =
     bindP (sdb_read loc (of_nat n)) (\<lambda>bs. ret (length bs, le_val (overlay bs (le_bytes n v))))"

definition db_get_record :: "u64 \<Rightarrow> state_record \<Rightarrow> ('d sdb, u64 \<times> state_record) prog" where
  "db_get_record loc r =
     bindP (read_le loc 2 0) (\<lambda>(c, i).
     let r = r\<lparr>sr_id := of_nat i\<rparr> in
     if c \<noteq> 2 then ret (0, r)
     else bindP (read_le (loc + 2) 4 0) (\<lambda>(c, len).
       if c \<noteq> 4 then ret (0, r)
       else
         let r = r\<lparr>sr_data := resize len (sr_data r)\<rparr> in
         bindP (if len \<noteq> 0 then sdb_read (loc + 2 + 4) (of_nat len) else ret []) (\<lambda>bs.
         let r = r\<lparr>sr_data := overlay bs (sr_data r)\<rparr> in
         if length bs \<noteq> len then ret (0, r)
         else bindP (read_le (loc + 2 + 4 + of_nat len) 8 (unat (sr_previous r))) (\<lambda>(c, p).
           let r = r\<lparr>sr_previous := of_nat p\<rparr> in
           if c = 8 then ret (8 + 2 + 4 + of_nat len, r) else ret (0, r)))))"

fun get_record :: "'d env \<Rightarrow> u64 \<Rightarrow> state_record \<Rightarrow> ('d sdb, u64 \<times> state_record) prog" where
  "get_record E loc r (Trx b l) =
     (if loc = -1 then (Inr (0, r), Trx b l)
      else if loc < sdb_start (Trx b l) then
        (case b of
           Some b \<Rightarrow> (case get_record E loc r b of (x, b) \<Rightarrow> (x, Trx (Some b) l))
         | None \<Rightarrow> (Inr (0, r), Trx None l))
      else
        let loc = loc - sdb_start (Trx b l) in
        if len64 (local_changes l) \<le> loc then (Inr (0, r), Trx b l)
        else
          (case unpack (e_record E) (drop (unat loc) (local_changes l)) of
             Inl e \<Rightarrow> (Inl e, Trx b l)
           | Inr r \<Rightarrow> (Inr (len64 (pack (e_record E) r), r), Trx b l)))"
| "get_record E loc r (State_Db f td nd l) = db_get_record loc r (State_Db f td nd l)"

definition append_record :: "'d env \<Rightarrow> state_record \<Rightarrow> ('d sdb, bool) prog" where
  "append_record E r =
     bindP (asks sdb_size) (\<lambda>sz.
     let r2 = r\<lparr>sr_previous := sz\<rparr>; v = pack (e_record E) r2 in
     bindP (on_layer (\<lambda>l. l\<lparr>local_changes := local_changes l @ v\<rparr>)) (\<lambda>_. ret True))"

definition append_layer :: "bytes \<Rightarrow> (account_key, u64) omap \<Rightarrow> (string, u64) omap \<Rightarrow> ('d sdb, bool) prog" where
  \<comment> \<open>\<open>append\<close>\<close>
  "append_layer d idx nidx =
     bindP (on_layer (\<lambda>l.
       \<lparr>local_changes = local_changes l @ d,
        last_transfer_map = fold (\<lambda>(k, v). om_set k v) idx (last_transfer_map l),
        last_name_edit_map = fold (\<lambda>(k, v). om_set k v) nidx (last_name_edit_map l)\<rparr>)) (\<lambda>_. ret True)"

section \<open>The indexes\<close>

fun get_last_name_edit_index :: "'d env \<Rightarrow> string \<Rightarrow> 'd sdb \<Rightarrow> exn + u64" where
  "get_last_name_edit_index E n (Trx b l) =
     (case om_find n (last_name_edit_map l) of
        Some i \<Rightarrow> Inr i
      | None \<Rightarrow> (case b of Some b \<Rightarrow> get_last_name_edit_index E n b | None \<Rightarrow> Inr (-1)))"
| "get_last_name_edit_index E n (State_Db f td nd l) =
     (let idx = (case om_find n (last_name_edit_map l) of Some i \<Rightarrow> i | None \<Rightarrow> -1) in
      if idx = -1 then
        (case kv_get (e_bdb E) (e_string E) (e_uint64 E) n nd of
           Inl e \<Rightarrow> Inl e
         | Inr (Some i) \<Rightarrow> Inr i
         | Inr None \<Rightarrow> Inr (-1))
      else Inr idx)"

fun get_last_transfer_index :: "'d env \<Rightarrow> account_key \<Rightarrow> 'd sdb \<Rightarrow> exn + u64" where
  "get_last_transfer_index E a (Trx b l) =
     (case om_find a (last_transfer_map l) of
        Some i \<Rightarrow> Inr i
      | None \<Rightarrow> (case b of Some b \<Rightarrow> get_last_transfer_index E a b | None \<Rightarrow> Inr (-1)))"
| "get_last_transfer_index E a (State_Db f td nd l) =
     (let idx = (case om_find a (last_transfer_map l) of Some i \<Rightarrow> i | None \<Rightarrow> -1) in
      if idx = -1 then
        (case kv_get (e_bdb E) (e_account_key E) (e_uint64 E) a td of
           Inl e \<Rightarrow> Inl e
         | Inr (Some i) \<Rightarrow> Inr i
         | Inr None \<Rightarrow> Inr (-1))
      else Inr idx)"

definition name_edit_index :: "'d env \<Rightarrow> string \<Rightarrow> ('d sdb, u64) prog" where
  "name_edit_index E n = (\<lambda>s. (get_last_name_edit_index E n s, s))"

definition transfer_index :: "'d env \<Rightarrow> account_key \<Rightarrow> ('d sdb, u64) prog" where
  "transfer_index E a = (\<lambda>s. (get_last_transfer_index E a s, s))"

definition set_name_edit :: "string \<Rightarrow> u64 \<Rightarrow> ('d sdb, unit) prog" where
  \<comment> \<open>\<open>last_name_edit_map[name] = i\<close>\<close>
  "set_name_edit n i = on_layer (\<lambda>l. l\<lparr>last_name_edit_map := om_set n i (last_name_edit_map l)\<rparr>)"

definition set_transfer :: "account_key \<Rightarrow> u64 \<Rightarrow> ('d sdb, unit) prog" where
  \<comment> \<open>\<open>last_transfer_map[k] = i\<close>\<close>
  "set_transfer k i = on_layer (\<lambda>l. l\<lparr>last_transfer_map := om_set k i (last_transfer_map l)\<rparr>)"

section \<open>Names\<close>

definition get_public_key :: "'d env \<Rightarrow> string \<Rightarrow> ('d sdb, public_key option) prog" where
  \<comment> \<open>\<open>get_public_key_t\<close>: the key, or \<open>None\<close> for false\<close>
  "get_public_key E name =
     bindP (name_edit_index E name) (\<lambda>nidx.
     if nidx = -1 then ret None
     else bindP (get_record E nidx state_record_new) (\<lambda>(n, r).
       if n = 0 then ret None
       else if sr_id r = define_name_id then
         bindP (liftE (cast_record (e_define_name E) define_name_id r)) (\<lambda>dn. ret (Some (dn_key dn)))
       else if sr_id r = update_name_id then
         bindP (liftE (cast_record (e_update_name E) update_name_id r)) (\<lambda>un. ret (Some (un_key un)))
       else ret None))"

text \<open>\<open>get_name_for_index\<close> follows an update record to the name it updates; \<open>None\<close>: no return.\<close>

partial_function (option) name_for_index_loop :: "'d env \<Rightarrow> u64 \<Rightarrow> 'd sdb \<Rightarrow> ((exn + string) \<times> 'd sdb) option" where
  "name_for_index_loop E idx s =
     (if idx = -1 then Some (Inr [], s)
      else
        (case get_record E idx state_record_new s of
           (Inl e, s) \<Rightarrow> Some (Inl e, s)
         | (Inr nr, s) \<Rightarrow>
             if fst nr = 0 then Some (Inl (Gpm_Exception ''Error getting record at index''), s)
             else if sr_id (snd nr) = define_name_id then
               Some (map_sum id dn_name (cast_record (e_define_name E) define_name_id (snd nr)), s)
             else if sr_id (snd nr) = update_name_id then
               (case cast_record (e_update_name E) update_name_id (snd nr) of
                  Inl e \<Rightarrow> Some (Inl e, s)
                | Inr un \<Rightarrow> name_for_index_loop E (un_name_idx un) s)
             else Some (Inl (Gpm_Exception ''No name at index''), s)))"

definition get_name_for_index :: "'d env \<Rightarrow> u64 \<Rightarrow> ('d sdb, string) prog" where
  "get_name_for_index E idx = loopP (name_for_index_loop E idx)"

definition get_name_index :: "'d env \<Rightarrow> string \<Rightarrow> ('d sdb, u64) prog" where
  "get_name_index E n =
     bindP (name_edit_index E n) (\<lambda>lnidx.
     if lnidx = -1 then ret (-1)
     else bindP (get_record E lnidx state_record_new) (\<lambda>(len, r).
       if len = 0 then throw (Gpm_Exception ''Error getting record'')
       else if sr_id r = define_name_id then ret lnidx
       else if sr_id r = update_name_id then
         bindP (liftE (cast_record (e_update_name E) update_name_id r)) (\<lambda>un. ret (un_name_idx un))
       else throw (Gpm_Exception ''Error getting name index'')))"

definition set_public_key :: "'d env \<Rightarrow> string \<Rightarrow> public_key \<Rightarrow> ('d sdb, bool) prog" where
  "set_public_key E name pk =
     bindP (name_edit_index E name) (\<lambda>lnidx.
     if lnidx = -1 then
       bindP (asks sdb_size) (\<lambda>sz.
       bindP (set_name_edit name sz) (\<lambda>_.
       append_record E (state_record_of (e_define_name E) define_name_id \<lparr>dn_name = name, dn_key = pk\<rparr>)))
     else bindP (get_record E lnidx state_record_new) (\<lambda>(n, r).
       if sr_id r = define_name_id then
         bindP (liftE (cast_record (e_define_name E) define_name_id r)) (\<lambda>dn.
         bindP (asks sdb_size) (\<lambda>sz.
         bindP (set_name_edit name sz) (\<lambda>_.
         append_record E (state_record_of (e_update_name E) update_name_id
           \<lparr>un_name_idx = lnidx, un_key = pk, un_last_update_idx = lnidx\<rparr>))))
       else if sr_id r = update_name_id then
         bindP (liftE (cast_record (e_update_name E) update_name_id r)) (\<lambda>un.
         bindP (asks sdb_size) (\<lambda>sz.
         bindP (set_name_edit name sz) (\<lambda>_.
         append_record E (state_record_of (e_update_name E) update_name_id
           \<lparr>un_name_idx = un_name_idx un, un_key = pk, un_last_update_idx = lnidx\<rparr>))))
       else ret False))"

section \<open>Balances\<close>

text \<open>\<open>get_balance\<close> returns the balance, and \<open>*is_null\<close> and \<open>*loc\<close> for the callers that ask.\<close>

definition get_balance :: "'d env \<Rightarrow> string \<Rightarrow> string \<Rightarrow> ('d sdb, u64 \<times> bool \<times> u64) prog" where
  "get_balance E account type =
     bindP (get_name_index E account) (\<lambda>aidx.
     bindP (get_name_index E type) (\<lambda>tidx.
     bindP (transfer_index E (Account_Key aidx tidx)) (\<lambda>itr.
     if itr = -1 then ret (0, True, -1)
     else bindP (get_record E itr state_record_new) (\<lambda>(n, r).
       if sr_id r \<noteq> transfer_log_id then throw (Gpm_Exception ''Unexpected record type'')
       else bindP (liftE (cast_record (e_transfer_log E) transfer_log_id r)) (\<lambda>tl.
         if tl_type_name tl \<noteq> tidx then throw (Gpm_Exception ''Unexpected type'')
         else if tl_from_name tl = aidx then ret (tl_new_from_bal tl, False, itr)
         else if tl_to_name tl = aidx then ret (tl_new_to_bal tl, False, itr)
         else throw (Gpm_Exception ''Source/Dest Mismatch''))))))"

definition transfer_balance :: "'d env \<Rightarrow> string \<Rightarrow> string \<Rightarrow> string \<Rightarrow> u64 \<Rightarrow> u64 \<Rightarrow> ('d sdb, unit) prog" where
  "transfer_balance E from to type amnt tpos =
     bindP (get_name_index E from) (\<lambda>fi.
     bindP (get_name_index E to) (\<lambda>ti.
     bindP (get_name_index E type) (\<lambda>yi.
     bindP (get_balance E from type) (\<lambda>(fb, fn, lf).
     bindP (get_balance E to type) (\<lambda>(tb, tn, lt).
     if fb < amnt then throw (Gpm_Exception ''Insufficent balance'')
     else
       let tl = \<lparr>tl_amount = amnt, tl_type_name = yi, tl_from_name = fi, tl_to_name = ti,
                 tl_new_from_bal = fb - amnt, tl_new_to_bal = tb + amnt,
                 tl_last_from_trx = lf, tl_last_to_trx = lt, tl_trx_idx = tpos\<rparr> in
       bindP (asks sdb_size) (\<lambda>p.
       bindP (set_transfer (Account_Key fi yi) p) (\<lambda>_.
       bindP (set_transfer (Account_Key ti yi) p) (\<lambda>_.
       bindP (append_record E (state_record_of (e_transfer_log E) transfer_log_id tl)) (\<lambda>_. ret ())))))))))"

definition issue :: "'d env \<Rightarrow> string \<Rightarrow> u64 \<Rightarrow> ('d sdb, unit) prog" where
  "issue E type tpos =
     bindP (get_name_index E type) (\<lambda>yi.
     bindP (get_name_index E type) (\<lambda>ti.
     bindP (get_name_index E type) (\<lambda>fi.
     bindP (get_balance E type type) (\<lambda>(b, is_null, loc).
     if \<not> is_null then throw (Gpm_Exception ''Attempt to issue after it has already been issued'')
     else
       let tl = \<lparr>tl_amount = -1, tl_type_name = yi, tl_from_name = fi, tl_to_name = ti,
                 tl_new_from_bal = -1, tl_new_to_bal = -1,
                 tl_last_from_trx = loc, tl_last_to_trx = -1, tl_trx_idx = tpos\<rparr> in
       bindP (asks sdb_size) (\<lambda>p.
       bindP (set_transfer (Account_Key fi yi) p) (\<lambda>_.
       bindP (set_transfer (Account_Key ti yi) p) (\<lambda>_.
       bindP (append_record E (state_record_of (e_transfer_log E) transfer_log_id tl)) (\<lambda>_. ret ()))))))))"

section \<open>Applying a transaction\<close>

definition apply_register_name :: "'d env \<Rightarrow> signed_transaction \<Rightarrow> command \<Rightarrow> ('d sdb, bool) prog" where
  "apply_register_name E trx c =
     bindP (liftE (cast_command (e_register_name E) register_name_id c)) (\<lambda>rn.
     if rn_name rn = encode_address E (rn_pub_key rn) then
       bindP (set_public_key E (rn_name rn) (rn_pub_key rn)) (\<lambda>_. ret True)
     else bindP (get_public_key E (rn_name rn)) (\<lambda>k.
       case k of
         Some pub_key \<Rightarrow>
           if \<not> strx_verify E trx pub_key then ret False
           else bindP (set_public_key E (rn_name rn) (rn_pub_key rn)) (\<lambda>_. ret True)
       | None \<Rightarrow> bindP (set_public_key E (rn_name rn) (rn_pub_key rn)) (\<lambda>_. ret True)))"

definition apply_issue :: "'d env \<Rightarrow> signed_transaction \<Rightarrow> u64 \<Rightarrow> command \<Rightarrow> ('d sdb, bool) prog" where
  "apply_issue E trx tpos c =
     bindP (liftE (cast_command (e_issue E) issue_id c)) (\<lambda>is.
     bindP (get_public_key E (is_stock_name is)) (\<lambda>k.
     case k of
       None \<Rightarrow> ret False
     | Some type_pub_key \<Rightarrow>
         bindP (get_balance E (is_stock_name is) (is_stock_name is)) (\<lambda>(b, is_null, loc).
         if \<not> is_null then ret False
         else if \<not> strx_verify E trx type_pub_key then ret False
         else bindP (issue E (is_stock_name is) tpos) (\<lambda>_. ret True))))"

definition ensure_destination :: "'d env \<Rightarrow> string \<Rightarrow> ('d sdb, bool) prog" where
  \<comment> \<open>the part of a transfer that defines an address that is not a name yet; false: refuse\<close>
  "ensure_destination E to =
     bindP (get_name_index E to) (\<lambda>to_idx.
     if to_idx = -1 then
       if validate_address_format E to then
         bindP (asks sdb_size) (\<lambda>sz.
         bindP (set_name_edit to sz) (\<lambda>_.
         bindP (append_record E (state_record_of (e_define_name E) define_name_id
           \<lparr>dn_name = to, dn_key = empty_public_key\<rparr>)) (\<lambda>_. ret True)))
       else ret False
     else ret True)"

definition apply_transfer :: "'d env \<Rightarrow> signed_transaction \<Rightarrow> string \<Rightarrow> u64 \<Rightarrow> command \<Rightarrow> ('d sdb, bool) prog" where
  "apply_transfer E trx gen_name tpos c =
     bindP (liftE (cast_command (e_transfer E) transfer_id c)) (\<lambda>tr.
     if tr_to_name tr \<noteq> [] \<and> tr_from_name tr = tr_to_name tr then ret False
     else bindP (get_public_key E (tr_from_name tr)) (\<lambda>fk.
       case fk of None \<Rightarrow> ret False | Some from_pub_key \<Rightarrow>
       bindP (get_public_key E (tr_stock_name tr)) (\<lambda>yk.
       case yk of None \<Rightarrow> ret False | Some type_pub_key \<Rightarrow>
       if \<not> strx_verify E trx from_pub_key then ret False
       else bindP (get_balance E (tr_from_name tr) (tr_stock_name tr)) (\<lambda>(bal, is_null, loc).
         if bal < tr_amount tr then ret False
         else
           let to = (if length (tr_to_name tr) = 0 then gen_name else tr_to_name tr) in
           bindP (ensure_destination E to) (\<lambda>ok.
           if \<not> ok then ret False
           else bindP (transfer_balance E (tr_from_name tr) to (tr_stock_name tr) (tr_amount tr) tpos)
             (\<lambda>_. ret True))))))"

definition apply_command :: "'d env \<Rightarrow> signed_transaction \<Rightarrow> string \<Rightarrow> u64 \<Rightarrow> command \<Rightarrow> ('d sdb, bool) prog" where
  "apply_command E trx gen_name tpos c =
     (if c_id c = register_name_id then apply_register_name E trx c
      else if c_id c = issue_id then apply_issue E trx tpos c
      else if c_id c = transfer_id then apply_transfer E trx gen_name tpos c
      else ret False)"

primrec apply_commands :: "'d env \<Rightarrow> signed_transaction \<Rightarrow> string \<Rightarrow> u64 \<Rightarrow> command list \<Rightarrow> ('d sdb, bool) prog" where
  "apply_commands E trx gen_name tpos [] = ret True"
| "apply_commands E trx gen_name tpos (c # cs) =
     bindP (apply_command E trx gen_name tpos c) (\<lambda>ok.
     if ok then apply_commands E trx gen_name tpos cs else ret False)"

definition apply_trx :: "'d env \<Rightarrow> signed_transaction \<Rightarrow> string \<Rightarrow> ('d sdb, bool) prog" where
  \<comment> \<open>\<open>apply(signed_transaction, generator)\<close>\<close>
  "apply_trx E trx gen_name =
     bindP (asks sdb_size) (\<lambda>tpos.
     bindP (append_record E (state_record_of (e_start_trx E) start_trx_id
       \<lparr>st_trx_hash = e_hash_trx E (strx_trx trx), st_utc_time = trx_utc_time (strx_trx trx)\<rparr>)) (\<lambda>_.
     apply_commands E trx gen_name tpos (trx_commands (strx_trx trx))))"

end
