(* ===== verification/StateOps.thy ===== *)
theory StateOps
  imports StateDb
begin

text \<open>
  The rest of state_database.cpp: the hash of the state, applying a block, commit and abort,
  finding the last block, opening the database, the transfer iterator, \<open>dump\<close> without its
  output, and the queries over names and accounts.
\<close>

section \<open>The state hash\<close>

definition hash_chunk :: nat where
  "hash_chunk = 1024 * 1024"

text \<open>
  The loop of \<open>calculate_state_hash\<close>. Inside it the code declares a second variable \<open>r\<close>, so
  the \<open>r\<close> of the loop condition keeps the count of the first read; \<open>tmp\<close> is the buffer.
\<close>

partial_function (option) state_hash_loop ::
  "'d env \<Rightarrow> u64 \<Rightarrow> u64 \<Rightarrow> bytes \<Rightarrow> sha1 list \<Rightarrow> 'd sdb \<Rightarrow> ((exn + (bytes \<times> sha1 list)) \<times> 'd sdb) option" where
  "state_hash_loop E pos r tmp hashes s =
     (if r = of_nat hash_chunk then
        let hashes = hashes @ [e_sha1 E (take (unat r) tmp)]; pos = pos + r in
        (case sdb_read pos (of_nat hash_chunk) s of
           (Inl e, s) \<Rightarrow> Some (Inl e, s)
         | (Inr bs, s) \<Rightarrow> state_hash_loop E pos r (overlay bs tmp) hashes s)
      else Some (Inr (tmp, hashes), s))"

definition calculate_state_hash :: "'d env \<Rightarrow> ('d sdb, sha1) prog" where
  "calculate_state_hash E =
     (let tmp = replicate hash_chunk 0 in
      bindP (sdb_read 0 (of_nat hash_chunk)) (\<lambda>bs.
      let r = len64 bs in
      bindP (loopP (state_hash_loop E 0 r (overlay bs tmp) [])) (\<lambda>(tmp, hashes).
      let hashes = (if r \<noteq> 0 then hashes @ [e_sha1 E (take (unat r) tmp)] else hashes) in
      ret (e_hash_hashes E hashes))))"

section \<open>dump\<close>

text \<open>
  \<open>dump(max)\<close> prints the records from the start of the log. What remains without the output:
  the records are read one after the other and cast to their type, which can throw.
\<close>

definition dump_casts :: "'d env \<Rightarrow> state_record \<Rightarrow> exn + unit" where
  "dump_casts E r =
     (if sr_id r = define_name_id then map_sum id (\<lambda>_. ()) (cast_record (e_define_name E) define_name_id r)
      else if sr_id r = update_name_id then map_sum id (\<lambda>_. ()) (cast_record (e_update_name E) update_name_id r)
      else if sr_id r = transfer_log_id then map_sum id (\<lambda>_. ()) (cast_record (e_transfer_log E) transfer_log_id r)
      else if sr_id r = start_trx_id then map_sum id (\<lambda>_. ()) (cast_record (e_start_trx E) start_trx_id r)
      else if sr_id r = end_block_id then map_sum id (\<lambda>_. ()) (cast_record (e_end_block E) end_block_id r)
      else Inr ())"

definition dump_record :: "'d env \<Rightarrow> state_record \<Rightarrow> ('d sdb, unit) prog" where
  \<comment> \<open>\<open>dump( const state_record& )\<close> without its output\<close>
  "dump_record E r = liftE (dump_casts E r)"

primrec dump_loop :: "'d env \<Rightarrow> nat \<Rightarrow> u64 \<Rightarrow> u64 \<times> state_record \<Rightarrow> ('d sdb, unit) prog" where
  "dump_loop E 0 p lr = ret ()"
| "dump_loop E (Suc n) p lr =
     (if fst lr = 0 then ret ()
      else bindP (liftE (dump_casts E (snd lr))) (\<lambda>_.
        bindP (get_record E (p + fst lr) (snd lr)) (\<lambda>lr'.
        dump_loop E n (p + fst lr) lr')))"

definition dump :: "'d env \<Rightarrow> nat \<Rightarrow> ('d sdb, unit) prog" where
  "dump E max_count = bindP (get_record E 0 state_record_new) (\<lambda>lr. dump_loop E max_count 0 lr)"

section \<open>Applying a block\<close>

primrec apply_trxs :: "'d env \<Rightarrow> string \<Rightarrow> signed_transaction list \<Rightarrow> ('d sdb, bool) prog" where
  "apply_trxs E gen [] = ret True"
| "apply_trxs E gen (t # ts) =
     bindP (apply_trx E t gen) (\<lambda>ok. if \<not> ok then ret False else apply_trxs E gen ts)"

definition apply_block :: "'d env \<Rightarrow> block \<Rightarrow> string \<Rightarrow> signed_transaction list \<Rightarrow> sha1 \<Rightarrow> ('d sdb, bool) prog" where
  "apply_block E b gen trxs checksum =
     bindP (apply_trxs E gen trxs) (\<lambda>ok.
     if \<not> ok then ret False
     else bindP (calculate_state_hash E) (\<lambda>check.
       if check \<noteq> checksum then bindP (dump E 1000) (\<lambda>_. ret False)
       else bindP (append_record E (state_record_of (e_end_block E) end_block_id \<lparr>eb_blk = b, eb_generator = gen\<rparr>))
         (\<lambda>_. ret True)))"

section \<open>Commit and abort\<close>

text \<open>
  \<open>state_database::commit\<close> writes the local changes at the position of the stream, and stores
  the two indexes in the databases. It ends without a \<open>return\<close>; its value is not used.
\<close>

definition db_commit :: "'d env \<Rightarrow> FILE \<Rightarrow> 'd \<Rightarrow> 'd \<Rightarrow> layer \<Rightarrow> (exn + unit) \<times> 'd sdb" where
  "db_commit E f td nd l =
     (if local_changes l = [] then (Inr (), State_Db f td nd l)
      else
        (case fwrite (local_changes l) f of (n, f) \<Rightarrow>
           if n \<noteq> length (local_changes l) then (Inl (Gpm_Exception ''Error writing file''), State_Db f td nd l)
           else
             let td = fold (\<lambda>(k, v). kv_set (e_bdb E) (e_account_key E) (e_uint64 E) k v) (last_transfer_map l) td;
                 nd = fold (\<lambda>(k, v). kv_set (e_bdb E) (e_string E) (e_uint64 E) k v) (last_name_edit_map l) nd
             in (Inr (), State_Db f td nd empty_layer)))"

fun commit :: "'d env \<Rightarrow> ('d sdb, unit) prog" where
  "commit E (Trx None l) = (Inr (), Trx None empty_layer)"
| "commit E (Trx (Some b) l) =
     (case append_layer (local_changes l) (last_transfer_map l) (last_name_edit_map l) b of
        (Inl e, b) \<Rightarrow> (Inl e, Trx (Some b) l)
      | (Inr _, b) \<Rightarrow> (Inr (), Trx (Some b) empty_layer))"
| "commit E (State_Db f td nd l) = db_commit E f td nd l"

definition abort :: "'d sdb \<Rightarrow> 'd sdb" where
  "abort s = set_layer empty_layer s"

fun rebase :: "'d sdb \<Rightarrow> 'd sdb \<Rightarrow> 'd sdb" where
  "rebase new_base (Trx b l) = Trx (Some new_base) l"
| "rebase new_base (State_Db f td nd l) = State_Db f td nd l"

definition sd_open :: "bool \<Rightarrow> bytes option \<Rightarrow> 'd \<Rightarrow> 'd \<Rightarrow> exn + 'd sdb" where
  \<comment> \<open>\<open>open\<close>: is the path a directory (after it was created if it did not exist), the contents of
     its file \<open>state\<close> if there is one, and its two databases\<close>
  "sd_open is_directory state td nd =
     (if \<not> is_directory then Inl (Gpm_Exception ''expected state database to be a directory'')
      else
        (case fopen state (if state \<noteq> None then ''rb+'' else ''wb+'') of
           None \<Rightarrow> Inl (Gpm_Exception ''Error opening file'')
         | Some f \<Rightarrow> Inr (State_Db f td nd empty_layer)))"

section \<open>The last block\<close>

text \<open>
  The loop of \<open>find_last_block\<close>: \<open>last_record\<close> is read from the eight bytes before
  \<open>r.previous\<close> (the end of the record before), a short read leaving its other bytes.
\<close>

partial_function (option) last_block_loop ::
  "'d env \<Rightarrow> u64 \<Rightarrow> state_record \<Rightarrow> 'd sdb \<Rightarrow> ((exn + state_record) \<times> 'd sdb) option" where
  "last_block_loop E last_record r s =
     (if sr_id r \<noteq> end_block_id \<and> sr_previous r \<noteq> 0 then
        (case read_le (sr_previous r - 8) 8 (unat last_record) s of
           (Inl e, s) \<Rightarrow> Some (Inl e, s)
         | (Inr cp, s) \<Rightarrow>
             (case get_record E (of_nat (snd cp)) r s of
                (Inl e, s) \<Rightarrow> Some (Inl e, s)
              | (Inr nr, s) \<Rightarrow> last_block_loop E (of_nat (snd cp)) (snd nr) s))
      else Some (Inr r, s))"

definition find_last_block :: "'d env \<Rightarrow> ('d sdb, block) prog" where
  "find_last_block E =
     bindP (asks sdb_size) (\<lambda>sz.
     if sz < 8 then ret block_new
     else
       let last_record = sz - 8 in
       bindP (read_le last_record 8 (unat last_record)) (\<lambda>(c, lr).
       bindP (get_record E (of_nat lr) state_record_new) (\<lambda>(n, r).
       bindP (loopP (last_block_loop E (of_nat lr) r)) (\<lambda>r.
       if sr_id r = end_block_id then
         bindP (liftE (cast_record (e_end_block E) end_block_id r)) (\<lambda>eb. ret (eb_blk eb))
       else ret block_new))))"

section \<open>The transfer iterator\<close>

text \<open>\<open>abstract_state_database::transfer\<close>; the database it points to is passed to its operations.\<close>

record transfer_it =
  ti_index :: u64
  ti_from :: string
  ti_to :: string
  ti_type :: string
  ti_prev_from :: u64
  ti_prev_to :: u64
  ti_amount :: u64
  ti_from_bal :: u64
  ti_to_bal :: u64
  ti_time :: u64

definition ti_end :: "transfer_it \<Rightarrow> bool" where
  "ti_end t \<longleftrightarrow> ti_index t = -1"

definition ti_update :: "'d env \<Rightarrow> transfer_it \<Rightarrow> ('d sdb, bool \<times> transfer_it) prog" where
  "ti_update E t =
     (if ti_index t \<noteq> -1 then
        bindP (get_record E (ti_index t) state_record_new) (\<lambda>(n, r).
        if sr_id r = transfer_log_id then
          bindP (liftE (cast_record (e_transfer_log E) transfer_log_id r)) (\<lambda>tl.
          bindP (get_name_for_index E (tl_from_name tl)) (\<lambda>from.
          bindP (get_name_for_index E (tl_to_name tl)) (\<lambda>to.
          bindP (get_name_for_index E (tl_type_name tl)) (\<lambda>type.
          let t = t\<lparr>ti_from_bal := tl_new_from_bal tl, ti_to_bal := tl_new_to_bal tl, ti_amount := tl_amount tl,
                    ti_from := from, ti_to := to, ti_type := type,
                    ti_prev_from := tl_last_from_trx tl, ti_prev_to := tl_last_to_trx tl\<rparr> in
          bindP (get_record E (tl_trx_idx tl) state_record_new) (\<lambda>(n, trxr).
          if n \<noteq> 0 then
            if sr_id trxr = start_trx_id then
              bindP (liftE (cast_record (e_start_trx E) start_trx_id trxr)) (\<lambda>st.
              ret (True, t\<lparr>ti_time := st_utc_time st\<rparr>))
            else ret (True, t\<lparr>ti_time := 1000000 * 60 * 60 * 24\<rparr>)
          else ret (True, t\<lparr>ti_time := -1\<rparr>))))))
        else ret (False, t))
      else ret (False, t))"

definition ti_new :: "'d env \<Rightarrow> u64 \<Rightarrow> transfer_it \<Rightarrow> ('d sdb, transfer_it) prog" where
  \<comment> \<open>the constructor; \<open>t0\<close> stands for the members it leaves unset\<close>
  "ti_new E index t0 = bindP (ti_update E (t0\<lparr>ti_index := index\<rparr>)) (\<lambda>(ok, t). ret t)"

definition ti_previous :: "'d env \<Rightarrow> string \<Rightarrow> transfer_it \<Rightarrow> ('d sdb, bool \<times> transfer_it) prog" where
  "ti_previous E account t =
     (if ti_to t = ti_from t then ret (False, t\<lparr>ti_index := -1\<rparr>)
      else if account = ti_to t then
        (if ti_prev_to t < ti_index t then ti_update E (t\<lparr>ti_index := ti_prev_to t\<rparr>)
         else ret (False, t\<lparr>ti_index := -1\<rparr>))
      else if account = ti_from t then
        (if ti_prev_from t < ti_index t then ti_update E (t\<lparr>ti_index := ti_prev_from t\<rparr>)
         else ret (False, t\<lparr>ti_index := -1\<rparr>))
      else ret (False, t\<lparr>ti_index := -1\<rparr>))"

definition get_last_transfer :: "'d env \<Rightarrow> string \<Rightarrow> string \<Rightarrow> transfer_it \<Rightarrow> ('d sdb, transfer_it) prog" where
  "get_last_transfer E account type t0 =
     bindP (get_name_index E account) (\<lambda>ai.
     bindP (get_name_index E type) (\<lambda>yi.
     bindP (transfer_index E (Account_Key ai yi)) (\<lambda>idx. ti_new E idx t0)))"

section \<open>Queries\<close>

fun map_range :: "('k, 'v) omap \<Rightarrow> ('k, 'v) omap \<Rightarrow> exn + 'k list" where
  \<comment> \<open>\<open>while( s != e ) { push_back( s->first ); ++s; }\<close>, for iterators of one map\<close>
  "map_range s e =
     (if length s = length e then Inr []
      else (case s of [] \<Rightarrow> Inl (Undefined_Behaviour ''iterator past the end'') | x # s' \<Rightarrow> map_sum id (Cons (fst x)) (map_range s' e)))"

declare map_range.simps [simp del]

definition sort_unique :: "'a :: linorder list \<Rightarrow> 'a list" where
  "sort_unique xs = remdups_adj (sort xs)"

text \<open>
  The loop of \<open>state_database::query_names\<close> over the database: \<open>Inl names\<close> is its early return,
  at more than \<open>limit\<close> names.
\<close>

partial_function (option) query_db_loop ::
  "'d env \<Rightarrow> 'd \<Rightarrow> string \<Rightarrow> u32 \<Rightarrow> (string, u64) kv_iterator \<Rightarrow> string list \<Rightarrow> (exn + (string list + string list)) option" where
  "query_db_loop E nd upto_n limit itr names =
     (if \<not> it_end itr \<and> the (it_key itr) \<le> upto_n then
        let names = names @ [the (it_key itr)] in
        if length names > unat limit then Some (Inr (Inl names))
        else (case kv_next (e_bdb E) (e_string E) (e_uint64 E) itr nd of
                Inl e \<Rightarrow> Some (Inl e)
              | Inr itr \<Rightarrow> query_db_loop E nd upto_n limit itr names)
      else Some (Inr (Inr names)))"

fun query_names :: "'d env \<Rightarrow> string \<Rightarrow> string \<Rightarrow> u32 \<Rightarrow> 'd sdb \<Rightarrow> exn + string list" where
  "query_names E first upto_n limit (Trx b l) =
     (case (case b of Some b \<Rightarrow> query_names E first upto_n limit b | None \<Rightarrow> Inr []) of
        Inl e \<Rightarrow> Inl e
      | Inr names \<Rightarrow>
          (case map_range (om_lower_bound first (last_name_edit_map l)) (om_upper_bound upto_n (last_name_edit_map l)) of
             Inl e \<Rightarrow> Inl e
           | Inr own \<Rightarrow>
               let names = names @ own;
                   names = (if length names > unat limit then take (unat limit) names else names)
               in Inr (sort_unique names)))"
| "query_names E first upto_n limit (State_Db f td nd l) =
     (case map_range (om_lower_bound first (last_name_edit_map l)) (om_upper_bound upto_n (last_name_edit_map l)) of
        Inl e \<Rightarrow> Inl e
      | Inr names \<Rightarrow>
          (case kv_search (e_bdb E) (e_string E) (e_uint64 E) first nd of
             Inl e \<Rightarrow> Inl e
           | Inr itr \<Rightarrow>
               (case query_db_loop E nd upto_n limit itr names of
                  None \<Rightarrow> Inl Diverges
                | Some (Inl e) \<Rightarrow> Inl e
                | Some (Inr (Inl names)) \<Rightarrow> Inr names
                | Some (Inr (Inr names)) \<Rightarrow> Inr (sort_unique names))))"

text \<open>\<open>name_count\<close>; \<open>count\<close> is an \<open>int\<close>, converted to 64 bits on return.\<close>

primrec count_new_names :: "'d env \<Rightarrow> string list \<Rightarrow> u32 \<Rightarrow> ('d sdb, u32) prog" where
  \<comment> \<open>the loop of \<open>state_database_transaction::name_count\<close>, run on the base\<close>
  "count_new_names E [] c = ret c"
| "count_new_names E (n # ns) c =
     bindP (get_name_index E n) (\<lambda>i. count_new_names E ns (if i = -1 then c + 1 else c))"

primrec count_db_names :: "'d env \<Rightarrow> 'd \<Rightarrow> string list \<Rightarrow> u32 \<Rightarrow> exn + u32" where
  "count_db_names E nd [] c = Inr c"
| "count_db_names E nd (n # ns) c =
     (case kv_find (e_bdb E) (e_string E) (e_uint64 E :: u64 codec) n nd of
        Inl e \<Rightarrow> Inl e
      | Inr itr \<Rightarrow> count_db_names E nd ns (if it_end itr then c + 1 else c))"

fun name_count :: "'d env \<Rightarrow> ('d sdb, u64) prog" where
  "name_count E (Trx None l) =
     (if last_name_edit_map l = [] then (Inr 0, Trx None l)
      else (Inl (Undefined_Behaviour ''null base''), Trx None l))"
| "name_count E (Trx (Some b) l) =
     (case name_count E b of
        (Inl e, b) \<Rightarrow> (Inl e, Trx (Some b) l)
      | (Inr c, b) \<Rightarrow>
          (case count_new_names E (map fst (last_name_edit_map l)) (ucast c) b of
             (Inl e, b) \<Rightarrow> (Inl e, Trx (Some b) l)
           | (Inr c, b) \<Rightarrow> (Inr (scast c), Trx (Some b) l)))"
| "name_count E (State_Db f td nd l) =
     ((case kv_count (e_bdb E) (e_string E) nd of
         Inl e \<Rightarrow> Inl e
       | Inr c \<Rightarrow> map_sum id scast (count_db_names E nd (map fst (last_name_edit_map l)) c)),
      State_Db f td nd l)"

text \<open>The contents of an account by index: its entries in the maps, then in the database.\<close>

partial_function (option) contents_idx_loop ::
  "'d env \<Rightarrow> 'd \<Rightarrow> u64 \<Rightarrow> (account_key, u64) kv_iterator \<Rightarrow> u64 list \<Rightarrow> (exn + u64 list) option" where
  "contents_idx_loop E td acnt itr cts =
     (if \<not> it_end itr then
        if account_name (the (it_key itr)) = acnt then
          (case kv_next (e_bdb E) (e_account_key E) (e_uint64 E) itr td of
             Inl e \<Rightarrow> Some (Inl e)
           | Inr itr' \<Rightarrow> contents_idx_loop E td acnt itr' (cts @ [type_name (the (it_key itr))]))
        else Some (Inr (sort_unique cts))
      else Some (Inr cts))"

fun account_contents_idx :: "'d env \<Rightarrow> u64 \<Rightarrow> 'd sdb \<Rightarrow> exn + u64 list" where
  "account_contents_idx E acnt (Trx b l) =
     (case map_range (om_lower_bound (Account_Key acnt 0) (last_transfer_map l))
                     (om_upper_bound (Account_Key (acnt + 1) 0) (last_transfer_map l)) of
        Inl e \<Rightarrow> Inl e
      | Inr ks \<Rightarrow>
          (case b of
             None \<Rightarrow> Inr (map type_name ks)
           | Some b \<Rightarrow> map_sum id (\<lambda>bcts. map type_name ks @ bcts) (account_contents_idx E acnt b)))"
| "account_contents_idx E acnt (State_Db f td nd l) =
     (case map_range (om_lower_bound (Account_Key acnt 0) (last_transfer_map l))
                     (om_upper_bound (Account_Key (acnt + 1) 0) (last_transfer_map l)) of
        Inl e \<Rightarrow> Inl e
      | Inr ks \<Rightarrow>
          (case kv_search (e_bdb E) (e_account_key E) (e_uint64 E) (Account_Key acnt 0) td of
             Inl e \<Rightarrow> Inl e
           | Inr itr \<Rightarrow>
               (case contents_idx_loop E td acnt itr (map type_name ks) of None \<Rightarrow> Inl Diverges | Some r \<Rightarrow> r)))"

text \<open>The contents of an account by name.\<close>

primrec names_for_indexes :: "'d env \<Rightarrow> u64 list \<Rightarrow> ('d sdb, string list) prog" where
  "names_for_indexes E [] = ret []"
| "names_for_indexes E (i # is) =
     bindP (get_name_for_index E i) (\<lambda>n. bindP (names_for_indexes E is) (\<lambda>ns. ret (n # ns)))"

definition trx_account_contents :: "'d env \<Rightarrow> string \<Rightarrow> string list \<Rightarrow> ('d sdb, string list) prog" where
  \<comment> \<open>\<open>state_database_transaction::get_account_contents\<close>, given the names of its base\<close>
  "trx_account_contents E acnt names =
     bindP (get_name_index E acnt) (\<lambda>i.
     bindP (get_name_index E acnt) (\<lambda>j.
     bindP (asks layer_of) (\<lambda>l.
     bindP (liftE (map_range (om_lower_bound (Account_Key i 0) (last_transfer_map l))
                             (om_upper_bound (Account_Key (j + 1) 0) (last_transfer_map l)))) (\<lambda>ks.
     bindP (names_for_indexes E (map type_name ks)) (\<lambda>own.
     ret (sort_unique (names @ own)))))))"

partial_function (option) contents_loop ::
  "'d env \<Rightarrow> 'd \<Rightarrow> u64 \<Rightarrow> (account_key, u64) kv_iterator \<Rightarrow> string list \<Rightarrow> 'd sdb \<Rightarrow> ((exn + string list) \<times> 'd sdb) option" where
  "contents_loop E td acnt itr names s =
     (if \<not> it_end itr then
        if account_name (the (it_key itr)) = acnt then
          (case get_name_for_index E (type_name (the (it_key itr))) s of
             (Inl e, s) \<Rightarrow> Some (Inl e, s)
           | (Inr n, s) \<Rightarrow>
               (case kv_next (e_bdb E) (e_account_key E) (e_uint64 E) itr td of
                  Inl e \<Rightarrow> Some (Inl e, s)
                | Inr itr' \<Rightarrow> contents_loop E td acnt itr' (names @ [n]) s))
        else Some (Inr (sort_unique names), s)
      else Some (Inr names, s))"

fun get_account_contents :: "'d env \<Rightarrow> string \<Rightarrow> ('d sdb, string list) prog" where
  "get_account_contents E acnt (Trx None l) = trx_account_contents E acnt [] (Trx None l)"
| "get_account_contents E acnt (Trx (Some b) l) =
     (case get_account_contents E acnt b of
        (Inl e, b) \<Rightarrow> (Inl e, Trx (Some b) l)
      | (Inr names, b) \<Rightarrow> trx_account_contents E acnt names (Trx (Some b) l))"
| "get_account_contents E acnt (State_Db f td nd l) =
     bindP (trx_account_contents E acnt []) (\<lambda>names.
     bindP (get_name_index E acnt) (\<lambda>i.
     bindP (liftE (kv_search (e_bdb E) (e_account_key E) (e_uint64 E) (Account_Key i 0) td)) (\<lambda>itr.
     loopP (contents_loop E td i itr names)))) (State_Db f td nd l)"

end
