(* ===== verification/StateLog.thy ===== *)
theory StateLog
  imports StateOps
begin

text \<open>
  The log as a list of entries. \<open>log_bytes\<close> is the bytes a state database shows: its base's
  and its own. \<open>holds\<close> relates an object to the entries of the log and the two indexes;
  reading a record, appending one and updating an index are correct for it as long as the
  log is below two gigabytes (\<open>log_limit\<close>, where the code's \<open>int av\<close> turns negative).
\<close>

section \<open>The bytes of the log\<close>

fun log_bytes :: "'d sdb \<Rightarrow> bytes" where
  "log_bytes (Trx None l) = local_changes l"
| "log_bytes (Trx (Some b) l) = log_bytes b @ local_changes l"
| "log_bytes (State_Db f td nd l) = f_data f @ local_changes l"

definition log_size :: "'d sdb \<Rightarrow> nat" where
  "log_size s = length (log_bytes s)"

definition log_limit :: nat where
  "log_limit = 2 ^ 31"

text \<open>The object without the position of its stream.\<close>

fun still :: "'d sdb \<Rightarrow> 'd sdb" where
  "still (Trx None l) = Trx None l"
| "still (Trx (Some b) l) = Trx (Some (still b)) l"
| "still (State_Db f td nd l) = State_Db (f\<lparr>f_pos := 0, f_eof := False\<rparr>) td nd l"

lemma log_bytes_still [simp]: "log_bytes (still s) = log_bytes s"
  by (induction s rule: still.induct) simp_all

lemma log_bytes_same: "still s = still t \<Longrightarrow> log_bytes s = log_bytes t"
  by (metis log_bytes_still)

lemma sdb_size_eq: "sdb_size s = of_nat (log_size s)"
  by (induction s rule: log_bytes.induct) (simp_all add: len64_def log_size_def)

lemma still_Trx: "still (Trx b l) = Trx (map_option still b) l"
  by (cases b) simp_all

lemma sdb_start_eq: "sdb_start (Trx (Some b) l) = of_nat (log_size b)"
  by (simp add: sdb_size_eq)

lemma unat_small: "n < log_limit \<Longrightarrow> unat (of_nat n :: u64) = n"
  by (rule unat_of_nat_u64) (simp add: log_limit_def)

section \<open>Reading leaves the object as it is\<close>

lemma fseeko_fread_still:
  "f_data (snd (fread n (fseeko_set p f))) = f_data f \<and> f_writable (snd (fread n (fseeko_set p f))) = f_writable f"
  by (simp add: fread_def fseeko_set_def Let_def)

lemma db_read_FILE: "f_data (snd (db_read f l pos len)) = f_data f \<and> f_writable (snd (db_read f l pos len)) = f_writable f"
proof (cases "pos < len64 (f_data f)")
  case True
  obtain x f' where *: "fread (unat len) (fseeko_set (unat pos) f) = (x, f')" by fastforce
  with fseeko_fread_still [of "unat len" "unat pos" f]
  have "f_data f' = f_data f" "f_writable f' = f_writable f" by simp_all
  then show ?thesis using * True by (cases x) (simp_all add: db_read_def Let_def)
qed (simp add: db_read_def Let_def)

lemma still_FILE: "f_data f = f_data (g :: FILE) \<Longrightarrow> f_writable f = f_writable g \<Longrightarrow> f\<lparr>f_pos := 0, f_eof := False\<rparr> = g\<lparr>f_pos := 0, f_eof := False\<rparr>"
  by (cases f; cases g) simp

lemma sdb_read_still: "still (snd (sdb_read pos len s)) = still s"
proof (induction pos len s rule: sdb_read.induct)
  case (2 pos len b l)
  show ?case
  proof (cases "pos < sdb_size b")
    case True
    obtain x b' where x: "sdb_read pos len b = (x, b')" by fastforce
    with 2 True have "still b' = still b" by simp
    then show ?thesis using x True by (cases x) (simp_all add: Let_def)
  qed simp
next
  case (3 pos len f td nd l)
  obtain x f' where x: "db_read f l pos len = (x, f')" by fastforce
  with db_read_FILE [of f l pos len] have "f'\<lparr>f_pos := 0, f_eof := False\<rparr> = f\<lparr>f_pos := 0, f_eof := False\<rparr>"
    by (intro still_FILE) simp_all
  then show ?case by (simp add: x)
qed simp_all

section \<open>What reading returns\<close>

lemma unat_minus_len64:
  assumes "unat (len64 xs) = length xs" and "length xs \<le> unat n"
  shows "unat (n - len64 xs) = unat n - length xs"
  using assms by (simp add: unat_sub word_le_nat_alt)

lemma copy_local_ok:
  assumes "unat off + unat n \<le> length lc"
  shows "copy_local lc off n = Inr (take (unat n) (drop (unat off) lc))"
  using assms by (simp add: copy_local_def)

lemma unat_min: "unat (min a b :: u64) = min (unat a) (unat b)"
  by (simp add: min_def word_le_nat_alt)

lemma trx_copy_ok:
  assumes len: "length lc < log_limit" and off: "unat off \<le> length lc"
  shows "trx_copy lc off n = Inr (take (unat n) (drop (unat off) lc))"
proof (cases "lc = []")
  case False
  have l64: "unat (len64 lc) = length lc" using len by (simp add: len64_def unat_small)
  then have avail: "unat (len64 lc - off) = length lc - unat off"
    using off by (simp add: unat_sub word_le_nat_alt)
  let ?m = "min n (len64 lc - off)"
  have m: "unat ?m = min (unat n) (length lc - unat off)" by (simp add: unat_min avail)
  then have "unat ?m < 2 ^ 31" using len by (simp add: log_limit_def min_less_iff_disj) linarith
  then have nonneg: "\<not> (ucast ?m :: 32 word) <s 0" and wide: "(ucast (ucast ?m :: 32 word) :: u64) = ?m"
    by (simp_all add: not_sless_0_u32 unat_ucast_u32 ucast_ucast_u32)
  have "unat off + unat ?m \<le> length lc" using m off by linarith
  then have "trx_copy lc off n = Inr (take (unat ?m) (drop (unat off) lc))"
    using False nonneg wide by (simp add: trx_copy_def Let_def copy_local_ok)
  moreover have "take (unat ?m) (drop (unat off) lc) = take (unat n) (drop (unat off) lc)"
    using m by (simp add: min_def)
  ultimately show ?thesis by simp
qed (simp add: trx_copy_def)

lemma fread_ok: "p < 2 ^ 63 \<Longrightarrow> fst (fread n (fseeko_set p f)) = Inr (take n (drop p (f_data f)))"
  by (simp add: fread_def fseeko_set_def Let_def)

lemma db_read_ok:
  assumes len: "length (f_data f) + length (local_changes l) < log_limit"
    and pos: "unat pos \<le> length (f_data f) + length (local_changes l)"
  shows "fst (db_read f l pos n) = Inr (take (unat n) (drop (unat pos) (f_data f @ local_changes l)))"
proof -
  let ?D = "f_data f" and ?L = "local_changes l"
  have l64: "unat (len64 ?D) = length ?D" "unat (len64 ?L) = length ?L"
    using len by (simp_all add: len64_def unat_small)
  define bs where "bs = (if pos < len64 ?D then take (unat n) (drop (unat pos) ?D) else [])"
  define f1 where "f1 = (if pos < len64 ?D then snd (fread (unat n) (fseeko_set (unat pos) f)) else f)"
  have p63: "unat pos < 2 ^ 63" using pos len by (simp add: log_limit_def)
  have D1: "f_data f1 = ?D" using fseeko_fread_still [of "unat n" "unat pos" f] by (simp add: f1_def)
  have step: "db_read f l pos n =
     (if n - len64 bs \<noteq> 0 \<and> ?L \<noteq> [] then
        (map_sum id (\<lambda>b. bs @ b) (copy_local ?L (pos + len64 bs - len64 ?D)
           (min (len64 ?L - (pos + len64 bs - len64 ?D)) (n - len64 bs))), f1)
      else (Inr bs, f1))"
  proof (cases "pos < len64 ?D")
    case True
    obtain r f' where rf: "fread (unat n) (fseeko_set (unat pos) f) = (r, f')" by fastforce
    with fread_ok [OF p63, of "unat n" f] have "r = Inr bs" using True by (simp add: bs_def)
    then show ?thesis using True rf D1 by (simp add: db_read_def Let_def f1_def)
  next
    case False
    then show ?thesis using D1 by (simp add: db_read_def Let_def f1_def bs_def len64_def)
  qed
  have nbs: "unat (len64 bs) = length bs" "length bs \<le> unat n"
  proof -
    show "length bs \<le> unat n" by (simp add: bs_def)
    then have "length bs < 2 ^ 64" using unsigned_less [where 'a = nat, of n] by simp
    then show "unat (len64 bs) = length bs" by (simp add: len64_def unat_of_nat_u64)
  qed
  have rest: "unat (n - len64 bs) = unat n - length bs"
    using nbs by (simp add: unat_sub word_le_nat_alt)
  show ?thesis
  proof (cases "n - len64 bs \<noteq> 0 \<and> ?L \<noteq> []")
    case False
    then consider "unat n = length bs" | "?L = []" using rest nbs by (metis diff_is_0_eq le_antisym unat_0)
    then have "bs = take (unat n) (drop (unat pos) (?D @ ?L))"
    proof cases
      case 1
      show ?thesis
      proof (cases "pos < len64 ?D")
        case True
        then have "unat pos < length ?D" by (simp add: word_less_nat_alt l64)
        with 1 True show ?thesis by (auto simp: bs_def min_def split: if_splits)
      next
        case False
        then show ?thesis using 1 by (simp add: bs_def)
      qed
    next
      case 2
      then show ?thesis by (auto simp: bs_def word_less_nat_alt l64)
    qed
    moreover have "db_read f l pos n = (Inr bs, f1)" using step by (simp only: False if_False)
    ultimately show ?thesis by simp
  next
    case True
    then have n_gt: "length bs < unat n" using rest nbs by (metis diff_is_0_eq not_less unat_0 word_unat_eq_iff)
    have at: "unat (pos + len64 bs - len64 ?D) = unat pos - length ?D"
      and bs_eq: "bs = drop (unat pos) ?D"
    proof -
      show bs_eq: "bs = drop (unat pos) ?D"
        using n_gt by (auto simp: bs_def word_less_nat_alt l64 min_def split: if_splits)
      have "unat (pos + len64 bs) = unat pos + length bs"
        using bs_eq nbs p63 len by (simp add: unat_word_ariths log_limit_def)
      moreover have "length ?D \<le> unat pos + length bs" using bs_eq by simp
      ultimately show "unat (pos + len64 bs - len64 ?D) = unat pos - length ?D"
        using bs_eq by (simp add: unat_sub word_le_nat_alt l64)
    qed
    let ?o = "pos + len64 bs - len64 ?D"
    have o_le: "unat ?o \<le> length ?L" using at pos by linarith
    have m: "unat (min (len64 ?L - ?o) (n - len64 bs)) = min (length ?L - unat ?o) (unat n - length bs)"
      using o_le by (simp add: unat_min rest unat_sub word_le_nat_alt l64)
    have "copy_local ?L ?o (min (len64 ?L - ?o) (n - len64 bs))
      = Inr (take (min (length ?L - unat ?o) (unat n - length bs)) (drop (unat ?o) ?L))"
      using o_le by (subst copy_local_ok) (simp_all add: m)
    then have "fst (db_read f l pos n) = Inr (bs @ take (min (length ?L - unat ?o) (unat n - length bs)) (drop (unat ?o) ?L))"
      using True step by simp
    also have "take (min (length ?L - unat ?o) (unat n - length bs)) (drop (unat ?o) ?L)
      = take (unat n - length bs) (drop (unat pos - length ?D) ?L)"
      by (simp add: at min_def)
    also have "bs @ take (unat n - length bs) (drop (unat pos - length ?D) ?L) = take (unat n) (drop (unat pos) (?D @ ?L))"
      using bs_eq n_gt by simp
    finally show ?thesis .
  qed
qed

lemma sdb_read_ok:
  assumes "log_size s < log_limit" and "unat pos \<le> log_size s"
  shows "fst (sdb_read pos n s) = Inr (take (unat n) (drop (unat pos) (log_bytes s)))"
  using assms
proof (induction pos n s rule: sdb_read.induct)
  case (1 pos n l)
  then show ?case by (simp add: trx_copy_ok log_size_def)
next
  case (3 pos n f td nd l)
  then show ?case
    by (cases "db_read f l pos n") (use db_read_ok [of f l pos n] in \<open>simp add: log_size_def\<close>)
next
  case (2 pos n b l)
  let ?L = "local_changes l"
  have b: "log_size b < log_limit" and L: "length ?L < log_limit" using 2 by (simp_all add: log_size_def)
  have sz: "unat (sdb_size b) = log_size b" using b by (simp add: sdb_size_eq unat_small)
  show ?case
  proof (cases "pos < sdb_size b")
    case False
    then have ge: "log_size b \<le> unat pos" by (simp add: word_less_nat_alt sz)
    then have off: "unat (pos - sdb_size b) = unat pos - log_size b"
      by (simp add: unat_sub word_le_nat_alt sz)
    have "unat (pos - sdb_size b) \<le> length ?L" using 2(3) off by (simp add: log_size_def)
    then have "trx_copy ?L (pos - sdb_size b) n = Inr (take (unat n) (drop (unat pos - log_size b) ?L))"
      using L off by (simp add: trx_copy_ok)
    then show ?thesis using False ge by (simp add: log_size_def)
  next
    case True
    then have lt: "unat pos < log_size b" by (simp add: word_less_nat_alt sz)
    define bs where "bs = take (unat n) (drop (unat pos) (log_bytes b))"
    obtain b' where b': "sdb_read pos n b = (Inr bs, b')"
      using 2(1) True b lt by (cases "sdb_read pos n b") (auto simp: bs_def)
    have still: "still b' = still b" using sdb_read_still [of pos n b] b' by simp
    then have sz': "sdb_size b' = sdb_size b" by (simp add: sdb_size_eq log_size_def log_bytes_same [OF still])
    have len_bs: "length bs = min (unat n) (log_size b - unat pos)" by (simp add: bs_def log_size_def min.commute)
    moreover have "log_size b - unat pos < log_limit" using b by linarith
    ultimately have "length bs < log_limit" by (simp add: min.strict_coboundedI2)
    then have lbs: "unat (len64 bs) = length bs" by (simp add: len64_def unat_small)
    have rest: "unat (n - len64 bs) = unat n - length bs"
      using lbs by (rule unat_minus_len64) (simp add: len_bs)
    show ?thesis
    proof (cases "n - len64 bs = 0")
      case nil: True
      then have "unat n \<le> length bs" using rest by (metis diff_is_0_eq unat_0)
      then have "unat n \<le> log_size b - unat pos" by (simp add: len_bs)
      then have "take (unat n) (drop (unat pos) (log_bytes b @ ?L)) = bs" by (simp add: log_size_def bs_def)
      then show ?thesis using True b' nil by simp
    next
      case more: False
      then have gt: "length bs < unat n" using rest by (metis diff_is_0_eq not_less unat_0 word_unat_eq_iff)
      then have lenbs: "length bs = log_size b - unat pos" and bs: "bs = drop (unat pos) (log_bytes b)"
        by (auto simp: len_bs bs_def log_size_def min_def split: if_splits)
      have p: "unat (pos + len64 bs) = log_size b"
        using lt b by (simp add: unat_word_ariths log_limit_def lbs lenbs)
      then have at: "pos + len64 bs = sdb_size b" by (simp add: word_unat_eq_iff sz)
      have "trx_copy ?L 0 (n - len64 bs) = Inr (take (unat n - length bs) ?L)"
        using L rest by (simp add: trx_copy_ok)
      then have "fst (sdb_read pos n (Trx (Some b) l)) = Inr (bs @ take (unat n - length bs) ?L)"
        using True b' more at sz' by (simp add: Let_def)
      moreover have "bs @ take (unat n - length bs) ?L = take (unat n) (drop (unat pos) (log_bytes b @ ?L))"
        using gt lenbs lt by (simp add: bs log_size_def)
      ultimately show ?thesis by simp
    qed
  qed
qed

section \<open>Programs that only extend the log\<close>

abbreviation grows_log :: "('d sdb, 'a) prog \<Rightarrow> bool" where
  "grows_log \<equiv> grows log_size"

lemma log_size_still: "still s = still t \<Longrightarrow> log_size s = log_size t"
  by (drule log_bytes_same) (simp add: log_size_def)

lemma grows_still: "(\<And>s. still (snd (f s)) = still s) \<Longrightarrow> grows_log f"
  by (rule grows_same) (rule log_size_still)

lemma bindP_still:
  assumes "\<And>s. still (snd (f s)) = still s" and "\<And>x s. still (snd (g x s)) = still s"
  shows "still (snd (bindP f g s)) = still s"
  using assms(1) [of s] by (cases "f s") (auto simp: bindP_def assms(2) split: sum.split)

lemma read_le_still: "still (snd (read_le loc n v s)) = still s"
  unfolding read_le_def by (rule bindP_still) (simp_all add: sdb_read_still ret_def)

lemma db_get_record_still: "still (snd (db_get_record loc r s)) = still s"
  unfolding db_get_record_def Let_def
  by (intro bindP_still) (auto intro!: bindP_still simp: read_le_still sdb_read_still ret_def)

lemma get_record_still: "still (snd (get_record E loc r s)) = still s"
proof (induction E loc r s rule: get_record.induct)
  case (1 E loc r b l)
  show ?case
  proof (cases "loc \<noteq> -1 \<and> loc < sdb_start (Trx b l)")
    case True
    then obtain b' where b: "b = Some b'" by (cases b) simp_all
    with 1 True have "still (snd (get_record E loc r b')) = still b'" by simp
    then show ?thesis using True b by (simp add: case_prod_unfold)
  next
    case False
    then show ?thesis by (auto simp: Let_def split: sum.split)
  qed
qed (simp add: db_get_record_still)

lemma layer_of_set_layer [simp]: "layer_of (set_layer l s) = l"
  by (cases s) simp_all

lemma log_bytes_set_layer: "log_bytes (set_layer l s) = (take (log_size s - length (local_changes (layer_of s))) (log_bytes s)) @ local_changes l"
  by (cases s rule: log_bytes.cases) (simp_all add: log_size_def)

lemma log_bytes_layer:
  "log_bytes s = take (log_size s - length (local_changes (layer_of s))) (log_bytes s) @ local_changes (layer_of s)"
  by (cases s rule: log_bytes.cases) (simp_all add: log_size_def)

lemma log_size_set_layer:
  "length (local_changes l) \<ge> length (local_changes (layer_of s)) \<Longrightarrow> log_size s \<le> log_size (set_layer l s)"
  by (cases s rule: log_bytes.cases) (simp_all add: log_size_def)

lemma grows_on_layer:
  "(\<And>l. length (local_changes l) \<le> length (local_changes (g l))) \<Longrightarrow> grows_log (on_layer g)"
  by (simp add: grows_def on_layer_def log_size_set_layer)

lemma grows_log_ops [grows_intros]:
  "grows_log (sdb_read pos n)" "grows_log (read_le loc k v)" "grows_log (get_record E loc r)"
  "grows_log (append_record E r)" "grows_log (name_edit_index E n')" "grows_log (transfer_index E a)"
  "grows_log (set_name_edit n' i)" "grows_log (set_transfer a i)"
proof -
  show "grows_log (sdb_read pos n)" "grows_log (read_le loc k v)" "grows_log (get_record E loc r)"
    by (rule grows_still, rule sdb_read_still, rule grows_still, rule read_le_still,
        rule grows_still, rule get_record_still)
  show "grows_log (name_edit_index E n')" "grows_log (transfer_index E a)"
    by (simp_all add: grows_def name_edit_index_def transfer_index_def)
  show "grows_log (set_name_edit n' i)" "grows_log (set_transfer a i)"
    by (simp_all add: set_name_edit_def set_transfer_def grows_on_layer)
  show "grows_log (append_record E r)"
    unfolding append_record_def Let_def by (intro grows_intros grows_on_layer) simp
qed

lemma grows_log_names [grows_intros]:
  "grows_log (get_public_key E n)" "grows_log (get_name_index E n)" "grows_log (set_public_key E n pk)"
  by (simp_all only: get_public_key_def get_name_index_def set_public_key_def) (intro grows_intros)+

lemma grows_log_balances [grows_intros]:
  "grows_log (get_balance E a t)" "grows_log (transfer_balance E a b t v p)" "grows_log (issue E t p)"
  by (simp_all only: get_balance_def transfer_balance_def issue_def) (intro grows_intros)+

lemma grows_log_apply [grows_intros]:
  "grows_log (apply_register_name E trx c)" "grows_log (apply_issue E trx p c)"
  "grows_log (ensure_destination E to)" "grows_log (apply_transfer E trx g p c)"
  by (simp_all only: apply_register_name_def apply_issue_def ensure_destination_def apply_transfer_def)
    (intro grows_intros)+

lemma grows_log_apply_command [grows_intros]: "grows_log (apply_command E trx g p c)"
  unfolding apply_command_def by (intro grows_intros)

lemma grows_log_apply_commands [grows_intros]: "grows_log (apply_commands E trx g p cs)"
  by (induction cs) (auto intro!: grows_intros)

lemma grows_log_apply_trx [grows_intros]: "grows_log (apply_trx E trx g)"
  unfolding apply_trx_def by (intro grows_intros)

end
