(* ===== verification/LogRep.thy ===== *)
theory LogRep
  imports StateLog
begin

text \<open>
  The log as a list of entries, and \<open>holds\<close>: the object of a state database holds these
  entries and these two indexes. The operations on the log and the indexes are correct for
  it, whatever the chain of transactions is.
\<close>

section \<open>What the program relies on\<close>

text \<open>
  A struct whose packed form is shorter than the limit unpacks to itself; a record is packed
  member after member, little-endian, its data behind their 32-bit length (the layout
  \<open>state_database::get_record\<close> reads by hand); the databases are B-trees.
\<close>

definition round_trips :: "'a codec \<Rightarrow> bool" where
  "round_trips c \<longleftrightarrow> (\<forall>x. length (pack c x) < log_limit \<longrightarrow> (\<forall>rest. unpack c (pack c x @ rest) = Inr x))"

definition record_layout :: "state_record \<Rightarrow> bytes" where
  "record_layout r = le_bytes 2 (unat (sr_id r)) @ le_bytes 4 (length (sr_data r)) @ sr_data r @ le_bytes 8 (unat (sr_previous r))"

definition small_names :: "'d env \<Rightarrow> string set" where
  "small_names E = {n. length (pack (e_string E) n) < log_limit}"

definition env_laws :: "'d env \<Rightarrow> ('d \<Rightarrow> (bytes \<times> bytes) list) \<Rightarrow> bool" where
  "env_laws E ents \<longleftrightarrow>
     (\<forall>r. pack (e_record E) r = record_layout r) \<and> round_trips (e_record E)
     \<and> round_trips (e_define_name E) \<and> round_trips (e_update_name E) \<and> round_trips (e_transfer_log E)
     \<and> round_trips (e_start_trx E) \<and> round_trips (e_end_block E)
     \<and> kv_ok (e_bdb E) ents (e_account_key E) (e_uint64 E) UNIV UNIV
     \<and> kv_ok (e_bdb E) ents (e_string E) (e_uint64 E) (small_names E) UNIV"

lemma round_trips_unpack: "round_trips c \<Longrightarrow> length (pack c x) < log_limit \<Longrightarrow> unpack c (pack c x) = Inr x"
  unfolding round_trips_def by (metis append_Nil2)

lemma length_record_layout: "length (record_layout r) = 14 + length (sr_data r)"
  by (simp add: record_layout_def)

section \<open>Entries\<close>

datatype entry =
    Define define_name
  | Update update_name
  | Transfer transfer_log
  | Start start_trx
  | End end_block

fun entry_record :: "'d env \<Rightarrow> entry \<Rightarrow> state_record" where
  "entry_record E (Define d) = state_record_of (e_define_name E) define_name_id d"
| "entry_record E (Update u) = state_record_of (e_update_name E) update_name_id u"
| "entry_record E (Transfer t) = state_record_of (e_transfer_log E) transfer_log_id t"
| "entry_record E (Start s) = state_record_of (e_start_trx E) start_trx_id s"
| "entry_record E (End b) = state_record_of (e_end_block E) end_block_id b"

definition entry_len :: "'d env \<Rightarrow> entry \<Rightarrow> nat" where
  "entry_len E e = 14 + length (sr_data (entry_record E e))"

definition entry_at_pos :: "'d env \<Rightarrow> nat \<Rightarrow> entry \<Rightarrow> state_record" where
  \<comment> \<open>the record of an entry at a position of the log, as \<open>append_record\<close> writes it\<close>
  "entry_at_pos E p e = (entry_record E e)\<lparr>sr_previous := of_nat p\<rparr>"

primrec log_from :: "'d env \<Rightarrow> nat \<Rightarrow> entry list \<Rightarrow> bytes" where
  "log_from E p [] = []"
| "log_from E p (e # es) = record_layout (entry_at_pos E p e) @ log_from E (p + entry_len E e) es"

definition entries_len :: "'d env \<Rightarrow> entry list \<Rightarrow> nat" where
  "entries_len E es = sum_list (map (entry_len E) es)"

primrec entry_at :: "'d env \<Rightarrow> nat \<Rightarrow> entry list \<Rightarrow> nat \<Rightarrow> entry option" where
  "entry_at E p [] loc = None"
| "entry_at E p (e # es) loc = (if loc = p then Some e else entry_at E (p + entry_len E e) es loc)"

lemma entries_len_simps [simp]:
  "entries_len E [] = 0" "entries_len E (e # es) = entry_len E e + entries_len E es"
  "entries_len E (es @ es') = entries_len E es + entries_len E es'"
  by (simp_all add: entries_len_def)

lemma entry_len_pos: "14 \<le> entry_len E e"
  by (simp add: entry_len_def)

lemma length_entry_at_pos: "length (record_layout (entry_at_pos E p e)) = entry_len E e"
  by (simp add: length_record_layout entry_at_pos_def entry_len_def)

lemma length_log_from [simp]: "length (log_from E p es) = entries_len E es"
  by (induction es arbitrary: p) (simp_all add: length_entry_at_pos)

lemma log_from_append: "log_from E p (es @ es') = log_from E p es @ log_from E (p + entries_len E es) es'"
  by (induction es arbitrary: p) (simp_all add: add.assoc)

lemma entry_at_split:
  "entry_at E p es loc = Some e \<Longrightarrow> \<exists>es1 es2. es = es1 @ e # es2 \<and> loc = p + entries_len E es1"
proof (induction es arbitrary: p)
  case (Cons x es)
  show ?case
  proof (cases "loc = p")
    case True
    with Cons.prems have "x # es = [] @ e # es \<and> loc = p + entries_len E []" by simp
    then show ?thesis by blast
  next
    case False
    then obtain es1 es2 where "es = es1 @ e # es2" "loc = p + entry_len E x + entries_len E es1"
      using Cons by fastforce
    then have "x # es = (x # es1) @ e # es2 \<and> loc = p + entries_len E (x # es1)" by simp
    then show ?thesis by blast
  qed
qed simp

lemma entry_at_bounds:
  assumes "entry_at E p es loc = Some e"
  shows "p \<le> loc" and "loc + entry_len E e \<le> p + entries_len E es"
proof -
  obtain es1 es2 where "es = es1 @ e # es2" "loc = p + entries_len E es1"
    using entry_at_split [OF assms] by blast
  then show "p \<le> loc" "loc + entry_len E e \<le> p + entries_len E es" by simp_all
qed

lemma entry_at_append:
  "entry_at E p (es @ es') loc =
     (case entry_at E p es loc of Some e \<Rightarrow> Some e | None \<Rightarrow> entry_at E (p + entries_len E es) es' loc)"
  by (induction es arbitrary: p) (simp_all add: add.assoc split: option.split)

lemma entry_at_ge:
  assumes "p + entries_len E es \<le> loc"
  shows "entry_at E p es loc = None"
proof (cases "entry_at E p es loc")
  case (Some e)
  then show ?thesis
    using entry_at_bounds(2) [OF Some] entry_len_pos [of E e] assms by linarith
qed simp

lemma entry_at_lt: "loc < p \<Longrightarrow> entry_at E p es loc = None"
  using entry_at_bounds(1) [of E p es loc] by (cases "entry_at E p es loc") fastforce+

lemma entry_at_new: "entry_at E 0 (es @ [e]) (entries_len E es) = Some e"
  by (simp add: entry_at_append entry_at_ge)

lemma entry_at_old: "entry_at E 0 es loc = Some e \<Longrightarrow> entry_at E 0 (es @ es') loc = Some e"
  by (simp add: entry_at_append)

section \<open>What an object holds\<close>

record ledger =
  lg_log :: "entry list"
  lg_names :: "string \<Rightarrow> u64 option"
  lg_accts :: "account_key \<Rightarrow> u64 option"

definition index_ok :: "('k :: linorder, u64) omap \<Rightarrow> bool" where
  "index_ok m \<longleftrightarrow> om_wf m \<and> (\<forall>k. om_find k m \<noteq> Some (-1))"

definition over :: "('k \<Rightarrow> 'v option) \<Rightarrow> ('k :: linorder, 'v) omap \<Rightarrow> 'k \<Rightarrow> 'v option" where
  \<comment> \<open>an index of the base below the entries of a map\<close>
  "over f m k = (case om_find k m of Some v \<Rightarrow> Some v | None \<Rightarrow> f k)"

fun holds :: "'d env \<Rightarrow> ('d \<Rightarrow> (bytes \<times> bytes) list) \<Rightarrow> ledger \<Rightarrow> 'd sdb \<Rightarrow> bool" where
  "holds E ents lg (Trx None l) \<longleftrightarrow>
     local_changes l = log_from E 0 (lg_log lg)
     \<and> lg_names lg = over (\<lambda>_. None) (last_name_edit_map l) \<and> lg_accts lg = over (\<lambda>_. None) (last_transfer_map l)
     \<and> index_ok (last_name_edit_map l) \<and> index_ok (last_transfer_map l)"
| "holds E ents lg (Trx (Some b) l) \<longleftrightarrow>
     (\<exists>blg es. holds E ents blg b \<and> lg_log lg = lg_log blg @ es
     \<and> local_changes l = log_from E (entries_len E (lg_log blg)) es
     \<and> lg_names lg = over (lg_names blg) (last_name_edit_map l) \<and> lg_accts lg = over (lg_accts blg) (last_transfer_map l)
     \<and> index_ok (last_name_edit_map l) \<and> index_ok (last_transfer_map l))"
| "holds E ents lg (State_Db f td nd l) \<longleftrightarrow>
     (\<exists>es1 es tm nm. lg_log lg = es1 @ es \<and> f_data f = log_from E 0 es1
     \<and> local_changes l = log_from E (entries_len E es1) es
     \<and> kv_rep ents (e_string E) (e_uint64 E) (small_names E) UNIV nd nm
     \<and> kv_rep ents (e_account_key E) (e_uint64 E) UNIV UNIV td tm
     \<and> lg_names lg = over (\<lambda>k. om_find k nm) (last_name_edit_map l)
     \<and> lg_accts lg = over (\<lambda>k. om_find k tm) (last_transfer_map l)
     \<and> index_ok nm \<and> index_ok tm
     \<and> index_ok (last_name_edit_map l) \<and> index_ok (last_transfer_map l))"

lemma holds_still: "holds E ents lg (still s) \<longleftrightarrow> holds E ents lg s"
  by (induction s arbitrary: lg rule: still.induct) simp_all

lemma holds_same: "still s' = still s \<Longrightarrow> holds E ents lg s \<Longrightarrow> holds E ents lg s'"
  by (metis holds_still)

lemma holds_log_bytes: "holds E ents lg s \<Longrightarrow> log_bytes s = log_from E 0 (lg_log lg)"
  by (induction s arbitrary: lg rule: log_bytes.induct) (auto simp: log_from_append)

lemma holds_size: "holds E ents lg s \<Longrightarrow> log_size s = entries_len E (lg_log lg)"
  by (simp add: log_size_def holds_log_bytes)

section \<open>Extending the log and the indexes\<close>

lemma holds_append:
  assumes "holds E ents lg s"
  shows "holds E ents (lg\<lparr>lg_log := lg_log lg @ es\<rparr>)
    (set_layer ((layer_of s)\<lparr>local_changes := local_changes (layer_of s) @ log_from E (entries_len E (lg_log lg)) es\<rparr>) s)"
  using assms
proof (cases s rule: log_bytes.cases)
  case (2 b l)
  then obtain blg es0 where "holds E ents blg b" "lg_log lg = lg_log blg @ es0"
     "local_changes l = log_from E (entries_len E (lg_log blg)) es0"
     "lg_names lg = over (lg_names blg) (last_name_edit_map l)" "lg_accts lg = over (lg_accts blg) (last_transfer_map l)"
     "index_ok (last_name_edit_map l)" "index_ok (last_transfer_map l)"
    using assms by auto
  then show ?thesis
    using 2 by (auto intro!: exI [of _ blg] simp: log_from_append)
next
  case (3 f td nd l)
  with assms show ?thesis
    by simp (metis append_assoc entries_len_simps(3) log_from_append)
qed (simp add: log_from_append)

lemma over_set: "over f (om_set k v m) = (over f m)(k := Some v)"
  by (rule ext) (simp add: over_def om_find_set)

lemma index_ok_set: "index_ok m \<Longrightarrow> v \<noteq> -1 \<Longrightarrow> index_ok (om_set k v m)"
  by (simp add: index_ok_def om_set_wf om_find_set)

lemma holds_TrxI:
  assumes "holds E ents blg b" "lg_log lg = lg_log blg @ es"
     "local_changes l = log_from E (entries_len E (lg_log blg)) es"
     "lg_names lg = over (lg_names blg) (last_name_edit_map l)" "lg_accts lg = over (lg_accts blg) (last_transfer_map l)"
     "index_ok (last_name_edit_map l)" "index_ok (last_transfer_map l)"
  shows "holds E ents lg (Trx (Some b) l)"
  using assms by auto

lemma holds_DbI:
  assumes "lg_log lg = es1 @ es" "f_data f = log_from E 0 es1"
     "local_changes l = log_from E (entries_len E es1) es"
     "kv_rep ents (e_string E) (e_uint64 E) (small_names E) UNIV nd nm"
     "kv_rep ents (e_account_key E) (e_uint64 E) UNIV UNIV td tm"
     "lg_names lg = over (\<lambda>k. om_find k nm) (last_name_edit_map l)"
     "lg_accts lg = over (\<lambda>k. om_find k tm) (last_transfer_map l)"
     "index_ok nm" "index_ok tm" "index_ok (last_name_edit_map l)" "index_ok (last_transfer_map l)"
  shows "holds E ents lg (State_Db f td nd l)"
  using assms by auto

text \<open>
  Replacing the index maps of the object itself: an entry put in a map shows in the index.
\<close>

lemma holds_layer_maps:
  assumes "holds E ents lg s" and "layer_of s = l" and "local_changes l' = local_changes l"
    and "\<And>f. over f (last_name_edit_map l') = N (over f (last_name_edit_map l))"
    and "\<And>f. over f (last_transfer_map l') = T (over f (last_transfer_map l))"
    and "index_ok (last_name_edit_map l) \<Longrightarrow> index_ok (last_name_edit_map l')"
    and "index_ok (last_transfer_map l) \<Longrightarrow> index_ok (last_transfer_map l')"
  shows "holds E ents (lg\<lparr>lg_names := N (lg_names lg), lg_accts := T (lg_accts lg)\<rparr>) (set_layer l' s)"
proof (cases s rule: log_bytes.cases)
  case (1 l0)
  with assms show ?thesis by simp
next
  case (2 b l0)
  with assms(1) obtain blg es where *: "holds E ents blg b" "lg_log lg = lg_log blg @ es"
     "local_changes l0 = log_from E (entries_len E (lg_log blg)) es"
     "lg_names lg = over (lg_names blg) (last_name_edit_map l0)" "lg_accts lg = over (lg_accts blg) (last_transfer_map l0)"
     "index_ok (last_name_edit_map l0)" "index_ok (last_transfer_map l0)"
    by auto
  show ?thesis
    unfolding 2 set_layer.simps by (rule holds_TrxI) (use * assms 2 in simp_all)
next
  case (3 f td nd l0)
  with assms(1) obtain es1 es tm nm where *: "lg_log lg = es1 @ es" "f_data f = log_from E 0 es1"
     "local_changes l0 = log_from E (entries_len E es1) es"
     "kv_rep ents (e_string E) (e_uint64 E) (small_names E) UNIV nd nm"
     "kv_rep ents (e_account_key E) (e_uint64 E) UNIV UNIV td tm"
     "lg_names lg = over (\<lambda>k. om_find k nm) (last_name_edit_map l0)"
     "lg_accts lg = over (\<lambda>k. om_find k tm) (last_transfer_map l0)"
     "index_ok nm" "index_ok tm" "index_ok (last_name_edit_map l0)" "index_ok (last_transfer_map l0)"
    by auto
  show ?thesis
    unfolding 3 set_layer.simps
    by (rule holds_DbI [where nm = nm and tm = tm]) (use * assms 3 in simp_all)
qed

lemma ledger_same_accts [simp]: "lg\<lparr>lg_names := n, lg_accts := lg_accts lg\<rparr> = lg\<lparr>lg_names := n\<rparr>"
  by (cases lg) simp

lemma ledger_same_names [simp]: "lg\<lparr>lg_names := lg_names lg, lg_accts := a\<rparr> = lg\<lparr>lg_accts := a\<rparr>"
  by (cases lg) simp

lemma holds_set_name:
  assumes "holds E ents lg s" and "i \<noteq> -1"
  shows "holds E ents (lg\<lparr>lg_names := (lg_names lg)(n := Some i)\<rparr>) (snd (set_name_edit n i s))"
  using holds_layer_maps [OF assms(1) refl, where N = "\<lambda>f. f(n := Some i)" and T = "\<lambda>f. f"
      and l' = "(layer_of s)\<lparr>last_name_edit_map := om_set n i (last_name_edit_map (layer_of s))\<rparr>"] assms(2)
  by (simp add: set_name_edit_def on_layer_def over_set index_ok_set)

lemma holds_set_acct:
  assumes "holds E ents lg s" and "i \<noteq> -1"
  shows "holds E ents (lg\<lparr>lg_accts := (lg_accts lg)(a := Some i)\<rparr>) (snd (set_transfer a i s))"
  using holds_layer_maps [OF assms(1) refl, where N = "\<lambda>f. f" and T = "\<lambda>f. f(a := Some i)"
      and l' = "(layer_of s)\<lparr>last_transfer_map := om_set a i (last_transfer_map (layer_of s))\<rparr>"] assms(2)
  by (simp add: set_transfer_def on_layer_def over_set index_ok_set)

section \<open>Reading the indexes and the records\<close>

definition index_of :: "u64 option \<Rightarrow> u64" where
  "index_of i = (case i of None \<Rightarrow> -1 | Some i \<Rightarrow> i)"

lemma over_None: "om_find k m = None \<Longrightarrow> over f m k = f k" and over_Some: "om_find k m = Some v \<Longrightarrow> over f m k = Some v"
  by (simp_all add: over_def)

lemma name_index_holds:
  assumes "env_laws E ents" and "holds E ents lg s" and n: "n \<in> small_names E"
  shows "get_last_name_edit_index E n s = Inr (index_of (lg_names lg n))"
  using assms(2)
proof (induction s arbitrary: lg rule: log_bytes.induct)
  case (1 l)
  then show ?case by (simp add: over_def index_of_def split: option.split)
next
  case (2 b l)
  then show ?case by (auto simp: over_def index_of_def split: option.split)
next
  case (3 f td nd l)
  then obtain nm where nm: "kv_rep ents (e_string E) (e_uint64 E) (small_names E) UNIV nd nm"
     "lg_names lg = over (\<lambda>k. om_find k nm) (last_name_edit_map l)" "index_ok (last_name_edit_map l)"
    by auto
  have "kv_get (e_bdb E) (e_string E) (e_uint64 E) n nd = Inr (om_find n nm)"
    using assms(1) by (intro kv_get_map [OF _ nm(1) n]) (simp add: env_laws_def)
  then show ?case
    using nm(2,3) by (auto simp: over_def index_of_def index_ok_def Let_def split: option.split)
qed

lemma acct_index_holds:
  assumes "env_laws E ents" and "holds E ents lg s"
  shows "get_last_transfer_index E a s = Inr (index_of (lg_accts lg a))"
  using assms(2)
proof (induction s arbitrary: lg rule: log_bytes.induct)
  case (1 l)
  then show ?case by (simp add: over_def index_of_def split: option.split)
next
  case (2 b l)
  then show ?case by (auto simp: over_def index_of_def split: option.split)
next
  case (3 f td nd l)
  then obtain tm where tm: "kv_rep ents (e_account_key E) (e_uint64 E) UNIV UNIV td tm"
     "lg_accts lg = over (\<lambda>k. om_find k tm) (last_transfer_map l)" "index_ok (last_transfer_map l)"
    by auto
  have "kv_get (e_bdb E) (e_account_key E) (e_uint64 E) a td = Inr (om_find a tm)"
    using assms(1) by (intro kv_get_map [OF _ tm(1)]) (simp_all add: env_laws_def)
  then show ?case
    using tm(2,3) by (auto simp: over_def index_of_def index_ok_def Let_def split: option.split)
qed

text \<open>The bytes at the position of an entry are its record.\<close>

lemma drop_log_from:
  assumes "entry_at E p es loc = Some e"
  shows "\<exists>rest. drop (loc - p) (log_from E p es) = record_layout (entry_at_pos E loc e) @ rest"
proof -
  obtain es1 es2 where "es = es1 @ e # es2" "loc = p + entries_len E es1"
    using entry_at_split [OF assms] by blast
  then show ?thesis by (simp add: log_from_append)
qed

lemma read_le_ok:
  assumes "log_size s < log_limit" and "drop (unat loc) (log_bytes s) = le_bytes n v @ rest" and "n > 0"
    and "v < 256 ^ n" and "n < 2 ^ 64"
  shows "fst (read_le loc n w s) = Inr (n, v)"
proof -
  have "unat loc \<le> log_size s"
  proof (rule ccontr)
    assume "\<not> ?thesis"
    then have "drop (unat loc) (log_bytes s) = []" by (simp add: log_size_def)
    with assms(2,3) show False by (metis append_is_Nil_conv length_le_bytes list.size(3) less_numeral_extra(3))
  qed
  then have "fst (sdb_read loc (of_nat n) s) = Inr (le_bytes n v)"
    using sdb_read_ok [OF assms(1), of loc "of_nat n"] assms(2,5) by (simp add: unat_of_nat_u64)
  then show ?thesis
    using assms(4)
    by (cases "sdb_read loc (of_nat n) s :: (exn + bytes) \<times> 'a sdb")
      (simp add: read_le_def bindP_def ret_def overlay_full le_val_le_bytes)
qed

lemma bindP_value: "fst (f s) = Inr x \<Longrightarrow> fst (bindP f g s) = fst (g x (snd (f s)))"
  by (cases "f s") (simp add: bindP_def)

lemma db_get_record_ok:
  assumes lim: "log_size s < log_limit" and at: "drop (unat loc) (log_bytes s) = record_layout r @ rest"
  shows "fst (db_get_record loc r0 s) = Inr (of_nat (14 + length (sr_data r)), r)"
proof -
  let ?n = "length (sr_data r)"
  have "length (drop (unat loc) (log_bytes s)) = 14 + ?n + length rest"
    by (simp only: at) (simp add: length_record_layout)
  then have size: "unat loc + 14 + ?n \<le> log_size s" by (simp add: log_size_def)
  then have n: "?n < 2 ^ 31" and loc: "unat loc < 2 ^ 31" using lim by (simp_all add: log_limit_def)
  have un: "unat (of_nat ?n :: u64) = ?n" using n by (simp add: unat_of_nat_u64)
  have l2: "unat (loc + 2) = unat loc + 2" using loc unat_add_u64 [of loc 2] by simp
  have l6: "unat (loc + 2 + 4) = unat loc + 6"
    using loc l2 unat_add_u64 [of "loc + 2" 4] by (simp del: add_numeral_special add.assoc)
  have l14: "unat (loc + 2 + 4 + of_nat ?n) = unat loc + 6 + ?n"
    using loc l6 n un unat_add_u64 [of "loc + 2 + 4" "of_nat ?n"] by simp
  have drop_more: "drop (unat loc + k) (log_bytes s) = drop k (record_layout r @ rest)" for k
    using at by (metis add.commute drop_drop)
  define s1 where "s1 = snd (read_le loc 2 0 s)"
  define s2 where "s2 = snd (read_le (loc + 2) 4 0 s1)"
  define s3 where "s3 = (if ?n \<noteq> 0 then snd (sdb_read (loc + 2 + 4) (of_nat ?n) s2) else s2)"
  have st: "still s1 = still s" "still s2 = still s" "still s3 = still s"
    by (simp_all add: s1_def s2_def s3_def read_le_still sdb_read_still)
  note bytes = st [THEN log_bytes_same] and sizes = st [THEN log_size_still]
  have id16: "unat (sr_id r) < 256 ^ 2" using unsigned_less [where 'a = nat, of "sr_id r"] by simp
  have prev64: "unat (sr_previous r) < 256 ^ 8" using unsigned_less [where 'a = nat, of "sr_previous r"] by simp
  have d2: "drop (unat (loc + 2)) (log_bytes s1) = le_bytes 4 ?n @ sr_data r @ le_bytes 8 (unat (sr_previous r)) @ rest"
    by (simp only: l2 bytes drop_more) (simp add: record_layout_def)
  have d14: "drop (unat (loc + 2 + 4 + of_nat ?n)) (log_bytes s3) = le_bytes 8 (unat (sr_previous r)) @ rest"
    unfolding l14 bytes using drop_more [of "6 + ?n"] by (simp add: record_layout_def add.assoc)
  have 1: "fst (read_le loc 2 0 s) = Inr (2, unat (sr_id r))"
    by (rule read_le_ok [OF lim _ _ id16]) (simp_all add: at record_layout_def)
  have 2: "fst (read_le (loc + 2) 4 0 s1) = Inr (4, ?n)"
    by (rule read_le_ok [OF _ d2]) (use n lim in \<open>simp_all add: sizes\<close>)
  have 3: "fst ((if ?n \<noteq> 0 then sdb_read (loc + 2 + 4) (of_nat ?n) else ret []) s2) = Inr (sr_data r)"
  proof (cases "?n = 0")
    case False
    have "fst (sdb_read (loc + 2 + 4) (of_nat ?n) s2) = Inr (take ?n (drop (unat loc + 6) (log_bytes s)))"
      using sdb_read_ok [of s2 "loc + 2 + 4" "of_nat ?n"] lim size l6 by (simp add: sizes bytes un)
    then show ?thesis using False by (simp add: drop_more record_layout_def)
  qed (simp add: ret_def)
  have s3_eq: "snd ((if ?n \<noteq> 0 then sdb_read (loc + 2 + 4) (of_nat ?n) else ret []) s2) = s3"
    by (simp add: s3_def ret_def)
  have 4: "fst (read_le (loc + 2 + 4 + of_nat ?n) 8 w s3) = Inr (8, unat (sr_previous r))" for w
    by (rule read_le_ok [OF _ d14 _ prev64]) (use lim in \<open>simp_all add: sizes\<close>)
  let ?r1 = "r0\<lparr>sr_id := of_nat (unat (sr_id r))\<rparr>"
  let ?r2 = "?r1\<lparr>sr_data := resize ?n (sr_data ?r1)\<rparr>"
  let ?r3 = "?r2\<lparr>sr_data := overlay (sr_data r) (sr_data ?r2)\<rparr>"
  let ?r4 = "?r3\<lparr>sr_previous := of_nat (unat (sr_previous r))\<rparr>"
  have "fst (db_get_record loc r0 s) = Inr (8 + 2 + 4 + of_nat ?n, ?r4)"
    unfolding db_get_record_def Let_def
    by (simp only: bindP_value [where f = "read_le loc 2 0" and s = s, OF 1]
        bindP_value [where f = "read_le (loc + 2) 4 0" and s = s1, OF 2]
        bindP_value [where f = "if ?n \<noteq> 0 then sdb_read (loc + 2 + 4) (of_nat ?n) else ret []" and s = s2, OF 3]
        bindP_value [where f = "read_le (loc + 2 + 4 + of_nat ?n) 8 w" and s = s3 for w, OF 4] s3_eq
        s1_def [symmetric] s2_def [symmetric] prod.case simp_thms if_True if_False ret_def fst_conv)
  moreover have "?r4 = r"
    by (simp add: overlay_full resize_def)
  ultimately show ?thesis by simp
qed

lemma record_unpack:
  assumes "env_laws E ents" and "entry_len E e < log_limit"
  shows "unpack (e_record E) (record_layout (entry_at_pos E p e) @ rest) = Inr (entry_at_pos E p e)"
    and "len64 (pack (e_record E) (entry_at_pos E p e)) = of_nat (entry_len E e)"
proof -
  have pk: "pack (e_record E) r = record_layout r" for r using assms(1) by (simp add: env_laws_def)
  have "round_trips (e_record E)" using assms(1) by (simp add: env_laws_def)
  then show "unpack (e_record E) (record_layout (entry_at_pos E p e) @ rest) = Inr (entry_at_pos E p e)"
    using assms(2) unfolding round_trips_def by (metis length_entry_at_pos pk)
  show "len64 (pack (e_record E) (entry_at_pos E p e)) = of_nat (entry_len E e)"
    by (simp add: pk len64_def length_entry_at_pos)
qed

lemma get_record_ok:
  assumes laws: "env_laws E ents" and "holds E ents lg s" and "log_size s < log_limit"
    and "entry_at E 0 (lg_log lg) (unat loc) = Some e"
  shows "fst (get_record E loc r0 s) = Inr (of_nat (entry_len E e), entry_at_pos E (unat loc) e)"
  using assms(2-)
proof (induction s arbitrary: lg rule: log_bytes.induct)
  case (3 f td nd l)
  then obtain rest where "drop (unat loc) (log_bytes (State_Db f td nd l)) = record_layout (entry_at_pos E (unat loc) e) @ rest"
    using drop_log_from [of E 0] holds_log_bytes by (metis minus_nat.diff_0)
  then show ?case
    using db_get_record_ok [OF 3(2)] by (simp add: entry_at_pos_def entry_len_def)
next
  case (1 l)
  have bound: "unat loc + entry_len E e \<le> length (local_changes l)"
    using entry_at_bounds(2) [OF 1(3)] 1(1) by simp
  then have lt: "unat loc < length (local_changes l)" using entry_len_pos [of E e] by linarith
  have lim: "length (local_changes l) < log_limit" using 1(2) by (simp add: log_size_def)
  have m1: "loc \<noteq> -1" using lt lim by (auto simp: unat_minus_one_u64 log_limit_def)
  have l64: "\<not> len64 (local_changes l) \<le> loc"
    using lt lim by (simp add: len64_def word_le_nat_alt unat_small)
  obtain rest where "drop (unat loc) (local_changes l) = record_layout (entry_at_pos E (unat loc) e) @ rest"
    using drop_log_from [OF 1(3)] 1(1) by auto
  moreover have "entry_len E e < log_limit" using bound lim by linarith
  ultimately show ?case
    using m1 l64 by (simp add: record_unpack [OF laws])
next
  case (2 b l)
  obtain blg es where b: "holds E ents blg b" "lg_log lg = lg_log blg @ es"
     "local_changes l = log_from E (entries_len E (lg_log blg)) es"
    using 2(2) by auto
  have sz: "log_size b = entries_len E (lg_log blg)" using b(1) by (rule holds_size)
  have limb: "log_size b < log_limit" and liml: "length (local_changes l) < log_limit"
    using 2(3) by (simp_all add: log_size_def)
  have ub: "unat (sdb_size b) = log_size b" using limb by (simp add: sdb_size_eq unat_small)
  have bound: "unat loc + entry_len E e \<le> log_size (Trx (Some b) l)"
    using entry_at_bounds(2) [OF 2(4)] holds_size [OF 2(2)] by simp
  have m1: "loc \<noteq> -1"
    using bound 2(3) entry_len_pos [of E e] by (auto simp: unat_minus_one_u64 log_limit_def)
  show ?case
  proof (cases "loc < sdb_size b")
    case True
    then have "unat loc < entries_len E (lg_log blg)" by (simp add: word_less_nat_alt ub sz)
    then have "entry_at E 0 (lg_log blg) (unat loc) = Some e"
      using 2(4) b(2) entry_at_lt [of "unat loc" "0 + entries_len E (lg_log blg)" E es]
      by (simp add: entry_at_append split: option.splits)
    then show ?thesis
      using 2(1) [OF b(1) limb] True m1 by (cases "get_record E loc r0 b") simp
  next
    case False
    then have ge: "entries_len E (lg_log blg) \<le> unat loc" by (simp add: word_less_nat_alt ub sz)
    then have at: "entry_at E (entries_len E (lg_log blg)) es (unat loc) = Some e"
      using 2(4) b(2) entry_at_ge [of 0 E "lg_log blg" "unat loc"] by (simp add: entry_at_append)
    let ?loc = "loc - sdb_size b"
    have off: "unat ?loc = unat loc - entries_len E (lg_log blg)"
      using ge by (simp add: unat_sub word_le_nat_alt ub sz)
    have bound': "unat ?loc + entry_len E e \<le> length (local_changes l)"
      using entry_at_bounds(2) [OF at] b(3) off ge by simp
    then have lt: "unat ?loc < length (local_changes l)" using entry_len_pos [of E e] by linarith
    then have l64: "\<not> len64 (local_changes l) \<le> ?loc"
      using liml by (simp add: len64_def word_le_nat_alt unat_small)
    obtain rest where "drop (unat ?loc) (local_changes l) = record_layout (entry_at_pos E (unat loc) e) @ rest"
      using drop_log_from [OF at] b(3) off by auto
    moreover have "entry_len E e < log_limit" using bound' liml by linarith
    ultimately show ?thesis
      using m1 l64 False by (simp add: record_unpack [OF laws] Let_def)
  qed
qed

end
