(* ===== verification/Market.thy ===== *)
theory Market
  imports Types
begin

text \<open>
  What the log is about, without the log: the key that owns each name and the balance of each
  account in each stock. \<open>m_command\<close> says what a command of a signed transaction does to it;
  the supply of a stock and the right to change an account are stated and proved here, and
  MarketSim shows that the state database computes it.
\<close>

record market =
  mk_keys :: "string \<Rightarrow> public_key option"
  mk_bals :: "string \<times> string \<Rightarrow> u64 option" \<comment> \<open>account and stock\<close>

definition empty_market :: market where
  "empty_market = \<lparr>mk_keys = (\<lambda>_. None), mk_bals = (\<lambda>_. None)\<rparr>"

definition balance :: "market \<Rightarrow> string \<Rightarrow> string \<Rightarrow> u64" where
  "balance m a t = (case mk_bals m (a, t) of None \<Rightarrow> 0 | Some b \<Rightarrow> b)"

definition m_set_key :: "string \<Rightarrow> public_key \<Rightarrow> market \<Rightarrow> market" where
  "m_set_key n pk m = m\<lparr>mk_keys := (mk_keys m)(n := Some pk)\<rparr>"

definition m_move :: "string \<Rightarrow> string \<Rightarrow> string \<Rightarrow> u64 \<Rightarrow> market \<Rightarrow> market" where
  "m_move from to t amnt m =
     m\<lparr>mk_bals := (mk_bals m)((to, t) := Some (balance m to t + amnt), (from, t) := Some (balance m from t - amnt))\<rparr>"

definition m_issue_all :: "string \<Rightarrow> market \<Rightarrow> market" where
  "m_issue_all t m = m\<lparr>mk_bals := (mk_bals m)((t, t) := Some (-1))\<rparr>"

definition signed_by :: "'d env \<Rightarrow> signed_transaction \<Rightarrow> public_key option \<Rightarrow> bool" where
  "signed_by E trx k = (case k of None \<Rightarrow> False | Some pk \<Rightarrow> strx_verify E trx pk)"

definition m_register :: "'d env \<Rightarrow> signed_transaction \<Rightarrow> register_name \<Rightarrow> market \<Rightarrow> bool \<times> market" where
  "m_register E trx rn m =
     (if rn_name rn = encode_address E (rn_pub_key rn) \<or> mk_keys m (rn_name rn) = None
        \<or> signed_by E trx (mk_keys m (rn_name rn))
      then (True, m_set_key (rn_name rn) (rn_pub_key rn) m) else (False, m))"

definition m_issue :: "'d env \<Rightarrow> signed_transaction \<Rightarrow> issue_cmd \<Rightarrow> market \<Rightarrow> bool \<times> market" where
  "m_issue E trx is m =
     (if mk_bals m (is_stock_name is, is_stock_name is) = None \<and> signed_by E trx (mk_keys m (is_stock_name is))
      then (True, m_issue_all (is_stock_name is) m) else (False, m))"

definition destination :: "string \<Rightarrow> transfer_cmd \<Rightarrow> string" where
  "destination gen tr = (if tr_to_name tr = [] then gen else tr_to_name tr)"

definition m_transfer :: "'d env \<Rightarrow> signed_transaction \<Rightarrow> string \<Rightarrow> transfer_cmd \<Rightarrow> market \<Rightarrow> bool \<times> market" where
  "m_transfer E trx gen tr m =
     (let to = destination gen tr in
      if tr_to_name tr \<noteq> [] \<and> tr_from_name tr = tr_to_name tr then (False, m)
      else if mk_keys m (tr_stock_name tr) = None then (False, m)
      else if \<not> signed_by E trx (mk_keys m (tr_from_name tr)) then (False, m)
      else if balance m (tr_from_name tr) (tr_stock_name tr) < tr_amount tr then (False, m)
      else if mk_keys m to = None \<and> \<not> validate_address_format E to then (False, m)
      else
        let m = (if mk_keys m to = None then m_set_key to empty_public_key m else m) in
        (True, m_move (tr_from_name tr) to (tr_stock_name tr) (tr_amount tr) m))"

definition m_command :: "'d env \<Rightarrow> signed_transaction \<Rightarrow> string \<Rightarrow> command \<Rightarrow> market \<Rightarrow> (exn + bool) \<times> market" where
  "m_command E trx gen c m =
     (if c_id c = register_name_id then
        (case unpack (e_register_name E) (c_data c) of Inl e \<Rightarrow> (Inl e, m) | Inr rn \<Rightarrow> apfst Inr (m_register E trx rn m))
      else if c_id c = issue_id then
        (case unpack (e_issue E) (c_data c) of Inl e \<Rightarrow> (Inl e, m) | Inr is \<Rightarrow> apfst Inr (m_issue E trx is m))
      else if c_id c = transfer_id then
        (case unpack (e_transfer E) (c_data c) of Inl e \<Rightarrow> (Inl e, m) | Inr tr \<Rightarrow> apfst Inr (m_transfer E trx gen tr m))
      else (Inr False, m))"

primrec m_commands :: "'d env \<Rightarrow> signed_transaction \<Rightarrow> string \<Rightarrow> command list \<Rightarrow> market \<Rightarrow> (exn + bool) \<times> market" where
  "m_commands E trx gen [] m = (Inr True, m)"
| "m_commands E trx gen (c # cs) m =
     (case m_command E trx gen c m of
        (Inl e, m) \<Rightarrow> (Inl e, m)
      | (Inr ok, m) \<Rightarrow> if ok then m_commands E trx gen cs m else (Inr False, m))"

section \<open>Supply\<close>

definition holders :: "market \<Rightarrow> string \<Rightarrow> string set" where
  "holders m t = {a. mk_bals m (a, t) \<noteq> None}"

definition total_supply :: "market \<Rightarrow> string \<Rightarrow> nat" where
  "total_supply m t = (\<Sum>a \<in> holders m t. unat (balance m a t))"

definition market_ok :: "market \<Rightarrow> bool" where
  \<comment> \<open>no stock has more units than 64 bits hold, and one that was not issued has none\<close>
  "market_ok m \<longleftrightarrow> (\<forall>t. finite (holders m t) \<and> total_supply m t < 2 ^ 64 \<and> (mk_bals m (t, t) = None \<longrightarrow> total_supply m t = 0))"

lemma total_supply_superset:
  assumes "finite A" and "holders m t \<subseteq> A"
  shows "total_supply m t = (\<Sum>a \<in> A. unat (balance m a t))"
  unfolding total_supply_def
  by (rule sum.mono_neutral_left) (use assms in \<open>auto simp: holders_def balance_def\<close>)

lemma balance_le_supply:
  assumes "market_ok m"
  shows "unat (balance m a t) \<le> total_supply m t"
proof (cases "a \<in> holders m t")
  case True
  then show ?thesis
    unfolding total_supply_def using assms by (intro member_le_sum) (auto simp: market_ok_def)
qed (simp add: holders_def balance_def)

lemma two_balances_le_supply:
  assumes "market_ok m" and "a \<noteq> b"
  shows "unat (balance m a t) + unat (balance m b t) \<le> total_supply m t"
proof -
  have fin: "finite (insert a (insert b (holders m t)))" using assms(1) by (simp add: market_ok_def)
  have "unat (balance m a t) + unat (balance m b t) = (\<Sum>x \<in> {a, b}. unat (balance m x t))"
    using assms(2) by simp
  also have "\<dots> \<le> (\<Sum>x \<in> insert a (insert b (holders m t)). unat (balance m x t))"
    by (rule sum_mono2 [OF fin]) auto
  also have "\<dots> = total_supply m t" using fin by (intro total_supply_superset [symmetric]) auto
  finally show ?thesis .
qed

lemma set_key_supply [simp]: "total_supply (m_set_key n pk m) t = total_supply m t" "balance (m_set_key n pk m) a t = balance m a t"
    "holders (m_set_key n pk m) t = holders m t" "mk_bals (m_set_key n pk m) = mk_bals m"
  by (simp_all add: total_supply_def balance_def holders_def m_set_key_def)

lemma set_key_ok [simp]: "market_ok (m_set_key n pk m) \<longleftrightarrow> market_ok m"
  by (simp add: market_ok_def)

lemma move_balance:
  "balance (m_move from to t v m) a t' =
     (if t' = t \<and> a = from then balance m from t - v else if t' = t \<and> a = to then balance m to t + v else balance m a t')"
  by (simp add: balance_def m_move_def)

lemma move_holders: "holders (m_move from to t v m) t' = (if t' = t then insert from (insert to (holders m t)) else holders m t')"
  by (auto simp: holders_def m_move_def)

text \<open>A move between two accounts keeps the supply; a move to the same account loses the amount.\<close>

lemma move_supply:
  assumes ok: "market_ok m" and v: "v \<le> balance m from t"
  shows "total_supply (m_move from to t v m) t' = (if t' = t \<and> from = to then total_supply m t - unat v else total_supply m t')"
proof (cases "t' = t")
  case False
  then show ?thesis by (simp add: total_supply_def move_holders move_balance)
next
  case True
  let ?m = "m_move from to t v m" and ?A = "insert from (insert to (holders m t))"
  let ?R = "?A - {from, to}"
  have fin: "finite ?A" using ok by (simp add: market_ok_def)
  have uv: "unat v \<le> unat (balance m from t)" using v by (simp add: word_le_nat_alt)
  have rest: "(\<Sum>a \<in> ?R. unat (balance ?m a t)) = (\<Sum>a \<in> ?R. unat (balance m a t))"
    by (rule sum.cong) (auto simp: move_balance)
  have new: "total_supply ?m t = (\<Sum>a \<in> ?A. unat (balance ?m a t))"
    by (simp add: total_supply_def move_holders)
  have old: "total_supply m t = (\<Sum>a \<in> ?A. unat (balance m a t))"
    using fin by (intro total_supply_superset) auto
  have sub: "unat (balance m from t - v) = unat (balance m from t) - unat v"
    using v by (rule unat_sub)
  show ?thesis
  proof (cases "from = to")
    case same: True
    have "total_supply ?m t = unat (balance m from t - v) + (\<Sum>a \<in> ?R. unat (balance ?m a t))"
      unfolding new using fin same by (subst sum.remove [of _ "from"]) (auto simp: move_balance intro!: sum.cong)
    moreover have "total_supply m t = unat (balance m from t) + (\<Sum>a \<in> ?R. unat (balance m a t))"
      unfolding old using fin same by (subst sum.remove [of _ "from"]) (auto intro!: sum.cong)
    ultimately show ?thesis using True same uv sub rest by simp
  next
    case diff: False
    have split: "(\<Sum>a \<in> ?A. f a) = f from + f to + (\<Sum>a \<in> ?R. f a)" for f :: "string \<Rightarrow> nat"
      using fin diff by (subst sum.remove [of _ "from"], simp, simp, subst sum.remove [of _ to])
        (auto intro!: sum.cong)
    have "total_supply m t < 2 ^ 64" using ok unfolding market_ok_def by blast
    then have "unat (balance m to t) + unat v < 2 ^ 64"
      using two_balances_le_supply [OF ok diff, of t] uv by linarith
    then have "unat (balance m to t + v) = unat (balance m to t) + unat v" by (rule unat_add_u64)
    then show ?thesis
      using True diff uv sub by (simp add: new old split move_balance)
  qed
qed

lemma move_ok:
  assumes ok: "market_ok m" and v: "v \<le> balance m from t"
  shows "market_ok (m_move from to t v m)"
  unfolding market_ok_def
proof
  fix t'
  let ?m = "m_move from to t v m"
  have old: "finite (holders m t')" "total_supply m t' < 2 ^ 64" "mk_bals m (t', t') = None \<longrightarrow> total_supply m t' = 0"
    using ok unfolding market_ok_def by blast+
  have le: "total_supply ?m t' \<le> total_supply m t'"
    using move_supply [OF ok v, of to t'] by simp
  have none: "mk_bals ?m (t', t') = None \<longrightarrow> mk_bals m (t', t') = None"
    by (auto simp: m_move_def split: if_splits)
  have fin: "finite (holders ?m t')" using ok by (simp add: move_holders market_ok_def)
  show "finite (holders ?m t') \<and> total_supply ?m t' < 2 ^ 64 \<and> (mk_bals ?m (t', t') = None \<longrightarrow> total_supply ?m t' = 0)"
    using old le none fin by auto
qed

lemma issue_balance: "balance (m_issue_all t m) a t' = (if a = t \<and> t' = t then -1 else balance m a t')"
  by (simp add: balance_def m_issue_all_def)

lemma issue_bals: "mk_bals (m_issue_all t m) = (mk_bals m)((t, t) := Some (-1))"
  by (simp add: m_issue_all_def)

lemma issue_supply:
  assumes ok: "market_ok m" and none: "mk_bals m (t, t) = None"
  shows "total_supply (m_issue_all t m) t' = (if t' = t then 2 ^ 64 - 1 else total_supply m t')"
proof (cases "t' = t")
  case False
  then show ?thesis by (simp add: total_supply_def holders_def issue_balance issue_bals)
next
  case True
  have fin: "finite (insert t (holders m t))" using ok by (simp add: market_ok_def)
  have zero: "balance m a t = 0" for a
    using balance_le_supply [OF ok, of a t] ok none by (simp add: market_ok_def unat_eq_0)
  have "holders (m_issue_all t m) t = insert t (holders m t)" by (auto simp: holders_def m_issue_all_def)
  then have "total_supply (m_issue_all t m) t = (\<Sum>a \<in> insert t (holders m t). if a = t then 2 ^ 64 - 1 else 0)"
    unfolding total_supply_def
    by (intro sum.cong) (auto simp: issue_balance zero unat_minus_one_u64)
  also have "\<dots> = 2 ^ 64 - 1" using fin by simp
  finally show ?thesis using True by simp
qed

lemma issue_ok:
  assumes ok: "market_ok m" and none: "mk_bals m (t, t) = None"
  shows "market_ok (m_issue_all t m)"
  unfolding market_ok_def
proof
  fix t'
  have old: "finite (holders m t')" "total_supply m t' < 2 ^ 64" "mk_bals m (t', t') = None \<longrightarrow> total_supply m t' = 0"
    using ok unfolding market_ok_def by blast+
  have "holders (m_issue_all t m) t' \<subseteq> insert t (holders m t')" by (auto simp: holders_def m_issue_all_def split: if_splits)
  then have fin: "finite (holders (m_issue_all t m) t')" using old(1) finite_subset by blast
  show "finite (holders (m_issue_all t m) t') \<and> total_supply (m_issue_all t m) t' < 2 ^ 64
      \<and> (mk_bals (m_issue_all t m) (t', t') = None \<longrightarrow> total_supply (m_issue_all t m) t' = 0)"
    using old fin issue_supply [OF assms, of t'] by (simp add: m_issue_all_def)
qed

section \<open>What a command can do\<close>

text \<open>The cases of a command that is accepted.\<close>

lemma m_command_True:
  assumes "m_command E trx gen c m = (Inr True, m')"
  obtains (register) rn where "c_id c = register_name_id" "unpack (e_register_name E) (c_data c) = Inr rn"
      "m' = m_set_key (rn_name rn) (rn_pub_key rn) m"
      "rn_name rn = encode_address E (rn_pub_key rn) \<or> mk_keys m (rn_name rn) = None
         \<or> signed_by E trx (mk_keys m (rn_name rn))"
    | (issue) ic where "c_id c = issue_id" "unpack (e_issue E) (c_data c) = Inr ic"
      "mk_bals m (is_stock_name ic, is_stock_name ic) = None" "signed_by E trx (mk_keys m (is_stock_name ic))"
      "m' = m_issue_all (is_stock_name ic) m"
    | (transfer) tr m1 where "c_id c = transfer_id" "unpack (e_transfer E) (c_data c) = Inr tr"
      "signed_by E trx (mk_keys m (tr_from_name tr))"
      "tr_amount tr \<le> balance m (tr_from_name tr) (tr_stock_name tr)"
      "m1 = m \<or> mk_keys m (destination gen tr) = None \<and> m1 = m_set_key (destination gen tr) empty_public_key m"
      "m' = m_move (tr_from_name tr) (destination gen tr) (tr_stock_name tr) (tr_amount tr) m1"
proof -
  note ids = register_name_id_def issue_id_def transfer_id_def
  consider (r) "c_id c = register_name_id" | (i) "c_id c = issue_id" | (t) "c_id c = transfer_id"
    using assms by (auto simp: m_command_def split: if_splits)
  then show thesis
  proof cases
    case r
    then obtain rn where rn: "unpack (e_register_name E) (c_data c) = Inr rn" "m_register E trx rn m = (True, m')"
      using assms by (auto simp: m_command_def apfst_def map_prod_def split: sum.splits prod.splits)
    then show thesis by (intro register [OF r rn(1)]) (auto simp: m_register_def split: if_splits)
  next
    case i
    then obtain ic where ic: "unpack (e_issue E) (c_data c) = Inr ic" "m_issue E trx ic m = (True, m')"
      using assms by (auto simp: m_command_def ids apfst_def map_prod_def split: sum.splits prod.splits)
    then show thesis by (intro issue [OF i ic(1)]) (auto simp: m_issue_def split: if_splits)
  next
    case t
    then obtain tr where tr: "unpack (e_transfer E) (c_data c) = Inr tr" "m_transfer E trx gen tr m = (True, m')"
      using assms by (auto simp: m_command_def ids apfst_def map_prod_def split: sum.splits prod.splits)
    then show thesis
      by (intro transfer [OF t tr(1), where ?m1.0 = "if mk_keys m (destination gen tr) = None
             then m_set_key (destination gen tr) empty_public_key m else m"])
        (auto simp: m_transfer_def Let_def split: if_splits)
  qed
qed

lemma m_command_refused:
  assumes "m_command E trx gen c m = (r, m')" and "r \<noteq> Inr True"
  shows "m' = m"
  using assms
  by (auto simp: m_command_def m_register_def m_issue_def m_transfer_def Let_def apfst_def map_prod_def
      split: if_splits sum.splits prod.splits)

definition issues :: "'d env \<Rightarrow> command \<Rightarrow> string \<Rightarrow> bool" where
  "issues E c t \<longleftrightarrow> c_id c = issue_id \<and> map_sum id is_stock_name (unpack (e_issue E) (c_data c)) = Inr t"

definition burnt :: "'d env \<Rightarrow> string \<Rightarrow> command \<Rightarrow> string \<Rightarrow> nat" where
  \<comment> \<open>the amount a transfer moves from an account to itself (no destination, and the source is the generator)\<close>
  "burnt E gen c t =
     (if c_id c = transfer_id then
        (case unpack (e_transfer E) (c_data c) of
           Inl e \<Rightarrow> 0
         | Inr tr \<Rightarrow> if tr_stock_name tr = t \<and> destination gen tr = tr_from_name tr then unat (tr_amount tr) else 0)
      else 0)"

lemma command_supply:
  assumes ok: "market_ok m" and acc: "m_command E trx gen c m = (Inr True, m')"
  shows "market_ok m'" and "total_supply m' t = (if issues E c t then 2 ^ 64 - 1 else total_supply m t - burnt E gen c t)"
    and "issues E c t \<Longrightarrow> total_supply m t = 0" and "burnt E gen c t \<le> total_supply m t"
proof -
  note ids = register_name_id_def issue_id_def transfer_id_def
  have "market_ok m' \<and> total_supply m' t = (if issues E c t then 2 ^ 64 - 1 else total_supply m t - burnt E gen c t)
      \<and> (issues E c t \<longrightarrow> total_supply m t = 0) \<and> burnt E gen c t \<le> total_supply m t"
    using acc
  proof (cases rule: m_command_True)
    case (register rn)
    then show ?thesis using ok by (simp add: issues_def burnt_def ids)
  next
    case (issue ic)
    then show ?thesis
      using issue_ok [OF ok issue(3)] issue_supply [OF ok issue(3), of t] ok
      by (auto simp: issues_def burnt_def ids market_ok_def)
  next
    case (transfer tr m1)
    have m1: "market_ok m1" "total_supply m1 t' = total_supply m t'" "balance m1 a t' = balance m a t'" for a t'
      using transfer(5) ok by auto
    have v: "tr_amount tr \<le> balance m1 (tr_from_name tr) (tr_stock_name tr)" using transfer(4) m1 by simp
    have "unat (tr_amount tr) \<le> total_supply m (tr_stock_name tr)"
      using v balance_le_supply [OF ok, of "tr_from_name tr" "tr_stock_name tr"] m1 by (simp add: word_le_nat_alt)
    then show ?thesis
      using transfer move_ok [OF m1(1) v] move_supply [OF m1(1) v, of "destination gen tr" t] m1
      by (auto simp: issues_def burnt_def ids)
  qed
  then show "market_ok m'" "total_supply m' t = (if issues E c t then 2 ^ 64 - 1 else total_supply m t - burnt E gen c t)"
    "issues E c t \<Longrightarrow> total_supply m t = 0" "burnt E gen c t \<le> total_supply m t" by simp_all
qed

lemma command_authority:
  assumes ok: "market_ok m" and acc: "m_command E trx gen c m = (r, m')"
  shows "balance m' a t < balance m a t \<Longrightarrow> signed_by E trx (mk_keys m a)"
    and "mk_keys m n = Some pk \<Longrightarrow> mk_keys m' n = Some pk' \<Longrightarrow> pk' \<noteq> pk \<Longrightarrow>
      (\<exists>rn. c_id c = register_name_id \<and> unpack (e_register_name E) (c_data c) = Inr rn \<and> rn_name rn = n \<and> rn_pub_key rn = pk')
        \<and> (strx_verify E trx pk \<or> n = encode_address E pk')"
    and "mk_keys m n \<noteq> None \<Longrightarrow> mk_keys m' n \<noteq> None"
proof -
  have keep: "r = Inr True" if "m' \<noteq> m" using m_command_refused [OF acc] that by blast
  {
    assume less: "balance m' a t < balance m a t"
    then have True: "m_command E trx gen c m = (Inr True, m')" using acc keep by auto
    from True show "signed_by E trx (mk_keys m a)"
    proof (cases rule: m_command_True)
      case (register rn)
      then show ?thesis using less by simp
    next
      case (issue ic)
      then have "balance m' a t = (if a = is_stock_name ic \<and> t = is_stock_name ic then -1 else balance m a t)"
        by (simp add: issue_balance)
      then have False using less by (auto split: if_splits)
      then show ?thesis ..
    next
      case (transfer tr m1)
      have m1: "balance m1 x y = balance m x y" "market_ok m1" for x y using transfer(5) ok by auto
      let ?s = "tr_stock_name tr" and ?to = "destination gen tr" and ?from = "tr_from_name tr"
      have "a = ?from"
      proof (rule ccontr)
        assume a: "a \<noteq> ?from"
        with less have to: "a = ?to" "t = ?s" "balance m ?to ?s + tr_amount tr < balance m ?to ?s"
          by (auto simp: transfer(6) move_balance m1 split: if_splits)
        have "unat (balance m ?to ?s) + unat (tr_amount tr) \<le> total_supply m ?s"
          using two_balances_le_supply [OF ok, of ?to ?from ?s] a to transfer(4) by (simp add: word_le_nat_alt)
        moreover have "total_supply m ?s < 2 ^ 64" using ok unfolding market_ok_def by blast
        ultimately have "unat (balance m ?to ?s + tr_amount tr) = unat (balance m ?to ?s) + unat (tr_amount tr)"
          by (intro unat_add_u64) linarith
        then show False using to(3) by (simp add: word_less_nat_alt)
      qed
      then show ?thesis using transfer by simp
    qed
  }
  {
    assume k: "mk_keys m n = Some pk" "mk_keys m' n = Some pk'" "pk' \<noteq> pk"
    then have "m' \<noteq> m" by auto
    then have True: "m_command E trx gen c m = (Inr True, m')" using acc keep by auto
    from True show "(\<exists>rn. c_id c = register_name_id \<and> unpack (e_register_name E) (c_data c) = Inr rn \<and> rn_name rn = n \<and> rn_pub_key rn = pk')
        \<and> (strx_verify E trx pk \<or> n = encode_address E pk')"
    proof (cases rule: m_command_True)
      case (register rn)
      then show ?thesis using k by (auto simp: m_set_key_def signed_by_def split: if_splits)
    next
      case (issue ic)
      then show ?thesis using k by (simp add: m_issue_all_def)
    next
      case (transfer tr m1)
      then show ?thesis using k by (auto simp: m_move_def m_set_key_def split: if_splits)
    qed
  }
  {
    assume k: "mk_keys m n \<noteq> None"
    show "mk_keys m' n \<noteq> None"
    proof (cases "m' = m")
      case False
      then have True: "m_command E trx gen c m = (Inr True, m')" using acc keep by auto
      from True show ?thesis
        by (cases rule: m_command_True) (use k in \<open>auto simp: m_set_key_def m_issue_all_def m_move_def\<close>)
    qed (use k in simp)
  }
qed

lemma command_keeps_accounts:
  assumes "mk_bals m k \<noteq> None"
  shows "mk_bals (snd (m_command E trx gen c m)) k \<noteq> None"
proof -
  obtain r m' where acc: "m_command E trx gen c m = (r, m')" by fastforce
  show ?thesis
  proof (cases "r = Inr True")
    case True
    with acc have "m_command E trx gen c m = (Inr True, m')" by simp
    then show ?thesis
      by (cases rule: m_command_True) (use assms acc in \<open>auto simp: m_issue_all_def m_move_def\<close>)
  qed (use assms acc m_command_refused [OF acc] in simp)
qed

end
