(* ===== verification/MarketSim.thy ===== *)
theory MarketSim
  imports LogRep Market
begin

text \<open>
  The state database computes the market: \<open>shows E ents m s\<close> says that the log and the indexes
  of the object \<open>s\<close> are consistent (\<open>sound\<close>) and describe the market \<open>m\<close>; every operation
  of state_database.cpp that applies transactions keeps it, with the market changed as
  \<open>Market\<close> says.
\<close>

section \<open>Consistent ledgers\<close>

abbreviation at_log :: "'d env \<Rightarrow> ledger \<Rightarrow> u64 \<Rightarrow> entry option" where
  "at_log E lg i \<equiv> entry_at E 0 (lg_log lg) (unat i)"

definition defines_name :: "'d env \<Rightarrow> ledger \<Rightarrow> u64 \<Rightarrow> string \<Rightarrow> bool" where
  "defines_name E lg i n \<longleftrightarrow> (\<exists>d. at_log E lg i = Some (Define d) \<and> dn_name d = n)"

definition name_entry :: "'d env \<Rightarrow> ledger \<Rightarrow> string \<Rightarrow> (u64 \<times> public_key) option" where
  \<comment> \<open>the index that stands for a name in account keys, and the key of the name\<close>
  "name_entry E lg n =
     (case lg_names lg n of
        None \<Rightarrow> None
      | Some i \<Rightarrow>
          (case at_log E lg i of
             Some (Define d) \<Rightarrow> Some (i, dn_key d)
           | Some (Update u) \<Rightarrow> Some (un_name_idx u, un_key u)
           | _ \<Rightarrow> None))"

definition id_of :: "'d env \<Rightarrow> ledger \<Rightarrow> string \<Rightarrow> u64 option" where
  "id_of E lg n = map_option fst (name_entry E lg n)"

definition key_of :: "'d env \<Rightarrow> ledger \<Rightarrow> string \<Rightarrow> public_key option" where
  "key_of E lg n = map_option snd (name_entry E lg n)"

definition acct_balance :: "'d env \<Rightarrow> ledger \<Rightarrow> u64 \<Rightarrow> u64 \<Rightarrow> u64 option" where
  "acct_balance E lg a t =
     (case lg_accts lg (Account_Key a t) of
        None \<Rightarrow> None
      | Some i \<Rightarrow>
          (case at_log E lg i of
             Some (Transfer tlog) \<Rightarrow> Some (if tl_from_name tlog = a then tl_new_from_bal tlog else tl_new_to_bal tlog)
           | _ \<Rightarrow> None))"

definition market_of :: "'d env \<Rightarrow> ledger \<Rightarrow> market" where
  "market_of E lg =
     \<lparr>mk_keys = key_of E lg,
      mk_bals = (\<lambda>(n, t). case (id_of E lg n, id_of E lg t) of
        (Some a, Some b) \<Rightarrow> acct_balance E lg a b | _ \<Rightarrow> None)\<rparr>"

definition sound_names :: "'d env \<Rightarrow> ledger \<Rightarrow> bool" where
  "sound_names E lg \<longleftrightarrow> (\<forall>n i. lg_names lg n = Some i \<longrightarrow> n \<in> small_names E
     \<and> (defines_name E lg i n \<or> (\<exists>u. at_log E lg i = Some (Update u) \<and> defines_name E lg (un_name_idx u) n)))"

definition sound_accts :: "'d env \<Rightarrow> ledger \<Rightarrow> bool" where
  "sound_accts E lg \<longleftrightarrow> (\<forall>a t i. lg_accts lg (Account_Key a t) = Some i \<longrightarrow>
     (\<exists>tlog. at_log E lg i = Some (Transfer tlog) \<and> tl_type_name tlog = t \<and> (tl_from_name tlog = a \<or> tl_to_name tlog = a))
     \<and> (\<exists>n. id_of E lg n = Some a) \<and> (\<exists>n. id_of E lg n = Some t))"

definition sound :: "'d env \<Rightarrow> ledger \<Rightarrow> bool" where
  "sound E lg \<longleftrightarrow> sound_names E lg \<and> sound_accts E lg"

definition lg_size :: "'d env \<Rightarrow> ledger \<Rightarrow> nat" where
  "lg_size E lg = entries_len E (lg_log lg)"

lemma id_defines:
  assumes "sound_names E lg" and "id_of E lg n = Some a"
  shows "defines_name E lg a n"
  using spec [OF assms(1) [unfolded sound_names_def], of n] assms(2)
  unfolding id_of_def name_entry_def
  by (auto simp: defines_name_def split: option.splits entry.splits)

lemma defines_inj: "defines_name E lg a n \<Longrightarrow> defines_name E lg a n' \<Longrightarrow> n = n'"
  by (auto simp: defines_name_def)

lemma id_inj: "sound_names E lg \<Longrightarrow> id_of E lg n = Some a \<Longrightarrow> id_of E lg n' = Some a \<Longrightarrow> n = n'"
  using id_defines defines_inj by metis

lemma at_log_bound: "at_log E lg i = Some e \<Longrightarrow> unat i + 14 \<le> lg_size E lg"
  using entry_at_bounds(2) [of E 0 "lg_log lg" "unat i" e] entry_len_pos [of E e] by (simp add: lg_size_def)

lemma id_bound: "sound_names E lg \<Longrightarrow> id_of E lg n = Some a \<Longrightarrow> unat a < lg_size E lg"
  by (drule (1) id_defines) (auto simp: defines_name_def dest: at_log_bound)

lemma below_limit_not_minus_one: "unat (a :: u64) < log_limit \<Longrightarrow> a \<noteq> -1"
  by (auto simp: unat_minus_one_u64 log_limit_def)

lemma id_not_minus_one: "sound_names E lg \<Longrightarrow> lg_size E lg < log_limit \<Longrightarrow> id_of E lg n \<noteq> Some (-1)"
  using id_bound [of E lg n "-1"] by (auto simp: unat_minus_one_u64 log_limit_def)

lemma name_entry_cases:
  assumes "sound_names E lg"
  shows "(lg_names lg n = None \<and> name_entry E lg n = None)
    \<or> (\<exists>i d. lg_names lg n = Some i \<and> at_log E lg i = Some (Define d) \<and> name_entry E lg n = Some (i, dn_key d))
    \<or> (\<exists>i u. lg_names lg n = Some i \<and> at_log E lg i = Some (Update u) \<and> name_entry E lg n = Some (un_name_idx u, un_key u))"
  using assms unfolding sound_names_def name_entry_def defines_name_def by (force split: option.splits)

lemma names_None_iff: "sound_names E lg \<Longrightarrow> lg_names lg n = None \<longleftrightarrow> key_of E lg n = None"
    "sound_names E lg \<Longrightarrow> lg_names lg n = None \<longleftrightarrow> id_of E lg n = None"
  using name_entry_cases [of E lg n] by (auto simp: key_of_def id_of_def)

section \<open>Extending a consistent ledger\<close>

lemma at_log_grow: "at_log E lg i = Some e \<Longrightarrow> at_log E (lg\<lparr>lg_log := lg_log lg @ es\<rparr>) i = Some e"
  by (simp add: entry_at_old)

text \<open>A new entry at the end changes nothing that is already there.\<close>

lemma grow_defines: "defines_name E lg i n \<Longrightarrow> defines_name E (lg\<lparr>lg_log := lg_log lg @ es\<rparr>) i n"
  unfolding defines_name_def by (auto simp: entry_at_old)

lemma grow_name_entry:
  assumes "sound_names E lg"
  shows "name_entry E (lg\<lparr>lg_log := lg_log lg @ es\<rparr>) n = name_entry E lg n"
  using name_entry_cases [OF assms, of n] by (auto simp: name_entry_def entry_at_old)

lemma grow_sound_names: "sound_names E lg \<Longrightarrow> sound_names E (lg\<lparr>lg_log := lg_log lg @ es\<rparr>)"
  unfolding sound_names_def by (simp) (metis entry_at_old grow_defines)

lemma grow_acct_balance:
  assumes "sound_accts E lg"
  shows "acct_balance E (lg\<lparr>lg_log := lg_log lg @ es\<rparr>) a t = acct_balance E lg a t"
  using assms unfolding sound_accts_def acct_balance_def
  by (cases "lg_accts lg (Account_Key a t)") (auto simp: entry_at_old dest!: spec)

lemma grow_ids: "sound_names E lg \<Longrightarrow> id_of E (lg\<lparr>lg_log := lg_log lg @ es\<rparr>) = id_of E lg"
    and grow_keys: "sound_names E lg \<Longrightarrow> key_of E (lg\<lparr>lg_log := lg_log lg @ es\<rparr>) = key_of E lg"
  by (auto simp: id_of_def key_of_def grow_name_entry intro!: ext)

lemma grow_sound_accts: "sound_names E lg \<Longrightarrow> sound_accts E lg \<Longrightarrow> sound_accts E (lg\<lparr>lg_log := lg_log lg @ es\<rparr>)"
  unfolding sound_accts_def by (simp add: grow_ids) (meson entry_at_old)

lemma grow_sound:
  assumes "sound E lg"
  shows "sound E (lg\<lparr>lg_log := lg_log lg @ es\<rparr>)" and "market_of E (lg\<lparr>lg_log := lg_log lg @ es\<rparr>) = market_of E lg"
proof -
  have n: "sound_names E lg" and a: "sound_accts E lg" using assms by (simp_all add: sound_def)
  show "sound E (lg\<lparr>lg_log := lg_log lg @ es\<rparr>)"
    using grow_sound_names [OF n] grow_sound_accts [OF n a] by (simp add: sound_def)
  show "market_of E (lg\<lparr>lg_log := lg_log lg @ es\<rparr>) = market_of E lg"
    by (simp add: market_of_def grow_ids [OF n] grow_keys [OF n] grow_acct_balance [OF a] cong: option.case_cong)
qed

text \<open>A name (re)defined by the entry at the end of the log.\<close>

definition put_name :: "'d env \<Rightarrow> string \<Rightarrow> entry \<Rightarrow> ledger \<Rightarrow> ledger" where
  "put_name E n e lg = lg\<lparr>lg_names := (lg_names lg)(n := Some (of_nat (lg_size E lg))), lg_log := lg_log lg @ [e]\<rparr>"

lemma put_name_entry:
  assumes n: "sound_names E lg" and small: "lg_size E lg < log_limit"
    and e: "e = Define d \<and> i = of_nat (lg_size E lg) \<and> k = dn_key d \<or> e = Update u \<and> i = un_name_idx u \<and> k = un_key u"
  shows "name_entry E (put_name E n' e lg) m = (if m = n' then Some (i, k) else name_entry E lg m)"
proof (cases "m = n'")
  case True
  have "at_log E (put_name E n' e lg) (of_nat (lg_size E lg)) = Some e"
    using small by (simp add: put_name_def unat_small entry_at_new lg_size_def)
  with True e show ?thesis by (auto simp: name_entry_def put_name_def)
next
  case False
  then have "name_entry E (put_name E n' e lg) m = name_entry E (lg\<lparr>lg_log := lg_log lg @ [e]\<rparr>) m"
    by (simp add: name_entry_def put_name_def cong: option.case_cong)
  with False show ?thesis by (simp add: grow_name_entry [OF n])
qed

lemma put_name_sound:
  assumes s: "sound E lg" and small: "lg_size E lg < log_limit" and n': "n' \<in> small_names E"
    and e: "e = Define d \<and> dn_name d = n' \<and> id_of E lg n' = None \<or> e = Update u \<and> id_of E lg n' = Some (un_name_idx u)"
    and k: "k = (case e of Define d \<Rightarrow> dn_key d | Update u \<Rightarrow> un_key u | _ \<Rightarrow> 0)"
  shows "sound E (put_name E n' e lg)" and "market_of E (put_name E n' e lg) = m_set_key n' k (market_of E lg)"
proof -
  let ?lg = "put_name E n' e lg" and ?p = "of_nat (lg_size E lg) :: u64"
  have n: "sound_names E lg" and a: "sound_accts E lg" using s by (simp_all add: sound_def)
  define i where "i = (case e of Define d \<Rightarrow> ?p | Update u \<Rightarrow> un_name_idx u | _ \<Rightarrow> 0)"
  have ne: "name_entry E ?lg m = (if m = n' then Some (i, k) else name_entry E lg m)" for m
    using e by (intro put_name_entry [OF n small]) (auto simp: i_def k)
  have ids: "id_of E ?lg m = (if m = n' then Some i else id_of E lg m)" for m by (simp add: id_of_def ne)
  have keys: "key_of E ?lg = (key_of E lg)(n' := Some k)" by (rule ext) (simp add: key_of_def ne)
  have at: "at_log E ?lg ?p = Some e" using small by (simp add: put_name_def unat_small entry_at_new lg_size_def)
  have grow: "at_log E lg x = Some y \<Longrightarrow> at_log E ?lg x = Some y" for x y by (simp add: put_name_def entry_at_old)
  have old: "id_of E lg n' = Some i \<or> id_of E lg n' = None \<and> i = ?p" using e by (auto simp: i_def)
  have def_i: "defines_name E ?lg i n'"
    using e at id_defines [OF n, of n'] grow by (auto simp: i_def defines_name_def)
  have "sound_names E ?lg"
    unfolding sound_names_def
  proof (intro allI impI)
    fix m j assume m: "lg_names ?lg m = Some j"
    show "m \<in> small_names E \<and> (defines_name E ?lg j m \<or>
        (\<exists>u. at_log E ?lg j = Some (Update u) \<and> defines_name E ?lg (un_name_idx u) m))"
    proof (cases "m = n'")
      case True
      then have "j = ?p" using m by (simp add: put_name_def)
      then show ?thesis using True e at def_i n' by (auto simp: defines_name_def i_def)
    next
      case False
      then have "lg_names lg m = Some j" using m by (simp add: put_name_def)
      then show ?thesis using n grow unfolding sound_names_def defines_name_def by blast
    qed
  qed
  moreover have acct: "lg_accts ?lg = lg_accts lg" by (simp add: put_name_def)
  have keep: "id_of E lg m = Some x \<Longrightarrow> id_of E ?lg m = Some x" for m x using old by (auto simp: ids)
  have "sound_accts E ?lg"
    using a grow keep unfolding sound_accts_def acct by metis
  ultimately show "sound E ?lg" by (simp add: sound_def)
  have bal: "acct_balance E ?lg x y = acct_balance E lg x y" for x y
  proof -
    have "acct_balance E ?lg x y = acct_balance E (lg\<lparr>lg_log := lg_log lg @ [e]\<rparr>) x y"
      by (simp add: acct_balance_def put_name_def cong: option.case_cong)
    then show ?thesis by (simp add: grow_acct_balance [OF a])
  qed
  have fresh: "acct_balance E lg x y = None" if "id_of E lg n' = None" "x = ?p \<or> y = ?p" for x y
  proof (cases "lg_accts lg (Account_Key x y)")
    case (Some j)
    then obtain b c where "id_of E lg b = Some x" "id_of E lg c = Some y" using a unfolding sound_accts_def by blast
    then have "unat x < lg_size E lg" "unat y < lg_size E lg" using id_bound [OF n] by blast+
    then show ?thesis using that(2) small by (auto simp: unat_small)
  qed (simp add: acct_balance_def)
  show "market_of E ?lg = m_set_key n' k (market_of E lg)"
    using old fresh by (auto simp: market_of_def m_set_key_def keys ids bal intro!: ext split: option.splits)
qed

text \<open>A transfer record at the end of the log, and the two accounts that point to it.\<close>

definition put_transfer :: "'d env \<Rightarrow> transfer_log \<Rightarrow> ledger \<Rightarrow> ledger" where
  "put_transfer E tlog lg =
     (let p = of_nat (lg_size E lg) in
      lg\<lparr>lg_accts := (lg_accts lg)(Account_Key (tl_from_name tlog) (tl_type_name tlog) := Some p,
                                Account_Key (tl_to_name tlog) (tl_type_name tlog) := Some p),
         lg_log := lg_log lg @ [Transfer tlog]\<rparr>)"

lemma put_transfer_balance:
  assumes "sound_accts E lg" and small: "lg_size E lg < log_limit"
  shows "acct_balance E (put_transfer E tlog lg) a t =
    (if t = tl_type_name tlog \<and> a = tl_from_name tlog then Some (tl_new_from_bal tlog)
     else if t = tl_type_name tlog \<and> a = tl_to_name tlog then Some (tl_new_to_bal tlog)
     else acct_balance E lg a t)"
proof -
  let ?lg = "put_transfer E tlog lg" and ?p = "of_nat (lg_size E lg) :: u64"
  have at: "at_log E ?lg ?p = Some (Transfer tlog)"
    using small by (simp add: put_transfer_def Let_def unat_small entry_at_new lg_size_def)
  show ?thesis
  proof (cases "t = tl_type_name tlog \<and> (a = tl_from_name tlog \<or> a = tl_to_name tlog)")
    case True
    then have "lg_accts ?lg (Account_Key a t) = Some ?p" by (auto simp: put_transfer_def Let_def)
    then show ?thesis using True at by (auto simp: acct_balance_def)
  next
    case False
    then have "lg_accts ?lg (Account_Key a t) = lg_accts lg (Account_Key a t)"
      by (auto simp: put_transfer_def Let_def)
    moreover have "at_log E ?lg i = at_log E (lg\<lparr>lg_log := lg_log lg @ [Transfer tlog]\<rparr>) i" for i
      by (simp add: put_transfer_def Let_def)
    ultimately have "acct_balance E ?lg a t = acct_balance E (lg\<lparr>lg_log := lg_log lg @ [Transfer tlog]\<rparr>) a t"
      by (simp add: acct_balance_def cong: option.case_cong)
    then show ?thesis using False by (auto simp: grow_acct_balance [OF assms(1)])
  qed
qed

lemma put_transfer_sound:
  assumes s: "sound E lg" and small: "lg_size E lg < log_limit"
    and ids: "id_of E lg a = Some (tl_from_name tlog)" "id_of E lg b = Some (tl_to_name tlog)" "id_of E lg t = Some (tl_type_name tlog)"
  shows "sound E (put_transfer E tlog lg)"
    and "market_of E (put_transfer E tlog lg) = (market_of E lg)\<lparr>mk_bals := (mk_bals (market_of E lg))
      ((b, t) := Some (tl_new_to_bal tlog), (a, t) := Some (tl_new_from_bal tlog))\<rparr>"
proof -
  let ?lg = "put_transfer E tlog lg" and ?p = "of_nat (lg_size E lg) :: u64"
  have n: "sound_names E lg" and acc: "sound_accts E lg" using s by (simp_all add: sound_def)
  have names: "lg_names ?lg = lg_names (lg\<lparr>lg_log := lg_log lg @ [Transfer tlog]\<rparr>)"
    and log: "lg_log ?lg = lg_log (lg\<lparr>lg_log := lg_log lg @ [Transfer tlog]\<rparr>)"
    by (simp_all add: put_transfer_def Let_def)
  have same: "name_entry E ?lg m = name_entry E lg m" for m
    using grow_name_entry [OF n, of "[Transfer tlog]" m] by (simp only: name_entry_def names log)
  have id: "id_of E ?lg = id_of E lg" and key: "key_of E ?lg = key_of E lg"
    by (simp_all add: fun_eq_iff id_of_def key_of_def same)
  have at: "at_log E ?lg ?p = Some (Transfer tlog)"
    using small by (simp add: put_transfer_def Let_def unat_small entry_at_new lg_size_def)
  have grow: "at_log E lg x = Some y \<Longrightarrow> at_log E ?lg x = Some y" for x y
    by (simp add: put_transfer_def Let_def entry_at_old)
  have "sound_names E ?lg"
    using grow_sound_names [OF n, of "[Transfer tlog]"] by (simp only: sound_names_def defines_name_def names log)
  moreover have "sound_accts E ?lg"
    unfolding sound_accts_def id
  proof (intro allI impI)
    fix x y j assume j: "lg_accts ?lg (Account_Key x y) = Some j"
    show "(\<exists>tr. at_log E ?lg j = Some (Transfer tr) \<and> tl_type_name tr = y \<and> (tl_from_name tr = x \<or> tl_to_name tr = x))
       \<and> (\<exists>n. id_of E lg n = Some x) \<and> (\<exists>n. id_of E lg n = Some y)"
    proof (cases "y = tl_type_name tlog \<and> (x = tl_from_name tlog \<or> x = tl_to_name tlog)")
      case True
      then have "j = ?p" using j by (auto simp: put_transfer_def Let_def split: if_splits)
      then show ?thesis using True at ids by auto
    next
      case False
      then have "lg_accts lg (Account_Key x y) = Some j"
        using j by (auto simp: put_transfer_def Let_def split: if_splits)
      then show ?thesis using acc grow unfolding sound_accts_def by blast
    qed
  qed
  ultimately show "sound E ?lg" by (simp add: sound_def)
  have inj: "id_of E lg x = Some i \<Longrightarrow> id_of E lg y = Some i \<Longrightarrow> x = y" for x y i by (rule id_inj [OF n])
  show "market_of E ?lg = (market_of E lg)\<lparr>mk_bals := (mk_bals (market_of E lg))
      ((b, t) := Some (tl_new_to_bal tlog), (a, t) := Some (tl_new_from_bal tlog))\<rparr>"
    by (auto simp: market_of_def id key put_transfer_balance [OF acc small] ids fun_eq_iff dest: inj ids [THEN inj]
        split: option.splits)
qed

end
