(* ===== verification/StateRefines.thy ===== *)
theory StateRefines
  imports MarketSim
begin

text \<open>
  The operations of libs/gpm/statedb/state_database.cpp compute what \<open>Market\<close> says, up to
  \<open>apply(signed_transaction)\<close>: each lemma \<open>x_runs\<close> gives the value the operation returns and
  the ledger of the object it leaves, as long as that object's log is below \<open>log_limit\<close>.
\<close>

abbreviation runs_log :: "('d sdb, 'a) prog \<Rightarrow> 'd sdb \<Rightarrow> exn + 'a \<Rightarrow> ('d sdb \<Rightarrow> bool) \<Rightarrow> bool" where
  "runs_log \<equiv> runs log_size log_limit"

section \<open>Reading\<close>

lemma runs_read:
  assumes "holds E ents lg s" and "still (snd (f s)) = still s" and "log_size s < log_limit \<Longrightarrow> fst (f s) = x"
  shows "runs_log f s x (holds E ents lg)"
  using assms log_size_still [OF assms(2)] holds_same [OF assms(2) assms(1)] by (simp add: runs_def)

lemma name_edit_index_runs:
  assumes "env_laws E ents" and "holds E ents lg s" and "n \<in> small_names E"
  shows "runs_log (name_edit_index E n) s (Inr (index_of (lg_names lg n))) (holds E ents lg)"
  using assms by (intro runs_read) (simp_all add: name_edit_index_def name_index_holds)

lemma transfer_index_runs:
  assumes "env_laws E ents" and "holds E ents lg s"
  shows "runs_log (transfer_index E a) s (Inr (index_of (lg_accts lg a))) (holds E ents lg)"
  using assms by (intro runs_read) (simp_all add: transfer_index_def acct_index_holds)

lemma get_record_runs:
  assumes "env_laws E ents" and "holds E ents lg s" and "at_log E lg loc = Some e"
  shows "runs_log (get_record E loc r0) s (Inr (of_nat (entry_len E e), entry_at_pos E (unat loc) e)) (holds E ents lg)"
  using assms by (intro runs_read) (simp_all add: get_record_still get_record_ok)

lemma sdb_size_runs:
  assumes "holds E ents lg s"
  shows "runs_log (asks sdb_size) s (Inr (of_nat (lg_size E lg))) (holds E ents lg)"
  using assms by (intro runs_read) (simp_all add: asks_def sdb_size_eq holds_size lg_size_def)

lemma entry_len_limit:
  assumes "holds E ents lg s" and "log_size s < log_limit" and "at_log E lg i = Some e"
  shows "entry_len E e < log_limit" and "(of_nat (entry_len E e) :: u64) \<noteq> 0" and "i \<noteq> -1"
proof -
  have b: "unat i + entry_len E e < log_limit"
    using entry_at_bounds(2) [OF assms(3)] holds_size [OF assms(1)] assms(2) by simp
  then show lt: "entry_len E e < log_limit" and "i \<noteq> -1" by (auto simp: unat_minus_one_u64 log_limit_def)
  show "(of_nat (entry_len E e) :: u64) \<noteq> 0"
    using entry_len_pos [of E e] unat_small [OF lt] by (metis not_numeral_le_zero unat_0)
qed

text \<open>Reading the struct of a record back.\<close>

lemmas record_ids = define_name_id_def update_name_id_def transfer_log_id_def start_trx_id_def end_block_id_def

lemma sr_id_entry [simp]:
  "sr_id (entry_at_pos E p (Define d)) = define_name_id" "sr_id (entry_at_pos E p (Update u)) = update_name_id"
  "sr_id (entry_at_pos E p (Transfer tlog)) = transfer_log_id"
  "sr_id (entry_at_pos E p (Start st)) = start_trx_id" "sr_id (entry_at_pos E p (End eb)) = end_block_id"
  by (simp_all add: entry_at_pos_def state_record_of_def)

lemma cast_entry:
  assumes "env_laws E ents"
  shows "entry_len E (Define d) < log_limit \<Longrightarrow> cast_record (e_define_name E) define_name_id (entry_at_pos E p (Define d)) = Inr d"
    and "entry_len E (Update u) < log_limit \<Longrightarrow> cast_record (e_update_name E) update_name_id (entry_at_pos E p (Update u)) = Inr u"
    and "entry_len E (Transfer tlog) < log_limit \<Longrightarrow> cast_record (e_transfer_log E) transfer_log_id (entry_at_pos E p (Transfer tlog)) = Inr tlog"
    and "entry_len E (End eb) < log_limit \<Longrightarrow> cast_record (e_end_block E) end_block_id (entry_at_pos E p (End eb)) = Inr eb"
  using assms
  by (auto simp: env_laws_def cast_record_def entry_at_pos_def state_record_of_def entry_len_def intro!: round_trips_unpack)

lemma id_not_define [simp]: "update_name_id \<noteq> define_name_id"
  by (simp add: record_ids)

section \<open>Names\<close>

text \<open>
  The three operations on names begin alike: they look the name up and read its record. The
  rule gives the cases: no record, a definition, an update.
\<close>

lemma name_entryE:
  assumes "sound_names E lg"
  obtains (none) "lg_names lg n = None" "name_entry E lg n = None"
    | (defined) i d where "lg_names lg n = Some i" "at_log E lg i = Some (Define d)" "name_entry E lg n = Some (i, dn_key d)"
    | (updated) i u where "lg_names lg n = Some i" "at_log E lg i = Some (Update u)"
        "name_entry E lg n = Some (un_name_idx u, un_key u)"
  using name_entry_cases [OF assms, of n] by auto

lemma name_lookup_runs:
  assumes laws: "env_laws E ents" and h: "holds E ents lg s" and n: "n \<in> small_names E" and sn: "sound_names E lg"
    and mono: "grows_log A" "\<And>i r. grows_log (B i r)"
    and none: "\<And>s'. holds E ents lg s' \<Longrightarrow> name_entry E lg n = None \<Longrightarrow> lg_names lg n = None \<Longrightarrow> runs_log A s' y Q"
    and defined: "\<And>s' i d. holds E ents lg s' \<Longrightarrow> lg_names lg n = Some i \<Longrightarrow> name_entry E lg n = Some (i, dn_key d) \<Longrightarrow>
        at_log E lg i = Some (Define d) \<Longrightarrow> (of_nat (entry_len E (Define d)) :: u64) \<noteq> 0 \<Longrightarrow> 
        cast_record (e_define_name E) define_name_id (entry_at_pos E (unat i) (Define d)) = Inr d \<Longrightarrow>
        runs_log (B i (of_nat (entry_len E (Define d)), entry_at_pos E (unat i) (Define d))) s' y Q"
    and updated: "\<And>s' i u. holds E ents lg s' \<Longrightarrow> lg_names lg n = Some i \<Longrightarrow> name_entry E lg n = Some (un_name_idx u, un_key u) \<Longrightarrow>
        at_log E lg i = Some (Update u) \<Longrightarrow> (of_nat (entry_len E (Update u)) :: u64) \<noteq> 0 \<Longrightarrow> 
        cast_record (e_update_name E) update_name_id (entry_at_pos E (unat i) (Update u)) = Inr u \<Longrightarrow>
        runs_log (B i (of_nat (entry_len E (Update u)), entry_at_pos E (unat i) (Update u))) s' y Q"
  shows "runs_log (bindP (name_edit_index E n) (\<lambda>i. if i = -1 then A else bindP (get_record E i state_record_new) (B i))) s y Q"
proof (rule runs_fits)
  show "grows_log (bindP (name_edit_index E n) (\<lambda>i. if i = -1 then A else bindP (get_record E i state_record_new) (B i)))"
    by (intro grows_intros mono)
  assume lim: "log_size s < log_limit"
  show "runs_log (bindP (name_edit_index E n) (\<lambda>i. if i = -1 then A else bindP (get_record E i state_record_new) (B i))) s y Q"
  proof (rule runs_bindP [OF name_edit_index_runs [OF laws h n]])
    show "grows_log (if i = -1 then A else bindP (get_record E i state_record_new) (B i))" for i
      by (intro grows_intros mono)
    fix s' assume h': "holds E ents lg s'"
    show "runs_log (if index_of (lg_names lg n) = -1 then A
        else bindP (get_record E (index_of (lg_names lg n)) state_record_new) (B (index_of (lg_names lg n)))) s' y Q"
    proof (cases rule: name_entryE [OF sn, of n])
      case 1
      then show ?thesis using none [OF h'] by (simp add: index_of_def)
    next
      case (2 i d)
      note ok = entry_len_limit [OF h lim 2(2)]
      have "runs_log (bindP (get_record E i state_record_new) (B i)) s' y Q"
        by (rule runs_bindP [OF get_record_runs [OF laws h' 2(2)] mono(2)])
          (rule defined [OF _ 2(1) 2(3) 2(2) ok(2) cast_entry(1) [OF laws ok(1)]])
      then show ?thesis using 2 ok(3) by (simp add: index_of_def)
    next
      case (3 i u)
      note ok = entry_len_limit [OF h lim 3(2)]
      have "runs_log (bindP (get_record E i state_record_new) (B i)) s' y Q"
        by (rule runs_bindP [OF get_record_runs [OF laws h' 3(2)] mono(2)])
          (rule updated [OF _ 3(1) 3(3) 3(2) ok(2) cast_entry(2) [OF laws ok(1)]])
      then show ?thesis using 3 ok(3) by (simp add: index_of_def)
    qed
  qed
qed

lemma get_public_key_runs:
  assumes "env_laws E ents" and "holds E ents lg s" and "n \<in> small_names E" and "sound_names E lg"
  shows "runs_log (get_public_key E n) s (Inr (key_of E lg n)) (holds E ents lg)"
  unfolding get_public_key_def
  by (rule name_lookup_runs [OF assms], (intro grows_intros)+)
    (simp_all add: key_of_def runs_def prog_simps bindP_def)

lemma get_name_index_runs:
  assumes "env_laws E ents" and "holds E ents lg s" and "n \<in> small_names E" and "sound_names E lg"
  shows "runs_log (get_name_index E n) s (Inr (index_of (id_of E lg n))) (holds E ents lg)"
  unfolding get_name_index_def
  by (rule name_lookup_runs [OF assms], (intro grows_intros)+)
    (simp_all add: id_of_def index_of_def runs_def prog_simps bindP_def)

section \<open>Extending the log\<close>

lemma append_record_runs:
  assumes laws: "env_laws E ents" and h: "holds E ents lg s"
  shows "runs_log (append_record E (entry_record E e)) s (Inr True) (holds E ents (lg\<lparr>lg_log := lg_log lg @ [e]\<rparr>))"
proof -
  have "pack (e_record E) r = record_layout r" for r using laws by (simp add: env_laws_def)
  moreover have "sdb_size s = of_nat (entries_len E (lg_log lg))" by (simp add: sdb_size_eq holds_size [OF h])
  ultimately have "append_record E (entry_record E e) s =
     (Inr True, set_layer ((layer_of s)\<lparr>local_changes := local_changes (layer_of s) @ log_from E (entries_len E (lg_log lg)) [e]\<rparr>) s)"
    by (simp add: append_record_def Let_def bindP_def prog_simps on_layer_def entry_at_pos_def)
  then show ?thesis using holds_append [OF h, of "[e]"] by (simp add: runs_def)
qed

lemma put_name_runs:
  assumes laws: "env_laws E ents" and h: "holds E ents lg s"
    and mono: "\<And>x. grows_log (k x)"
    and cont: "\<And>s'. holds E ents (put_name E n e lg) s' \<Longrightarrow> runs_log (k True) s' y Q"
  shows "runs_log (bindP (asks sdb_size) (\<lambda>sz. bindP (set_name_edit n sz) (\<lambda>_. bindP (append_record E (entry_record E e)) k))) s y Q"
proof (rule runs_fits)
  show "grows_log (bindP (asks sdb_size) (\<lambda>sz. bindP (set_name_edit n sz) (\<lambda>_. bindP (append_record E (entry_record E e)) k)))"
    by (intro grows_intros mono)
  assume lim: "log_size s < log_limit"
  show "runs_log (bindP (asks sdb_size) (\<lambda>sz. bindP (set_name_edit n sz) (\<lambda>_. bindP (append_record E (entry_record E e)) k))) s y Q"
  proof (rule runs_bindP [OF sdb_size_runs [OF h]], (intro grows_intros mono)[1])
    fix s1 assume h1: "holds E ents lg s1"
    let ?p = "of_nat (lg_size E lg) :: u64" and ?lg = "lg\<lparr>lg_names := (lg_names lg)(n := Some (of_nat (lg_size E lg)))\<rparr>"
    have "?p \<noteq> -1"
      using lim holds_size [OF h] by (intro of_nat_neq_minus_one_u64) (simp add: lg_size_def log_limit_def)
    then have "runs_log (set_name_edit n ?p) s1 (Inr ()) (holds E ents ?lg)"
      using holds_set_name [OF h1] by (simp add: runs_def set_name_edit_def on_layer_def)
    then show "runs_log (bindP (set_name_edit n ?p) (\<lambda>_. bindP (append_record E (entry_record E e)) k)) s1 y Q"
    proof (rule runs_bindP, (intro grows_intros mono)[1])
      fix s2 assume h2: "holds E ents ?lg s2"
      show "runs_log (bindP (append_record E (entry_record E e)) k) s2 y Q"
        by (rule runs_bindP [OF append_record_runs [OF laws h2] mono], rule cont) (simp add: put_name_def)
    qed
  qed
qed

lemma put_transfer_runs:
  assumes laws: "env_laws E ents" and h: "holds E ents lg s"
  shows "runs_log (bindP (asks sdb_size) (\<lambda>p.
       bindP (set_transfer (Account_Key (tl_from_name tlog) (tl_type_name tlog)) p) (\<lambda>_.
       bindP (set_transfer (Account_Key (tl_to_name tlog) (tl_type_name tlog)) p) (\<lambda>_.
       bindP (append_record E (entry_record E (Transfer tlog))) (\<lambda>_. ret ()))))) s (Inr ()) (holds E ents (put_transfer E tlog lg))"
    (is "runs_log ?f s _ ?Q")
proof (rule runs_fits)
  show "grows_log ?f" by (intro grows_intros)
  assume lim: "log_size s < log_limit"
  let ?p = "of_nat (lg_size E lg) :: u64"
  let ?k1 = "Account_Key (tl_from_name tlog) (tl_type_name tlog)" and ?k2 = "Account_Key (tl_to_name tlog) (tl_type_name tlog)"
  let ?lg1 = "lg\<lparr>lg_accts := (lg_accts lg)(?k1 := Some ?p)\<rparr>" and ?lg2 = "lg\<lparr>lg_accts := (lg_accts lg)(?k1 := Some ?p, ?k2 := Some ?p)\<rparr>"
  have p: "?p \<noteq> -1"
    using lim holds_size [OF h] by (intro of_nat_neq_minus_one_u64) (simp add: lg_size_def log_limit_def)
  have set: "holds E ents g s' \<Longrightarrow>
      runs_log (set_transfer k ?p) s' (Inr ()) (holds E ents (g\<lparr>lg_accts := (lg_accts g)(k := Some ?p)\<rparr>))" for k g s'
    using holds_set_acct [OF _ p, of E ents g s' k] by (simp add: runs_def set_transfer_def on_layer_def)
  show "runs_log ?f s (Inr ()) ?Q"
  proof (rule runs_bindP [OF sdb_size_runs [OF h]], (intro grows_intros)[1])
    fix s1 assume "holds E ents lg s1"
    from set [OF this, of ?k1]
    show "runs_log (bindP (set_transfer ?k1 ?p) (\<lambda>_. bindP (set_transfer ?k2 ?p) (\<lambda>_.
       bindP (append_record E (entry_record E (Transfer tlog))) (\<lambda>_. ret ())))) s1 (Inr ()) ?Q"
    proof (rule runs_bindP, (intro grows_intros)[1])
      fix s2 assume "holds E ents ?lg1 s2"
      from set [OF this, of ?k2]
      have s3: "runs_log (set_transfer ?k2 ?p) s2 (Inr ()) (holds E ents ?lg2)" by simp
      show "runs_log (bindP (set_transfer ?k2 ?p) (\<lambda>_.
       bindP (append_record E (entry_record E (Transfer tlog))) (\<lambda>_. ret ()))) s2 (Inr ()) ?Q"
      proof (rule runs_bindP [OF s3], (intro grows_intros)[1])
        fix s3 assume h3: "holds E ents ?lg2 s3"
        show "runs_log (bindP (append_record E (entry_record E (Transfer tlog))) (\<lambda>_. ret ())) s3 (Inr ()) ?Q"
          by (rule runs_bindP [OF append_record_runs [OF laws h3]], (intro grows_intros)[1], rule runs_ret)
            (simp add: put_transfer_def Let_def)
      qed
    qed
  qed
qed

section \<open>Names and balances of the market\<close>

definition shows_market :: "'d env \<Rightarrow> ('d \<Rightarrow> (bytes \<times> bytes) list) \<Rightarrow> market \<Rightarrow> 'd sdb \<Rightarrow> bool" where
  "shows_market E ents m s \<longleftrightarrow> (\<exists>lg. holds E ents lg s \<and> sound E lg \<and> market_of E lg = m)"

lemma shows_marketI: "holds E ents lg s \<Longrightarrow> sound E lg \<Longrightarrow> market_of E lg = m \<Longrightarrow> shows_market E ents m s"
  unfolding shows_market_def by blast

lemma market_keys [simp]: "mk_keys (market_of E lg) = key_of E lg"
  by (simp add: market_of_def)

lemma key_None_iff: "key_of E lg n = None \<longleftrightarrow> id_of E lg n = None"
  by (simp add: key_of_def id_of_def)

lemma name_entry_id_key: "name_entry E lg n = Some (i, k) \<Longrightarrow> id_of E lg n = Some i \<and> key_of E lg n = Some k"
  by (simp add: id_of_def key_of_def)

lemma put_name_market:
  assumes "holds E ents (put_name E n e lg) s" and "sound E lg" and "lg_size E lg < log_limit" and "n \<in> small_names E"
    and "e = Define d \<and> dn_name d = n \<and> id_of E lg n = None \<and> k = dn_key d \<or> e = Update u \<and> id_of E lg n = Some (un_name_idx u) \<and> k = un_key u"
  shows "shows_market E ents (m_set_key n k (market_of E lg)) s"
  by (rule shows_marketI [OF assms(1)]; rule put_name_sound [OF assms(2-4)]) (use assms(5) in auto)

lemma set_public_key_runs:
  assumes laws: "env_laws E ents" and h: "holds E ents lg s" and n: "n \<in> small_names E" and so: "sound E lg"
  shows "runs_log (set_public_key E n pk) s (Inr True) (shows_market E ents (m_set_key n pk (market_of E lg)))"
proof (rule runs_fits [OF grows_log_names(3)])
  assume "log_size s < log_limit"
  then have small: "lg_size E lg < log_limit" using holds_size [OF h] by (simp add: lg_size_def)
  have sn: "sound_names E lg" using so by (simp add: sound_def)
  note market = put_name_market [OF _ so small n]
  note put = put_name_runs [OF laws, where k = ret and n = n]
  note step = put [unfolded bindP_ret]
  show "runs_log (set_public_key E n pk) s (Inr True) (shows_market E ents (m_set_key n pk (market_of E lg)))"
    unfolding set_public_key_def
  proof (rule name_lookup_runs [OF laws h n sn], (intro grows_intros)+)
    fix s' assume s': "holds E ents lg s'" "name_entry E lg n = None"
    let ?d = "\<lparr>dn_name = n, dn_key = pk\<rparr>"
    show "runs_log (bindP (asks sdb_size) (\<lambda>sz. bindP (set_name_edit n sz) (\<lambda>_.
       append_record E (state_record_of (e_define_name E) define_name_id ?d)))) s' (Inr True)
       (shows_market E ents (m_set_key n pk (market_of E lg)))"
      using step [OF s'(1), where e = "Define ?d" and y = "Inr True" and Q = "shows_market E ents (m_set_key n pk (market_of E lg))"]
        market [where e = "Define ?d" and d = ?d and k = pk] s'(2) by (simp add: grows_intros runs_ret id_of_def)
  next
    fix s' and i :: u64 and d
    assume s': "holds E ents lg s'" "name_entry E lg n = Some (i, dn_key d)"
      "cast_record (e_define_name E) define_name_id (entry_at_pos E (unat i) (Define d)) = Inr d"
    let ?u = "\<lparr>un_name_idx = i, un_key = pk, un_last_update_idx = i\<rparr>"
    show "runs_log (case (of_nat (entry_len E (Define d)), entry_at_pos E (unat i) (Define d)) of (n', r) \<Rightarrow>
       if sr_id r = define_name_id then
         bindP (liftE (cast_record (e_define_name E) define_name_id r)) (\<lambda>dn.
         bindP (asks sdb_size) (\<lambda>sz.
         bindP (set_name_edit n sz) (\<lambda>_.
         append_record E (state_record_of (e_update_name E) update_name_id ?u))))
       else if sr_id r = update_name_id then
         bindP (liftE (cast_record (e_update_name E) update_name_id r)) (\<lambda>un.
         bindP (asks sdb_size) (\<lambda>sz.
         bindP (set_name_edit n sz) (\<lambda>_.
         append_record E (state_record_of (e_update_name E) update_name_id
           \<lparr>un_name_idx = un_name_idx un, un_key = pk, un_last_update_idx = i\<rparr>))))
       else ret False) s' (Inr True) (shows_market E ents (m_set_key n pk (market_of E lg)))"
      using step [OF s'(1), where e = "Update ?u" and y = "Inr True" and Q = "shows_market E ents (m_set_key n pk (market_of E lg))"]
        market [where e = "Update ?u" and u = ?u and k = pk] s'(2,3)
      by (simp add: grows_intros runs_ret id_of_def)
  next
    fix s' and i :: u64 and u
    assume s': "holds E ents lg s'" "name_entry E lg n = Some (un_name_idx u, un_key u)"
      "cast_record (e_update_name E) update_name_id (entry_at_pos E (unat i) (Update u)) = Inr u"
    let ?u = "\<lparr>un_name_idx = un_name_idx u, un_key = pk, un_last_update_idx = i\<rparr>"
    show "runs_log (case (of_nat (entry_len E (Update u)), entry_at_pos E (unat i) (Update u)) of (n', r) \<Rightarrow>
       if sr_id r = define_name_id then
         bindP (liftE (cast_record (e_define_name E) define_name_id r)) (\<lambda>dn.
         bindP (asks sdb_size) (\<lambda>sz.
         bindP (set_name_edit n sz) (\<lambda>_.
         append_record E (state_record_of (e_update_name E) update_name_id \<lparr>un_name_idx = i, un_key = pk, un_last_update_idx = i\<rparr>))))
       else if sr_id r = update_name_id then
         bindP (liftE (cast_record (e_update_name E) update_name_id r)) (\<lambda>un.
         bindP (asks sdb_size) (\<lambda>sz.
         bindP (set_name_edit n sz) (\<lambda>_.
         append_record E (state_record_of (e_update_name E) update_name_id
           \<lparr>un_name_idx = un_name_idx un, un_key = pk, un_last_update_idx = i\<rparr>))))
       else ret False) s' (Inr True) (shows_market E ents (m_set_key n pk (market_of E lg)))"
      using step [OF s'(1), where e = "Update ?u" and y = "Inr True" and Q = "shows_market E ents (m_set_key n pk (market_of E lg))"]
        market [where e = "Update ?u" and u = ?u and k = pk] s'(2,3)
      by (simp add: grows_intros runs_ret id_of_def)
  qed
qed

definition acct_index :: "'d env \<Rightarrow> ledger \<Rightarrow> string \<Rightarrow> string \<Rightarrow> u64 option" where
  \<comment> \<open>the last transfer of an account given by its names\<close>
  "acct_index E lg a t = lg_accts lg (Account_Key (index_of (id_of E lg a)) (index_of (id_of E lg t)))"

lemma index_of_Some [simp]: "index_of (Some i) = i" and index_of_None [simp]: "index_of None = -1"
  by (simp_all add: index_of_def)

lemma acct_index_cases:
  assumes so: "sound E lg" and small: "lg_size E lg < log_limit"
  obtains (none) "acct_index E lg a t = None" "mk_bals (market_of E lg) (a, t) = None"
    | (some) i tlog x y where "acct_index E lg a t = Some i" "at_log E lg i = Some (Transfer tlog)"
      "id_of E lg a = Some x" "id_of E lg t = Some y" "tl_type_name tlog = y" "tl_from_name tlog = x \<or> tl_to_name tlog = x"
      "mk_bals (market_of E lg) (a, t) = Some (if tl_from_name tlog = x then tl_new_from_bal tlog else tl_new_to_bal tlog)"
proof (cases "acct_index E lg a t")
  case None
  then have "mk_bals (market_of E lg) (a, t) = None"
    by (auto simp: market_of_def acct_index_def acct_balance_def split: option.split)
  with None show ?thesis by (rule none)
next
  case (Some i)
  have sn: "sound_names E lg" using so by (simp add: sound_def)
  obtain tlog n1 n2 where *: "at_log E lg i = Some (Transfer tlog)" "tl_type_name tlog = index_of (id_of E lg t)"
      "tl_from_name tlog = index_of (id_of E lg a) \<or> tl_to_name tlog = index_of (id_of E lg a)"
      "id_of E lg n1 = Some (index_of (id_of E lg a))" "id_of E lg n2 = Some (index_of (id_of E lg t))"
    using so Some unfolding sound_def sound_accts_def acct_index_def by metis
  have "id_of E lg a \<noteq> None" "id_of E lg t \<noteq> None"
    using *(4,5) id_not_minus_one [OF sn small, of n1] id_not_minus_one [OF sn small, of n2]
    by (auto simp: index_of_def split: option.splits)
  then obtain x y where xy: "id_of E lg a = Some x" "id_of E lg t = Some y" by blast
  with * Some show ?thesis
    by (intro some [OF Some *(1) xy]) (auto simp: market_of_def acct_balance_def acct_index_def)
qed

lemma get_balance_runs:
  assumes laws: "env_laws E ents" and h: "holds E ents lg s" and a: "a \<in> small_names E" and t: "t \<in> small_names E"
    and so: "sound E lg"
  shows "runs_log (get_balance E a t) s
    (Inr (balance (market_of E lg) a t, mk_bals (market_of E lg) (a, t) = None, index_of (acct_index E lg a t))) (holds E ents lg)"
proof (rule runs_fits [OF grows_log_balances(1)])
  assume lim: "log_size s < log_limit"
  then have small: "lg_size E lg < log_limit" using holds_size [OF h] by (simp add: lg_size_def)
  have sn: "sound_names E lg" using so by (simp add: sound_def)
  note name = get_name_index_runs [OF laws _ _ sn]
  show "runs_log (get_balance E a t) s
    (Inr (balance (market_of E lg) a t, mk_bals (market_of E lg) (a, t) = None, index_of (acct_index E lg a t))) (holds E ents lg)"
    unfolding get_balance_def
  proof (rule runs_bindP [OF name [OF h a]], (intro grows_intros)[1],
      rule runs_bindP [OF name [OF _ t]], assumption, (intro grows_intros)[1],
      rule runs_bindP [OF transfer_index_runs [OF laws]], assumption, (intro grows_intros)[1])
    fix s' assume h': "holds E ents lg s'"
    let ?i = "index_of (lg_accts lg (Account_Key (index_of (id_of E lg a)) (index_of (id_of E lg t))))"
    show "runs_log (if ?i = -1 then ret (0, True, -1)
     else bindP (get_record E ?i state_record_new) (\<lambda>(n, r).
       if sr_id r \<noteq> transfer_log_id then throw (Gpm_Exception ''Unexpected record type'')
       else bindP (liftE (cast_record (e_transfer_log E) transfer_log_id r)) (\<lambda>tl.
         if tl_type_name tl \<noteq> index_of (id_of E lg t) then throw (Gpm_Exception ''Unexpected type'')
         else if tl_from_name tl = index_of (id_of E lg a) then ret (tl_new_from_bal tl, False, ?i)
         else if tl_to_name tl = index_of (id_of E lg a) then ret (tl_new_to_bal tl, False, ?i)
         else throw (Gpm_Exception ''Source/Dest Mismatch'')))) s'
     (Inr (balance (market_of E lg) a t, mk_bals (market_of E lg) (a, t) = None, index_of (acct_index E lg a t))) (holds E ents lg)"
    proof (cases rule: acct_index_cases [OF so small, of a t])
      case 1
      then show ?thesis using h' by (simp add: acct_index_def runs_ret balance_def)
    next
      case (2 i tlog x y)
      note ok = entry_len_limit [OF h lim 2(2)]
      have i: "?i = i" using 2(1) by (simp add: acct_index_def)
      show ?thesis
        unfolding i using ok(3)
        by (simp, intro runs_bindP [OF get_record_runs [OF laws h' 2(2)]] grows_intros)
          (use 2 in \<open>auto simp: cast_entry(3) [OF laws ok(1)] runs_ret balance_def\<close>)
    qed
  qed
qed

lemma transfer_balance_runs:
  assumes laws: "env_laws E ents" and h: "holds E ents lg s" and so: "sound E lg"
    and names: "{a, b, t} \<subseteq> small_names E"
    and known: "key_of E lg a \<noteq> None" "key_of E lg b \<noteq> None" "key_of E lg t \<noteq> None"
    and funds: "v \<le> balance (market_of E lg) a t"
  shows "runs_log (transfer_balance E a b t v pos) s (Inr ()) (shows_market E ents (m_move a b t v (market_of E lg)))"
proof (rule runs_fits [OF grows_log_balances(2)])
  assume lim: "log_size s < log_limit"
  then have small: "lg_size E lg < log_limit" using holds_size [OF h] by (simp add: lg_size_def)
  have sn: "sound_names E lg" using so by (simp add: sound_def)
  obtain fi ti yi where ids: "id_of E lg a = Some fi" "id_of E lg b = Some ti" "id_of E lg t = Some yi"
    using known by (auto simp: key_None_iff)
  have n: "a \<in> small_names E" "b \<in> small_names E" "t \<in> small_names E" using names by simp_all
  note name = get_name_index_runs [OF laws _ _ sn] and bal = get_balance_runs [OF laws _ _ _ so]
  let ?m = "market_of E lg"
  let ?tl = "\<lparr>tl_amount = v, tl_type_name = yi, tl_from_name = fi, tl_to_name = ti,
                 tl_new_from_bal = balance ?m a t - v, tl_new_to_bal = balance ?m b t + v,
                 tl_last_from_trx = index_of (acct_index E lg a t), tl_last_to_trx = index_of (acct_index E lg b t), tl_trx_idx = pos\<rparr>"
  show "runs_log (transfer_balance E a b t v pos) s (Inr ()) (shows_market E ents (m_move a b t v (market_of E lg)))"
    unfolding transfer_balance_def
  proof (rule runs_bindP [OF name [OF h n(1)]], (intro grows_intros)[1],
      rule runs_bindP [OF name [OF _ n(2)]], assumption, (intro grows_intros)[1],
      rule runs_bindP [OF name [OF _ n(3)]], assumption, (intro grows_intros)[1],
      rule runs_bindP [OF bal [OF _ n(1) n(3)]], assumption, (intro grows_intros)[1],
      unfold prod.case, rule runs_bindP [OF bal [OF _ n(2) n(3)]], assumption, (intro grows_intros)[1],
      unfold prod.case)
    fix s' assume h': "holds E ents lg s'"
    have "\<not> balance ?m a t < v" using funds by simp
    have put: "shows_market E ents (m_move a b t v ?m) s''" if "holds E ents (put_transfer E ?tl lg) s''" for s''
      by (rule shows_marketI [OF that])
        (use put_transfer_sound [OF so small, of a ?tl b t] ids in \<open>simp_all add: m_move_def\<close>)
    show "runs_log (if balance ?m a t < v then throw (Gpm_Exception ''Insufficent balance'')
     else
       let tlog = \<lparr>tl_amount = v, tl_type_name = index_of (id_of E lg t), tl_from_name = index_of (id_of E lg a), tl_to_name = index_of (id_of E lg b),
                 tl_new_from_bal = balance ?m a t - v, tl_new_to_bal = balance ?m b t + v,
                 tl_last_from_trx = index_of (acct_index E lg a t), tl_last_to_trx = index_of (acct_index E lg b t), tl_trx_idx = pos\<rparr> in
       bindP (asks sdb_size) (\<lambda>p.
       bindP (set_transfer (Account_Key (index_of (id_of E lg a)) (index_of (id_of E lg t))) p) (\<lambda>_.
       bindP (set_transfer (Account_Key (index_of (id_of E lg b)) (index_of (id_of E lg t))) p) (\<lambda>_.
       bindP (append_record E (state_record_of (e_transfer_log E) transfer_log_id tlog)) (\<lambda>_. ret ()))))) s' (Inr ())
       (shows_market E ents (m_move a b t v ?m))"
      using runs_conseq [OF put_transfer_runs [OF laws h', of ?tl] put] \<open>\<not> balance ?m a t < v\<close>
      by (simp add: ids Let_def)
  qed
qed

lemma issue_runs:
  assumes laws: "env_laws E ents" and h: "holds E ents lg s" and so: "sound E lg" and n: "t \<in> small_names E"
    and known: "key_of E lg t \<noteq> None" and none: "mk_bals (market_of E lg) (t, t) = None"
  shows "runs_log (issue E t pos) s (Inr ()) (shows_market E ents (m_issue_all t (market_of E lg)))"
proof (rule runs_fits [OF grows_log_balances(3)])
  assume lim: "log_size s < log_limit"
  then have small: "lg_size E lg < log_limit" using holds_size [OF h] by (simp add: lg_size_def)
  have sn: "sound_names E lg" using so by (simp add: sound_def)
  obtain yi where yi: "id_of E lg t = Some yi" using known by (auto simp: key_None_iff)
  note name = get_name_index_runs [OF laws _ n sn] and bal = get_balance_runs [OF laws _ n n so]
  let ?m = "market_of E lg" and ?loc = "index_of (acct_index E lg t t)"
  let ?tl = "\<lparr>tl_amount = -1, tl_type_name = yi, tl_from_name = yi, tl_to_name = yi,
                 tl_new_from_bal = -1, tl_new_to_bal = -1,
                 tl_last_from_trx = ?loc, tl_last_to_trx = -1, tl_trx_idx = pos\<rparr>"
  show "runs_log (issue E t pos) s (Inr ()) (shows_market E ents (m_issue_all t ?m))"
    unfolding issue_def
  proof (rule runs_bindP [OF name [OF h]], (intro grows_intros)[1],
      rule runs_bindP [OF name], assumption, (intro grows_intros)[1],
      rule runs_bindP [OF name], assumption, (intro grows_intros)[1],
      rule runs_bindP [OF bal], assumption, (intro grows_intros)[1], unfold prod.case)
    fix s' assume h': "holds E ents lg s'"
    have put: "shows_market E ents (m_issue_all t ?m) s''" if "holds E ents (put_transfer E ?tl lg) s''" for s''
      by (rule shows_marketI [OF that])
        (use put_transfer_sound [OF so small, of t ?tl t t] yi in \<open>simp_all add: m_issue_all_def\<close>)
    show "runs_log (if \<not> (mk_bals ?m (t, t) = None) then throw (Gpm_Exception ''Attempt to issue after it has already been issued'')
     else
       let tlog = \<lparr>tl_amount = -1, tl_type_name = index_of (id_of E lg t), tl_from_name = index_of (id_of E lg t),
                 tl_to_name = index_of (id_of E lg t), tl_new_from_bal = -1, tl_new_to_bal = -1,
                 tl_last_from_trx = ?loc, tl_last_to_trx = -1, tl_trx_idx = pos\<rparr> in
       bindP (asks sdb_size) (\<lambda>p.
       bindP (set_transfer (Account_Key (index_of (id_of E lg t)) (index_of (id_of E lg t))) p) (\<lambda>_.
       bindP (set_transfer (Account_Key (index_of (id_of E lg t)) (index_of (id_of E lg t))) p) (\<lambda>_.
       bindP (append_record E (state_record_of (e_transfer_log E) transfer_log_id tlog)) (\<lambda>_. ret ()))))) s' (Inr ())
       (shows_market E ents (m_issue_all t ?m))"
      using runs_conseq [OF put_transfer_runs [OF laws h', of ?tl] put] none by (simp add: yi Let_def)
  qed
qed

section \<open>Objects that show a market\<close>

lemma shows_marketE:
  assumes "shows_market E ents m s"
  obtains lg where "holds E ents lg s" "sound E lg" "sound_names E lg" "market_of E lg = m"
  using assms unfolding shows_market_def sound_def by blast

lemma key_shows:
  assumes laws: "env_laws E ents" and m: "shows_market E ents m s" and n: "n \<in> small_names E"
  shows "runs_log (get_public_key E n) s (Inr (mk_keys m n)) (shows_market E ents m)"
proof (rule shows_marketE [OF m])
  fix lg assume lg: "holds E ents lg s" "sound E lg" "sound_names E lg" "market_of E lg = m"
  show ?thesis
    using runs_conseq [OF get_public_key_runs [OF laws lg(1) n lg(3)] shows_marketI [OF _ lg(2,4)]] lg(4) by auto
qed

lemma balance_shows:
  assumes laws: "env_laws E ents" and m: "shows_market E ents m s" and n: "a \<in> small_names E" "t \<in> small_names E"
  obtains loc where "runs_log (get_balance E a t) s (Inr (balance m a t, mk_bals m (a, t) = None, loc)) (shows_market E ents m)"
proof (rule shows_marketE [OF m])
  fix lg assume lg: "holds E ents lg s" "sound E lg" "sound_names E lg" "market_of E lg = m"
  show ?thesis
    by (rule that) (use runs_conseq [OF get_balance_runs [OF laws lg(1) n lg(2)] shows_marketI [OF _ lg(2,4)]] lg(4) in auto)
qed

lemma set_key_shows:
  assumes laws: "env_laws E ents" and m: "shows_market E ents m s" and n: "n \<in> small_names E"
  shows "runs_log (set_public_key E n pk) s (Inr True) (shows_market E ents (m_set_key n pk m))"
proof (rule shows_marketE [OF m])
  fix lg assume lg: "holds E ents lg s" "sound E lg" "sound_names E lg" "market_of E lg = m"
  show ?thesis using set_public_key_runs [OF laws lg(1) n lg(2)] lg(4) by simp
qed

lemma transfer_shows:
  assumes laws: "env_laws E ents" and m: "shows_market E ents m s" and n: "{a, b, t} \<subseteq> small_names E"
    and known: "mk_keys m a \<noteq> None" "mk_keys m b \<noteq> None" "mk_keys m t \<noteq> None" and "v \<le> balance m a t"
  shows "runs_log (transfer_balance E a b t v pos) s (Inr ()) (shows_market E ents (m_move a b t v m))"
proof (rule shows_marketE [OF m])
  fix lg assume lg: "holds E ents lg s" "sound E lg" "sound_names E lg" "market_of E lg = m"
  show ?thesis using transfer_balance_runs [OF laws lg(1,2) n, of v pos] lg(4) assms(4-) by auto
qed

lemma issue_shows:
  assumes laws: "env_laws E ents" and m: "shows_market E ents m s" and n: "t \<in> small_names E"
    and known: "mk_keys m t \<noteq> None" "mk_bals m (t, t) = None"
  shows "runs_log (issue E t pos) s (Inr ()) (shows_market E ents (m_issue_all t m))"
proof (rule shows_marketE [OF m])
  fix lg assume lg: "holds E ents lg s" "sound E lg" "sound_names E lg" "market_of E lg = m"
  show ?thesis using issue_runs [OF laws lg(1,2) n, of pos] lg(4) assms(4-) by auto
qed

lemma ensure_shows:
  assumes laws: "env_laws E ents" and m: "shows_market E ents m s" and n: "to \<in> small_names E"
  shows "runs_log (ensure_destination E to) s (Inr (mk_keys m to \<noteq> None \<or> validate_address_format E to))
    (shows_market E ents (if mk_keys m to = None \<and> validate_address_format E to then m_set_key to empty_public_key m else m))"
    (is "runs_log _ s ?r ?Q")
proof (rule runs_fits [OF grows_log_apply(3)])
  assume lim: "log_size s < log_limit"
  show "runs_log (ensure_destination E to) s ?r ?Q"
  proof (rule shows_marketE [OF m])
    fix lg assume lg: "holds E ents lg s" "sound E lg" "sound_names E lg" "market_of E lg = m"
    have small: "lg_size E lg < log_limit" using lim holds_size [OF lg(1)] by (simp add: lg_size_def)
    have key: "mk_keys m to = key_of E lg to" using lg(4) by auto
    let ?d = "\<lparr>dn_name = to, dn_key = empty_public_key\<rparr>"
    note put = put_name_runs [OF laws, where k = "\<lambda>_. ret True" and e = "Define ?d" and n = to and lg = lg]
    have market: "shows_market E ents (m_set_key to empty_public_key m) s'"
      if "holds E ents (put_name E to (Define ?d) lg) s'" "id_of E lg to = None" for s'
      using put_name_market [OF that(1) lg(2) small n, where d = ?d and k = empty_public_key] that(2) lg(4) by simp
    show ?thesis
      unfolding ensure_destination_def
    proof (rule runs_bindP [OF get_name_index_runs [OF laws lg(1) n lg(3)]], (intro grows_intros)[1])
      fix s' assume h': "holds E ents lg s'"
      show "runs_log (if index_of (id_of E lg to) = -1 then
         if validate_address_format E to then
           bindP (asks sdb_size) (\<lambda>sz.
           bindP (set_name_edit to sz) (\<lambda>_.
           bindP (append_record E (state_record_of (e_define_name E) define_name_id ?d)) (\<lambda>_. ret True)))
         else ret False
       else ret True) s' ?r ?Q"
      proof (cases "id_of E lg to")
        case None
        then show ?thesis
          using put [where y = "Inr True" and Q = ?Q, OF h'] market shows_marketI [OF h' lg(2,4)]
          by (auto simp: key key_None_iff runs_ret grows_intros)
      next
        case (Some i)
        then have "i \<noteq> -1" using id_not_minus_one [OF lg(3) small, of to] by auto
        then show ?thesis
          using Some shows_marketI [OF h' lg(2,4)] by (auto simp: key key_None_iff runs_ret)
      qed
    qed
  qed
qed

end
