(* ===== verification/StateApply.thy ===== *)
theory StateApply
  imports StateRefines
begin

text \<open>
  Applying a transaction (\<open>state_database::apply(const signed_transaction&, ...)\<close> of
  libs/gpm/statedb/state_database.cpp): each command does what \<open>Market\<close> says it does, and
  what follows for the market from a transaction that is applied.
\<close>

section \<open>Commands\<close>

definition names_of :: "'d env \<Rightarrow> command \<Rightarrow> string list" where
  "names_of E c =
     (if c_id c = register_name_id then (case unpack (e_register_name E) (c_data c) of Inl e \<Rightarrow> [] | Inr rn \<Rightarrow> [rn_name rn])
      else if c_id c = issue_id then (case unpack (e_issue E) (c_data c) of Inl e \<Rightarrow> [] | Inr ic \<Rightarrow> [is_stock_name ic])
      else if c_id c = transfer_id then
        (case unpack (e_transfer E) (c_data c) of Inl e \<Rightarrow> [] | Inr tr \<Rightarrow> [tr_from_name tr, tr_to_name tr, tr_stock_name tr])
      else [])"

lemma command_ids [simp]: "issue_id \<noteq> register_name_id" "transfer_id \<noteq> register_name_id" "transfer_id \<noteq> issue_id"
  by (simp_all add: register_name_id_def issue_id_def transfer_id_def)

lemma cast_command_id: "c_id c = i \<Longrightarrow> cast_command cd i c = unpack cd (c_data c)"
  by (simp add: cast_command_def)

lemma apply_register_shows:
  assumes laws: "env_laws E ents" and m: "shows_market E ents m s" and n: "set (names_of E c) \<subseteq> small_names E"
    and id: "c_id c = register_name_id"
  shows "runs_log (apply_register_name E trx c) s (fst (m_command E trx gen c m)) (shows_market E ents (snd (m_command E trx gen c m)))"
proof (cases "unpack (e_register_name E) (c_data c)")
  case (Inl e)
  then show ?thesis using m id by (simp add: apply_register_name_def cast_command_id m_command_def runs_throw)
next
  case (Inr rn)
  then have nm: "rn_name rn \<in> small_names E" using n id by (simp add: names_of_def)
  have set: "runs_log (bindP (set_public_key E (rn_name rn) (rn_pub_key rn)) (\<lambda>_. ret True)) s' (Inr True)
      (shows_market E ents (m_set_key (rn_name rn) (rn_pub_key rn) m))" if "shows_market E ents m s'" for s'
    by (rule runs_bindP [OF set_key_shows [OF laws that nm]]) (simp_all add: grows_intros runs_ret)
  have mc: "m_command E trx gen c m = apfst Inr (m_register E trx rn m)"
    using id Inr by (simp add: m_command_def)
  show ?thesis
  proof (cases "rn_name rn = encode_address E (rn_pub_key rn)")
    case True
    then have "m_register E trx rn m = (True, m_set_key (rn_name rn) (rn_pub_key rn) m)" by (simp add: m_register_def)
    moreover have "apply_register_name E trx c = bindP (set_public_key E (rn_name rn) (rn_pub_key rn)) (\<lambda>_. ret True)"
      using True by (simp add: apply_register_name_def cast_command_id [OF id] Inr)
    ultimately show ?thesis using set [OF m] by (simp add: mc)
  next
    case False
    have "apply_register_name E trx c = bindP (get_public_key E (rn_name rn)) (\<lambda>k. case k of
         Some pub_key \<Rightarrow> if \<not> strx_verify E trx pub_key then ret False
           else bindP (set_public_key E (rn_name rn) (rn_pub_key rn)) (\<lambda>_. ret True)
       | None \<Rightarrow> bindP (set_public_key E (rn_name rn) (rn_pub_key rn)) (\<lambda>_. ret True))"
      using False by (simp add: apply_register_name_def cast_command_id [OF id] Inr)
    then show ?thesis
      by (simp, intro runs_bindP [OF key_shows [OF laws m nm]] grows_intros)
        (use False set in \<open>auto simp: mc m_register_def signed_by_def runs_ret split: option.split\<close>)
  qed
qed

lemma apply_issue_shows:
  assumes laws: "env_laws E ents" and m: "shows_market E ents m s" and n: "set (names_of E c) \<subseteq> small_names E"
    and id: "c_id c = issue_id"
  shows "runs_log (apply_issue E trx tpos c) s (fst (m_command E trx gen c m)) (shows_market E ents (snd (m_command E trx gen c m)))"
proof (cases "unpack (e_issue E) (c_data c)")
  case (Inl e)
  then show ?thesis using m id by (simp add: apply_issue_def cast_command_id m_command_def runs_throw)
next
  case (Inr ic)
  let ?t = "is_stock_name ic"
  have nm: "?t \<in> small_names E" using Inr n id by (simp add: names_of_def)
  have mc: "m_command E trx gen c m = apfst Inr (m_issue E trx ic m)"
    using id Inr by (simp add: m_command_def)
  have "apply_issue E trx tpos c = bindP (get_public_key E ?t) (\<lambda>k. case k of
       None \<Rightarrow> ret False
     | Some pk \<Rightarrow> bindP (get_balance E ?t ?t) (\<lambda>(b, is_null, loc).
         if \<not> is_null then ret False
         else if \<not> strx_verify E trx pk then ret False
         else bindP (issue E ?t tpos) (\<lambda>_. ret True)))"
    by (simp add: apply_issue_def cast_command_id [OF id] Inr)
  then show ?thesis
  proof (simp, intro runs_bindP [OF key_shows [OF laws m nm]] grows_intros)
    fix s1 assume s1: "shows_market E ents m s1"
    show "runs_log (case mk_keys m ?t of None \<Rightarrow> ret False
     | Some pk \<Rightarrow> bindP (get_balance E ?t ?t) (\<lambda>(b, is_null, loc).
         if \<not> is_null then ret False
         else if \<not> strx_verify E trx pk then ret False
         else bindP (issue E ?t tpos) (\<lambda>_. ret True))) s1
       (fst (m_command E trx gen c m)) (shows_market E ents (snd (m_command E trx gen c m)))"
    proof (cases "mk_keys m ?t")
      case None
      then show ?thesis using s1 by (simp add: mc m_issue_def signed_by_def runs_ret)
    next
      case (Some pk)
      obtain loc where bal: "runs_log (get_balance E ?t ?t) s1 (Inr (balance m ?t ?t, mk_bals m (?t, ?t) = None, loc))
          (shows_market E ents m)"
        using balance_shows [OF laws s1 nm nm] .
      have iss: "runs_log (bindP (issue E ?t tpos) (\<lambda>_. ret True)) s2 (Inr True) (shows_market E ents (m_issue_all ?t m))"
        if "shows_market E ents m s2" "mk_bals m (?t, ?t) = None" for s2
        by (rule runs_bindP [OF issue_shows [OF laws that(1) nm _ that(2)]]) (simp_all add: Some grows_intros runs_ret)
      show ?thesis
        unfolding Some option.case
        by (rule runs_bindP [OF bal], intro grows_intros)
          (use iss Some in \<open>auto simp: mc m_issue_def signed_by_def runs_ret\<close>)
    qed
  qed
qed

lemma move_shows:
  assumes laws: "env_laws E ents" and m: "shows_market E ents m s" and n: "{a, b, t} \<subseteq> small_names E"
    and known: "mk_keys m a \<noteq> None" "mk_keys m t \<noteq> None" and v: "v \<le> balance m a t"
  shows "runs_log (bindP (ensure_destination E b) (\<lambda>ok. if \<not> ok then ret False
           else bindP (transfer_balance E a b t v tpos) (\<lambda>_. ret True))) s
     (Inr (mk_keys m b \<noteq> None \<or> validate_address_format E b))
     (shows_market E ents (if mk_keys m b = None \<and> \<not> validate_address_format E b then m
        else m_move a b t v (if mk_keys m b = None then m_set_key b empty_public_key m else m)))"
    (is "runs_log ?f s ?r ?Q")
proof (rule runs_bindP [OF ensure_shows [OF laws m, of b]])
  show "b \<in> small_names E" using n by simp
  show "grows_log (if \<not> ok then ret False else bindP (transfer_balance E a b t v tpos) (\<lambda>_. ret True))" for ok
    by (intro grows_intros)
  let ?m = "if mk_keys m b = None \<and> validate_address_format E b then m_set_key b empty_public_key m else m"
  fix s' assume s': "shows_market E ents ?m s'"
  show "runs_log (if \<not> (mk_keys m b \<noteq> None \<or> validate_address_format E b) then ret False
      else bindP (transfer_balance E a b t v tpos) (\<lambda>_. ret True)) s' ?r ?Q"
  proof (cases "mk_keys m b = None \<and> \<not> validate_address_format E b")
    case True
    then show ?thesis using s' by (simp add: runs_ret)
  next
    case False
    have "runs_log (transfer_balance E a b t v tpos) s' (Inr ()) (shows_market E ents (m_move a b t v ?m))"
      using False known v by (intro transfer_shows [OF laws s' n]) (auto simp: m_set_key_def balance_def)
    then have "runs_log (bindP (transfer_balance E a b t v tpos) (\<lambda>_. ret True)) s' (Inr True) (shows_market E ents (m_move a b t v ?m))"
      by (rule runs_bindP) (simp_all add: grows_intros runs_ret)
    then show ?thesis using False by (auto split: if_splits)
  qed
qed

lemma apply_transfer_shows:
  assumes laws: "env_laws E ents" and m: "shows_market E ents m s"
    and n: "set (names_of E c) \<subseteq> small_names E" "gen \<in> small_names E" and id: "c_id c = transfer_id"
  shows "runs_log (apply_transfer E trx gen tpos c) s (fst (m_command E trx gen c m)) (shows_market E ents (snd (m_command E trx gen c m)))"
proof (cases "unpack (e_transfer E) (c_data c)")
  case (Inl e)
  then show ?thesis using m id by (simp add: apply_transfer_def cast_command_id m_command_def runs_throw)
next
  case (Inr tr)
  let ?a = "tr_from_name tr" and ?t = "tr_stock_name tr" and ?v = "tr_amount tr" and ?b = "destination gen tr"
  have nm: "?a \<in> small_names E" "?t \<in> small_names E" "{?a, ?b, ?t} \<subseteq> small_names E"
    using Inr n id by (simp_all add: names_of_def destination_def)
  have mc: "m_command E trx gen c m = apfst Inr (m_transfer E trx gen tr m)"
    using id Inr by (simp add: m_command_def)
  have b: "(if length (tr_to_name tr) = 0 then gen else tr_to_name tr) = ?b" by (simp add: destination_def)
  let ?move = "bindP (ensure_destination E ?b) (\<lambda>ok. if \<not> ok then ret False
           else bindP (transfer_balance E ?a ?b ?t ?v tpos) (\<lambda>_. ret True))"
  let ?rest = "\<lambda>pk. if \<not> strx_verify E trx pk then ret False
       else bindP (get_balance E ?a ?t) (\<lambda>(bal, is_null, loc). if bal < ?v then ret False else ?move)"
  show ?thesis
  proof (cases "tr_to_name tr \<noteq> [] \<and> ?a = tr_to_name tr")
    case True
    then show ?thesis
      using m by (simp add: apply_transfer_def cast_command_id [OF id] Inr mc m_transfer_def Let_def runs_ret)
  next
    case False
    then have ap: "apply_transfer E trx gen tpos c = bindP (get_public_key E ?a) (\<lambda>fk. case fk of None \<Rightarrow> ret False | Some pk \<Rightarrow>
       bindP (get_public_key E ?t) (\<lambda>yk. case yk of None \<Rightarrow> ret False | Some type_pub_key \<Rightarrow> ?rest pk))"
      unfolding apply_transfer_def cast_command_id [OF id] Inr bindP_liftE Let_def b by auto
    let ?r = "fst (m_command E trx gen c m)" and ?Q = "shows_market E ents (snd (m_command E trx gen c m))"
    have rest: "runs_log (?rest pk) s2 ?r ?Q"
      if s2: "shows_market E ents m s2" and k: "mk_keys m ?a = Some pk" "mk_keys m ?t \<noteq> None" for s2 pk
    proof -
      obtain loc where bal: "runs_log (get_balance E ?a ?t) s2 (Inr (balance m ?a ?t, mk_bals m (?a, ?t) = None, loc)) (shows_market E ents m)"
        using balance_shows [OF laws s2 nm(1,2)] .
      have move: "runs_log ?move s3 (Inr (mk_keys m ?b \<noteq> None \<or> validate_address_format E ?b))
        (shows_market E ents (if mk_keys m ?b = None \<and> \<not> validate_address_format E ?b then m
           else m_move ?a ?b ?t ?v (if mk_keys m ?b = None then m_set_key ?b empty_public_key m else m)))"
        if "shows_market E ents m s3" "\<not> balance m ?a ?t < ?v" for s3
        using that k by (intro move_shows [OF laws _ nm(3)]) auto
      have "runs_log (bindP (get_balance E ?a ?t) (\<lambda>(bal, is_null, loc). if bal < ?v then ret False else ?move)) s2 ?r ?Q"
        if "strx_verify E trx pk"
        by (rule runs_bindP [OF bal], intro grows_intros)
          (use that False k move in \<open>auto simp: mc m_transfer_def signed_by_def Let_def runs_ret split: if_splits\<close>)
      then show ?thesis
        using s2 False k by (auto simp: mc m_transfer_def signed_by_def Let_def runs_ret)
    qed
    have stop: "runs_log (ret False) s2 ?r ?Q" if "shows_market E ents m s2" "mk_keys m ?a = None \<or> mk_keys m ?t = None" for s2
      using that False by (auto simp: mc m_transfer_def signed_by_def Let_def runs_ret)
    show ?thesis
      unfolding ap
    proof (rule runs_bindP [OF key_shows [OF laws m nm(1)]], (intro grows_intros)[1])
      fix s1 assume s1: "shows_market E ents m s1"
      show "runs_log (case mk_keys m ?a of None \<Rightarrow> ret False | Some pk \<Rightarrow>
         bindP (get_public_key E ?t) (\<lambda>yk. case yk of None \<Rightarrow> ret False | Some type_pub_key \<Rightarrow> ?rest pk)) s1 ?r ?Q"
      proof (cases "mk_keys m ?a")
        case None
        then show ?thesis using stop [OF s1] by simp
      next
        case (Some pk)
        show ?thesis
          unfolding Some option.case
        proof (rule runs_bindP [OF key_shows [OF laws s1 nm(2)]], (intro grows_intros)[1])
          fix s2 assume s2: "shows_market E ents m s2"
          show "runs_log (case mk_keys m ?t of None \<Rightarrow> ret False | Some type_pub_key \<Rightarrow> ?rest pk) s2 ?r ?Q"
            using stop [OF s2] rest [OF s2 Some] by (cases "mk_keys m ?t") simp_all
        qed
      qed
    qed
  qed
qed

lemma apply_command_shows:
  assumes "env_laws E ents" and "shows_market E ents m s"
    and "set (names_of E c) \<subseteq> small_names E" and "gen \<in> small_names E"
  shows "runs_log (apply_command E trx gen tpos c) s (fst (m_command E trx gen c m)) (shows_market E ents (snd (m_command E trx gen c m)))"
proof -
  consider "c_id c = register_name_id" | "c_id c = issue_id" | "c_id c = transfer_id"
    | "c_id c \<notin> {register_name_id, issue_id, transfer_id}" by blast
  then show ?thesis
  proof cases
    case 1
    then show ?thesis using apply_register_shows [OF assms(1-3)] by (simp add: apply_command_def)
  next
    case 2
    then show ?thesis using apply_issue_shows [OF assms(1-3)] by (simp add: apply_command_def)
  next
    case 3
    then show ?thesis using apply_transfer_shows [OF assms] by (simp add: apply_command_def)
  next
    case 4
    then show ?thesis using assms(2) by (simp add: apply_command_def m_command_def runs_ret)
  qed
qed

section \<open>Transactions\<close>

definition small_trx :: "'d env \<Rightarrow> string \<Rightarrow> command list \<Rightarrow> bool" where
  \<comment> \<open>the names of a transaction and the generator are short enough to be packed\<close>
  "small_trx E gen cs \<longleftrightarrow> gen \<in> small_names E \<and> (\<forall>c \<in> set cs. set (names_of E c) \<subseteq> small_names E)"

lemma apply_commands_shows:
  assumes laws: "env_laws E ents" and "shows_market E ents m s" and "small_trx E gen cs"
  shows "runs_log (apply_commands E trx gen tpos cs) s (fst (m_commands E trx gen cs m)) (shows_market E ents (snd (m_commands E trx gen cs m)))"
  using assms(2-)
proof (induction cs arbitrary: m s)
  case Nil
  then show ?case by (simp add: runs_ret)
next
  case (Cons c cs)
  obtain r m' where mc: "m_command E trx gen c m = (r, m')" by fastforce
  have step: "runs_log (apply_command E trx gen tpos c) s r (shows_market E ents m')"
    using apply_command_shows [OF laws Cons.prems(1), of c gen trx tpos] Cons.prems(2) mc by (simp add: small_trx_def)
  have small: "small_trx E gen cs" using Cons.prems(2) by (simp add: small_trx_def)
  show ?case
  proof (cases r)
    case (Inl e)
    then show ?thesis using step mc
      by (simp, intro runs_bindP_Inl [where P = "shows_market E ents m'"] grows_intros) simp_all
  next
    case (Inr ok)
    then have "runs_log (apply_command E trx gen tpos c) s (Inr ok) (shows_market E ents m')" using step by simp
    then have "runs_log (bindP (apply_command E trx gen tpos c) (\<lambda>ok. if ok then apply_commands E trx gen tpos cs else ret False)) s
       (if ok then fst (m_commands E trx gen cs m') else Inr False)
       (shows_market E ents (if ok then snd (m_commands E trx gen cs m') else m'))"
      by (rule runs_bindP, intro grows_intros) (use Cons.IH small in \<open>auto simp: runs_ret\<close>)
    then show ?thesis using mc Inr by (cases ok) simp_all
  qed
qed

lemma append_start_shows:
  assumes laws: "env_laws E ents" and m: "shows_market E ents m s"
  shows "runs_log (append_record E (entry_record E e)) s (Inr True) (shows_market E ents m)"
proof (rule shows_marketE [OF m])
  fix lg assume lg: "holds E ents lg s" "sound E lg" "market_of E lg = m"
  show ?thesis
    by (rule runs_conseq [OF append_record_runs [OF laws lg(1)]], erule shows_marketI)
      (use grow_sound [OF lg(2), of "[e]"] lg(3) in simp_all)
qed

lemma apply_trx_shows:
  assumes laws: "env_laws E ents" and m: "shows_market E ents m s" and "small_trx E gen (trx_commands (strx_trx trx))"
  shows "runs_log (apply_trx E trx gen) s (fst (m_commands E trx gen (trx_commands (strx_trx trx)) m))
    (shows_market E ents (snd (m_commands E trx gen (trx_commands (strx_trx trx)) m)))"
  unfolding apply_trx_def entry_record.simps(4) [symmetric]
proof (rule runs_bindP [OF runs_asks [where P = "shows_market E ents m", OF m]], (intro grows_intros)[1],
    rule runs_bindP [OF append_start_shows [OF laws]], assumption, (intro grows_intros)[1])
  fix s' assume "shows_market E ents m s'"
  then show "runs_log (apply_commands E trx gen (sdb_size s) (trx_commands (strx_trx trx))) s'
     (fst (m_commands E trx gen (trx_commands (strx_trx trx)) m))
     (shows_market E ents (snd (m_commands E trx gen (trx_commands (strx_trx trx)) m)))"
    using assms(3) by (intro apply_commands_shows [OF laws])
qed

end
