(* ===== verification/StateCommit.thy ===== *)
theory StateCommit
  imports StateApply
begin

text \<open>
  Committing a transaction into its base, committing the database into its file, and the hash
  of the state.
\<close>

section \<open>Committing into a base\<close>

lemma om_find_fold:
  assumes "om_wf m'"
  shows "om_find k (fold (\<lambda>(k, v). om_set k v) m' m) = (case om_find k m' of Some v \<Rightarrow> Some v | None \<Rightarrow> om_find k m)"
proof -
  have "distinct (map fst m')" using assms by (simp add: om_wf_def strict_sorted_iff)
  then have "map_of (rev m') k = Some v \<longleftrightarrow> map_of m' k = Some v" for v
    using map_of_eq_Some_iff [of m' k v] map_of_eq_Some_iff [of "rev m'" k v] by (simp add: rev_map [symmetric])
  then have "map_of (rev m') k = om_find k m'" unfolding om_find_map_of by (metis not_None_eq)
  then show ?thesis using om.find_put_all [of k m' m] by (simp add: om.put_all_def)
qed

lemma over_fold: "om_wf m' \<Longrightarrow> over f (fold (\<lambda>(k, v). om_set k v) m' m) = over (over f m) m'"
  by (rule ext) (simp add: over_def om_find_fold split: option.split)

lemma index_ok_fold:
  assumes "index_ok m'" and "index_ok m"
  shows "index_ok (fold (\<lambda>(k, v). om_set k v) m' m)"
proof -
  have "om_wf (fold (\<lambda>(k, v). om_set k v) m' m)"
    using assms(2) om.put_all_wf [of m m'] by (simp add: index_ok_def om.put_all_def)
  then show ?thesis using assms by (auto simp: index_ok_def om_find_fold split: option.splits)
qed

lemma append_layer_run:
  "append_layer d idx nidx s = (Inr True, set_layer
     \<lparr>local_changes = local_changes (layer_of s) @ d,
      last_transfer_map = fold (\<lambda>(k, v). om_set k v) idx (last_transfer_map (layer_of s)),
      last_name_edit_map = fold (\<lambda>(k, v). om_set k v) nidx (last_name_edit_map (layer_of s))\<rparr> s)"
  by (simp add: append_layer_def bindP_def on_layer_def prog_simps)

lemma set_layer_set_layer [simp]: "set_layer l (set_layer l' s) = set_layer l s"
  by (cases s) simp_all

lemma holds_append_layer:
  assumes b: "holds E ents blg b" and d: "d = log_from E (entries_len E (lg_log blg)) es"
    and ok: "index_ok tm" "index_ok nm"
  shows "holds E ents \<lparr>lg_log = lg_log blg @ es, lg_names = over (lg_names blg) nm, lg_accts = over (lg_accts blg) tm\<rparr>
    (snd (append_layer d tm nm b))"
proof -
  let ?l = "layer_of b" and ?l1 = "(layer_of b)\<lparr>local_changes := local_changes (layer_of b) @ d\<rparr>"
  let ?l2 = "\<lparr>local_changes = local_changes ?l @ d,
      last_transfer_map = fold (\<lambda>(k, v). om_set k v) tm (last_transfer_map ?l),
      last_name_edit_map = fold (\<lambda>(k, v). om_set k v) nm (last_name_edit_map ?l)\<rparr>"
  have wf: "om_wf tm" "om_wf nm" using ok by (simp_all add: index_ok_def)
  have "holds E ents (blg\<lparr>lg_log := lg_log blg @ es\<rparr>) (set_layer ?l1 b)" using holds_append [OF b] d by simp
  then have "holds E ents (blg\<lparr>lg_log := lg_log blg @ es, lg_names := over (lg_names blg) nm, lg_accts := over (lg_accts blg) tm\<rparr>)
      (set_layer ?l2 (set_layer ?l1 b))"
    using holds_layer_maps [where N = "\<lambda>f. over f nm" and T = "\<lambda>f. over f tm" and l = ?l1 and l' = ?l2 and s = "set_layer ?l1 b"
        and lg = "blg\<lparr>lg_log := lg_log blg @ es\<rparr>"]
      over_fold [OF wf(1)] over_fold [OF wf(2)] index_ok_fold [OF ok(1)] index_ok_fold [OF ok(2)] by simp
  moreover have "blg\<lparr>lg_log := lg_log blg @ es, lg_names := over (lg_names blg) nm, lg_accts := over (lg_accts blg) tm\<rparr>
    = \<lparr>lg_log = lg_log blg @ es, lg_names = over (lg_names blg) nm, lg_accts = over (lg_accts blg) tm\<rparr>"
    by (cases blg) simp
  ultimately show ?thesis by (simp add: append_layer_run)
qed

lemma over_empty [simp]: "over f om_empty = f"
  by (rule ext) (simp add: over_def)

lemma index_ok_empty [simp]: "index_ok om_empty"
  by (simp add: index_ok_def)

lemma empty_layer_sel [simp]: "local_changes empty_layer = []" "last_transfer_map empty_layer = om_empty"
    "last_name_edit_map empty_layer = om_empty"
  by (simp_all add: empty_layer_def)

lemma holds_empty_layer: "holds E ents lg b \<Longrightarrow> holds E ents lg (Trx (Some b) empty_layer)"
  by (rule holds_TrxI [where blg = lg and es = "[]"]) simp_all

lemma commit_holds:
  assumes "holds E ents lg (Trx (Some b) l)"
  obtains b' where "commit E (Trx (Some b) l) = (Inr (), Trx (Some b') empty_layer)" "holds E ents lg b'"
proof -
  obtain blg es where *: "holds E ents blg b" "lg_log lg = lg_log blg @ es"
     "local_changes l = log_from E (entries_len E (lg_log blg)) es"
     "lg_names lg = over (lg_names blg) (last_name_edit_map l)" "lg_accts lg = over (lg_accts blg) (last_transfer_map l)"
     "index_ok (last_name_edit_map l)" "index_ok (last_transfer_map l)"
    using assms by auto
  let ?b = "snd (append_layer (local_changes l) (last_transfer_map l) (last_name_edit_map l) b)"
  have "lg = \<lparr>lg_log = lg_log blg @ es, lg_names = over (lg_names blg) (last_name_edit_map l), lg_accts = over (lg_accts blg) (last_transfer_map l)\<rparr>"
    using *(2,4,5) by (cases lg) simp
  then have "holds E ents lg ?b"
    using holds_append_layer [OF *(1,3,7,6)] by simp
  moreover have "commit E (Trx (Some b) l) = (Inr (), Trx (Some ?b) empty_layer)" by (simp add: append_layer_run)
  ultimately show ?thesis by (rule that [rotated])
qed

section \<open>Committing into the file\<close>

lemma kv_set_all_map:
  assumes ok: "kv_ok D ents kc vc K V" and "kv_rep ents kc vc K V d m" and "set kvs \<subseteq> K \<times> V"
  shows "kv_rep ents kc vc K V (fold (\<lambda>(k, v). kv_set D kc vc k v) kvs d) (fold (\<lambda>(k, v). om_set k v) kvs m)"
  using assms(2,3)
proof (induction kvs arbitrary: d m)
  case (Cons e kvs)
  obtain k v where e: "e = (k, v)" by (cases e)
  have "kv_rep ents kc vc K V (kv_set D kc vc k v d) (om_set k v m)"
    using Cons.prems e by (intro kv_set_map [OF ok]) auto
  then show ?case using Cons.IH Cons.prems(2) e by simp
qed simp

text \<open>
  The names in the index have to be short enough to be packed: an entry of the own map is a
  name that some operation put there.
\<close>

lemma db_commit_data:
  assumes "local_changes l \<noteq> []" and "f_writable f" and "f_pos f \<le> length (f_data f)"
  shows "fst (db_commit E f td nd l) = Inr ()"
    and "log_bytes (snd (db_commit E f td nd l)) = patch (f_pos f) (local_changes l) (f_data f)"
  using assms by (simp_all add: db_commit_def fwrite_def Let_def)

lemma db_commit_holds:
  assumes laws: "env_laws E ents" and h: "holds E ents lg (State_Db f td nd l)"
    and pos: "f_pos f = length (f_data f)" "f_writable f" and names: "fst ` set (last_name_edit_map l) \<subseteq> small_names E"
    and maps: "local_changes l = [] \<Longrightarrow> last_name_edit_map l = [] \<and> last_transfer_map l = []"
  shows "fst (commit E (State_Db f td nd l)) = Inr ()" and "holds E ents lg (snd (commit E (State_Db f td nd l)))"
proof -
  obtain es1 es tm nm where *: "lg_log lg = es1 @ es" "f_data f = log_from E 0 es1"
     "local_changes l = log_from E (entries_len E es1) es"
     "kv_rep ents (e_string E) (e_uint64 E) (small_names E) UNIV nd nm"
     "kv_rep ents (e_account_key E) (e_uint64 E) UNIV UNIV td tm"
     "lg_names lg = over (\<lambda>k. om_find k nm) (last_name_edit_map l)"
     "lg_accts lg = over (\<lambda>k. om_find k tm) (last_transfer_map l)"
     "index_ok nm" "index_ok tm" "index_ok (last_name_edit_map l)" "index_ok (last_transfer_map l)"
    using h by auto
  have kvs: "kv_ok (e_bdb E) ents (e_account_key E) (e_uint64 E) UNIV UNIV"
      "kv_ok (e_bdb E) ents (e_string E) (e_uint64 E) (small_names E) UNIV"
    using laws by (simp_all add: env_laws_def)
  have wf: "om_wf (last_name_edit_map l)" "om_wf (last_transfer_map l)" using *(10,11) by (simp_all add: index_ok_def)
  show "fst (commit E (State_Db f td nd l)) = Inr ()"
    using pos by (simp add: db_commit_def fwrite_def Let_def)
  show "holds E ents lg (snd (commit E (State_Db f td nd l)))"
  proof (cases "local_changes l = []")
    case True
    then show ?thesis using h by (simp add: db_commit_def)
  next
    case False
    let ?f = "f\<lparr>f_data := f_data f @ local_changes l, f_pos := f_pos f + length (local_changes l)\<rparr>"
    let ?td = "fold (\<lambda>(k, v). kv_set (e_bdb E) (e_account_key E) (e_uint64 E) k v) (last_transfer_map l) td"
    let ?nd = "fold (\<lambda>(k, v). kv_set (e_bdb E) (e_string E) (e_uint64 E) k v) (last_name_edit_map l) nd"
    let ?tm = "fold (\<lambda>(k, v). om_set k v) (last_transfer_map l) tm" and ?nm = "fold (\<lambda>(k, v). om_set k v) (last_name_edit_map l) nm"
    have "commit E (State_Db f td nd l) = (Inr (), State_Db ?f ?td ?nd empty_layer)"
      using False pos by (simp add: db_commit_def fwrite_def Let_def patch_end)
    moreover have "holds E ents lg (State_Db ?f ?td ?nd empty_layer)"
    proof (rule holds_DbI [where ?es1.0 = "lg_log lg" and es = "[]" and tm = ?tm and nm = ?nm])
      show "kv_rep ents (e_string E) (e_uint64 E) (small_names E) UNIV ?nd ?nm"
        using names by (intro kv_set_all_map [OF kvs(2) *(4)]) auto
      show "kv_rep ents (e_account_key E) (e_uint64 E) UNIV UNIV ?td ?tm"
        by (intro kv_set_all_map [OF kvs(1) *(5)]) auto
      show "lg_names lg = over (\<lambda>k. om_find k ?nm) (last_name_edit_map empty_layer)"
        using *(6) by (auto simp: fun_eq_iff over_def om_find_fold [OF wf(1)])
      show "lg_accts lg = over (\<lambda>k. om_find k ?tm) (last_transfer_map empty_layer)"
        using *(7) by (auto simp: fun_eq_iff over_def om_find_fold [OF wf(2)])
    qed (use * in \<open>simp_all add: log_from_append index_ok_fold\<close>)
    ultimately show ?thesis by simp
  qed
qed

section \<open>The state hash\<close>

lemma calculate_state_hash_small:
  assumes "log_size s < hash_chunk"
  shows "fst (calculate_state_hash E s) =
    Inr (e_hash_hashes E (if log_size s = 0 then [] else [e_sha1 E (log_bytes s)]))"
proof -
  have lim: "log_size s < log_limit" using assms by (simp add: hash_chunk_def log_limit_def)
  have chunk: "unat (of_nat hash_chunk :: u64) = hash_chunk" by (simp add: hash_chunk_def)
  have "take hash_chunk (log_bytes s) = log_bytes s" using assms by (simp add: log_size_def)
  then obtain s' where s': "sdb_read 0 (of_nat hash_chunk) s = (Inr (log_bytes s), s')"
    using sdb_read_ok [OF lim, of 0 "of_nat hash_chunk"] chunk by (cases "sdb_read 0 (of_nat hash_chunk) s :: (exn + bytes) \<times> 'a sdb") simp
  have len: "unat (len64 (log_bytes s)) = log_size s" using lim by (simp add: len64_def log_size_def unat_small)
  then have ne: "len64 (log_bytes s) \<noteq> of_nat hash_chunk" using assms chunk by auto
  have zero: "len64 (log_bytes s) = 0 \<longleftrightarrow> log_size s = 0" using len by (metis unat_0 unat_eq_zero)
  have pre: "take (log_size s) (overlay (log_bytes s) bs) = log_bytes s" for bs
    by (simp add: overlay_def log_size_def)
  show ?thesis
    using s' ne zero len
    by (simp add: calculate_state_hash_def bindP_def prog_simps loopP_def state_hash_loop.simps pre)
qed

text \<open>
  The loop condition uses a variable the loop never changes, so once the first read fills the
  buffer the loop cannot end.
\<close>

lemma state_hash_loop_stuck:
  "state_hash_loop E pos r tmp hashes s = Some y \<Longrightarrow> r = of_nat hash_chunk \<longrightarrow> (\<exists>e. fst y = Inl e)"
  by (rule state_hash_loop.raw_induct [rotated, of E pos r tmp hashes s y
        "\<lambda>E pos r tmp hashes s y. r = of_nat hash_chunk \<longrightarrow> (\<exists>e. fst y = Inl e)"])
    (auto simp: Let_def split: if_splits prod.splits sum.splits)

lemma calculate_state_hash_stuck:
  assumes "hash_chunk \<le> log_size s" and "log_size s < log_limit"
  shows "\<exists>e. fst (calculate_state_hash E s) = Inl e"
proof -
  have chunk: "unat (of_nat hash_chunk :: u64) = hash_chunk" by (simp add: hash_chunk_def)
  let ?bs = "take hash_chunk (log_bytes s)"
  obtain s' where s': "sdb_read 0 (of_nat hash_chunk) s = (Inr ?bs, s')"
    using sdb_read_ok [OF assms(2), of 0 "of_nat hash_chunk"] chunk by (cases "sdb_read 0 (of_nat hash_chunk) s :: (exn + bytes) \<times> 'a sdb") simp
  have len: "len64 ?bs = of_nat hash_chunk" using assms(1) by (simp add: len64_def log_size_def min_def)
  define tmp where "tmp = overlay ?bs (replicate hash_chunk 0)"
  show ?thesis
  proof (cases "state_hash_loop E 0 (of_nat hash_chunk) tmp [] s'")
    case None
    then show ?thesis using s' len by (simp add: calculate_state_hash_def bindP_def loopP_def tmp_def Let_def)
  next
    case (Some y)
    then obtain e where "fst y = Inl e" using state_hash_loop_stuck by blast
    then show ?thesis using s' len Some by (cases y) (simp add: calculate_state_hash_def bindP_def loopP_def tmp_def Let_def)
  qed
qed

end
