(* ===== verification/StateGrowth.thy ===== *)
theory StateGrowth
  imports StateApply
begin

text \<open>
  How much a transaction adds to the log: one record when it starts, and at most two per
  command (a transfer may define its destination first). The bound decides how many
  transactions fit below the limits of the code's integers.
\<close>

definition adds :: "nat \<Rightarrow> ('d sdb, 'a) prog \<Rightarrow> bool" where
  "adds k f \<longleftrightarrow> (\<forall>s. log_size (snd (f s)) \<le> log_size s + k)"

named_theorems adds_intros "programs that add at most so many bytes to the log"

lemma addsD: "adds k f \<Longrightarrow> log_size (snd (f s)) \<le> log_size s + k"
  by (simp add: adds_def)

lemma adds_mono: "adds k f \<Longrightarrow> k \<le> n \<Longrightarrow> adds n f"
  unfolding adds_def by (meson add_left_mono order_trans)

lemma adds_bindP:
  assumes f: "adds k f" and g: "\<And>x. adds n (g x)"
  shows "adds (k + n) (bindP f g)"
  unfolding adds_def
proof
  fix s
  show "log_size (snd (bindP f g s)) \<le> log_size s + (k + n)"
  proof (cases "fst (f s)")
    case (Inl e)
    then show ?thesis using addsD [OF f, of s] by (cases "f s") (simp add: bindP_def)
  next
    case (Inr x)
    then show ?thesis using addsD [OF f, of s] addsD [OF g [of x], of "snd (f s)"]
      by (cases "f s") (simp add: bindP_def)
  qed
qed

lemma adds_bind_read: "adds 0 f \<Longrightarrow> (\<And>x. adds n (g x)) \<Longrightarrow> adds n (bindP f g)"
  using adds_bindP [of 0 f n g] by simp

lemma adds_still:
  assumes "\<And>s. still (snd (f s)) = still s"
  shows "adds 0 f"
  using log_size_still [OF assms] by (simp add: adds_def)

lemma adds_plain [adds_intros]: "adds n (ret x)" "adds n (throw e)" "adds n (liftE v)" "adds n (asks f)"
  by (simp_all add: adds_def ret_def throw_def liftE_def asks_def)

lemma adds_if [adds_intros]: "adds n f \<Longrightarrow> adds n g \<Longrightarrow> adds n (if b then f else g)"
  by simp

lemma adds_case_prod [adds_intros]: "(\<And>a b. adds n (h a b)) \<Longrightarrow> adds n (case p of (a, b) \<Rightarrow> h a b)"
  by (cases p) simp

lemma adds_case_option [adds_intros]:
  "adds n f \<Longrightarrow> (\<And>a. adds n (k a)) \<Longrightarrow> adds n (case q of None \<Rightarrow> f | Some a \<Rightarrow> k a)"
  by (cases q) simp_all

lemma adds_Let [adds_intros]: "(\<And>x. adds n (j x)) \<Longrightarrow> adds n (let x = v in j x)"
  by simp

lemma log_size_maps:
  "log_size (set_layer ((layer_of s)\<lparr>last_name_edit_map := m\<rparr>) s) = log_size s"
  "log_size (set_layer ((layer_of s)\<lparr>last_transfer_map := m'\<rparr>) s) = log_size s"
  "log_size (set_layer ((layer_of s)\<lparr>local_changes := local_changes (layer_of s) @ v\<rparr>) s) = log_size s + length v"
  by (cases s rule: log_bytes.cases; simp add: log_size_def)+

lemma adds_reads:
  "adds 0 (asks f)" "adds 0 (liftE v)" "adds 0 (name_edit_index E n)" "adds 0 (transfer_index E a)" "adds 0 (get_record E loc r)"
  "adds 0 (set_name_edit n i)" "adds 0 (set_transfer a i)"
proof -
  show "adds 0 (asks f)" "adds 0 (liftE v)" by (rule adds_plain)+
  show "adds 0 (name_edit_index E n)" "adds 0 (transfer_index E a)"
    by (simp_all add: adds_def name_edit_index_def transfer_index_def)
  show "adds 0 (get_record E loc r)" by (rule adds_still [OF get_record_still])
  show "adds 0 (set_name_edit n i)" "adds 0 (set_transfer a i)"
    by (simp_all add: adds_def set_name_edit_def set_transfer_def on_layer_def log_size_maps)
qed

lemmas adds_read_binds [adds_intros] = adds_reads [THEN adds_bind_read]

lemma adds_lookups:
  "adds 0 (get_public_key E n)" "adds 0 (get_name_index E n)" "adds 0 (get_balance E a t)"
proof -
  show "adds 0 (get_public_key E n)" and i: "adds 0 (get_name_index E n)" for n
    by (simp_all only: get_public_key_def get_name_index_def) (intro adds_intros)+
  note adds_bind_read [OF i, adds_intros]
  show "adds 0 (get_balance E a t)"
    unfolding get_balance_def by (intro adds_intros adds_bind_read [OF i])
qed

lemmas adds_lookup_binds [adds_intros] = adds_lookups [THEN adds_bind_read]

section \<open>Records\<close>

definition record_bound :: "'d env \<Rightarrow> string set \<Rightarrow> nat \<Rightarrow> bool" where
  \<comment> \<open>a bound for the records that definitions of these names, updates, transfers and starts take\<close>
  "record_bound E N B \<longleftrightarrow> (\<forall>r. pack (e_record E) r = record_layout r)
     \<and> (\<forall>d. dn_name d \<in> N \<longrightarrow> entry_len E (Define d) \<le> B)
     \<and> (\<forall>u. entry_len E (Update u) \<le> B) \<and> (\<forall>t. entry_len E (Transfer t) \<le> B) \<and> (\<forall>st. entry_len E (Start st) \<le> B)"

lemma adds_append:
  assumes "record_bound E N B" and "entry_len E e \<le> B"
  shows "adds B (append_record E (entry_record E e))"
proof -
  have "length (pack (e_record E) ((entry_record E e)\<lparr>sr_previous := p\<rparr>)) = entry_len E e" for p
    using assms(1) by (simp add: record_bound_def length_record_layout entry_len_def)
  then show ?thesis
    using assms(2) by (simp add: adds_def append_record_def Let_def bindP_def prog_simps on_layer_def log_size_maps)
qed

lemma adds_bind_last: "adds n f \<Longrightarrow> (\<And>x. adds 0 (g x)) \<Longrightarrow> adds n (bindP f g)"
  using adds_bindP [of n f 0 g] by simp

lemma adds_records:
  assumes "record_bound E N B"
  shows "n \<in> N \<Longrightarrow> adds B (append_record E (state_record_of (e_define_name E) define_name_id \<lparr>dn_name = n, dn_key = k\<rparr>))"
    and "adds B (append_record E (state_record_of (e_update_name E) update_name_id u))"
    and "adds B (append_record E (state_record_of (e_transfer_log E) transfer_log_id t))"
    and "adds B (append_record E (state_record_of (e_start_trx E) start_trx_id st))"
  using adds_append [OF assms, of "Define \<lparr>dn_name = n, dn_key = k\<rparr>"] adds_append [OF assms, of "Update u"]
    adds_append [OF assms, of "Transfer t"] adds_append [OF assms, of "Start st"] assms
  by (simp_all add: record_bound_def)

lemma adds_changes:
  assumes b: "record_bound E N B"
  shows "n \<in> N \<Longrightarrow> adds B (set_public_key E n pk)" and "adds B (transfer_balance E a c t v p)" and "adds B (issue E t p)"
    and "to \<in> N \<Longrightarrow> adds B (ensure_destination E to)"
  unfolding set_public_key_def transfer_balance_def issue_def ensure_destination_def
  by (intro adds_intros adds_records [OF b] adds_bind_last [OF adds_records(1) [OF b]] adds_bind_last [OF adds_records(3) [OF b]]; assumption)+

lemma adds_command:
  assumes b: "record_bound E N B" and n: "set (names_of E c) \<subseteq> N" "gen \<in> N"
  shows "adds (2 * B) (apply_command E trx gen p c)"
proof -
  have reg: "adds B (apply_register_name E trx c)" if "c_id c = register_name_id"
  proof (cases "unpack (e_register_name E) (c_data c)")
    case (Inr rn)
    then have nm: "rn_name rn \<in> N" using n that by (simp add: names_of_def)
    show ?thesis
      unfolding apply_register_name_def cast_command_id [OF that] Inr bindP_liftE
      by (intro adds_intros adds_bind_last [OF adds_changes(1) [OF b nm]])
  qed (simp add: apply_register_name_def cast_command_id [OF that] adds_intros)
  have iss: "adds B (apply_issue E trx p c)"
    unfolding apply_issue_def by (intro adds_intros adds_bind_last [OF adds_changes(3) [OF b]])
  have tra: "adds (2 * B) (apply_transfer E trx gen p c)" if "c_id c = transfer_id"
  proof (cases "unpack (e_transfer E) (c_data c)")
    case (Inr tr)
    have nm: "(if length (tr_to_name tr) = 0 then gen else tr_to_name tr) \<in> N" using Inr n that by (simp add: names_of_def)
    have "adds (B + B) (bindP (ensure_destination E (if length (tr_to_name tr) = 0 then gen else tr_to_name tr)) (\<lambda>ok.
         if \<not> ok then ret False
         else bindP (transfer_balance E (tr_from_name tr) (if length (tr_to_name tr) = 0 then gen else tr_to_name tr)
           (tr_stock_name tr) (tr_amount tr) p) (\<lambda>_. ret True)))"
      by (rule adds_bindP [OF adds_changes(4) [OF b nm]]) (intro adds_intros adds_bind_last [OF adds_changes(2) [OF b]])
    then show ?thesis
      unfolding apply_transfer_def cast_command_id [OF that] Inr bindP_liftE Let_def mult_2
      by (intro adds_intros)
  qed (simp add: apply_transfer_def cast_command_id [OF that] adds_intros)
  show ?thesis
    unfolding apply_command_def by (auto intro!: adds_plain intro: adds_mono [OF reg] adds_mono [OF iss] tra)
qed

lemma adds_commands:
  assumes "record_bound E N B" and "\<forall>c \<in> set cs. set (names_of E c) \<subseteq> N" "gen \<in> N"
  shows "adds (2 * B * length cs) (apply_commands E trx gen p cs)"
  using assms(2)
proof (induction cs)
  case (Cons c cs)
  have "adds (2 * B + 2 * B * length cs) (apply_commands E trx gen p (c # cs))"
    unfolding apply_commands.simps
    by (rule adds_bindP [OF adds_command [OF assms(1)]]) (use Cons assms(3) in \<open>auto intro!: adds_intros\<close>)
  then show ?case by (simp add: algebra_simps)
qed (simp add: adds_intros)

lemma adds_trx:
  assumes "record_bound E N B" and "\<forall>c \<in> set (trx_commands (strx_trx trx)). set (names_of E c) \<subseteq> N" "gen \<in> N"
  shows "adds (B + 2 * B * length (trx_commands (strx_trx trx))) (apply_trx E trx gen)"
  unfolding apply_trx_def
  by (intro adds_read_binds(1) adds_bindP [OF adds_records(4) [OF assms(1)]] adds_commands [where N = N] assms)

end
