(* ===== verification/RawLayout.thy ===== *)
theory RawLayout
  imports LogRep
begin

text \<open>
  The layout of \<open>boost::rpc::raw\<close>, built from the layouts of integers, strings and vectors:
  integers are little-endian, a string or vector is its 32-bit length and its elements, a
  struct is its members one after the other. \<open>raw_env\<close> is an environment with these layouts
  and a list for a database, so that what \<open>env_laws\<close> asks of the third-party code can be met.
\<close>

section \<open>Layouts\<close>

record 'a layout =
  lay :: "'a \<Rightarrow> bytes"
  parse :: "bytes \<Rightarrow> exn + ('a \<times> bytes)"

definition lossless :: "'a layout \<Rightarrow> bool" where
  "lossless y \<longleftrightarrow> (\<forall>x rest. length (lay y x) < log_limit \<longrightarrow> parse y (lay y x @ rest) = Inr (x, rest))"

definition codec_of :: "'a layout \<Rightarrow> 'a codec" where
  "codec_of y = \<lparr>pack = lay y, unpack = (\<lambda>bs. map_sum id fst (parse y bs))\<rparr>"

lemma codec_of_round_trips: "lossless y \<Longrightarrow> round_trips (codec_of y)"
  by (simp add: lossless_def round_trips_def codec_of_def)

definition lay_word :: "nat \<Rightarrow> 'w :: len word layout" where
  "lay_word n = \<lparr>lay = (\<lambda>w. le_bytes n (unat w)),
     parse = (\<lambda>bs. if length bs < n then Inl Unpack_Error else Inr (of_nat (le_val (take n bs)), drop n bs))\<rparr>"

definition lay_bytes :: "bytes layout" where
  "lay_bytes = \<lparr>lay = (\<lambda>xs. le_bytes 4 (length xs) @ xs),
     parse = (\<lambda>bs. let n = le_val (take 4 bs) in
       if length bs < 4 + n then Inl Unpack_Error else Inr (take n (drop 4 bs), drop (4 + n) bs))\<rparr>"

definition lay_pair :: "'a layout \<Rightarrow> 'b layout \<Rightarrow> ('a \<times> 'b) layout" where
  "lay_pair a b = \<lparr>lay = (\<lambda>(x, y). lay a x @ lay b y),
     parse = (\<lambda>bs. case parse a bs of Inl e \<Rightarrow> Inl e
       | Inr (x, rest) \<Rightarrow> (case parse b rest of Inl e \<Rightarrow> Inl e | Inr (y, rest') \<Rightarrow> Inr ((x, y), rest')))\<rparr>"

definition lay_iso :: "('b \<Rightarrow> 'a) \<Rightarrow> ('a \<Rightarrow> 'b) \<Rightarrow> 'a layout \<Rightarrow> 'b layout" where
  "lay_iso f g a = \<lparr>lay = (\<lambda>x. lay a (f x)), parse = (\<lambda>bs. map_sum id (apfst g) (parse a bs))\<rparr>"

lemma lossless_word:
  assumes "LENGTH('w :: len) \<le> 8 * n"
  shows "lossless (lay_word n :: 'w word layout)"
proof -
  have "unat (x :: 'w word) < 256 ^ n" for x
  proof -
    have "(2 :: nat) ^ LENGTH('w) \<le> 2 ^ (8 * n)" using assms by (rule power_increasing) simp
    then have "(2 :: nat) ^ LENGTH('w) \<le> 256 ^ n" by (simp add: power_mult)
    with unsigned_less [where 'a = nat, of x] show ?thesis by (rule order_less_le_trans)
  qed
  then show ?thesis by (simp add: lossless_def lay_word_def le_val_le_bytes)
qed

lemma lossless_bytes: "lossless lay_bytes"
proof -
  have "parse lay_bytes (lay lay_bytes x @ rest) = Inr (x, rest)" if "length (lay lay_bytes x) < log_limit" for x rest
  proof -
    have "length x < 256 ^ 4" using that by (simp add: lay_bytes_def log_limit_def)
    then show ?thesis by (simp add: lay_bytes_def Let_def le_val_le_bytes)
  qed
  then show ?thesis by (simp add: lossless_def)
qed

lemma lossless_pair: "lossless a \<Longrightarrow> lossless b \<Longrightarrow> lossless (lay_pair a b)"
  by (simp add: lossless_def lay_pair_def)

lemma lossless_iso: "lossless a \<Longrightarrow> (\<And>x. g (f x) = x) \<Longrightarrow> lossless (lay_iso f g a)"
  by (simp add: lossless_def lay_iso_def)

section \<open>The structs\<close>

definition lay_string :: "string layout" where
  "lay_string = lay_iso (map byte_of_char) (map char_of_byte) lay_bytes"

definition lay_record :: "state_record layout" where
  "lay_record = lay_iso (\<lambda>r. (sr_id r, sr_data r, sr_previous r)) (\<lambda>(i, d, p). \<lparr>sr_id = i, sr_data = d, sr_previous = p\<rparr>)
     (lay_pair (lay_word 2) (lay_pair lay_bytes (lay_word 8)))"

definition lay_define_name :: "define_name layout" where
  "lay_define_name = lay_iso (\<lambda>d. (dn_name d, dn_key d)) (\<lambda>(n, k). \<lparr>dn_name = n, dn_key = k\<rparr>) (lay_pair lay_string (lay_word 256))"

definition lay_update_name :: "update_name layout" where
  "lay_update_name = lay_iso (\<lambda>u. (un_name_idx u, un_key u, un_last_update_idx u))
     (\<lambda>(i, k, l). \<lparr>un_name_idx = i, un_key = k, un_last_update_idx = l\<rparr>) (lay_pair (lay_word 8) (lay_pair (lay_word 256) (lay_word 8)))"

definition lay_transfer_log :: "transfer_log layout" where
  "lay_transfer_log = lay_iso
     (\<lambda>t. (tl_amount t, tl_type_name t, tl_from_name t, tl_to_name t, tl_new_from_bal t, tl_new_to_bal t, tl_last_from_trx t, tl_last_to_trx t, tl_trx_idx t))
     (\<lambda>(a, y, f, t, nf, nt, lf, lt, x). \<lparr>tl_amount = a, tl_type_name = y, tl_from_name = f, tl_to_name = t, tl_new_from_bal = nf,
        tl_new_to_bal = nt, tl_last_from_trx = lf, tl_last_to_trx = lt, tl_trx_idx = x\<rparr>)
     (lay_pair (lay_word 8) (lay_pair (lay_word 8) (lay_pair (lay_word 8) (lay_pair (lay_word 8) (lay_pair (lay_word 8)
       (lay_pair (lay_word 8) (lay_pair (lay_word 8) (lay_pair (lay_word 8) (lay_word 8)))))))))"

definition lay_start_trx :: "start_trx layout" where
  "lay_start_trx = lay_iso (\<lambda>s. (st_trx_hash s, st_utc_time s)) (\<lambda>(h, t). \<lparr>st_trx_hash = h, st_utc_time = t\<rparr>)
     (lay_pair (lay_word 20) (lay_word 8))"

definition lay_block :: "block layout" where
  "lay_block = lay_iso (\<lambda>b. (blk_prev_block b, blk_version b, blk_utc_time b, blk_state b, blk_nonce b))
     (\<lambda>(p, v, t, s, n). \<lparr>blk_prev_block = p, blk_version = v, blk_utc_time = t, blk_state = s, blk_nonce = n\<rparr>)
     (lay_pair (lay_word 20) (lay_pair (lay_word 2) (lay_pair (lay_word 4) (lay_pair (lay_word 20) (lay_word 8)))))"

definition lay_end_block :: "end_block layout" where
  "lay_end_block = lay_iso (\<lambda>e. (eb_blk e, eb_generator e)) (\<lambda>(b, g). \<lparr>eb_blk = b, eb_generator = g\<rparr>) (lay_pair lay_block lay_string)"

definition lay_register_name :: "register_name layout" where
  "lay_register_name = lay_iso (\<lambda>r. (rn_name r, rn_pub_key r)) (\<lambda>(n, k). \<lparr>rn_name = n, rn_pub_key = k\<rparr>) (lay_pair lay_string (lay_word 256))"

definition lay_issue :: "issue_cmd layout" where
  "lay_issue = lay_iso is_stock_name (\<lambda>n. \<lparr>is_stock_name = n\<rparr>) lay_string"

definition lay_transfer :: "transfer_cmd layout" where
  "lay_transfer = lay_iso (\<lambda>t. (tr_amount t, tr_stock_name t, tr_from_name t, tr_to_name t))
     (\<lambda>(a, s, f, t). \<lparr>tr_amount = a, tr_stock_name = s, tr_from_name = f, tr_to_name = t\<rparr>)
     (lay_pair (lay_word 8) (lay_pair lay_string (lay_pair lay_string lay_string)))"

definition lay_account_key :: "account_key layout" where
  "lay_account_key = lay_iso (\<lambda>k. (account_name k, type_name k)) (\<lambda>(a, t). Account_Key a t) (lay_pair (lay_word 8) (lay_word 8))"

primrec lay_all :: "'a layout \<Rightarrow> 'a list \<Rightarrow> bytes" where
  "lay_all y [] = []"
| "lay_all y (x # xs) = lay y x @ lay_all y xs"

primrec parse_all :: "'a layout \<Rightarrow> nat \<Rightarrow> bytes \<Rightarrow> exn + ('a list \<times> bytes)" where
  "parse_all y 0 bs = Inr ([], bs)"
| "parse_all y (Suc n) bs =
     (case parse y bs of Inl e \<Rightarrow> Inl e | Inr (x, rest) \<Rightarrow> map_sum id (apfst (Cons x)) (parse_all y n rest))"

definition lay_list :: "'a layout \<Rightarrow> 'a list layout" where
  "lay_list y = \<lparr>lay = (\<lambda>xs. le_bytes 4 (length xs) @ lay_all y xs),
     parse = (\<lambda>bs. if length bs < 4 then Inl Unpack_Error else parse_all y (le_val (take 4 bs)) (drop 4 bs))\<rparr>"

lemma parse_all_lay_all:
  assumes "lossless y" and "length (lay_all y xs) < log_limit"
  shows "parse_all y (length xs) (lay_all y xs @ rest) = Inr (xs, rest)"
  using assms(2)
proof (induction xs)
  case (Cons x xs)
  then have "parse y (lay y x @ lay_all y xs @ rest) = Inr (x, lay_all y xs @ rest)"
    using assms(1) by (simp add: lossless_def)
  then show ?case using Cons by simp
qed simp

lemma lossless_list:
  assumes y: "lossless y" and ne: "\<And>x. lay y x \<noteq> []"
  shows "lossless (lay_list y)"
proof -
  have len: "length xs \<le> length (lay_all y xs)" for xs
  proof (induction xs)
    case (Cons x xs)
    moreover have "0 < length (lay y x)" using ne by simp
    ultimately show ?case by (simp only: lay_all.simps length_append list.size)
  qed simp
  have "parse (lay_list y) (lay (lay_list y) xs @ rest) = Inr (xs, rest)"
    if s: "length (lay (lay_list y) xs) < log_limit" for xs rest
  proof -
    have "length (lay_all y xs) < log_limit" using s by (simp add: lay_list_def)
    moreover have "length xs < 256 ^ 4" using len [of xs] s by (simp add: lay_list_def log_limit_def)
    ultimately show ?thesis
      using parse_all_lay_all [OF y, of xs rest] by (simp add: lay_list_def le_val_le_bytes)
  qed
  then show ?thesis by (simp add: lossless_def)
qed

definition lay_command :: "command layout" where
  "lay_command = lay_iso (\<lambda>c. (c_id c, c_data c)) (\<lambda>(i, d). \<lparr>c_id = i, c_data = d\<rparr>) (lay_pair (lay_word 2) lay_bytes)"

definition lay_transaction :: "transaction layout" where
  "lay_transaction = lay_iso (\<lambda>t. (trx_utc_time t, trx_commands t)) (\<lambda>(u, c). \<lparr>trx_utc_time = u, trx_commands = c\<rparr>)
     (lay_pair (lay_word 8) (lay_list lay_command))"

definition lay_strx :: "signed_transaction layout" where
  "lay_strx = lay_iso (\<lambda>s. (strx_trx s, strx_sigs s)) (\<lambda>(t, s). \<lparr>strx_trx = t, strx_sigs = s\<rparr>)
     (lay_pair lay_transaction (lay_list (lay_word 256)))"

definition lay_block_state :: "block_state layout" where
  "lay_block_state = lay_iso (\<lambda>b. (bs_index b, bs_generator_name b, bs_state_db b, bs_signed_transactions b))
     (\<lambda>(i, g, s, t). \<lparr>bs_index = i, bs_generator_name = g, bs_state_db = s, bs_signed_transactions = t\<rparr>)
     (lay_pair (lay_word 4) (lay_pair lay_string (lay_pair (lay_word 20) (lay_list (lay_word 20)))))"

definition lay_chain :: "block_chain layout" where
  "lay_chain = lay_list lay_block"

definition lay_trx_key :: "(u32 \<times> sha1) layout" where
  "lay_trx_key = lay_pair (lay_word 4) (lay_word 20)"

lemmas lossless_words = lossless_word [where 'w = 16] lossless_word [where 'w = 32] lossless_word [where 'w = 64]
  lossless_word [where 'w = 160] lossless_word [where 'w = 2048]

lemma lossless_string: "lossless lay_string"
  unfolding lay_string_def by (rule lossless_iso [OF lossless_bytes]) (simp add: comp_def)

lemma lossless_structs:
  "lossless lay_record" "lossless lay_define_name" "lossless lay_update_name" "lossless lay_transfer_log"
  "lossless lay_start_trx" "lossless lay_block" "lossless lay_register_name" "lossless lay_issue" "lossless lay_transfer" "lossless lay_account_key"
  unfolding lay_record_def lay_define_name_def lay_update_name_def lay_transfer_log_def lay_start_trx_def lay_block_def
    lay_register_name_def lay_issue_def lay_transfer_def lay_account_key_def
  by (intro lossless_iso lossless_pair lossless_words lossless_bytes lossless_string; simp)+

lemma lossless_end_block: "lossless lay_end_block"
  unfolding lay_end_block_def by (intro lossless_iso lossless_pair lossless_structs lossless_string) simp

lemma lay_ne [simp]:
  "lay (lay_word (Suc n)) w \<noteq> []" "lay lay_block b \<noteq> []" "lay lay_command c \<noteq> []"
  unfolding length_0_conv [symmetric]
  by (simp_all add: lay_word_def lay_block_def lay_command_def lay_iso_def lay_pair_def del: length_0_conv)

lemma lossless_node:
  "lossless lay_strx" "lossless lay_block_state" "lossless lay_chain" "lossless lay_trx_key"
proof -
  have w: "lay (lay_word 256 :: signature layout) x \<noteq> []" "lay (lay_word 20 :: sha1 layout) y \<noteq> []" for x y
    unfolding length_0_conv [symmetric] by (simp_all add: lay_word_def del: length_0_conv)
  have c: "lossless lay_command"
    unfolding lay_command_def by (intro lossless_iso lossless_pair lossless_words lossless_bytes) auto
  have t: "lossless lay_transaction"
    unfolding lay_transaction_def by (intro lossless_iso lossless_pair lossless_words lossless_list c; simp)
  show "lossless lay_strx" unfolding lay_strx_def by (intro lossless_iso lossless_pair lossless_words lossless_list t w; simp)
  show "lossless lay_block_state"
    unfolding lay_block_state_def by (intro lossless_iso lossless_pair lossless_words lossless_list lossless_string w; simp)
  show "lossless lay_chain" unfolding lay_chain_def by (intro lossless_list lossless_structs; simp)
  show "lossless lay_trx_key" unfolding lay_trx_key_def by (rule lossless_pair) (rule lossless_words; simp)+
qed

section \<open>An environment\<close>

definition raw_env :: "(bytes \<times> bytes) list env" where
  "raw_env = \<lparr>
     e_record = codec_of lay_record, e_define_name = codec_of lay_define_name, e_update_name = codec_of lay_update_name,
     e_transfer_log = codec_of lay_transfer_log, e_start_trx = codec_of lay_start_trx, e_end_block = codec_of lay_end_block,
     e_register_name = codec_of lay_register_name, e_issue = codec_of lay_issue, e_transfer = codec_of lay_transfer,
     e_account_key = codec_of lay_account_key, e_string = codec_of lay_string, e_uint64 = codec_of (lay_word 8),
     e_trx_key = codec_of lay_trx_key, e_strx = codec_of lay_strx, e_sha1_key = codec_of (lay_word 20),
     e_block_state = codec_of lay_block_state, e_chain = codec_of lay_chain,
     e_sha1 = (\<lambda>bs. of_nat (le_val bs)), e_hash_pub = (\<lambda>k. ucast k), e_hash_trx = (\<lambda>t. ucast (trx_utc_time t)),
     e_hash_strx = (\<lambda>t. ucast (trx_utc_time (strx_trx t))), e_hash_block = (\<lambda>b. ucast (blk_nonce b)),
     e_hash_block_state = (\<lambda>b. ucast (bs_index b)), e_hash_hashes = (\<lambda>hs. sum_list hs),
     e_hash_greater = (\<lambda>a b. b < a), e_hash_less = (\<lambda>a b. a < b),
     e_super_fast_hash = (\<lambda>bs. of_nat (le_val bs)),
     e_base64_encode = map char_of_byte, e_base64_decode = map byte_of_char,
     e_rsa_verify = (\<lambda>k h s. s = k), e_rsa_sign = (\<lambda>p h. Inr (of_nat (le_val p))),
     e_sort_by_time = sort_key (\<lambda>p. trx_utc_time (strx_trx (snd p))), e_bdb = list_bdb\<rparr>"

lemma lay_record_layout: "lay lay_record r = record_layout r"
  by (simp add: lay_record_def lay_iso_def lay_pair_def lay_word_def lay_bytes_def record_layout_def)

lemma codec_laws_of:
  assumes "lossless y" and "\<And>x. x \<in> V \<Longrightarrow> length (lay y x) < log_limit"
  shows "codec_laws (codec_of y) V"
  using assms by (simp add: codec_laws_def codec_of_def lossless_def)

lemma raw_env_sel [simp]:
  "e_record raw_env = codec_of lay_record" "e_define_name raw_env = codec_of lay_define_name"
  "e_update_name raw_env = codec_of lay_update_name" "e_transfer_log raw_env = codec_of lay_transfer_log"
  "e_start_trx raw_env = codec_of lay_start_trx" "e_end_block raw_env = codec_of lay_end_block"
  "e_register_name raw_env = codec_of lay_register_name" "e_issue raw_env = codec_of lay_issue"
  "e_transfer raw_env = codec_of lay_transfer" "e_account_key raw_env = codec_of lay_account_key"
  "e_string raw_env = codec_of lay_string" "e_uint64 raw_env = codec_of (lay_word 8)"
  "e_trx_key raw_env = codec_of lay_trx_key" "e_strx raw_env = codec_of lay_strx" "e_sha1_key raw_env = codec_of (lay_word 20)"
  "e_block_state raw_env = codec_of lay_block_state" "e_bdb raw_env = list_bdb"
  unfolding raw_env_def by (rule env.select_convs)+

lemma codec_of_sel [simp]: "pack (codec_of y) = lay y" "unpack (codec_of y) bs = map_sum id fst (parse y bs)"
  by (simp_all add: codec_of_def)

lemma raw_env_laws: "env_laws raw_env (\<lambda>es. es)"
proof -
  have u64: "codec_laws (codec_of (lay_word 8 :: u64 layout)) UNIV"
    by (rule codec_laws_of [OF lossless_word]) (simp_all add: lay_word_def log_limit_def)
  have key: "codec_laws (codec_of lay_account_key) UNIV"
    by (rule codec_laws_of [OF lossless_structs(10)])
      (simp add: lay_account_key_def lay_iso_def lay_pair_def lay_word_def log_limit_def)
  have str: "codec_laws (codec_of lay_string) (small_names raw_env)"
    by (rule codec_laws_of [OF lossless_string]) (simp add: small_names_def)
  have ne: "lay lay_account_key k \<noteq> []" "lay lay_string n \<noteq> []" "lay (lay_word 8 :: u64 layout) w \<noteq> []" for k n and w :: u64
    unfolding length_0_conv [symmetric]
    by (simp_all add: lay_account_key_def lay_string_def lay_iso_def lay_pair_def lay_word_def lay_bytes_def del: length_0_conv)
  show ?thesis
    unfolding env_laws_def kv_ok_def raw_env_sel
    by (intro conjI ballI allI u64 key str ne list_bdb_laws codec_of_round_trips lossless_structs lossless_end_block)
      (simp_all add: lay_record_layout ne)
qed

end
