(* ===== verification/StateProps.thy ===== *)
theory StateProps
  imports StateCommit StateGrowth RawLayout
begin

text \<open>
  The properties of the state database. Each has a witness in the environment \<open>raw_env\<close>, with
  the sample transaction below on an empty database.
\<close>

section \<open>A sample\<close>

definition sample_commands :: "command list" where
  "sample_commands =
     [command_of (e_register_name raw_env) register_name_id \<lparr>rn_name = ''A'', rn_pub_key = 1\<rparr>,
      command_of (e_issue raw_env) issue_id \<lparr>is_stock_name = ''A''\<rparr>,
      command_of (e_register_name raw_env) register_name_id \<lparr>rn_name = ''B'', rn_pub_key = 2\<rparr>,
      command_of (e_transfer raw_env) transfer_id \<lparr>tr_amount = 5, tr_stock_name = ''A'', tr_from_name = ''A'', tr_to_name = ''B''\<rparr>]"

definition sample_trx :: signed_transaction where
  "sample_trx = \<lparr>strx_trx = \<lparr>trx_utc_time = 5, trx_commands = sample_commands\<rparr>, strx_sigs = [1]\<rparr>"

definition sample_db :: "(bytes \<times> bytes) list sdb" where
  "sample_db = Trx (Some (trx_new None)) empty_layer"

lemma lossless_parse: "lossless y \<Longrightarrow> length (lay y x) < log_limit \<Longrightarrow> parse y (lay y x) = Inr (x, [])"
  unfolding lossless_def by (metis append_Nil2)

lemma length_lay:
  "length (lay lay_string n) = 4 + length n" "length (lay (lay_pair a b) p) = length (lay a (fst p)) + length (lay b (snd p))"
  "length (lay (lay_word k :: 'w :: len word layout) w) = k" "length (lay (lay_iso f g c) x) = length (lay c (f x))"
  by (simp_all add: lay_string_def lay_iso_def lay_bytes_def lay_pair_def lay_word_def case_prod_unfold)

lemma length_lay_structs:
  "length (lay lay_register_name r) = 260 + length (rn_name r)" "length (lay lay_issue i) = 4 + length (is_stock_name i)"
  "length (lay lay_transfer t) = 20 + length (tr_stock_name t) + length (tr_from_name t) + length (tr_to_name t)"
  "length (lay lay_define_name d) = 260 + length (dn_name d)" "length (lay lay_update_name u) = 272"
  "length (lay lay_transfer_log tl') = 72" "length (lay lay_start_trx st) = 28"
  by (simp_all add: lay_register_name_def lay_issue_def lay_transfer_def lay_define_name_def lay_update_name_def
      lay_transfer_log_def lay_start_trx_def length_lay)

lemma parse_lay_commands [simp]:
  "length (rn_name r) < 100 \<Longrightarrow> parse lay_register_name (lay lay_register_name r) = Inr (r, [])"
  "length (is_stock_name i) < 100 \<Longrightarrow> parse lay_issue (lay lay_issue i) = Inr (i, [])"
  "length (tr_stock_name t) + length (tr_from_name t) + length (tr_to_name t) < 100 \<Longrightarrow>
     parse lay_transfer (lay lay_transfer t) = Inr (t, [])"
  by (rule lossless_parse, simp_all add: lossless_structs length_lay_structs log_limit_def)+

lemma raw_small_names: "length n < 1000 \<Longrightarrow> n \<in> small_names raw_env"
  by (simp add: small_names_def length_lay log_limit_def)

lemma raw_record_bound: "record_bound raw_env {n. length n < 30} 304"
  by (simp add: record_bound_def lay_record_layout entry_len_def state_record_of_def length_lay_structs)

lemma sample_names: "\<forall>c \<in> set sample_commands. set (names_of raw_env c) \<subseteq> {n. length n < 30}"
  by (simp add: sample_commands_def names_of_def command_of_def)

lemma sample_small: "small_trx raw_env [] (trx_commands (strx_trx sample_trx))"
  using sample_names raw_small_names by (fastforce simp: small_trx_def sample_trx_def)

lemma empty_shows: "shows_market E ents empty_market (trx_new None)"
proof (rule shows_marketI)
  let ?lg = "\<lparr>lg_log = [], lg_names = (\<lambda>_. None), lg_accts = (\<lambda>_. None)\<rparr>"
  show "holds E ents ?lg (trx_new None)" by (simp add: trx_new_def)
  show "sound E ?lg" by (simp add: sound_def sound_names_def sound_accts_def)
  show "market_of E ?lg = empty_market"
    by (auto simp: market_of_def empty_market_def key_of_def id_of_def name_entry_def fun_eq_iff)
qed

lemma sample_shows: "shows_market raw_env (\<lambda>es. es) empty_market sample_db"
  unfolding sample_db_def
  by (rule shows_marketE [OF empty_shows]) (rule shows_marketI [OF holds_empty_layer])

lemma empty_market_ok: "market_ok empty_market"
  by (simp add: market_ok_def empty_market_def holders_def total_supply_def)

lemma sample_fits: "log_size (snd (apply_trx raw_env sample_trx [] sample_db)) < log_limit"
proof -
  have "adds (304 + 2 * 304 * length (trx_commands (strx_trx sample_trx))) (apply_trx raw_env sample_trx [])"
    by (rule adds_trx [OF raw_record_bound]) (use sample_names in \<open>simp_all add: sample_trx_def\<close>)
  then have "log_size (snd (apply_trx raw_env sample_trx [] sample_db)) \<le> log_size sample_db + (304 + 2 * 304 * 4)"
    by (rule addsD [THEN order_trans]) (simp add: sample_trx_def sample_commands_def)
  then show ?thesis by (simp add: sample_db_def trx_new_def log_size_def log_limit_def)
qed

lemma sample_accepted: "fst (m_commands raw_env sample_trx [] sample_commands empty_market) = Inr True"
  by (simp add: sample_commands_def m_command_def command_of_def m_register_def m_issue_def m_transfer_def m_set_key_def
      empty_market_def m_issue_all_def signed_by_def strx_verify_def sample_trx_def raw_env_def balance_def destination_def
      codec_of_def apfst_def map_prod_def Let_def split: prod.split)

section \<open>Applying a transaction\<close>

lemma apply_trx_run:
  assumes "env_laws E ents" and "shows_market E ents m s" and "small_trx E gen (trx_commands (strx_trx trx))"
    and "log_size (snd (apply_trx E trx gen s)) < log_limit"
  shows "fst (apply_trx E trx gen s) = fst (m_commands E trx gen (trx_commands (strx_trx trx)) m)"
    and "shows_market E ents (snd (m_commands E trx gen (trx_commands (strx_trx trx)) m)) (snd (apply_trx E trx gen s))"
  using apply_trx_shows [OF assms(1-3)] assms(4) by (simp_all add: runs_def)

text \<open>C1: The state database refines the market. If an object (an in-memory transaction over any
  chain of bases, or the database on disk) shows a market, applying a signed transaction returns
  what the market's commands return, errors included, and leaves an object that shows the market
  they leave. It holds while the log stays below 2^31 bytes and the names can be packed.\<close>

theorem apply_trx_refines:
  assumes "env_laws E ents" and "shows_market E ents m s" and "small_trx E gen (trx_commands (strx_trx trx))"
    and "log_size (snd (apply_trx E trx gen s)) < log_limit"
  shows "fst (apply_trx E trx gen s) = fst (m_commands E trx gen (trx_commands (strx_trx trx)) m)
    \<and> shows_market E ents (snd (m_commands E trx gen (trx_commands (strx_trx trx)) m)) (snd (apply_trx E trx gen s))"
  using apply_trx_run [OF assms] by blast

theorem apply_trx_refines_witness:
  "fst (apply_trx raw_env sample_trx [] sample_db) = Inr True
    \<and> shows_market raw_env (\<lambda>es. es) (snd (m_commands raw_env sample_trx [] sample_commands empty_market))
        (snd (apply_trx raw_env sample_trx [] sample_db))"
  using apply_trx_refines [OF raw_env_laws sample_shows sample_small sample_fits] sample_accepted
  by (simp add: sample_trx_def)

lemma m_commands_supply:
  assumes "market_ok m" and "m_commands E trx gen cs m = (r, m')"
  shows "market_ok m'"
    and "r = Inr True \<Longrightarrow> \<forall>c \<in> set cs. \<not> issues E c t \<Longrightarrow>
      total_supply m' t + sum_list (map (\<lambda>c. burnt E gen c t) cs) = total_supply m t"
proof -
  have "market_ok m' \<and> (r = Inr True \<longrightarrow> (\<forall>c \<in> set cs. \<not> issues E c t) \<longrightarrow>
      total_supply m' t + sum_list (map (\<lambda>c. burnt E gen c t) cs) = total_supply m t)"
    using assms
  proof (induction cs arbitrary: m)
    case (Cons c cs)
    obtain r1 m1 where mc: "m_command E trx gen c m = (r1, m1)" by fastforce
    show ?case
    proof (cases "r1 = Inr True")
      case False
      have "m1 = m" by (rule m_command_refused [OF mc False])
      then show ?thesis using Cons.prems mc False by (auto split: sum.splits if_splits)
    next
      case True
      then have acc: "m_command E trx gen c m = (Inr True, m1)" using mc by simp
      have rest: "m_commands E trx gen cs m1 = (r, m')" using Cons.prems(2) acc by simp
      note ok = command_supply(1) [OF Cons.prems(1) acc] and step = command_supply(2-4) [OF Cons.prems(1) acc, of t]
      show ?thesis using Cons.IH [OF ok rest] step by (auto split: if_splits)
    qed
  qed auto
  then show "market_ok m'"
    and "r = Inr True \<Longrightarrow> \<forall>c \<in> set cs. \<not> issues E c t \<Longrightarrow>
      total_supply m' t + sum_list (map (\<lambda>c. burnt E gen c t) cs) = total_supply m t" by auto
qed

text \<open>C2: Supply. Applying a transaction never breaks the invariant that a stock has fewer than
  2^64 units and none before it is issued, whether the transaction is accepted, refused or
  throws; and an accepted transaction that does not issue a stock leaves its supply as it was,
  except for what transfers from an account to itself destroy (no destination given, and the
  generator of the block is the source: both new balances are written, the source's wins).\<close>

theorem apply_trx_supply:
  assumes "env_laws E ents" and "shows_market E ents m s" and "small_trx E gen (trx_commands (strx_trx trx))"
    and "log_size (snd (apply_trx E trx gen s)) < log_limit" and "market_ok m"
  shows "\<exists>m'. shows_market E ents m' (snd (apply_trx E trx gen s)) \<and> market_ok m'
    \<and> (fst (apply_trx E trx gen s) = Inr True \<longrightarrow>
        (\<forall>t. (\<forall>c \<in> set (trx_commands (strx_trx trx)). \<not> issues E c t) \<longrightarrow>
          total_supply m' t + sum_list (map (\<lambda>c. burnt E gen c t) (trx_commands (strx_trx trx))) = total_supply m t))"
proof -
  let ?cs = "trx_commands (strx_trx trx)"
  obtain r m' where mc: "m_commands E trx gen ?cs m = (r, m')" by fastforce
  show ?thesis
    using apply_trx_run [OF assms(1-4)] m_commands_supply [OF assms(5) mc] mc by (intro exI [of _ m']) simp
qed

theorem apply_trx_supply_witness:
  "\<exists>m'. shows_market raw_env (\<lambda>es. es) m' (snd (apply_trx raw_env sample_trx [] sample_db)) \<and> market_ok m'"
  using apply_trx_supply [OF raw_env_laws sample_shows sample_small sample_fits empty_market_ok] by blast

text \<open>C3: Authority. Whatever one command of a transaction does (accepted or not), an account loses
  units only if its current key signed the transaction; a name that has a key gets another one
  only from a register command of that name and key, and then the current key signed or the
  name is the address of the new key, which the code gives back to its address without any
  signature; no name loses its key and no account disappears.\<close>

theorem apply_command_authority:
  assumes "env_laws E ents" and "shows_market E ents m s" and "set (names_of E c) \<subseteq> small_names E" and "gen \<in> small_names E"
    and "log_size (snd (apply_command E trx gen tpos c s)) < log_limit" and "market_ok m"
  shows "\<exists>m'. shows_market E ents m' (snd (apply_command E trx gen tpos c s))
    \<and> (\<forall>a t. balance m' a t < balance m a t \<longrightarrow> signed_by E trx (mk_keys m a))
    \<and> (\<forall>n pk pk'. mk_keys m n = Some pk \<and> mk_keys m' n = Some pk' \<and> pk' \<noteq> pk \<longrightarrow>
         (\<exists>rn. c_id c = register_name_id \<and> unpack (e_register_name E) (c_data c) = Inr rn
            \<and> rn_name rn = n \<and> rn_pub_key rn = pk') \<and> (strx_verify E trx pk \<or> n = encode_address E pk'))
    \<and> (\<forall>n. mk_keys m n \<noteq> None \<longrightarrow> mk_keys m' n \<noteq> None)
    \<and> (\<forall>k. mk_bals m k \<noteq> None \<longrightarrow> mk_bals m' k \<noteq> None)"
proof -
  obtain r m' where mc: "m_command E trx gen c m = (r, m')" by fastforce
  note auth = command_authority [OF assms(6) mc]
  have "shows_market E ents m' (snd (apply_command E trx gen tpos c s))"
    using apply_command_shows [OF assms(1-4), of trx tpos] assms(5) mc by (simp add: runs_def)
  moreover have "\<forall>a t. balance m' a t < balance m a t \<longrightarrow> signed_by E trx (mk_keys m a)"
    by (intro allI impI) (rule auth(1))
  moreover have "\<forall>n pk pk'. mk_keys m n = Some pk \<and> mk_keys m' n = Some pk' \<and> pk' \<noteq> pk \<longrightarrow>
      (\<exists>rn. c_id c = register_name_id \<and> unpack (e_register_name E) (c_data c) = Inr rn
         \<and> rn_name rn = n \<and> rn_pub_key rn = pk') \<and> (strx_verify E trx pk \<or> n = encode_address E pk')"
    using auth(2) by (intro allI impI) (elim conjE, assumption)
  moreover have "\<forall>n. mk_keys m n \<noteq> None \<longrightarrow> mk_keys m' n \<noteq> None"
    by (intro allI impI) (rule auth(3))
  moreover have "\<forall>k. mk_bals m k \<noteq> None \<longrightarrow> mk_bals m' k \<noteq> None"
    using command_keeps_accounts [of m _ E trx gen c] mc by simp
  ultimately show ?thesis by (intro exI [of _ m'] conjI)
qed

theorem apply_command_authority_witness:
  "\<exists>m'. shows_market raw_env (\<lambda>es. es) m' (snd (apply_command raw_env sample_trx [] 0 (hd sample_commands) sample_db))
    \<and> (\<forall>a t. balance m' a t < balance empty_market a t \<longrightarrow> signed_by raw_env sample_trx (mk_keys empty_market a))"
proof -
  have c: "set (names_of raw_env (hd sample_commands)) \<subseteq> {n. length n < 30}"
    using sample_names by (simp add: sample_commands_def)
  have "adds (2 * 304) (apply_command raw_env sample_trx [] 0 (hd sample_commands))"
    by (rule adds_command [OF raw_record_bound c]) simp
  then have fits: "log_size (snd (apply_command raw_env sample_trx [] 0 (hd sample_commands) sample_db)) < log_limit"
    by (rule addsD [THEN order_le_less_trans]) (simp add: sample_db_def trx_new_def log_size_def log_limit_def)
  have "set (names_of raw_env (hd sample_commands)) \<subseteq> small_names raw_env" "[] \<in> small_names raw_env"
    using c raw_small_names by fastforce+
  from apply_command_authority [OF raw_env_laws sample_shows this fits empty_market_ok] show ?thesis by blast
qed

text \<open>C24: Log growth. A transaction adds at most one record when it starts and two per command, so
  the log grows by at most (2n + 1) times the largest record, whatever happens; together with
  the limit of 2^31 bytes this bounds what a block may hold.\<close>

theorem apply_trx_growth:
  assumes "record_bound E N B" and "\<forall>c \<in> set (trx_commands (strx_trx trx)). set (names_of E c) \<subseteq> N" and "gen \<in> N"
  shows "log_size (snd (apply_trx E trx gen s)) \<le> log_size s + B * (1 + 2 * length (trx_commands (strx_trx trx)))"
  using addsD [OF adds_trx [OF assms], of s] by (simp add: algebra_simps)

theorem apply_trx_growth_witness:
  "log_size (snd (apply_trx raw_env sample_trx [] sample_db)) \<le> log_size sample_db + 304 * 9"
  using apply_trx_growth [OF raw_record_bound, of sample_trx "[]" sample_db] sample_names
  by (simp add: sample_trx_def sample_commands_def)

text \<open>C21: Records round trip. A record appended to any object of the chain is read back from the position
  where the log ended, with its length and \<open>previous\<close> set to that position (the comment in
  the header says \<open>previous\<close> is the location of the previous record: it is the record's own).\<close>

theorem append_get_record:
  assumes "env_laws E ents" and "holds E ents lg s" and "log_size (snd (append_record E (entry_record E e) s)) < log_limit"
  shows "fst (append_record E (entry_record E e) s) = Inr True
    \<and> fst (get_record E (sdb_size s) r0 (snd (append_record E (entry_record E e) s)))
      = Inr (of_nat (entry_len E e), (entry_record E e)\<lparr>sr_previous := sdb_size s\<rparr>)"
proof -
  let ?s = "snd (append_record E (entry_record E e) s)" and ?lg = "lg\<lparr>lg_log := lg_log lg @ [e]\<rparr>"
  have run: "fst (append_record E (entry_record E e) s) = Inr True" "holds E ents ?lg ?s"
    using append_record_runs [OF assms(1,2), of e] assms(3) by (simp_all add: runs_def)
  have old: "log_size s < log_limit"
    using growsD [OF grows_log_ops(4), of s E "entry_record E e"] assms(3) by linarith
  have pos: "unat (sdb_size s) = entries_len E (lg_log lg)"
    using old holds_size [OF assms(2)] by (simp add: sdb_size_eq unat_small)
  then have "entry_at E 0 (lg_log ?lg) (unat (sdb_size s)) = Some e" by (simp add: entry_at_new)
  then show ?thesis
    using get_record_ok [OF assms(1) run(2) assms(3)] run(1) by (simp add: entry_at_pos_def)
qed

theorem append_get_record_witness:
  "fst (get_record raw_env (sdb_size sample_db) state_record_new
      (snd (append_record raw_env (entry_record raw_env (Define \<lparr>dn_name = ''A'', dn_key = 7\<rparr>)) sample_db)))
   = Inr (of_nat (entry_len raw_env (Define \<lparr>dn_name = ''A'', dn_key = 7\<rparr>)),
       (entry_record raw_env (Define \<lparr>dn_name = ''A'', dn_key = 7\<rparr>))\<lparr>sr_previous := sdb_size sample_db\<rparr>)"
proof (rule shows_marketE [OF sample_shows])
  fix lg assume lg: "holds raw_env (\<lambda>es. es) lg sample_db"
  have "adds 304 (append_record raw_env (entry_record raw_env (Define \<lparr>dn_name = ''A'', dn_key = 7\<rparr>)))"
    by (rule adds_append [OF raw_record_bound]) (simp add: entry_len_def state_record_of_def length_lay_structs)
  then have "log_size (snd (append_record raw_env (entry_record raw_env (Define \<lparr>dn_name = ''A'', dn_key = 7\<rparr>)) sample_db)) < log_limit"
    by (rule addsD [THEN order_le_less_trans]) (simp add: sample_db_def trx_new_def log_size_def log_limit_def)
  from append_get_record [OF raw_env_laws lg this] show ?thesis by blast
qed

section \<open>Commit\<close>

text \<open>C4: Commit refines. Committing a transaction into its base returns, leaves the transaction empty, and
  makes the base show the market the transaction showed; so does the transaction over its new base.\<close>

theorem commit_refines:
  assumes "shows_market E ents m (Trx (Some b) l)"
  shows "\<exists>b'. commit E (Trx (Some b) l) = (Inr (), Trx (Some b') empty_layer)
    \<and> shows_market E ents m b' \<and> shows_market E ents m (Trx (Some b') empty_layer)
    \<and> log_bytes b' = log_bytes (Trx (Some b) l)"
proof (rule shows_marketE [OF assms])
  fix lg assume lg: "holds E ents lg (Trx (Some b) l)" "sound E lg" "market_of E lg = m"
  obtain b' where b': "commit E (Trx (Some b) l) = (Inr (), Trx (Some b') empty_layer)" "holds E ents lg b'"
    by (rule commit_holds [OF lg(1)])
  show ?thesis
    by (intro exI [of _ b'] conjI b'(1) shows_marketI [OF b'(2) lg(2,3)] shows_marketI [OF holds_empty_layer [OF b'(2)] lg(2,3)])
      (simp only: holds_log_bytes [OF lg(1)] holds_log_bytes [OF b'(2)])
qed

theorem commit_refines_witness:
  "\<exists>b'. commit raw_env sample_db = (Inr (), Trx (Some b') empty_layer) \<and> shows_market raw_env (\<lambda>es. es) empty_market b'"
  using commit_refines [OF sample_shows [unfolded sample_db_def]] unfolding sample_db_def by blast

text \<open>C20: Commit to disk. When the stream stands at the end of the file, committing the database writes the
  log behind the file, stores the two indexes in the databases and leaves an object that shows
  the same market from the file and the databases alone.\<close>

theorem db_commit_persists:
  assumes "env_laws E ents" and "shows_market E ents m (State_Db f td nd l)"
    and "f_pos f = length (f_data f)" and "f_writable f" and "fst ` set (last_name_edit_map l) \<subseteq> small_names E"
    and "local_changes l \<noteq> []"
  shows "\<exists>f' td' nd'. commit E (State_Db f td nd l) = (Inr (), State_Db f' td' nd' empty_layer)
    \<and> f_data f' = f_data f @ local_changes l \<and> shows_market E ents m (State_Db f' td' nd' empty_layer)"
proof (rule shows_marketE [OF assms(2)])
  fix lg assume lg: "holds E ents lg (State_Db f td nd l)" "sound E lg" "market_of E lg = m"
  have h: "holds E ents lg (snd (commit E (State_Db f td nd l)))"
    using assms(6) by (intro db_commit_holds(2) [OF assms(1) lg(1) assms(3-5)]) simp
  show ?thesis
    using shows_marketI [OF h lg(2,3)] assms(3,4,6)
    by (auto simp: db_commit_def fwrite_def Let_def patch_end)
qed

definition sample_file_db :: "(bytes \<times> bytes) list sdb" where
  \<comment> \<open>an empty database on disk with a transaction start in its own log\<close>
  "sample_file_db = State_Db \<lparr>f_data = [], f_pos = 0, f_eof = False, f_writable = True\<rparr> [] []
     \<lparr>local_changes = record_layout (entry_at_pos raw_env 0 (Start \<lparr>st_trx_hash = 3, st_utc_time = 4\<rparr>)),
      last_transfer_map = om_empty, last_name_edit_map = om_empty\<rparr>"

lemma sample_file_shows: "shows_market raw_env (\<lambda>es. es) empty_market sample_file_db"
proof (rule shows_marketI)
  let ?lg = "\<lparr>lg_log = [Start \<lparr>st_trx_hash = 3, st_utc_time = 4\<rparr>], lg_names = (\<lambda>_. None), lg_accts = (\<lambda>_. None)\<rparr>"
  show "holds raw_env (\<lambda>es. es) ?lg sample_file_db"
    unfolding sample_file_db_def
    by (rule holds_DbI [where ?es1.0 = "[]" and es = "[Start \<lparr>st_trx_hash = 3, st_utc_time = 4\<rparr>]" and nm = "[]" and tm = "[]"])
      (simp_all add: kv_rep_def kv_repr_def fun_eq_iff over_def index_ok_def)
  show "sound raw_env ?lg" by (simp add: sound_def sound_names_def sound_accts_def)
  show "market_of raw_env ?lg = empty_market"
    by (auto simp: market_of_def empty_market_def key_of_def id_of_def name_entry_def fun_eq_iff)
qed

theorem db_commit_persists_witness:
  "\<exists>f' td' nd'. commit raw_env sample_file_db = (Inr (), State_Db f' td' nd' empty_layer)
    \<and> shows_market raw_env (\<lambda>es. es) empty_market (State_Db f' td' nd' empty_layer)"
proof -
  have ne: "record_layout r \<noteq> []" for r using length_record_layout [of r] by fastforce
  show ?thesis
    using db_commit_persists [OF raw_env_laws sample_file_shows [unfolded sample_file_db_def]] ne
    unfolding sample_file_db_def by (simp add: om_empty_def) blast
qed

text \<open>C25: Commit writes where the stream stands, not at the end. So a database that was just opened on an
  existing file (the stream is at its start) and gets a change overwrites the first records
  of the file: every byte of the log below the length of the change is replaced.\<close>

theorem commit_after_open_overwrites:
  assumes "sd_open True (Some old) td nd = Inr (State_Db f td nd l)" and "new \<noteq> []" and "length new \<le> length old"
  shows "\<exists>s'. commit E (snd (append_layer new [] [] (State_Db f td nd l))) = (Inr (), s')
    \<and> log_bytes s' = new @ drop (length new) old"
  using assms
  by (auto simp: sd_open_def fopen_def append_layer_run db_commit_def fwrite_def Let_def patch_def split: if_splits)

theorem commit_after_open_overwrites_witness:
  "\<exists>s'. commit raw_env (snd (append_layer [9] [] [] (State_Db \<lparr>f_data = [1, 2, 3], f_pos = 0, f_eof = False, f_writable = True\<rparr> [] [] empty_layer)))
      = (Inr (), s') \<and> log_bytes s' = [9, 2, 3]"
  using commit_after_open_overwrites [of "[1, 2, 3]" "[]" "[]"
      "\<lparr>f_data = [1, 2, 3], f_pos = 0, f_eof = False, f_writable = True\<rparr>" empty_layer "[9]" raw_env]
  by (simp add: sd_open_def fopen_def)

section \<open>The state hash\<close>

text \<open>The hash of the state is the hash of the list of the hashes of its pieces of one megabyte (none for
  an empty log) as long as the log is below one megabyte, whatever chain holds it; it depends
  on nothing but the bytes of the log.\<close>

theorem state_hash_value:
  assumes "log_size s < hash_chunk"
  shows "fst (calculate_state_hash E s) = Inr (e_hash_hashes E (if log_bytes s = [] then [] else [e_sha1 E (log_bytes s)]))"
  using calculate_state_hash_small [OF assms, of E] by (simp add: log_size_def)

theorem state_hash_value_witness:
  "fst (calculate_state_hash raw_env (Trx None \<lparr>local_changes = [1, 2], last_transfer_map = [], last_name_edit_map = []\<rparr>))
    = Inr (e_hash_hashes raw_env [e_sha1 raw_env [1, 2]])"
  using state_hash_value [of "Trx None \<lparr>local_changes = [1, 2], last_transfer_map = [], last_name_edit_map = []\<rparr>" raw_env]
  by (simp add: log_size_def hash_chunk_def)




section \<open>Blocking an issue\<close>

lemma m_commands_keep_accounts: "mk_bals m k \<noteq> None \<Longrightarrow> mk_bals (snd (m_commands E trx gen cs m)) k \<noteq> None"
proof (induction cs arbitrary: m)
  case (Cons c cs)
  have keep: "mk_bals (snd (m_command E trx gen c m)) k \<noteq> None" by (rule command_keeps_accounts [OF Cons.prems])
  obtain r m1 where mc: "m_command E trx gen c m = (r, m1)" by fastforce
  then have "mk_bals m1 k \<noteq> None" using keep by simp
  with Cons.IH [of m1] mc show ?case by (cases r) simp_all
qed simp

lemma issue_refused:
  assumes "issues E c t" and "mk_bals m (t, t) \<noteq> None"
  shows "m_command E trx gen c m = (Inr False, m)"
  using assms by (auto simp: issues_def m_command_def m_issue_def apfst_def map_prod_def split: sum.splits)

text \<open>A transfer of nothing blocks an issue forever. Anyone who owns a name may transfer zero units of a
  stock that was never issued to the account of that stock; the transfer is accepted, changes
  no supply, and from then on every issue of the stock is refused, after any commands.\<close>

theorem zero_transfer_blocks_issue:
  assumes "env_laws E ents" and "shows_market E ents m s" and "set (names_of E c) \<subseteq> small_names E" and "gen \<in> small_names E"
    and "log_size (snd (apply_command E trx gen tpos c s)) < log_limit" and "market_ok m"
    and "c_id c = transfer_id" and "unpack (e_transfer E) (c_data c) = Inr tr"
    and "tr_amount tr = 0" and "tr_to_name tr = tr_stock_name tr" and "tr_stock_name tr \<noteq> []" and "tr_from_name tr \<noteq> tr_stock_name tr"
    and "mk_keys m (tr_stock_name tr) \<noteq> None" and "signed_by E trx (mk_keys m (tr_from_name tr))"
  shows "fst (apply_command E trx gen tpos c s) = Inr True
    \<and> (\<exists>m'. shows_market E ents m' (snd (apply_command E trx gen tpos c s))
        \<and> (\<forall>t. total_supply m' t = total_supply m t)
        \<and> (\<forall>trx' gen' cs c'. issues E c' (tr_stock_name tr) \<longrightarrow>
             fst (m_command E trx' gen' c' (snd (m_commands E trx' gen' cs m'))) = Inr False))"
proof -
  let ?t = "tr_stock_name tr" and ?m = "m_move (tr_from_name tr) (tr_stock_name tr) (tr_stock_name tr) 0 m"
  have mc: "m_command E trx gen c m = (Inr True, ?m)"
    using assms(7-14) by (auto simp: m_command_def m_transfer_def destination_def Let_def apfst_def)
  have run: "fst (apply_command E trx gen tpos c s) = Inr True" "shows_market E ents ?m (snd (apply_command E trx gen tpos c s))"
    using apply_command_shows [OF assms(1-4), of trx tpos] assms(5) mc by (simp_all add: runs_def)
  have bal: "mk_bals ?m (?t, ?t) \<noteq> None" by (simp add: m_move_def)
  have "fst (m_command E trx' gen' c' (snd (m_commands E trx' gen' cs ?m))) = Inr False" if "issues E c' ?t" for trx' gen' cs c'
    by (subst issue_refused [OF that m_commands_keep_accounts [OF bal]]) simp
  moreover have "total_supply ?m t = total_supply m t" for t
    using move_supply [OF assms(6), of 0 "tr_from_name tr" ?t ?t t] by simp
  ultimately show ?thesis using run by blast
qed

definition names_trx :: signed_transaction where
  "names_trx = \<lparr>strx_trx = \<lparr>trx_utc_time = 5, trx_commands =
     [command_of (e_register_name raw_env) register_name_id \<lparr>rn_name = ''A'', rn_pub_key = 1\<rparr>,
      command_of (e_register_name raw_env) register_name_id \<lparr>rn_name = ''B'', rn_pub_key = 2\<rparr>]\<rparr>, strx_sigs = [1]\<rparr>"

definition zero_transfer :: command where
  "zero_transfer = command_of (e_transfer raw_env) transfer_id
     \<lparr>tr_amount = 0, tr_stock_name = ''B'', tr_from_name = ''A'', tr_to_name = ''B''\<rparr>"

theorem zero_transfer_blocks_issue_witness:
  "fst (apply_command raw_env names_trx [] 0 zero_transfer (snd (apply_trx raw_env names_trx [] sample_db))) = Inr True"
proof -
  let ?cs = "trx_commands (strx_trx names_trx)" and ?m = "m_set_key ''B'' 2 (m_set_key ''A'' 1 empty_market)"
  have names: "\<forall>c \<in> set ?cs. set (names_of raw_env c) \<subseteq> {n. length n < 30}"
    by (simp add: names_trx_def names_of_def command_of_def)
  then have small: "small_trx raw_env [] ?cs" using raw_small_names by (fastforce simp: small_trx_def)
  have "adds (304 + 2 * 304 * length ?cs) (apply_trx raw_env names_trx [])"
    by (rule adds_trx [OF raw_record_bound names]) simp
  then have size1: "log_size (snd (apply_trx raw_env names_trx [] sample_db)) \<le> 2000"
    by (rule addsD [THEN order_trans]) (simp add: names_trx_def sample_db_def trx_new_def log_size_def)
  then have "log_size (snd (apply_trx raw_env names_trx [] sample_db)) < log_limit" by (simp add: log_limit_def)
  note shows1 = apply_trx_run(2) [OF raw_env_laws sample_shows small this]
  have m: "snd (m_commands raw_env names_trx [] ?cs empty_market) = ?m"
    by (simp add: names_trx_def m_command_def command_of_def m_register_def m_set_key_def empty_market_def apfst_def)
  have c: "c_id zero_transfer = transfer_id" "unpack (e_transfer raw_env) (c_data zero_transfer) =
      Inr \<lparr>tr_amount = 0, tr_stock_name = ''B'', tr_from_name = ''A'', tr_to_name = ''B''\<rparr>"
    by (simp_all add: zero_transfer_def command_of_def)
  have cn: "set (names_of raw_env zero_transfer) \<subseteq> {n. length n < 30}"
    using c by (simp add: names_of_def)
  then have small2: "set (names_of raw_env zero_transfer) \<subseteq> small_names raw_env" "[] \<in> small_names raw_env"
    using raw_small_names by fastforce+
  have "adds (2 * 304) (apply_command raw_env names_trx [] 0 zero_transfer)"
    by (rule adds_command [OF raw_record_bound cn]) simp
  then have size2: "log_size (snd (apply_command raw_env names_trx [] 0 zero_transfer (snd (apply_trx raw_env names_trx [] sample_db)))) < log_limit"
    by (rule addsD [THEN order_le_less_trans]) (use size1 in \<open>simp add: log_limit_def\<close>)
  have signed: "signed_by raw_env names_trx (Some 1)"
    by (simp add: signed_by_def strx_verify_def names_trx_def raw_env_def)
  have ok: "market_ok ?m" using empty_market_ok by simp
  show ?thesis
    by (rule zero_transfer_blocks_issue [OF raw_env_laws shows1 [unfolded m] small2 size2 ok c, THEN conjunct1])
      (use signed in \<open>simp_all add: m_set_key_def\<close>)
qed

section \<open>The last block\<close>

definition is_end :: "entry \<Rightarrow> bool" where
  "is_end e = (case e of End b \<Rightarrow> True | _ \<Rightarrow> False)"

definition last_end :: "entry list \<Rightarrow> block" where
  \<comment> \<open>the block of the last end-of-block record of a log\<close>
  "last_end es = (case List.find is_end (rev es) of Some (End b) \<Rightarrow> eb_blk b | _ \<Rightarrow> block_new)"

lemma sr_id_end: "sr_id (entry_at_pos E p e) = end_block_id \<longleftrightarrow> is_end e"
  by (cases e) (simp_all add: is_end_def record_ids)

lemma log_from_snoc_tail:
  "log_from E 0 (es @ [e]) = log_from E 0 es @ le_bytes 2 (unat (sr_id (entry_record E e)))
     @ le_bytes 4 (length (sr_data (entry_record E e))) @ sr_data (entry_record E e)
     @ le_bytes 8 (unat (of_nat (entries_len E es) :: u64))"
  by (simp add: log_from_append record_layout_def entry_at_pos_def)

text \<open>The eight bytes before the end of a prefix of the log are the position of its last record.\<close>

lemma read_previous:
  assumes h: "holds E ents lg s" and lim: "log_size s < log_limit" and log: "lg_log lg = (es @ [e]) @ es'"
    and pos: "unat pos = entries_len E (es @ [e]) - 8"
  shows "fst (read_le pos 8 v s) = Inr (8, entries_len E es)"
proof -
  let ?p = "entries_len E es"
  have len: "entries_len E (es @ [e]) = ?p + 14 + length (sr_data (entry_record E e))" by (simp add: entry_len_def)
  have size: "entries_len E (es @ [e]) \<le> log_size s" using holds_size [OF h] log by simp
  have "drop (unat pos) (log_bytes s) = le_bytes 8 (unat (of_nat ?p :: u64)) @ log_from E (entries_len E (es @ [e])) es'"
    unfolding holds_log_bytes [OF h] log log_from_append [of E 0 "es @ [e]"] pos
    using len by (simp add: log_from_snoc_tail)
  moreover have "unat (of_nat ?p :: u64) = ?p" using size len lim by (intro unat_small) linarith
  ultimately have "drop (unat pos) (log_bytes s) = le_bytes 8 ?p @ log_from E (entries_len E (es @ [e])) es'" by simp
  then show ?thesis using lim size len by (intro read_le_ok) (simp_all add: log_limit_def)
qed

lemma find_SomeD: "List.find P xs = Some x \<Longrightarrow> P x"
  by (induction xs) (auto split: if_splits)

lemma entry_at_middle: "entry_at E 0 ((es @ [e]) @ es') (entries_len E es) = Some e"
  by (rule entry_at_old [OF entry_at_new])

lemma last_block_loop_ok:
  assumes "env_laws E ents" and "holds E ents lg s" and "log_size s < log_limit" and "lg_log lg = (es @ [e]) @ es'"
  shows "\<exists>r' s'. last_block_loop E lr (entry_at_pos E (entries_len E es) e) s = Some (Inr r', s')
    \<and> (case List.find is_end (rev (es @ [e])) of
         Some e0 \<Rightarrow> (\<exists>p. r' = entry_at_pos E p e0) \<and> entry_len E e0 < log_limit
       | None \<Rightarrow> sr_id r' \<noteq> end_block_id)"
  using assms(2-4)
proof (induction es arbitrary: e es' s lr rule: rev_induct)
  case Nil
  have "entry_len E e < log_limit" using Nil holds_size [OF Nil(1)] by simp
  moreover have "last_block_loop E lr (entry_at_pos E 0 e) s = Some (Inr (entry_at_pos E 0 e), s)"
    by (subst last_block_loop.simps) (simp add: entry_at_pos_def)
  ultimately show ?case by (auto simp: sr_id_end)
next
  case (snoc x xs)
  let ?p = "entries_len E (xs @ [x])"
  have size: "?p + entry_len E e \<le> log_size s" using snoc.prems(3) holds_size [OF snoc.prems(1)] by simp
  show ?case
  proof (cases "is_end e")
    case True
    then show ?thesis
      using size snoc.prems(2) sr_id_end [of E ?p e] by (auto simp: last_block_loop.simps)
  next
    case False
    have ge: "14 \<le> ?p" using entry_len_pos [of E x] by simp
    have up: "unat (of_nat ?p :: u64) = ?p" using size snoc.prems(2) by (intro unat_small) linarith
    have prev: "sr_previous (entry_at_pos E ?p e) = of_nat ?p" by (simp add: entry_at_pos_def)
    have nz: "(of_nat ?p :: u64) \<noteq> 0" using up ge by (metis not_numeral_le_zero unat_0)
    have at8: "unat ((of_nat ?p :: u64) - 8) = ?p - 8" using up ge by (subst unat_sub) (simp_all add: word_le_nat_alt)
    have log: "lg_log lg = (xs @ [x]) @ ([e] @ es')" using snoc.prems(3) by simp
    obtain s1 where s1: "read_le (of_nat ?p - 8) 8 (unat lr) s = (Inr (8, entries_len E xs), s1)"
      using read_previous [OF snoc.prems(1,2) log at8, where v = "unat lr"] by (cases "read_le (of_nat ?p - 8) 8 (unat lr) s") (auto simp del: entries_len_simps)
    have st1: "still s1 = still s" using read_le_still [of "of_nat ?p - 8" 8 "unat lr" s] s1 by simp
    note h1 = holds_same [OF st1 snoc.prems(1)] and lim1 = snoc.prems(2) [folded log_size_still [OF st1]]
    have ux: "unat (of_nat (entries_len E xs) :: u64) = entries_len E xs"
      using size snoc.prems(2) by (intro unat_small) simp
    let ?r = "entry_at_pos E ?p e"
    have "entry_at E 0 (lg_log lg) (unat (of_nat (entries_len E xs) :: u64)) = Some x"
      unfolding ux log by (rule entry_at_middle)
    from get_record_ok [OF assms(1) h1 lim1 this, of ?r]
    obtain s2 where s2: "get_record E (of_nat (entries_len E xs)) ?r s1 = (Inr (of_nat (entry_len E x), entry_at_pos E (entries_len E xs) x), s2)"
      by (cases "get_record E (of_nat (entries_len E xs)) ?r s1") (auto simp: ux)
    have st2: "still s2 = still s1" using get_record_still [of E "of_nat (entries_len E xs)" ?r s1] s2 by simp
    note h2 = holds_same [OF st2 h1] and lim2 = lim1 [folded log_size_still [OF st2]]
    have step: "last_block_loop E lr ?r s = last_block_loop E (of_nat (entries_len E xs)) (entry_at_pos E (entries_len E xs) x) s2"
      by (subst last_block_loop.simps) (simp add: sr_id_end False prev nz s1 s2 del: entries_len_simps)
    show ?thesis
      unfolding step using snoc.IH [OF h2 lim2 log, of "of_nat (entries_len E xs)"] False by simp
  qed
qed

text \<open>C22: Recovery. \<open>find_last_block\<close> walks the log backwards from its end; it terminates, and returns the block
  of the last end-of-block record in the log, wherever in the chain it lies (a default block if
  there is none).\<close>

theorem find_last_block_finds:
  assumes "env_laws E ents" and "holds E ents lg s" and "log_size s < log_limit"
  shows "fst (find_last_block E s) = Inr (last_end (lg_log lg))"
proof (cases "lg_log lg" rule: rev_cases)
  case Nil
  then have "log_size s = 0" using holds_size [OF assms(2)] by simp
  then show ?thesis by (simp add: find_last_block_def bindP_def asks_def sdb_size_eq ret_def last_end_def Nil)
next
  case (snoc es e)
  have size: "log_size s = entries_len E (es @ [e])" using holds_size [OF assms(2)] snoc by simp
  have ge: "14 \<le> log_size s" using entry_len_pos [of E e] size by simp
  have us: "unat (sdb_size s) = log_size s" using assms(3) by (simp add: sdb_size_eq unat_small)
  have at8: "unat (sdb_size s - 8) = entries_len E (es @ [e]) - 8"
    using us ge size by (subst unat_sub) (simp_all add: word_le_nat_alt)
  have big: "\<not> sdb_size s < 8" using us ge by (simp add: word_less_nat_alt)
  have log: "lg_log lg = (es @ [e]) @ []" using snoc by simp
  let ?v = "unat (sdb_size s - 8)"
  obtain s1 where s1: "read_le (sdb_size s - 8) 8 ?v s = (Inr (8, entries_len E es), s1)"
    using read_previous [OF assms(2,3) log at8, of ?v] by (cases "read_le (sdb_size s - 8) 8 ?v s") auto
  have st1: "still s1 = still s" using read_le_still [of "sdb_size s - 8" 8 ?v s] s1 by simp
  note h1 = holds_same [OF st1 assms(2)] and lim1 = assms(3) [folded log_size_still [OF st1]]
  have ue: "unat (of_nat (entries_len E es) :: u64) = entries_len E es"
    using size assms(3) by (intro unat_small) simp
  have "entry_at E 0 (lg_log lg) (unat (of_nat (entries_len E es) :: u64)) = Some e"
    unfolding ue log by (rule entry_at_middle)
  from get_record_ok [OF assms(1) h1 lim1 this, of state_record_new]
  obtain s2 where s2: "get_record E (of_nat (entries_len E es)) state_record_new s1 = (Inr (of_nat (entry_len E e), entry_at_pos E (entries_len E es) e), s2)"
    by (cases "get_record E (of_nat (entries_len E es)) state_record_new s1") (auto simp: ue)
  have st2: "still s2 = still s1" using get_record_still [of E "of_nat (entries_len E es)" state_record_new s1] s2 by simp
  note h2 = holds_same [OF st2 h1] and lim2 = lim1 [folded log_size_still [OF st2]]
  obtain r' s' where loop: "last_block_loop E (of_nat (entries_len E es)) (entry_at_pos E (entries_len E es) e) s2 = Some (Inr r', s')"
    and r': "case List.find is_end (rev (es @ [e])) of
         Some e0 \<Rightarrow> (\<exists>p. r' = entry_at_pos E p e0) \<and> entry_len E e0 < log_limit | None \<Rightarrow> sr_id r' \<noteq> end_block_id"
    using last_block_loop_ok [OF assms(1) h2 lim2 log] by blast
  have run: "find_last_block E s = (if sr_id r' = end_block_id then
         bindP (liftE (cast_record (e_end_block E) end_block_id r')) (\<lambda>eb. ret (eb_blk eb)) else ret block_new) s'"
    using big s1 s2 loop by (simp add: find_last_block_def bindP_def asks_def loopP_def Let_def)
  show ?thesis
  proof (cases "List.find is_end (rev (es @ [e]))")
    case None
    then show ?thesis using r' by (simp add: run last_end_def snoc ret_def)
  next
    case (Some e0)
    then have "is_end e0" by (rule find_SomeD)
    then obtain b where b: "e0 = End b" by (auto simp: is_end_def split: entry.splits)
    then obtain p where "r' = entry_at_pos E p (End b)" "entry_len E (End b) < log_limit" using r' Some by auto
    then show ?thesis using Some b cast_entry(4) [OF assms(1)] by (simp add: run last_end_def snoc ret_def)
  qed
qed

theorem find_last_block_finds_witness:
  "fst (find_last_block raw_env sample_file_db) = Inr block_new"
proof -
  let ?lg = "\<lparr>lg_log = [Start \<lparr>st_trx_hash = 3, st_utc_time = 4\<rparr>], lg_names = (\<lambda>_. None), lg_accts = (\<lambda>_. None)\<rparr>"
  have h: "holds raw_env (\<lambda>es. es) ?lg sample_file_db"
    unfolding sample_file_db_def
    by (rule holds_DbI [where ?es1.0 = "[]" and es = "[Start \<lparr>st_trx_hash = 3, st_utc_time = 4\<rparr>]" and nm = "[]" and tm = "[]"])
      (simp_all add: kv_rep_def kv_repr_def fun_eq_iff over_def index_ok_def)
  have "log_size sample_file_db < log_limit"
    using holds_size [OF h] by (simp add: entry_len_def state_record_of_def length_lay_structs log_limit_def)
  from find_last_block_finds [OF raw_env_laws h this] show ?thesis by (simp add: last_end_def is_end_def)
qed

lemma map_range_keys: "map_range x e = Inr ks \<Longrightarrow> set ks \<subseteq> fst ` set x"
proof (induction x e arbitrary: ks rule: map_range.induct)
  case (1 x e)
  show ?case
  proof (cases "length x = length e")
    case True
    then show ?thesis using 1(2) map_range.simps [of x e] by simp
  next
    case False
    then obtain a x' where x: "x = a # x'" using 1(2) map_range.simps [of x e] by (cases x) simp_all
    obtain ks' where ks': "map_range x' e = Inr ks'" "ks = fst a # ks'"
      using 1(2) False map_range.simps [of x e] x by (cases "map_range x' e") auto
    then show ?thesis using 1(1) [OF False x] x by auto
  qed
qed

lemma sorted_distinct_adj: "sorted xs \<Longrightarrow> distinct_adj xs \<Longrightarrow> distinct xs"
proof (induction xs rule: induct_list012)
  case (3 x y zs)
  then have "x < y" and "\<forall>z \<in> set zs. y \<le> z" by (auto simp: distinct_adj_Cons)
  then show ?case using 3 by (auto simp: distinct_adj_Cons)
qed simp_all

lemma sort_unique_ok: "sorted (sort_unique xs)" "distinct (sort_unique xs)" "set (sort_unique xs) = set xs"
  by (simp_all add: sort_unique_def sorted_distinct_adj)

text \<open>Queries. The names \<open>query_names\<close> of a transaction returns are sorted and without duplicates, at most
  \<open>limit\<close> of them, and each was returned by its base or is in its own map.\<close>

theorem query_names_trx_ok:
  assumes "query_names E first upto_n limit (Trx b l) = Inr names"
  shows "sorted names \<and> distinct names \<and> length names \<le> unat limit
    \<and> (\<forall>n \<in> set names. n \<in> fst ` set (last_name_edit_map l)
         \<or> (\<exists>b' ns. b = Some b' \<and> query_names E first upto_n limit b' = Inr ns \<and> n \<in> set ns))"
proof -
  let ?base = "case b of Some b \<Rightarrow> query_names E first upto_n limit b | None \<Rightarrow> Inr []"
  obtain base own where base: "?base = Inr base"
    and own: "map_range (om_lower_bound first (last_name_edit_map l)) (om_upper_bound upto_n (last_name_edit_map l)) = Inr own"
    and names: "names = sort_unique (if length (base @ own) > unat limit then take (unat limit) (base @ own) else base @ own)"
    using assms by (auto simp: Let_def split: sum.splits)
  let ?xs = "if length (base @ own) > unat limit then take (unat limit) (base @ own) else base @ own"
  have "set own \<subseteq> fst ` set (last_name_edit_map l)"
    using map_range_keys [OF own] set_dropWhileD by (fastforce simp: om_lower_bound_def)
  moreover have "set names \<subseteq> set base \<union> set own"
    using set_take_subset [of "unat limit" "base @ own"] by (auto simp: names sort_unique_def)
  moreover have "\<exists>b' ns. b = Some b' \<and> query_names E first upto_n limit b' = Inr ns \<and> n \<in> set ns" if "n \<in> set base" for n
    using that base by (cases b) auto
  moreover have "length names \<le> unat limit"
    using remdups_adj_length [of "sort ?xs"] by (simp add: names sort_unique_def split: if_splits)
  moreover have "sorted names" "distinct names"
    by (simp_all add: names sort_unique_ok)
  ultimately show ?thesis by blast
qed

theorem query_names_trx_ok_witness:
  "sorted [''A'', ''B''] \<and> query_names raw_env ''A'' ''B'' 5
     (Trx None \<lparr>local_changes = [], last_transfer_map = [], last_name_edit_map = [(''A'', 0), (''B'', 1), (''C'', 2)]\<rparr>) = Inr [''A'', ''B'']"
proof -
  have q: "query_names raw_env ''A'' ''B'' 5
     (Trx None \<lparr>local_changes = [], last_transfer_map = [], last_name_edit_map = [(''A'', 0), (''B'', 1), (''C'', 2)]\<rparr>) = Inr [''A'', ''B'']"
    by (simp add: om_lower_bound_def om_upper_bound_def map_range.simps sort_unique_def)
  show ?thesis using query_names_trx_ok [OF q] q by blast
qed

end
