(* ===== verification/BlockChain.thy ===== *)
theory BlockChain
  imports Types
begin

text \<open>
  libs/gpm/block_chain/block.cpp: the hash target, the validation of a chain and the search for
  a nonce. A \<open>bigint\<close> (libs/gpm/math/bigint.hpp, over OpenSSL) is a natural number; the order of
  hashes is the third-party \<open>e_hash_greater\<close> and \<open>e_hash_less\<close>, and \<open>hash_order\<close> says that it is
  the order of their bytes. Reading a chain past its end is where the model stops.
\<close>

section \<open>Hashes as numbers\<close>

type_synonym bigint = nat

definition to_bigint :: "sha1 \<Rightarrow> bigint" where
  "to_bigint hc = be_val (sha1_to_bytes hc)"

fun num_bits :: "bigint \<Rightarrow> nat" where
  \<comment> \<open>\<open>BN_num_bits\<close>, the \<open>log2\<close> of the class\<close>
  "num_bits n = (if n = 0 then 0 else Suc (num_bits (n div 2)))"

declare num_bits.simps [simp del]

definition pack_bigint :: "bigint \<Rightarrow> bytes" where
  \<comment> \<open>\<open>operator<<\<close>: the big-endian bytes without leading zeros\<close>
  "pack_bigint n = be_bytes ((num_bits n + 7) div 8) n"

definition sha1_of_bytes :: "bytes \<Rightarrow> sha1" where
  "sha1_of_bytes bs = of_nat (be_val bs)"

definition calc_max_hash :: sha1 where
  "calc_max_hash = sha1_of_bytes (replicate 2 0 @ replicate 18 0xff)"

definition get_max_hash :: sha1 where
  "get_max_hash = calc_max_hash"

section \<open>The hash target\<close>

definition block_window :: nat where "block_window = 30"
definition seconds_per_block :: u32 where "seconds_per_block = 15"

fun target_loop :: "'d env \<Rightarrow> block_chain \<Rightarrow> nat \<Rightarrow> nat \<Rightarrow> sha1 \<Rightarrow> sha1" where
  \<comment> \<open>\<open>for( i = index; i > 0; --i )\<close>\<close>
  "target_loop E bc 0 c m = m"
| "target_loop E bc (Suc i) c m =
     (let m = (if e_hash_greater E (blk_prev_block (bc ! Suc i)) m then blk_prev_block (bc ! Suc i) else m);
          c = c + 1
      in if c = block_window then m else target_loop E bc i c m)"

definition scale_target :: "'d env \<Rightarrow> sha1 \<Rightarrow> sha1" where
  \<comment> \<open>257/256 of the largest hash, at most the maximum\<close>
  "scale_target E m =
     (let n = (to_bigint m * 257) div 256;
          dat = pack_bigint n;
          m = (if length dat \<le> 20 then sha1_of_bytes (replicate (20 - length dat) 0 @ dat) else m)
      in if e_hash_greater E m get_max_hash then get_max_hash else m)"

definition calculate_hash_target :: "'d env \<Rightarrow> block_chain \<Rightarrow> u32 \<Rightarrow> exn + sha1" where
  "calculate_hash_target E bc index =
     (let index = (if index = -1 then of_nat (length bc) - 1 else index) in
      if index = 0 then Inr get_max_hash
      else if length bc \<le> unat index then Inl (Undefined_Behaviour ''bc[index]'')
      else Inr (scale_target E (target_loop E bc (unat index) 1 (e_hash_block E (bc ! unat index)))))"

primrec difficulty_loop :: "'d env \<Rightarrow> block_chain \<Rightarrow> u32 list \<Rightarrow> 64 word \<Rightarrow> exn + 64 word" where
  "difficulty_loop E bc [] d = Inr d"
| "difficulty_loop E bc (i # is) d =
     (case calculate_hash_target E bc i of
        Inl e \<Rightarrow> Inl e
      | Inr t \<Rightarrow> difficulty_loop E bc is (d + (160 - of_nat (num_bits (to_bigint t)))))"

definition calculate_difficulty :: "'d env \<Rightarrow> block_chain \<Rightarrow> exn + 64 word" where
  "calculate_difficulty E bc = difficulty_loop E bc (map of_nat [0..<length bc]) 1"

section \<open>Validation\<close>

text \<open>
  \<open>validate\<close>. The variable \<open>prev_time\<close> stays 0. When the first block does not follow the zero
  hash, the message that reports it reads \<open>bc[i-1]\<close>, which is before the chain.
\<close>

function validate_loop :: "'d env \<Rightarrow> block_chain \<Rightarrow> nat \<Rightarrow> sha1 \<Rightarrow> exn + bool" where
  "validate_loop E bc i prev_hash =
     (if length bc \<le> i then Inr True
      else
        let prev_time = 0; b = bc ! i in
        if blk_utc_time b - prev_time < seconds_per_block then Inr False
        else if blk_prev_block b \<noteq> prev_hash then
          (if i = 0 then Inl (Undefined_Behaviour ''bc[i-1]'') else Inr False)
        else
          let cur_hash = e_hash_block E b in
          (case calculate_hash_target E bc (of_nat i) of
             Inl e \<Rightarrow> Inl e
           | Inr hash_target \<Rightarrow>
               if e_hash_greater E cur_hash hash_target then Inr False
               else validate_loop E bc (Suc i) cur_hash))"
  by pat_completeness auto

termination
  by (relation "measure (\<lambda>(E, bc, i, prev_hash). length bc - i)") auto

declare validate_loop.simps [simp del]

definition validate :: "'d env \<Rightarrow> block_chain \<Rightarrow> exn + bool" where
  \<comment> \<open>\<open>bc.size() < 0\<close> is never true\<close>
  "validate E bc = validate_loop E bc 0 0"

definition dump_chain :: "'d env \<Rightarrow> block_chain \<Rightarrow> exn + unit" where
  \<comment> \<open>\<open>dump\<close> without its output\<close>
  "dump_chain E bc =
     (case calculate_difficulty E bc of Inl e \<Rightarrow> Inl e
      | Inr d \<Rightarrow> (case validate E bc of Inl e \<Rightarrow> Inl e | Inr v \<Rightarrow> Inr ()))"

section \<open>Generating a block\<close>

function generate_loop :: "'d env \<Rightarrow> sha1 \<Rightarrow> u64 \<Rightarrow> block \<Rightarrow> sha1 \<Rightarrow> block \<times> sha1" where
  "generate_loop E target stop b h =
     (if e_hash_greater E h target \<and> blk_nonce b < stop then
        let b = b\<lparr>blk_nonce := blk_nonce b + 1\<rparr> in
        generate_loop E target stop b (e_hash_block E b)
      else (b, h))"
  by pat_completeness auto

termination
proof (relation "measure (\<lambda>(E, target, stop, b, h). unat stop - unat (blk_nonce b))", goal_cases)
  case (2 E target stop b h x)
  then have lt: "unat (blk_nonce b) < unat stop" by (simp add: word_less_nat_alt)
  then have "unat (blk_nonce b + 1) = Suc (unat (blk_nonce b))"
    using unat_add_u64 [of "blk_nonce b" 1] unsigned_less [where 'a = nat, of stop] by simp
  then show ?case using 2 lt by simp
qed simp

declare generate_loop.simps [simp del]

definition generate :: "'d env \<Rightarrow> block \<Rightarrow> sha1 \<Rightarrow> u64 \<Rightarrow> u64 \<Rightarrow> bool \<times> block" where
  "generate E b target start stop =
     (let b = b\<lparr>blk_nonce := start\<rparr>;
          (b, h) = generate_loop E target stop b (e_hash_block E b)
      in (e_hash_less E h target, b))"

section \<open>Loading and saving\<close>

definition load_chain :: "block_chain codec \<Rightarrow> bytes option \<Rightarrow> block_chain \<Rightarrow> (exn + bool) \<times> block_chain" where
  \<comment> \<open>\<open>load\<close>: the file on disk, if there is one, and the chain of the caller\<close>
  "load_chain c disk bc =
     (case disk of
        None \<Rightarrow> (Inr False, bc)
      | Some d \<Rightarrow>
          (case unpack c d of
             Inl e \<Rightarrow> (Inl e, bc)
           | Inr bc' \<Rightarrow> (Inr True, bc')))"

definition save_chain :: "block_chain codec \<Rightarrow> block_chain \<Rightarrow> bytes" where
  \<comment> \<open>\<open>save\<close>: what it leaves in the file, when the file can be opened\<close>
  "save_chain c bc = pack c bc"

definition generate_address :: "'d env \<Rightarrow> public_key \<Rightarrow> string" where
  \<comment> \<open>for the key pair the third-party \<open>generate_keys\<close> made\<close>
  "generate_address E pub = encode_address E pub"

end
