(* ===== verification/BlockChainProofs.thy ===== *)
theory BlockChainProofs
  imports BlockChain RawLayout
begin

text \<open>
  What the hash target, the validation and the generation of blocks guarantee. \<open>hash_order\<close> is
  the documented order of hashes: that of their bytes, read as one big-endian number.
\<close>

definition hash_order :: "'d env \<Rightarrow> bool" where
  "hash_order E \<longleftrightarrow> (\<forall>a b. e_hash_greater E a b = (to_bigint a > to_bigint b)) \<and> (\<forall>a b. e_hash_less E a b = (to_bigint a < to_bigint b))"

section \<open>Numbers and hashes\<close>

lemma to_bigint_eq: "to_bigint h = unat h"
proof -
  have "unat h < 256 ^ 20" using unsigned_less [where 'a = nat, of h] by simp
  then show ?thesis by (simp add: to_bigint_def sha1_to_bytes_def be_val_be_bytes)
qed

lemma hash_order_word: "hash_order E \<Longrightarrow> e_hash_greater E a b = (b < a) \<and> e_hash_less E a b = (a < b)"
  by (simp add: hash_order_def to_bigint_eq word_less_nat_alt)

lemma num_bits_le: "num_bits n \<le> k \<longleftrightarrow> n < 2 ^ k"
proof (induction k arbitrary: n)
  case 0
  then show ?case by (subst num_bits.simps) simp
next
  case (Suc k)
  then show ?case
    by (subst num_bits.simps) (auto simp: less_mult_imp_div_less mult.commute div_less_iff_less_mult)
qed

lemma num_bits_bound: "n < 2 ^ num_bits n"
  using num_bits_le [of n "num_bits n"] by simp

lemma pack_bigint_val: "be_val (pack_bigint n) = n"
proof -
  have "n < 2 ^ (8 * ((num_bits n + 7) div 8))"
    by (rule order_less_le_trans [OF num_bits_bound]) (rule power_increasing, simp_all)
  then have "n < 256 ^ ((num_bits n + 7) div 8)" by (simp add: power_mult)
  then show ?thesis by (simp add: pack_bigint_def be_val_be_bytes)
qed

lemma length_pack_bigint: "length (pack_bigint n) \<le> 20 \<longleftrightarrow> n < 2 ^ 160"
proof -
  have "length (pack_bigint n) \<le> 20 \<longleftrightarrow> num_bits n \<le> 160" by (auto simp: pack_bigint_def)
  then show ?thesis by (simp only: num_bits_le)
qed

lemma le_val_ones: "le_val (replicate n 0xff) + 1 = 256 ^ n"
  by (induction n) simp_all

lemma max_hash_val: "unat get_max_hash = 2 ^ 144 - 1"
proof -
  have "be_val (replicate 2 0 @ replicate 18 0xff) = 256 ^ 18 - 1"
    using le_val_ones [of 18] by (simp add: be_val_def le_val_append)
  then have "unat get_max_hash = (256 ^ 18 - 1) mod 2 ^ 160"
    by (simp only: get_max_hash_def calc_max_hash_def sha1_of_bytes_def unat_of_nat) simp
  then show ?thesis by simp
qed

section \<open>The hash target\<close>

lemma scale_target_value:
  assumes o: "hash_order E"
  shows "scale_target E m = min get_max_hash (if unat m * 257 div 256 < 2 ^ 160 then of_nat (unat m * 257 div 256) else m)"
proof -
  let ?n = "unat m * 257 div 256"
  have "sha1_of_bytes (replicate k 0 @ pack_bigint ?n) = of_nat ?n" for k
    by (simp add: sha1_of_bytes_def be_val_pad pack_bigint_val)
  then show ?thesis
    by (auto simp: scale_target_def Let_def to_bigint_eq length_pack_bigint hash_order_word [OF o] min_def)
qed

lemma scale_target_ge:
  assumes "hash_order E"
  shows "min get_max_hash m \<le> scale_target E m" and "scale_target E m \<le> get_max_hash"
proof -
  let ?n = "unat m * 257 div 256"
  have "m \<le> of_nat ?n" if "?n < 2 ^ 160"
    using that by (simp add: word_le_nat_alt unat_of_nat)
  then show "min get_max_hash m \<le> scale_target E m"
    by (auto simp: scale_target_value [OF assms] min_le_iff_disj)
  show "scale_target E m \<le> get_max_hash" by (simp add: scale_target_value [OF assms])
qed

lemma target_loop_ge:
  assumes o: "hash_order E"
  shows "m \<le> target_loop E bc i c m"
proof (induction i arbitrary: c m)
  case (Suc i)
  let ?m = "if e_hash_greater E (blk_prev_block (bc ! Suc i)) m then blk_prev_block (bc ! Suc i) else m"
  have "m \<le> ?m" by (auto simp: hash_order_word [OF o])
  also have "?m \<le> target_loop E bc (Suc i) c m" using Suc [of ?m "c + 1"] by (simp add: Let_def)
  finally show ?case .
qed simp

lemma calculate_hash_target_cases:
  assumes "length bc < 2 ^ 32" and "i < length bc"
  shows "calculate_hash_target E bc (of_nat i) =
    (if i = 0 then Inr get_max_hash else Inr (scale_target E (target_loop E bc i 1 (e_hash_block E (bc ! i)))))"
proof -
  have u: "unat (of_nat i :: u32) = i" using assms by (simp add: unat_of_nat_u32)
  have "(of_nat i :: u32) \<noteq> -1 \<or> of_nat (length bc) - 1 = (of_nat i :: u32)"
  proof (cases "(of_nat i :: u32) = -1")
    case True
    then have "i = unat (-1 :: u32)" using u by simp
    then have "i = 2 ^ 32 - 1" by (simp add: unsigned_minus_1_eq_mask mask_eq_exp_minus_1)
    then show ?thesis using assms by simp
  qed simp
  moreover have "(of_nat i :: u32) = 0 \<longleftrightarrow> i = 0" using u by (metis unat_0 unat_eq_zero)
  ultimately show ?thesis using u assms(2) by (auto simp: calculate_hash_target_def Let_def)
qed

lemma calculate_hash_target_le:
  assumes "hash_order E" and "length bc < 2 ^ 32" and "i < length bc"
  shows "\<exists>t. calculate_hash_target E bc (of_nat i) = Inr t \<and> t \<le> get_max_hash"
  using calculate_hash_target_cases [OF assms(2,3), of E] scale_target_ge [OF assms(1), of "target_loop E bc i 1 (e_hash_block E (bc ! i))"]
  by (cases "i = 0") auto

lemma hash_target_admits:
  assumes "hash_order E" and "length bc < 2 ^ 32" and "i < length bc"
  shows "\<exists>t. calculate_hash_target E bc (of_nat i) = Inr t \<and> t \<le> get_max_hash
    \<and> (e_hash_greater E (e_hash_block E (bc ! i)) t \<longleftrightarrow> get_max_hash < e_hash_block E (bc ! i))"
proof (cases "i = 0")
  case True
  then show ?thesis
    using calculate_hash_target_cases [OF assms(2,3), of E] by (simp add: hash_order_word [OF assms(1)])
next
  case False
  let ?h = "e_hash_block E (bc ! i)"
  let ?t = "scale_target E (target_loop E bc i 1 ?h)"
  have "min get_max_hash ?h \<le> ?t" "?t \<le> get_max_hash"
    using scale_target_ge [OF assms(1), of "target_loop E bc i 1 ?h"] target_loop_ge [OF assms(1), of ?h bc i 1]
    by (auto simp: min_le_iff_disj intro: order.trans)
  then show ?thesis
    using False calculate_hash_target_cases [OF assms(2,3), of E]
    by (auto simp: hash_order_word [OF assms(1)] min_le_iff_disj)
qed

text \<open>C26: The proof of work is no obstacle. The target of a block is at most the maximum hash, and because its
  computation starts from the block's own hash, a block after the first is above its target
  only if its hash is above the maximum: the difficulty the documentation describes (the hash
  must be below what the cluster can compute in a block interval) is never enforced.\<close>

theorem target_never_excludes:
  assumes "hash_order E" and "length bc < 2 ^ 32" and "i < length bc"
  shows "\<exists>t. calculate_hash_target E bc (of_nat i) = Inr t \<and> t \<le> get_max_hash
    \<and> (e_hash_greater E (e_hash_block E (bc ! i)) t \<longleftrightarrow> get_max_hash < e_hash_block E (bc ! i))"
  using hash_target_admits [OF assms] .

lemma raw_hash_order: "hash_order raw_env"
  by (simp add: hash_order_def to_bigint_eq raw_env_def word_less_nat_alt)

definition sample_chain :: block_chain where
  "sample_chain = [\<lparr>blk_prev_block = 0, blk_version = 0, blk_utc_time = 20, blk_state = 0, blk_nonce = 7\<rparr>,
     \<lparr>blk_prev_block = 7, blk_version = 0, blk_utc_time = 15, blk_state = 0, blk_nonce = 9\<rparr>]"

theorem target_never_excludes_witness:
  "\<exists>t. calculate_hash_target raw_env sample_chain 1 = Inr t \<and> t \<le> get_max_hash"
  using target_never_excludes [OF raw_hash_order, of sample_chain 1] by (auto simp: sample_chain_def)

section \<open>The window\<close>

definition window :: "nat \<Rightarrow> nat \<Rightarrow> nat set" where
  "window i k = {j. 0 < j \<and> j \<le> i \<and> i < j + k}"

lemma window_Suc: "0 < k \<Longrightarrow> window (Suc i) k = insert (Suc i) (window i (k - 1))"
  by (auto simp: window_def)

lemma window_0 [simp]: "window 0 k = {}" "window i 0 = {}" and finite_window [simp]: "finite (window i k)"
  by (auto simp: window_def)

lemma target_loop_max:
  assumes o: "hash_order E" and "c < block_window"
  shows "target_loop E bc i c m = Max (insert m ((\<lambda>j. blk_prev_block (bc ! j)) ` window i (block_window - c)))"
  using assms(2)
proof (induction i arbitrary: c m)
  case (Suc i)
  let ?p = "blk_prev_block (bc ! Suc i)" and ?f = "\<lambda>j. blk_prev_block (bc ! j)"
  have m: "(if e_hash_greater E ?p m then ?p else m) = max m ?p"
    by (auto simp: hash_order_word [OF o] max_def)
  have "Max (insert m (?f ` window (Suc i) (block_window - c)))
      = Max (insert (max m ?p) (?f ` window i (block_window - (c + 1))))" (is "_ = ?rhs")
  proof -
    have "window (Suc i) (block_window - c) = insert (Suc i) (window i (block_window - (c + 1)))"
      using Suc.prems window_Suc [of "block_window - c" i] by simp
    then have "?f ` window (Suc i) (block_window - c) = insert ?p (?f ` window i (block_window - (c + 1)))" by simp
    then show ?thesis
      by (cases "window i (block_window - (c + 1)) = {}") (simp_all add: max.assoc)
  qed
  moreover have "target_loop E bc (Suc i) c m = ?rhs"
  proof (cases "c + 1 = block_window")
    case False
    then have "c + 1 < block_window" using Suc.prems by simp
    then show ?thesis using False Suc.IH [of "c + 1" "max m ?p"] by (simp only: target_loop.simps m Let_def if_False)
  qed (simp add: m Let_def del: One_nat_def)
  ultimately show ?case by simp
qed simp

text \<open>The window. In a chain whose blocks follow each other, the number the target is computed from is
  the largest hash of the block and of up to 29 blocks before it, no more and no less.\<close>

theorem target_window:
  assumes o: "hash_order E" and i: "0 < i" "i < length bc" "length bc < 2 ^ 32"
    and links: "\<And>j. 0 < j \<Longrightarrow> j < length bc \<Longrightarrow> blk_prev_block (bc ! j) = e_hash_block E (bc ! (j - 1))"
  shows "calculate_hash_target E bc (of_nat i)
    = Inr (scale_target E (Max ((\<lambda>j. e_hash_block E (bc ! j)) ` {j. j \<le> i \<and> i < j + block_window})))"
proof -
  let ?h = "\<lambda>j. e_hash_block E (bc ! j)" and ?p = "\<lambda>j. blk_prev_block (bc ! j)"
  let ?W = "window i (block_window - 1)"
  have "?p ` ?W = ?h ` ((\<lambda>j. j - 1) ` ?W)"
    using i(2) links by (auto simp: window_def image_image intro!: image_cong)
  moreover have "insert i ((\<lambda>j. j - 1) ` ?W) = {j. j \<le> i \<and> i < j + block_window}"
  proof
    show "insert i ((\<lambda>j. j - 1) ` ?W) \<subseteq> {j. j \<le> i \<and> i < j + block_window}"
      by (auto simp: window_def block_window_def)
    show "{j. j \<le> i \<and> i < j + block_window} \<subseteq> insert i ((\<lambda>j. j - 1) ` ?W)"
    proof
      fix j assume "j \<in> {j. j \<le> i \<and> i < j + block_window}"
      then have "j = i \<or> Suc j \<in> ?W" by (auto simp: window_def block_window_def)
      then show "j \<in> insert i ((\<lambda>j. j - 1) ` ?W)" by (auto intro: image_eqI [of _ _ "Suc j"])
    qed
  qed
  ultimately have "insert (?h i) (?p ` ?W) = ?h ` {j. j \<le> i \<and> i < j + block_window}" by auto
  then show ?thesis
    using calculate_hash_target_cases [OF i(3,2), of E] i(1) target_loop_max [OF o, of 1 bc i "?h i"]
    by (simp add: block_window_def)
qed

theorem target_window_witness:
  "calculate_hash_target raw_env sample_chain (of_nat 1) = Inr (scale_target raw_env (Max ((\<lambda>j. e_hash_block raw_env (sample_chain ! j)) ` {j. j \<le> 1 \<and> 1 < j + block_window})))"
  by (rule target_window [OF raw_hash_order]) (auto simp: sample_chain_def raw_env_def less_Suc_eq)

section \<open>Validation\<close>

definition valid_block :: "'d env \<Rightarrow> block_chain \<Rightarrow> nat \<Rightarrow> sha1 \<Rightarrow> bool" where
  \<comment> \<open>what \<open>validate\<close> checks of one block\<close>
  "valid_block E bc i prev \<longleftrightarrow> seconds_per_block \<le> blk_utc_time (bc ! i) \<and> blk_prev_block (bc ! i) = prev
     \<and> (\<exists>t. calculate_hash_target E bc (of_nat i) = Inr t \<and> \<not> e_hash_greater E (e_hash_block E (bc ! i)) t)"

lemma validate_loop_True:
  "validate_loop E bc i prev = Inr True \<longleftrightarrow>
     (\<forall>j. i \<le> j \<and> j < length bc \<longrightarrow> valid_block E bc j (if j = i then prev else e_hash_block E (bc ! (j - 1))))"
proof (induction E bc i prev rule: validate_loop.induct)
  case (1 E bc i prev)
  show ?case
  proof (cases "length bc \<le> i")
    case True
    then show ?thesis by (auto simp: validate_loop.simps [of E bc i])
  next
    case False
    let ?all = "\<lambda>i prev. \<forall>j. i \<le> j \<and> j < length bc \<longrightarrow> valid_block E bc j (if j = i then prev else e_hash_block E (bc ! (j - 1)))"
    let ?h = "e_hash_block E (bc ! i)"
    have split: "?all i prev \<longleftrightarrow> valid_block E bc i prev \<and> ?all (Suc i) ?h"
    proof
      assume a: "?all i prev"
      have "valid_block E bc i prev" using a False spec [OF a, of i] by simp
      moreover have "?all (Suc i) ?h"
      proof (intro allI impI)
        fix j assume "Suc i \<le> j \<and> j < length bc"
        then show "valid_block E bc j (if j = Suc i then ?h else e_hash_block E (bc ! (j - 1)))"
          using spec [OF a, of j] by (cases "j = Suc i") auto
      qed
      ultimately show "valid_block E bc i prev \<and> ?all (Suc i) ?h" ..
    next
      assume a: "valid_block E bc i prev \<and> ?all (Suc i) ?h"
      show "?all i prev"
      proof (intro allI impI)
        fix j assume "i \<le> j \<and> j < length bc"
        then show "valid_block E bc j (if j = i then prev else e_hash_block E (bc ! (j - 1)))"
          using a spec [OF conjunct2 [OF a], of j] by (cases "j = i"; cases "j = Suc i") auto
      qed
    qed
    show ?thesis
    proof (cases "valid_block E bc i prev")
      case True
      then obtain t where t: "calculate_hash_target E bc (of_nat i) = Inr t" "\<not> e_hash_greater E ?h t"
        by (auto simp: valid_block_def)
      have v: "\<not> blk_utc_time (bc ! i) - 0 < seconds_per_block" "\<not> blk_prev_block (bc ! i) \<noteq> prev"
        using True by (simp_all add: valid_block_def not_less)
      have "validate_loop E bc i prev = validate_loop E bc (Suc i) ?h"
        using False v t by (subst validate_loop.simps) simp
      then show ?thesis
        using 1 [OF False refl refl v refl t] split True by simp
    next
      case inv: False
      then have "validate_loop E bc i prev \<noteq> Inr True"
        using False by (subst validate_loop.simps) (auto simp: valid_block_def Let_def not_less split: sum.split)
      then show ?thesis using split inv by simp
    qed
  qed
qed

text \<open>C27: Validation. A chain is valid exactly when the first block follows the zero hash, every other block
  names the hash of the block before it, no block is above its target, and every block's time
  is at least 15: not 15 seconds after the block before, as the documentation says. The empty
  chain is valid although the documentation asks for a block.\<close>

theorem validate_iff:
  "validate E bc = Inr True \<longleftrightarrow>
     (\<forall>i < length bc. valid_block E bc i (if i = 0 then 0 else e_hash_block E (bc ! (i - 1))))"
  unfolding validate_def validate_loop_True by auto

theorem validate_iff_witness: "validate raw_env [] = Inr True"
  using validate_iff [of raw_env "[]"] by simp

section \<open>Generating\<close>

lemma generate_loop_first:
  assumes "generate_loop E target stop b h = (b', h')" and "h = e_hash_block E b" and "hash_order E" and "blk_nonce b \<le> stop"
  shows "\<exists>n. blk_nonce b \<le> n \<and> n \<le> stop \<and> b' = b\<lparr>blk_nonce := n\<rparr> \<and> h' = e_hash_block E b'
    \<and> (\<forall>k. blk_nonce b \<le> k \<and> k < n \<longrightarrow> target < e_hash_block E (b\<lparr>blk_nonce := k\<rparr>)) \<and> (h' \<le> target \<or> n = stop)"
  using assms
proof (induction E target stop b h rule: generate_loop.induct)
  case (1 E target stop b h)
  show ?case
  proof (cases "e_hash_greater E h target \<and> blk_nonce b < stop")
    case False
    have "b' = b" "h' = h"
      using 1(2) unfolding generate_loop.simps [of E target stop b h] if_not_P [OF False] by simp_all
    moreover have "h \<le> target \<or> blk_nonce b = stop"
      using False 1(5) hash_order_word [OF 1(4)] by (auto simp: not_less)
    ultimately show ?thesis using 1(3,5) by (intro exI [of _ "blk_nonce b"]) (auto simp: not_le)
  next
    case True
    let ?b = "b\<lparr>blk_nonce := blk_nonce b + 1\<rparr>"
    have above: "target < h" using True hash_order_word [OF 1(4)] by simp
    have next_le: "blk_nonce ?b \<le> stop" using True by (simp add: inc_le)
    have run: "generate_loop E target stop ?b (e_hash_block E ?b) = (b', h')"
      using 1(2) True by (simp add: generate_loop.simps [of E target stop b h] Let_def)
    obtain n where n: "blk_nonce b + 1 \<le> n" "n \<le> stop" "b' = b\<lparr>blk_nonce := n\<rparr>" "h' = e_hash_block E b'"
      "\<And>k. blk_nonce b + 1 \<le> k \<Longrightarrow> k < n \<Longrightarrow> target < e_hash_block E (b\<lparr>blk_nonce := k\<rparr>)" "h' \<le> target \<or> n = stop"
      using 1(1) [OF True refl run refl 1(4) next_le] by auto
    have lt: "blk_nonce b < blk_nonce b + 1"
      using unat_add_u64 [of "blk_nonce b" 1] unsigned_less [where 'a = nat, of stop] True by (simp add: word_less_nat_alt)
    have "target < e_hash_block E (b\<lparr>blk_nonce := k\<rparr>)" if k: "blk_nonce b \<le> k" "k < n" for k
    proof (cases "k = blk_nonce b")
      case True
      then show ?thesis using above 1(3) by simp
    next
      case False
      then have "blk_nonce b + 1 \<le> k" using k(1) by (intro inc_le) simp
      then show ?thesis using n(5) k(2) by blast
    qed
    then show ?thesis using n lt by (intro exI [of _ n]) auto
  qed
qed

text \<open>C28: Search for a nonce. \<open>generate\<close> terminates, changes only the nonce, and leaves the first nonce from
  \<open>start\<close> on whose hash is not above the target, or \<open>stop\<close> if there is none before it; it
  returns true exactly when the hash is below the target. A hash equal to the target ends the
  search with false.\<close>

theorem generate_first:
  assumes "hash_order E" and "start \<le> stop"
  shows "\<exists>n. start \<le> n \<and> n \<le> stop \<and> snd (generate E b target start stop) = b\<lparr>blk_nonce := n\<rparr>
    \<and> (\<forall>k. start \<le> k \<and> k < n \<longrightarrow> target < e_hash_block E (b\<lparr>blk_nonce := k\<rparr>))
    \<and> (e_hash_block E (b\<lparr>blk_nonce := n\<rparr>) \<le> target \<or> n = stop)
    \<and> (fst (generate E b target start stop) \<longleftrightarrow> e_hash_block E (b\<lparr>blk_nonce := n\<rparr>) < target)"
proof -
  let ?b = "b\<lparr>blk_nonce := start\<rparr>"
  obtain b' h' where run: "generate_loop E target stop ?b (e_hash_block E ?b) = (b', h')" by fastforce
  obtain n where n: "start \<le> n" "n \<le> stop" "b' = b\<lparr>blk_nonce := n\<rparr>" "h' = e_hash_block E b'"
      "\<forall>k. start \<le> k \<and> k < n \<longrightarrow> target < e_hash_block E (b\<lparr>blk_nonce := k\<rparr>)" "h' \<le> target \<or> n = stop"
    using generate_loop_first [OF run refl assms(1)] assms(2) by auto
  have "generate E b target start stop = (h' < target, b')"
    using run hash_order_word [OF assms(1)] by (simp add: generate_def)
  then show ?thesis using n by (intro exI [of _ n]) auto
qed

theorem generate_first_witness:
  "\<exists>n. n \<le> 5 \<and> snd (generate raw_env block_new 3 0 5) = block_new\<lparr>blk_nonce := n\<rparr>"
  using generate_first [OF raw_hash_order, of 0 5 block_new 3] by auto

section \<open>Difficulty\<close>

lemma difficulty_loop_bounds:
  assumes o: "hash_order E" and len: "length bc < 2 ^ 32" and ks_ok: "\<forall>i \<in> set ks. i < length bc"
    and d: "unat d + 160 * length ks < 2 ^ 63"
  shows "\<exists>r. difficulty_loop E bc (map of_nat ks) d = Inr r
    \<and> unat d + 16 * length ks \<le> unat r \<and> unat r \<le> unat d + 160 * length ks"
  using ks_ok d
proof (induction ks arbitrary: d)
  case (Cons i ks)
  obtain t where t: "calculate_hash_target E bc (of_nat i) = Inr t" "t \<le> get_max_hash"
    using calculate_hash_target_le [OF o len, of i] Cons.prems(1) by auto
  have "to_bigint t < 2 ^ 144" using t(2) by (simp add: to_bigint_eq word_le_nat_alt max_hash_val)
  then have nb: "num_bits (to_bigint t) \<le> 144" by (simp only: num_bits_le)
  let ?c = "160 - of_nat (num_bits (to_bigint t)) :: 64 word"
  have c: "unat ?c = 160 - num_bits (to_bigint t)"
    using nb by (subst unat_sub) (simp_all add: word_le_nat_alt unat_of_nat_u64)
  have "unat (d + ?c) = unat d + unat ?c" using Cons.prems(2) c by (intro unat_add_u64) simp
  then have dc: "unat d + 16 \<le> unat (d + ?c)" "unat (d + ?c) \<le> unat d + 160" using c nb by simp_all
  obtain r where r: "difficulty_loop E bc (map of_nat ks) (d + ?c) = Inr r"
    "unat (d + ?c) + 16 * length ks \<le> unat r" "unat r \<le> unat (d + ?c) + 160 * length ks"
    using Cons.IH [of "d + ?c"] Cons.prems dc by auto
  then show ?case using t dc by (intro exI [of _ r]) simp
qed simp

text \<open>Difficulty of a chain. The computation never leaves the chain, and it adds for each block between 16
  (the target is the maximum hash) and 160.\<close>

theorem difficulty_bounds:
  assumes "hash_order E" and "length bc < 2 ^ 32"
  shows "\<exists>r. calculate_difficulty E bc = Inr r
    \<and> 1 + 16 * length bc \<le> unat r \<and> unat r \<le> 1 + 160 * length bc"
  using difficulty_loop_bounds [OF assms, of "[0..<length bc]" 1] assms(2)
  by (simp add: calculate_difficulty_def)

theorem difficulty_bounds_witness:
  "\<exists>r. calculate_difficulty raw_env sample_chain = Inr r \<and> 33 \<le> unat r \<and> unat r \<le> 321"
  using difficulty_bounds [OF raw_hash_order, of sample_chain] by (simp add: sample_chain_def)

section \<open>Addresses\<close>

text \<open>C29: Addresses. The address of a public key passes the check of addresses and is never the text ERROR the code
  falls back to, provided base 64 decodes what it encoded.\<close>

theorem encode_address_valid:
  assumes "\<And>b. e_base64_decode E (e_base64_encode E b) = b"
  shows "validate_address_format E (encode_address E pub)
    \<and> (\<exists>b. length b = 20 \<and> b ! 0 = 0xff \<and> encode_address E pub = e_base64_encode E b
         \<and> drop 4 b = drop 4 (sha1_to_bytes (e_hash_pub E pub)))"
proof -
  have v: "validate_address_format E (encode_address E pub)" by (rule encode_address_format [OF assms])
  let ?h = "sha1_to_bytes (e_hash_pub E pub)"
  let ?v = "le_bytes 4 (unat (e_super_fast_hash E (drop 4 ?h)))"
  let ?b = "(?v @ drop 4 ?h)[0 := 0xff]"
  have len: "length ?h = 20" by (simp add: sha1_to_bytes_def)
  have d: "?b = ?v[0 := 0xff] @ drop 4 ?h" by (simp add: list_update_append1 del: le_bytes.simps)
  have fmt: "validate_address_format E (e_base64_encode E ?b)"
    unfolding validate_address_format_def assms Let_def d using len by simp
  then have "encode_address E pub = e_base64_encode E ?b" by (simp add: encode_address_def Let_def)
  moreover have "length ?b = 20" "?b ! 0 = 0xff" "drop 4 ?b = drop 4 ?h"
    unfolding d using len by (simp_all add: nth_append)
  ultimately show ?thesis using v by blast
qed

theorem encode_address_valid_witness:
  "validate_address_format raw_env (encode_address raw_env 7)"
  by (rule encode_address_valid [of raw_env 7, THEN conjunct1]) (simp add: raw_env_def comp_def)

end
