(* ===== verification/Node.thy ===== *)
theory Node
  imports StateOps BlockChain "HOL-Library.Product_Lexorder"
begin

text \<open>
  libs/gpm/node/node.hpp and node.cpp: a node holds the block chain, the state database with two
  transactions above it (the head block, and the block that is being generated), the database
  of known transactions and the database of block states.

  The members of \<open>node_private\<close> are the fields of a record. \<open>m_state_db\<close>, \<open>m_head_trx\<close> and
  \<open>m_gen_trx\<close> form one chain: the base of \<open>m_gen_trx\<close> is \<open>m_head_trx\<close>, whose base is \<open>m_state_db\<close>,
  so \<open>States db h g\<close> holds the database and the layers of the two transactions. A signal the node
  emits is an entry of \<open>n_events\<close>; a reading of \<open>utc_clock()\<close> is the next one of \<open>n_clock\<close>. The
  thread that searches for a nonce is \<open>n_worker\<close>; what it does is the function \<open>mine\<close>, and what
  it posts to the main thread is handled by \<open>generated_block\<close>. A group of transactions is an
  \<open>int\<close> of the code; only 0 to 3 are used, so a word in the order of unsigned numbers serves.
\<close>

section \<open>The state of a node\<close>

datatype event =
    New_Transaction signed_transaction
  | New_Block full_block_state
  | Generation_State_Changed string bool

datatype 'd states =
    No_State \<comment> \<open>\<open>m_state_db\<close> is null\<close>
  | State_Not_Open \<comment> \<open>\<open>m_state_db\<close> is set, the transactions above it are null\<close>
  | States "'d sdb" layer layer

definition pending_trx :: u32 where "pending_trx = 0"
definition head_trx :: u32 where "head_trx = 1"
definition applied_trx :: u32 where "applied_trx = 2"

record 'd node =
  n_chain :: block_chain
  n_states :: "'d states"
  n_hashrate :: u64
  n_gen_name :: string
  n_gen_enabled :: bool
  n_trx_db :: "'d option"
  n_block_state_db :: "'d option"
  n_hash_target :: sha1
  n_generating :: bool
  n_stop_gen :: bool
  n_gen_stopped :: bool
  n_worker :: "(block \<times> sha1) option"
  n_saved :: "bytes option" \<comment> \<open>the file \<open>blockchain\<close>\<close>
  n_events :: "event list"
  n_clock :: "nat \<Rightarrow> u64"
  n_ticks :: nat

definition node_new :: "u64 \<Rightarrow> (nat \<Rightarrow> u64) \<Rightarrow> 'd node" where
  \<comment> \<open>the constructor; the hash rate is what \<open>calculate_hash_per_sec\<close> measured\<close>
  "node_new hashrate clock =
     \<lparr>n_chain = [], n_states = No_State, n_hashrate = hashrate, n_gen_name = [], n_gen_enabled = False,
      n_trx_db = None, n_block_state_db = None, n_hash_target = 0, n_generating = False, n_stop_gen = False,
      n_gen_stopped = True, n_worker = None, n_saved = None, n_events = [], n_clock = clock, n_ticks = 0\<rparr>"

section \<open>Access to the members\<close>

definition tryP :: "('s, 'a) prog \<Rightarrow> ('s, unit) prog" where
  \<comment> \<open>\<open>try { ... } catch ( const boost::exception& )\<close> with a handler that only prints\<close>
  "tryP f s =
     (case f s of
        (Inl e, s') \<Rightarrow> if catchable e then (Inr (), s') else (Inl e, s')
      | (Inr x, s') \<Rightarrow> (Inr (), s'))"

definition utc_clock :: "('d node, u64) prog" where
  "utc_clock s = (Inr (n_clock s (n_ticks s)), s\<lparr>n_ticks := Suc (n_ticks s)\<rparr>)"

definition on_trx_db :: "('d, 'a) prog \<Rightarrow> ('d node, 'a) prog" where
  "on_trx_db f s =
     (case n_trx_db s of
        None \<Rightarrow> (Inl (Undefined_Behaviour ''null m_trx_db''), s)
      | Some d \<Rightarrow> (case f d of (r, d) \<Rightarrow> (r, s\<lparr>n_trx_db := Some d\<rparr>)))"

definition on_block_state_db :: "('d, 'a) prog \<Rightarrow> ('d node, 'a) prog" where
  "on_block_state_db f s =
     (case n_block_state_db s of
        None \<Rightarrow> (Inl (Undefined_Behaviour ''null m_block_state_db''), s)
      | Some d \<Rightarrow> (case f d of (r, d) \<Rightarrow> (r, s\<lparr>n_block_state_db := Some d\<rparr>)))"

definition on_state :: "('d sdb, 'a) prog \<Rightarrow> ('d node, 'a) prog" where
  \<comment> \<open>a call on \<open>m_state_db\<close>\<close>
  "on_state f s =
     (case n_states s of
        States db h g \<Rightarrow> (case f db of (r, db) \<Rightarrow> (r, s\<lparr>n_states := States db h g\<rparr>))
      | _ \<Rightarrow> (Inl (Undefined_Behaviour ''m_state_db is not open''), s))"

definition on_head :: "('d sdb, 'a) prog \<Rightarrow> ('d node, 'a) prog" where
  \<comment> \<open>a call on \<open>m_head_trx\<close>\<close>
  "on_head f s =
     (case n_states s of
        States db h g \<Rightarrow>
          (case f (Trx (Some db) h) of
             (r, Trx (Some db) h) \<Rightarrow> (r, s\<lparr>n_states := States db h g\<rparr>)
           | (r, _) \<Rightarrow> (r, s))
      | _ \<Rightarrow> (Inl (Undefined_Behaviour ''null m_head_trx''), s))"

definition on_gen :: "('d sdb, 'a) prog \<Rightarrow> ('d node, 'a) prog" where
  \<comment> \<open>a call on \<open>m_gen_trx\<close>\<close>
  "on_gen f s =
     (case n_states s of
        States db h g \<Rightarrow>
          (case f (Trx (Some (Trx (Some db) h)) g) of
             (r, Trx (Some (Trx (Some db) h)) g) \<Rightarrow> (r, s\<lparr>n_states := States db h g\<rparr>)
           | (r, _) \<Rightarrow> (r, s))
      | _ \<Rightarrow> (Inl (Undefined_Behaviour ''null m_gen_trx''), s))"

definition set_head :: "layer \<Rightarrow> ('d node, unit) prog" where
  \<comment> \<open>\<open>m_head_trx = trx\<close> with \<open>m_state_db\<close> as its base, and a new \<open>m_gen_trx\<close> above it\<close>
  "set_head l = modify (\<lambda>s. case n_states s of States db h g \<Rightarrow> s\<lparr>n_states := States db l empty_layer\<rparr> | _ \<Rightarrow> s)"

definition base_of :: "'d sdb \<Rightarrow> 'd sdb \<Rightarrow> 'd sdb" where
  "base_of s t = (case t of Trx (Some b) l \<Rightarrow> b | _ \<Rightarrow> s)"

definition with_fresh :: "('d sdb, 'a) prog \<Rightarrow> ('d sdb, 'a \<times> layer) prog" where
  \<comment> \<open>a call on a new transaction above the object, and what that transaction holds after it\<close>
  "with_fresh f s = (case f (trx_new (Some s)) of (r, t) \<Rightarrow> (map_sum id (\<lambda>x. (x, layer_of t)) r, base_of s t))"

definition push_block :: "block \<Rightarrow> ('d node, unit) prog" where
  "push_block b = modify (\<lambda>s. s\<lparr>n_chain := n_chain s @ [b]\<rparr>)"

definition pop_block :: "('d node, unit) prog" where
  "pop_block = modify (\<lambda>s. s\<lparr>n_chain := butlast (n_chain s)\<rparr>)"

definition chain_back :: "('d node, block) prog" where
  \<comment> \<open>\<open>m_block_chain.back()\<close>; also \<open>node::head_block\<close>\<close>
  "chain_back s = (if n_chain s = [] then Inl (Undefined_Behaviour ''back() of an empty vector'') else Inr (last (n_chain s)), s)"

definition emit :: "event \<Rightarrow> ('d node, unit) prog" where
  "emit e = modify (\<lambda>s. s\<lparr>n_events := n_events s @ [e]\<rparr>)"

section \<open>The databases of transactions and block states\<close>

definition trx_get :: "'d env \<Rightarrow> u32 \<Rightarrow> sha1 \<Rightarrow> 'd \<Rightarrow> exn + signed_transaction option" where
  "trx_get E g h d = kv_get (e_bdb E) (e_trx_key E) (e_strx E) (g, h) d"

definition trx_set :: "'d env \<Rightarrow> u32 \<Rightarrow> sha1 \<Rightarrow> signed_transaction \<Rightarrow> 'd \<Rightarrow> 'd" where
  "trx_set E g h t d = kv_set (e_bdb E) (e_trx_key E) (e_strx E) (g, h) t d"

definition trx_remove :: "'d env \<Rightarrow> u32 \<Rightarrow> sha1 \<Rightarrow> 'd \<Rightarrow> 'd" where
  "trx_remove E g h d = snd (kv_remove (e_bdb E) (e_trx_key E) (g, h) d)"

definition find_block_state :: "'d env \<Rightarrow> sha1 \<Rightarrow> ('d node, block_state option) prog" where
  "find_block_state E hc = on_block_state_db (\<lambda>d. (kv_get (e_bdb E) (e_sha1_key E) (e_block_state E) hc d, d))"

definition set_block_state :: "'d env \<Rightarrow> sha1 \<Rightarrow> block_state \<Rightarrow> ('d node, unit) prog" where
  "set_block_state E hc bs = on_block_state_db (\<lambda>d. (Inr (), kv_set (e_bdb E) (e_sha1_key E) (e_block_state E) hc bs d))"

definition get_head_transactions :: "'d env \<Rightarrow> ('d node, sha1 list) prog" where
  "get_head_transactions E =
     bindP chain_back (\<lambda>b.
     bindP (find_block_state E (blk_state b)) (\<lambda>bs.
     case bs of
       None \<Rightarrow> throw (Gpm_Exception ''Unable to find block_state for head.'')
     | Some bs \<Rightarrow> ret (bs_signed_transactions bs)))"

primrec transactions_loop :: "'d env \<Rightarrow> 'd \<Rightarrow> u32 \<Rightarrow> sha1 list \<Rightarrow> signed_transaction list \<Rightarrow> exn + signed_transaction list" where
  "transactions_loop E d g [] strx = Inr strx"
| "transactions_loop E d g (h # hs) strx =
     (case trx_get E g h d of
        Inl e \<Rightarrow> Inl e
      | Inr None \<Rightarrow> Inr []
      | Inr (Some s) \<Rightarrow> transactions_loop E d g hs (strx @ [s]))"

definition get_transactions :: "'d env \<Rightarrow> sha1 list \<Rightarrow> u32 \<Rightarrow> ('d node, signed_transaction list) prog" where
  \<comment> \<open>an empty list if one of them is not in the group\<close>
  "get_transactions E trx g = on_trx_db (\<lambda>d. (transactions_loop E d g trx [], d))"

partial_function (option) move_group_loop :: "'d env \<Rightarrow> u32 \<Rightarrow> u32 \<Rightarrow> 'd \<Rightarrow> ((exn + unit) \<times> 'd) option" where
  "move_group_loop E from_group to_group d =
     (case kv_search (e_bdb E) (e_trx_key E) (e_strx E) (from_group, 0) d of
        Inl e \<Rightarrow> Some (Inl e, d)
      | Inr itr \<Rightarrow>
          if \<not> it_end itr \<and> fst (the (it_key itr)) = from_group then
            let h = snd (the (it_key itr));
                d = trx_set E to_group h (the (it_value itr)) d;
                d = trx_remove E from_group h d
            in move_group_loop E from_group to_group d
          else Some (Inr (), d))"

definition move_group :: "'d env \<Rightarrow> u32 \<Rightarrow> u32 \<Rightarrow> ('d node, unit) prog" where
  \<comment> \<open>\<open>move_transactions( from_group, to_group )\<close>\<close>
  "move_group E from_group to_group = on_trx_db (loopP (move_group_loop E from_group to_group))"

primrec move_loop :: "'d env \<Rightarrow> u32 \<Rightarrow> u32 \<Rightarrow> sha1 list \<Rightarrow> ('d, unit) prog" where
  "move_loop E from_group to_group [] d = (Inr (), d)"
| "move_loop E from_group to_group (t # ts) d =
     (case kv_find (e_bdb E) (e_trx_key E) (e_strx E) (from_group, t) d of
        Inl e \<Rightarrow> (Inl e, d)
      | Inr itr \<Rightarrow>
          if it_end itr then move_loop E from_group to_group ts d
          else move_loop E from_group to_group ts (trx_remove E from_group t (trx_set E to_group t (the (it_value itr)) d)))"

definition move_transactions :: "'d env \<Rightarrow> sha1 list \<Rightarrow> u32 \<Rightarrow> u32 \<Rightarrow> ('d node, unit) prog" where
  "move_transactions E trx from_group to_group = on_trx_db (move_loop E from_group to_group trx)"

end
