(* ===== verification/NodeOps.thy ===== *)
theory NodeOps
  imports Node
begin

text \<open>
  The operations of a node (node.cpp): generating blocks, the interface for queries, adding
  transactions and blocks.
\<close>

section \<open>Printing\<close>

text \<open>
  What remains of \<open>dump\<close> without its output: the casts and look-ups, which can throw. Printing
  itself, the formatting of times by boost::posix_time included, is supposed not to throw.
\<close>

primrec dump_commands :: "'d env \<Rightarrow> command list \<Rightarrow> exn + unit" where
  "dump_commands E [] = Inr ()"
| "dump_commands E (c # cs) =
     (case (if c_id c = register_name_id then map_sum id (\<lambda>_. ()) (cast_command (e_register_name E) register_name_id c)
            else if c_id c = issue_id then map_sum id (\<lambda>_. ()) (cast_command (e_issue E) issue_id c)
            else if c_id c = transfer_id then map_sum id (\<lambda>_. ()) (cast_command (e_transfer E) transfer_id c)
            else Inr ()) of
        Inl e \<Rightarrow> Inl e
      | Inr _ \<Rightarrow> dump_commands E cs)"

definition dump_transaction :: "'d env \<Rightarrow> signed_transaction \<Rightarrow> exn + unit" where
  "dump_transaction E t = dump_commands E (trx_commands (strx_trx t))"

section \<open>Queries\<close>

primrec find_transaction :: "'d env \<Rightarrow> 'd \<Rightarrow> sha1 \<Rightarrow> u32 list \<Rightarrow> exn + signed_transaction option" where
  \<comment> \<open>looks in one group after the other\<close>
  "find_transaction E d h [] = Inr None"
| "find_transaction E d h (g # gs) =
     (case trx_get E g h d of
        Inl e \<Rightarrow> Inl e
      | Inr None \<Rightarrow> find_transaction E d h gs
      | Inr (Some t) \<Rightarrow> Inr (Some t))"

definition get_transaction :: "'d env \<Rightarrow> sha1 \<Rightarrow> ('d node, signed_transaction) prog" where
  "get_transaction E h =
     bindP (asks n_trx_db) (\<lambda>db.
     case db of
       None \<Rightarrow> throw (Gpm_Exception ''Database not open.'')
     | Some d \<Rightarrow>
         bindP (liftE (find_transaction E d h [0, 1, 2, 3])) (\<lambda>t.
         case t of None \<Rightarrow> throw (Gpm_Exception ''Unknown Transaction'') | Some t \<Rightarrow> ret t))"

primrec get_each_transaction :: "'d env \<Rightarrow> sha1 list \<Rightarrow> ('d node, signed_transaction list) prog" where
  "get_each_transaction E [] = ret []"
| "get_each_transaction E (h # hs) =
     bindP (get_transaction E h) (\<lambda>t. bindP (get_each_transaction E hs) (\<lambda>ts. ret (t # ts)))"

definition get_head_block_index :: "('d node, 32 word) prog" where
  "get_head_block_index = asks (\<lambda>s. of_nat (length (n_chain s)) - 1)"

definition get_block_by_index :: "u32 \<Rightarrow> ('d node, block) prog" where
  "get_block_by_index index =
     bindP (asks n_chain) (\<lambda>bc.
     if unat index < length bc then ret (bc ! unat index)
     else throw (Gpm_Exception ''Block index is beyond known block chain size.''))"

definition get_block_state :: "'d env \<Rightarrow> sha1 \<Rightarrow> ('d node, block_state) prog" where
  "get_block_state E hc =
     bindP (asks n_block_state_db) (\<lambda>db.
     case db of
       None \<Rightarrow> throw (Gpm_Exception ''Database not open.'')
     | Some d \<Rightarrow>
         bindP (find_block_state E hc) (\<lambda>bs.
         case bs of None \<Rightarrow> throw (Gpm_Exception ''Unknown block state'') | Some bs \<Rightarrow> ret bs))"

definition full_block_state_new :: "32 word \<Rightarrow> 32 word \<Rightarrow> full_block_state" where
  \<comment> \<open>the constructor; \<open>index\<close> of the default \<open>block_state\<close> is not set\<close>
  "full_block_state_new i hi =
     \<lparr>fbs_index = i, fbs_head_index = hi, fbs_blk = block_new,
      fbs_blk_state = \<lparr>bs_index = 0, bs_generator_name = [], bs_state_db = 0, bs_signed_transactions = []\<rparr>, fbs_trxs = []\<rparr>"

definition get_full_block :: "'d env \<Rightarrow> u32 \<Rightarrow> ('d node, full_block_state) prog" where
  \<comment> \<open>the comparison converts the signed index of the head to an unsigned number\<close>
  "get_full_block E index =
     bindP get_head_block_index (\<lambda>hi.
     if hi < index then ret (full_block_state_new (-1) (-1))
     else
       bindP (get_block_by_index index) (\<lambda>b.
       bindP (get_block_state E (blk_state b)) (\<lambda>bs.
       bindP (get_each_transaction E (bs_signed_transactions bs)) (\<lambda>trxs.
       ret \<lparr>fbs_index = index, fbs_head_index = hi, fbs_blk = b, fbs_blk_state = bs, fbs_trxs = trxs\<rparr>))))"

definition state_open :: "('d node, unit) prog" where
  \<comment> \<open>\<open>if( !m_state_db ) THROW\<close>\<close>
  "state_open = bindP (asks n_states) (\<lambda>st. case st of No_State \<Rightarrow> throw (Gpm_Exception ''Database not open.'') | _ \<Rightarrow> ret ())"

definition can_register :: "'d env \<Rightarrow> string \<Rightarrow> ('d node, bool) prog" where
  "can_register E name = bindP (on_gen (get_name_index E name)) (\<lambda>i. ret (i = -1))"

definition get_key_for_name :: "'d env \<Rightarrow> string \<Rightarrow> ('d node, public_key option) prog" where
  "get_key_for_name E name = bindP state_open (\<lambda>_. on_gen (get_public_key E name))"

definition get_public_key_t :: "'d env \<Rightarrow> string \<Rightarrow> ('d node, public_key) prog" where
  "get_public_key_t E name =
     bindP state_open (\<lambda>_.
     bindP (on_gen (get_public_key E name)) (\<lambda>k.
     case k of None \<Rightarrow> throw (Gpm_Exception ''No public key known for name'') | Some pk \<Rightarrow> ret pk))"

definition has_balance :: "'d env \<Rightarrow> string \<Rightarrow> string \<Rightarrow> ('d node, bool) prog" where
  "has_balance E account type =
     bindP state_open (\<lambda>_. bindP (on_gen (get_balance E account type)) (\<lambda>(b, is_null, loc). ret (\<not> is_null)))"

definition node_get_balance :: "'d env \<Rightarrow> string \<Rightarrow> string \<Rightarrow> ('d node, u64) prog" where
  "node_get_balance E account type =
     bindP state_open (\<lambda>_. bindP (on_gen (get_balance E account type)) (\<lambda>(b, is_null, loc). ret b))"

definition node_account_contents :: "'d env \<Rightarrow> string \<Rightarrow> ('d node, string list) prog" where
  "node_account_contents E account = on_gen (get_account_contents E account)"

definition get_state_chunk :: "u32 \<Rightarrow> sha1 \<Rightarrow> bytes" where
  "get_state_chunk part hash = []"

definition is_generating :: "('d node, bool) prog" where
  "is_generating = asks n_gen_enabled"

section \<open>The log of an account\<close>

record trx_log =
  lo_from :: string
  lo_to :: string
  lo_type :: string
  lo_amnt :: u64
  lo_to_bal :: u64
  lo_from_bal :: u64
  lo_date :: u64

partial_function (option) trx_log_loop ::
  "'d env \<Rightarrow> string \<Rightarrow> u64 \<Rightarrow> u64 \<Rightarrow> transfer_it \<Rightarrow> trx_log list \<Rightarrow> 'd sdb \<Rightarrow> ((exn + trx_log list) \<times> 'd sdb) option" where
  "trx_log_loop E account start_date end_date t log s =
     (if ti_end t then Some (Inr log, s)
      else if ti_time t < start_date then Some (Inr log, s)
      else
        let log = (if ti_time t \<le> end_date
                   then log @ [\<lparr>lo_from = ti_from t, lo_to = ti_to t, lo_type = ti_type t, lo_amnt = ti_amount t,
                                lo_to_bal = ti_to_bal t, lo_from_bal = ti_from_bal t, lo_date = ti_time t\<rparr>]
                   else log)
        in (case ti_previous E account t s of
              (Inl e, s) \<Rightarrow> Some (Inl e, s)
            | (Inr p, s) \<Rightarrow> trx_log_loop E account start_date end_date (snd p) log s))"

definition get_transaction_log :: "'d env \<Rightarrow> string \<Rightarrow> string \<Rightarrow> u64 \<Rightarrow> u64 \<Rightarrow> transfer_it \<Rightarrow> ('d node, trx_log list) prog" where
  "get_transaction_log E account type start_date end_date t0 =
     on_gen (bindP (get_last_transfer E account type t0) (\<lambda>t.
       loopP (trx_log_loop E account start_date end_date t [])))"

section \<open>Printing the chain\<close>

primrec dump_block_trxs :: "'d env \<Rightarrow> sha1 list \<Rightarrow> ('d node, unit) prog" where
  "dump_block_trxs E [] = ret ()"
| "dump_block_trxs E (h # hs) =
     bindP (get_transaction E h) (\<lambda>t. bindP (liftE (dump_transaction E t)) (\<lambda>_. dump_block_trxs E hs))"

primrec dump_blocks :: "'d env \<Rightarrow> block list \<Rightarrow> ('d node, unit) prog" where
  "dump_blocks E [] = ret ()"
| "dump_blocks E (b # bs) =
     bindP (get_block_state E (blk_state b)) (\<lambda>st.
     bindP (dump_block_trxs E (bs_signed_transactions st)) (\<lambda>_. dump_blocks E bs))"

definition node_dump :: "'d env \<Rightarrow> u32 \<Rightarrow> u32 \<Rightarrow> ('d node, unit) prog" where
  "node_dump E start len =
     tryP (bindP (asks n_chain) (\<lambda>bc. dump_blocks E (take (unat (start + len) - unat start) (drop (unat start) bc))))"

section \<open>Synchronising and opening\<close>

primrec sync_loop :: "sha1 \<Rightarrow> block_chain \<Rightarrow> nat \<Rightarrow> block_chain" where
  \<comment> \<open>the loop, for the blocks below the index\<close>
  "sync_loop prev bc 0 = bc"
| "sync_loop prev bc (Suc i) = (if blk_prev_block (bc ! i) = prev then take (Suc i) bc else sync_loop prev bc i)"

definition synchronize_state :: "'d env \<Rightarrow> ('d node, unit) prog" where
  "synchronize_state E =
     bindP (on_state (find_last_block E)) (\<lambda>b.
     modify (\<lambda>s. s\<lparr>n_chain := sync_loop (blk_prev_block b) (n_chain s) (length (n_chain s))\<rparr>))"

record 'd disk = \<comment> \<open>what \<open>open\<close> finds in the data directory\<close>
  dk_exists :: bool
  dk_is_directory :: bool
  dk_trx_db :: 'd
  dk_block_state_db :: 'd
  dk_state_is_directory :: bool
  dk_state_file :: "bytes option"
  dk_transfer_db :: 'd
  dk_name_db :: 'd
  dk_chain_file :: "bytes option"

definition node_open :: "'d env \<Rightarrow> 'd disk \<Rightarrow> bool \<Rightarrow> ('d node, unit) prog" where
  \<comment> \<open>for a new node; a directory that is created is one\<close>
  "node_open E disk create =
     (if \<not> dk_exists disk \<and> \<not> create then throw (Gpm_Exception ''Directory does not exist.'')
      else if dk_exists disk \<and> \<not> dk_is_directory disk then throw (Gpm_Exception ''Directory is not a directory.'')
      else
        bindP (modify (\<lambda>s. s\<lparr>n_trx_db := Some (dk_trx_db disk), n_block_state_db := Some (dk_block_state_db disk),
                              n_states := State_Not_Open\<rparr>)) (\<lambda>_.
        bindP (liftE (sd_open (dk_state_is_directory disk) (dk_state_file disk) (dk_transfer_db disk) (dk_name_db disk))) (\<lambda>db.
        bindP (\<lambda>s. case load_chain (e_chain E) (dk_chain_file disk) (n_chain s) of (r, bc) \<Rightarrow> (r, s\<lparr>n_chain := bc\<rparr>)) (\<lambda>_.
        bindP (modify (\<lambda>s. s\<lparr>n_states := States db empty_layer empty_layer\<rparr>)) (\<lambda>_.
        synchronize_state E)))))"

end
