(* ===== verification/NodeBlocks.thy ===== *)
theory NodeBlocks
  imports NodeOps
begin

text \<open>
  The operations of a node that change its chain (node.cpp): preparing and searching the next
  block, adding a transaction, adding a block at the head or in place of the head.
\<close>

section \<open>The block to generate\<close>

definition by_time :: "sha1 \<times> signed_transaction \<Rightarrow> sha1 \<times> signed_transaction \<Rightarrow> bool" where
  "by_time l r \<longleftrightarrow> trx_utc_time (strx_trx (snd l)) < trx_utc_time (strx_trx (snd r))"

partial_function (option) pending_loop ::
  "'d env \<Rightarrow> 'd \<Rightarrow> (u32 \<times> sha1, signed_transaction) kv_iterator \<Rightarrow> (sha1 \<times> signed_transaction) list
    \<Rightarrow> (exn + (sha1 \<times> signed_transaction) list) option" where
  "pending_loop E d itr trxs =
     (if \<not> it_end itr \<and> fst (the (it_key itr)) = pending_trx then
        let trxs = trxs @ [(snd (the (it_key itr)), the (it_value itr))] in
        (case kv_next (e_bdb E) (e_trx_key E) (e_strx E) itr d of
           Inl e \<Rightarrow> Some (Inl e)
         | Inr itr \<Rightarrow> pending_loop E d itr trxs)
      else Some (Inr trxs))"

definition pending_transactions :: "'d env \<Rightarrow> ('d node, (sha1 \<times> signed_transaction) list) prog" where
  "pending_transactions E =
     on_trx_db (\<lambda>d.
       (case kv_search (e_bdb E) (e_trx_key E) (e_strx E) (pending_trx, 0) d of
          Inl e \<Rightarrow> Inl e
        | Inr itr \<Rightarrow> (case pending_loop E d itr [] of None \<Rightarrow> Inl Diverges | Some r \<Rightarrow> r), d))"

definition try_transaction :: "'d env \<Rightarrow> signed_transaction \<Rightarrow> string \<Rightarrow> ('d sdb, bool) prog" where
  \<comment> \<open>\<open>tmp_trx\<close>: a new transaction above the object, committed into it if the transaction applies\<close>
  "try_transaction E t gen s =
     (case apply_trx E t gen (trx_new (Some s)) of
        (Inl e, tmp) \<Rightarrow> (Inl e, base_of s tmp)
      | (Inr ok, tmp) \<Rightarrow>
          if ok then (case commit E tmp of (r, tmp) \<Rightarrow> (map_sum id (\<lambda>_. True) r, base_of s tmp))
          else (Inr False, base_of s tmp))"

primrec apply_pending :: "'d env \<Rightarrow> string \<Rightarrow> (sha1 \<times> signed_transaction) list \<Rightarrow> sha1 list \<Rightarrow> ('d sdb, sha1 list) prog" where
  \<comment> \<open>the hashes of those that apply\<close>
  "apply_pending E gen [] used = ret used"
| "apply_pending E gen (t # ts) used =
     bindP (liftE (dump_transaction E (snd t))) (\<lambda>_.
     bindP (try_transaction E (snd t) gen) (\<lambda>ok.
     apply_pending E gen ts (if ok then used @ [fst t] else used)))"

definition first_block :: "'d env \<Rightarrow> ('d node, unit) prog" where
  \<comment> \<open>the first block of an empty chain; whether it applies is not checked\<close>
  "first_block E =
     bindP (asks n_gen_name) (\<lambda>name.
     bindP (on_state (calculate_state_hash E)) (\<lambda>h.
     let bs = \<lparr>bs_index = 0, bs_generator_name = name, bs_state_db = h, bs_signed_transactions = []\<rparr> in
     bindP utc_clock (\<lambda>t.
     let b = block_new\<lparr>blk_utc_time := ucast (t div 1000000), blk_state := e_hash_block_state E bs\<rparr>;
         (ok, b) = generate E b get_max_hash 0 (-1)
     in
     bindP (if ok then bindP (on_head (apply_block E b name [] h)) (\<lambda>_. ret ()) else ret ()) (\<lambda>_.
     bindP (set_block_state E (blk_state b) bs) (\<lambda>_. push_block b)))))"

definition create_gen_block :: "'d env \<Rightarrow> ('d node, block) prog" where
  "create_gen_block E =
     bindP (on_gen (\<lambda>g. (Inr (), abort g))) (\<lambda>_.
     bindP (asks n_chain) (\<lambda>bc.
     bindP (if bc = [] then first_block E else ret ()) (\<lambda>_.
     bindP chain_back (\<lambda>back.
     bindP (asks n_chain) (\<lambda>bc.
     bindP (asks n_gen_name) (\<lambda>name.
     bindP (pending_transactions E) (\<lambda>trxs.
     bindP (on_gen (apply_pending E name (e_sort_by_time E trxs) [])) (\<lambda>used.
     bindP (on_gen (calculate_state_hash E)) (\<lambda>h.
     let new_state = \<lparr>bs_index = of_nat (length bc), bs_generator_name = name, bs_state_db = h, bs_signed_transactions = used\<rparr> in
     bindP utc_clock (\<lambda>t.
     let new_block = block_new\<lparr>blk_prev_block := e_hash_block E back,
                               blk_utc_time := ucast (t div 1000000 + ucast seconds_per_block),
                               blk_state := e_hash_block_state E new_state\<rparr> in
     bindP (set_block_state E (blk_state new_block) new_state) (\<lambda>_. ret new_block)))))))))))"

definition start_block :: "'d env \<Rightarrow> ('d node, unit) prog" where
  \<comment> \<open>it waits until the thread has stopped, which \<open>m_stop_gen\<close> makes it do, and starts the next one\<close>
  "start_block E =
     bindP (modify (\<lambda>s. s\<lparr>n_generating := True, n_stop_gen := True\<rparr>)) (\<lambda>_.
     bindP (create_gen_block E) (\<lambda>new_block.
     bindP (modify (\<lambda>s. s\<lparr>n_gen_stopped := False, n_stop_gen := False\<rparr>)) (\<lambda>_.
     bindP (asks n_chain) (\<lambda>bc.
     bindP (liftE (calculate_hash_target E bc (-1))) (\<lambda>t.
     modify (\<lambda>s. s\<lparr>n_hash_target := t, n_worker := Some (new_block, t)\<rparr>))))))"

definition configure_generation :: "'d env \<Rightarrow> string \<Rightarrow> bool \<Rightarrow> ('d node, unit) prog" where
  "configure_generation E gn on =
     bindP (modify (\<lambda>s. s\<lparr>n_gen_name := gn, n_gen_enabled := on\<rparr>)) (\<lambda>_.
     bindP (emit (Generation_State_Changed gn on)) (\<lambda>_.
     if on then start_block E else modify (\<lambda>s. s\<lparr>n_stop_gen := True\<rparr>)))"

section \<open>The thread that searches for a nonce\<close>

text \<open>
  \<open>node_private::generate\<close> for the block \<open>b\<close>: \<open>clock k\<close> is its k-th reading of the clock, \<open>stop k\<close>
  what it reads from \<open>m_stop_gen\<close> at the end of round k. \<open>mine\<close> is the block it posts to the main
  thread, if any.
\<close>

partial_function (option) mine_loop ::
  "'d env \<Rightarrow> (nat \<Rightarrow> u64) \<Rightarrow> (nat \<Rightarrow> bool) \<Rightarrow> u64 \<Rightarrow> block \<Rightarrow> nat \<Rightarrow> nat \<Rightarrow> block \<Rightarrow> sha1 \<Rightarrow> block option
    \<Rightarrow> (block option \<times> nat) option" where
  "mine_loop E clock stop hashrate b k tick working target best =
     (let working = working\<lparr>blk_utc_time := max (blk_utc_time b) (ucast (clock tick div 100000))\<rparr>;
          (ok, working) = generate E working target (blk_nonce working + 1) (blk_nonce working + hashrate);
          best = (if ok then Some working else best);
          target = (if ok then e_hash_block E working else target)
      in if stop k then Some (best, Suc tick)
         else if best = None then mine_loop E clock stop hashrate b (Suc k) (Suc tick) working target best
         else if clock (Suc tick) div 1000000 < ucast (blk_utc_time b)
           then mine_loop E clock stop hashrate b (Suc k) (Suc (Suc tick)) working target best
         else Some (best, Suc (Suc tick)))"

definition mine :: "'d env \<Rightarrow> (nat \<Rightarrow> u64) \<Rightarrow> (nat \<Rightarrow> bool) \<Rightarrow> u64 \<Rightarrow> block \<Rightarrow> sha1 \<Rightarrow> block option option" where
  "mine E clock stop hashrate b target =
     (case mine_loop E clock stop hashrate b 0 0 b target None of
        None \<Rightarrow> None
      | Some (best, tick) \<Rightarrow>
          Some (if best \<noteq> None \<and> ucast (blk_utc_time b) \<le> clock tick div 1000000 then best else None))"

section \<open>Adding a transaction\<close>

definition add_transaction :: "'d env \<Rightarrow> signed_transaction \<Rightarrow> ('d node, int) prog" where
  "add_transaction E tx =
     (let h = e_hash_strx E tx in
      bindP (on_trx_db (\<lambda>d. (find_transaction E d h [0, 1, 2], d))) (\<lambda>known.
      if known \<noteq> None then ret (-1)
      else
        bindP (on_trx_db (\<lambda>d. (Inr (), trx_set E pending_trx h tx d))) (\<lambda>_.
        bindP (emit (New_Transaction tx)) (\<lambda>_.
        bindP is_generating (\<lambda>gen.
        bindP (if gen then start_block E else bindP (create_gen_block E) (\<lambda>_. ret ())) (\<lambda>_. ret 0))))))"

section \<open>Adding a block\<close>

definition full_block_of :: "block_chain \<Rightarrow> block \<Rightarrow> block_state \<Rightarrow> signed_transaction list \<Rightarrow> full_block_state" where
  "full_block_of bc blk bs strxs =
     \<lparr>fbs_index = of_nat (length bc) - 1, fbs_head_index = of_nat (length bc) - 1, fbs_blk = blk, fbs_blk_state = bs, fbs_trxs = strxs\<rparr>"

definition announce :: "'d env \<Rightarrow> block \<Rightarrow> block_state \<Rightarrow> signed_transaction list \<Rightarrow> ('d node, int) prog" where
  \<comment> \<open>the end of both successful branches of \<open>add_block\<close>\<close>
  "announce E blk bs strxs =
     bindP (asks n_chain) (\<lambda>bc.
     bindP (node_dump E (of_nat (length bc) - 1) 1) (\<lambda>_.
     bindP (emit (New_Block (full_block_of bc blk bs strxs))) (\<lambda>_.
     bindP is_generating (\<lambda>gen.
     bindP (if gen then start_block E else ret ()) (\<lambda>_. ret 1)))))"

definition reject_append :: "'d env \<Rightarrow> ('d node, int) prog" where
  "reject_append E =
     bindP (asks n_chain) (\<lambda>bc.
     bindP (node_dump E (of_nat (length bc) - 1) 1) (\<lambda>_.
     bindP pop_block (\<lambda>_. ret (-3))))"

definition install_head :: "'d env \<Rightarrow> block \<Rightarrow> layer \<Rightarrow> ('d node, unit) prog" where
  \<comment> \<open>the old head goes to disk, the new one takes its place, and the chain below it is saved\<close>
  "install_head E blk l =
     bindP (on_state (commit E)) (\<lambda>_.
     bindP (on_head (commit E)) (\<lambda>_.
     bindP (set_head l) (\<lambda>_.
     bindP pop_block (\<lambda>_.
     bindP (modify (\<lambda>s. s\<lparr>n_saved := Some (save_chain (e_chain E) (n_chain s))\<rparr>)) (\<lambda>_.
     bindP (on_state (commit E)) (\<lambda>_. push_block blk))))))"

definition append_block :: "'d env \<Rightarrow> block \<Rightarrow> block_state \<Rightarrow> ('d node, int) prog" where
  "append_block E blk bs =
     bindP (push_block blk) (\<lambda>_.
     bindP (asks n_chain) (\<lambda>bc.
     bindP (liftE (validate E bc)) (\<lambda>valid.
     if valid then
       bindP (get_transactions E (bs_signed_transactions bs) pending_trx) (\<lambda>strxs.
       if length strxs \<noteq> length (bs_signed_transactions bs) then reject_append E
       else
         bindP (on_head (with_fresh (apply_block E blk (bs_generator_name bs) strxs (bs_state_db bs)))) (\<lambda>(ok, l).
         if ok then
           bindP (move_group E head_trx applied_trx) (\<lambda>_.
           bindP (move_transactions E (bs_signed_transactions bs) pending_trx head_trx) (\<lambda>_.
           bindP (install_head E blk l) (\<lambda>_. announce E blk bs strxs)))
         else reject_append E))
     else reject_append E)))"

definition set_back :: "block \<Rightarrow> ('d node, unit) prog" where
  \<comment> \<open>\<open>m_block_chain.back() = b\<close>\<close>
  "set_back b = modify (\<lambda>s. s\<lparr>n_chain := butlast (n_chain s) @ [b]\<rparr>)"

definition replace_block :: "'d env \<Rightarrow> block \<Rightarrow> block_state \<Rightarrow> ('d node, int) prog" where
  \<comment> \<open>\<open>get_head_transactions\<close> is called when the head is already the new block\<close>
  "replace_block E blk bs =
     bindP chain_back (\<lambda>old_head.
     if e_hash_less E (e_hash_block E blk) (e_hash_block E old_head) then
       bindP (set_back blk) (\<lambda>_.
       bindP (asks n_chain) (\<lambda>bc.
       bindP (liftE (validate E bc)) (\<lambda>valid.
       if valid then
         bindP (get_head_transactions E) (\<lambda>old_head_trx.
         bindP (move_transactions E old_head_trx head_trx pending_trx) (\<lambda>_.
         bindP (get_transactions E (bs_signed_transactions bs) pending_trx) (\<lambda>strxs.
         bindP (if length strxs \<noteq> length (bs_signed_transactions bs) then ret (False, empty_layer)
                else on_state (with_fresh (apply_block E blk (bs_generator_name bs) strxs (bs_state_db bs)))) (\<lambda>(ok, l).
         if ok then
           bindP (move_transactions E (bs_signed_transactions bs) pending_trx head_trx) (\<lambda>_.
           bindP (set_head l) (\<lambda>_. announce E blk bs strxs))
         else
           bindP (move_transactions E old_head_trx pending_trx head_trx) (\<lambda>_.
           bindP (set_back old_head) (\<lambda>_. ret (-3)))))))
       else bindP (set_back old_head) (\<lambda>_. ret (-3)))))
     else ret (-3))"

definition add_block :: "'d env \<Rightarrow> block \<Rightarrow> ('d node, int) prog" where
  "add_block E blk =
     bindP (asks n_chain) (\<lambda>bc.
     if length bc = 0 then ret 0
     else
       bindP chain_back (\<lambda>back.
       bindP (find_block_state E (blk_state blk)) (\<lambda>bs.
       case bs of
         None \<Rightarrow> ret (-1)
       | Some bs \<Rightarrow>
           bindP utc_clock (\<lambda>t.
           let ct = ucast (t div 1000000) :: u32 in
           if blk_utc_time blk > ct + 30 then ret (-1)
           else if blk_prev_block blk = e_hash_block E back then append_block E blk bs
           else if blk_prev_block blk = blk_prev_block back then replace_block E blk bs
           else ret (-1)))))"

definition generated_block :: "'d env \<Rightarrow> block \<Rightarrow> ('d node, unit) prog" where
  "generated_block E b = tryP (add_block E b)"

primrec store_transactions :: "'d env \<Rightarrow> signed_transaction list \<Rightarrow> bool \<Rightarrow> ('d, bool) prog" where
  \<comment> \<open>the loop of \<open>add_full_block\<close>: the unknown ones become pending; was there one?\<close>
  "store_transactions E [] added d = (Inr added, d)"
| "store_transactions E (t # ts) added d =
     (let h = e_hash_strx E t in
      case find_transaction E d h [0, 1, 2] of
        Inl e \<Rightarrow> (Inl e, d)
      | Inr (Some _) \<Rightarrow> store_transactions E ts added d
      | Inr None \<Rightarrow> store_transactions E ts True (trx_set E pending_trx h t d))"

definition add_full_block :: "'d env \<Rightarrow> full_block_state \<Rightarrow> ('d node, int) prog" where
  "add_full_block E fbs =
     (let blk = fbs_blk fbs; bs = fbs_blk_state fbs in
      bindP (on_trx_db (store_transactions E (fbs_trxs fbs) False)) (\<lambda>added_trx.
      bindP (get_transactions E (bs_signed_transactions bs) pending_trx) (\<lambda>_.
      bindP (set_block_state E (blk_state blk) bs) (\<lambda>_.
      bindP (asks n_chain) (\<lambda>bc.
      if bc = [] \<and> fbs_index fbs = 0 then
        bindP (on_head (apply_block E blk (bs_generator_name bs) [] (bs_state_db bs))) (\<lambda>_.
        bindP (set_block_state E (blk_state blk) bs) (\<lambda>_.
        bindP (push_block blk) (\<lambda>_. ret 1)))
      else
        bindP (add_block E blk) (\<lambda>rtn.
        bindP is_generating (\<lambda>gen.
        bindP (if rtn \<le> 0 \<and> added_trx \<and> gen then start_block E else ret ()) (\<lambda>_. ret rtn))))))))"

end
