(* ===== verification/StateFrames.thy ===== *)
theory StateFrames
  imports StateCommit
begin

text \<open>
  What the operations of a transaction leave alone: the objects below it change only in the
  position of the stream, and that never passes the end of the file. After a block was applied
  the stream stands at the end of the file, because the state hash read it to the end.
\<close>

section \<open>The position of the stream\<close>

fun pos_ok :: "'d sdb \<Rightarrow> bool" where
  "pos_ok (Trx None l) = True"
| "pos_ok (Trx (Some b) l) = pos_ok b"
| "pos_ok (State_Db f td nd l) = (f_pos f \<le> length (f_data f))"

fun at_end :: "'d sdb \<Rightarrow> bool" where
  "at_end (Trx None l) = True"
| "at_end (Trx (Some b) l) = at_end b"
| "at_end (State_Db f td nd l) = (f_pos f = length (f_data f))"

lemma db_read_pos:
  assumes "f_pos f \<le> length (f_data f)"
  shows "f_pos (snd (db_read f l pos n)) \<le> length (f_data f)"
proof -
  have le: "unat (len64 xs) \<le> length xs" for xs :: bytes
    by (simp add: len64_def unat_of_nat)
  have "f_pos (fseeko_set (unat pos) f) \<le> length (f_data f)" if "pos < len64 (f_data f)"
    using that le [of "f_data f"] assms by (simp add: fseeko_set_def word_less_nat_alt)
  then show ?thesis
    using assms by (auto simp: db_read_def Let_def fread_def fseeko_set_def split: if_splits)
qed

lemma db_read_whole:
  assumes "f_pos f \<le> length (f_data f)" and "length (f_data f) \<le> unat n" and "length (f_data f) < log_limit"
  shows "f_pos (snd (db_read f l 0 n)) = length (f_data f)"
proof (cases "f_data f = []")
  case True
  then show ?thesis using assms by (simp add: db_read_def Let_def len64_def)
next
  case False
  then have "(0 :: u64) < len64 (f_data f)"
    using assms(3) by (simp add: word_less_nat_alt len64_def unat_small)
  then show ?thesis using assms(2) by (simp add: db_read_def Let_def fread_def fseeko_set_def)
qed

definition kept :: "'d sdb \<Rightarrow> 'd sdb \<Rightarrow> bool" where
  \<comment> \<open>what a read keeps\<close>
  "kept s s' \<longleftrightarrow> still s' = still s \<and> (pos_ok s \<longrightarrow> pos_ok s')"

interpretation kept: kept_by_steps kept
  by unfold_locales (auto simp: kept_def)

lemma kept_Trx: "kept (Trx (Some b) l) (Trx (Some b') l') \<longleftrightarrow> kept b b' \<and> l' = l"
  by (auto simp: kept_def)

lemma sdb_read_kept: "follows kept (sdb_read pos n :: ('d sdb, bytes) prog)"
proof -
  have "pos_ok s \<Longrightarrow> pos_ok (snd (sdb_read pos n s))" for s :: "'d sdb"
  proof (induction pos n s rule: sdb_read.induct)
    case (2 pos n b l)
    then show ?case by (auto simp: Let_def split: prod.split sum.split)
  next
    case (3 pos n f td nd l)
    then show ?case
      using db_read_pos [of f l pos n] db_read_FILE [of f l pos n] by (simp add: case_prod_unfold)
  qed simp
  then show ?thesis by (simp add: follows_def kept_def sdb_read_still)
qed

lemma sdb_read_whole:
  assumes "pos_ok s" and "log_size s \<le> unat n" and "log_size s < log_limit"
  shows "at_end (snd (sdb_read 0 n s))"
  using assms
proof (induction s rule: log_bytes.induct)
  case (2 b l)
  have b: "log_size b \<le> unat n" "log_size b < log_limit" using 2 by (simp_all add: log_size_def)
  obtain r b' where rb: "sdb_read 0 n b = (r, b')" by fastforce
  then have end_b: "at_end b'" using 2 b by (metis pos_ok.simps(2) snd_conv)
  show ?case
  proof (cases "0 < sdb_size b")
    case True
    then show ?thesis using rb end_b by (auto simp: Let_def split: sum.split)
  next
    case False
    then have "log_size b = 0"
      using b by (metis not_gr_zero sdb_size_eq unat_0 unat_small word_gt_0)
    moreover have "at_end b" if "log_size b = 0" "pos_ok b" for b :: "'a sdb"
      using that by (induction b rule: log_bytes.induct) (simp_all add: log_size_def)
    ultimately show ?thesis using False 2(2) by simp
  qed
next
  case (3 f td nd l)
  have "length (f_data f) \<le> unat n" "length (f_data f) < log_limit" using 3 by (simp_all add: log_size_def)
  then show ?case
    using db_read_whole [of f n l] db_read_FILE [of f l 0 n] 3(1) by (simp add: case_prod_unfold)
qed simp

lemma read_le_kept: "follows kept (read_le loc n v)"
  unfolding read_le_def by (intro kept.rules sdb_read_kept)

lemma db_get_record_kept: "follows kept (db_get_record loc r)"
  unfolding db_get_record_def by (intro kept.rules read_le_kept sdb_read_kept)

lemma get_record_kept: "follows kept (get_record (E :: 'd env) loc r)"
proof -
  have "kept s (snd (get_record E loc r s))" for s :: "'d sdb"
  proof (induction E loc r s rule: get_record.induct)
    case (1 E loc r b l)
    show ?case
    proof (cases "loc \<noteq> -1 \<and> loc < sdb_start (Trx b l)")
      case True
      then obtain b' where b: "b = Some b'" by (cases b) simp_all
      with 1 True have "kept b' (snd (get_record E loc r b'))" by simp
      then show ?thesis using True b by (simp add: case_prod_unfold kept_Trx)
    next
      case False
      then show ?thesis by (auto simp: Let_def kept.kept_refl split: sum.split)
    qed
  next
    case (2 E loc r f td nd l)
    then show ?case using followsD [OF db_get_record_kept [of loc r]] by simp
  qed
  then show ?thesis by (rule followsI)
qed

section \<open>What lies below a transaction\<close>

definition below_kept :: "'d sdb \<Rightarrow> 'd sdb \<Rightarrow> bool" where
  "below_kept s s' \<longleftrightarrow> (\<forall>b l. s = Trx (Some b) l \<longrightarrow> (\<exists>b' l'. s' = Trx (Some b') l' \<and> kept b b'))"

interpretation below: kept_by_steps below_kept
proof
  show "below_kept s u" if "below_kept s t" "below_kept t u" for s t u :: "'d sdb"
    using that unfolding below_kept_def by (metis kept.kept_trans)
qed (simp add: below_kept_def kept.kept_refl)

lemma kept_below: "kept s s' \<Longrightarrow> below_kept s s'"
  unfolding below_kept_def kept_def
  by (cases s') (auto simp: still_Trx elim: still.elims)

lemma follows_below: "follows kept f \<Longrightarrow> follows below_kept f"
  by (simp add: follows_def kept_below)

lemma below_kept_Trx: "below_kept (Trx (Some b) l) s' \<longleftrightarrow> (\<exists>b' l'. s' = Trx (Some b') l' \<and> kept b b')"
  by (auto simp: below_kept_def)

lemma on_layer_below: "follows below_kept (on_layer g)"
  by (rule followsI) (auto simp: below_kept_def on_layer_def kept.kept_refl)

lemmas below_plain = below.rules follows_below [OF sdb_read_kept] follows_below [OF get_record_kept] on_layer_below

lemma below_ops:
  "follows below_kept (name_edit_index E n)" "follows below_kept (transfer_index E a)"
  "follows below_kept (set_name_edit n i)" "follows below_kept (set_transfer a i)" "follows below_kept (append_record E r)"
  unfolding set_name_edit_def set_transfer_def append_record_def
  by (intro below_plain | simp add: follows_def name_edit_index_def transfer_index_def below.kept_refl)+

lemma below_lookups:
  "follows below_kept (get_public_key E n)" "follows below_kept (get_name_index E n)" "follows below_kept (get_balance E a t)"
  unfolding get_public_key_def get_name_index_def get_balance_def by (intro below_plain below_ops)+

lemma below_get_balance: "follows below_kept (get_balance E a t)"
  unfolding get_balance_def by (intro below_plain below_ops below_lookups)

lemma below_changes:
  "follows below_kept (set_public_key E n pk)" "follows below_kept (transfer_balance E a b t v p)"
  "follows below_kept (issue E t p)" "follows below_kept (ensure_destination E to)"
  unfolding set_public_key_def transfer_balance_def issue_def ensure_destination_def
  by (intro below_plain below_ops below_lookups)+

lemma below_commands: "follows below_kept (apply_command E trx g p c)"
  unfolding apply_command_def apply_register_name_def apply_issue_def apply_transfer_def
  by (intro below_plain below_ops below_lookups below_changes)

lemma below_apply_commands: "follows below_kept (apply_commands E trx g p cs)"
  by (induction cs) (simp_all, intro below_plain below_commands, (intro below_plain below_commands | assumption)+)

lemma below_apply_trx: "follows below_kept (apply_trx E trx g)"
  unfolding apply_trx_def by (intro below_plain below_ops below_apply_commands)

lemma below_apply_trxs: "follows below_kept (apply_trxs E g ts)"
  by (induction ts) (simp_all, intro below_plain, (intro below_plain below_apply_trx | assumption)+)

lemma hash_loop_kept:
  "state_hash_loop E pos r tmp hashes s = Some y \<Longrightarrow> kept s (snd y)"
proof (rule state_hash_loop.raw_induct [rotated, of E pos r tmp hashes s y "\<lambda>E pos r tmp hashes s y. kept s (snd y)"])
  fix rec E pos r tmp hashes s y
  assume IH: "\<And>E pos r tmp hashes s y. rec E pos r tmp hashes s = Some y \<Longrightarrow> kept s (snd y)"
    and run: "(if r = of_nat hash_chunk then
        let hashes = hashes @ [e_sha1 E (take (unat r) tmp)]; pos = pos + r in
        (case sdb_read pos (of_nat hash_chunk) s of
           (Inl e, s) \<Rightarrow> Some (Inl e, s)
         | (Inr bs, s) \<Rightarrow> rec E pos r (overlay bs tmp) hashes s)
      else Some (Inr (tmp, hashes), s)) = Some y"
  have rd: "kept s (snd (sdb_read (pos + r) (of_nat hash_chunk) s))" by (rule followsD [OF sdb_read_kept])
  show "kept s (snd y)"
  proof (cases "r = of_nat hash_chunk")
    case True
    obtain x s' where x: "sdb_read (pos + r) (of_nat hash_chunk) s = (x, s')" by fastforce
    then have "kept s s'" using rd by simp
    then show ?thesis
      using run True x IH [THEN kept.kept_trans [rotated]] by (cases x) (auto simp: Let_def)
  qed (use run in \<open>auto simp: kept.kept_refl\<close>)
qed

lemma calculate_state_hash_kept: "follows kept (calculate_state_hash E)"
  unfolding calculate_state_hash_def
  by (intro kept.rules sdb_read_kept kept.on_loop hash_loop_kept)

lemma dump_kept: "follows kept (dump E n)"
proof -
  have "follows kept (dump_loop E n p lr)" for n p lr
  proof (induction n arbitrary: p lr)
    case (Suc n)
    then show ?case unfolding dump_loop.simps by (intro kept.rules get_record_kept)
  qed (simp add: kept.plain)
  then show ?thesis unfolding dump_def by (intro kept.rules get_record_kept)
qed

lemma below_apply_block: "follows below_kept (apply_block E b g ts check)"
  unfolding apply_block_def
  by (intro below.rules below_apply_trxs below_ops follows_below [OF calculate_state_hash_kept] follows_below [OF dump_kept])

end
