(* ===== verification/StateBlocks.thy ===== *)
theory StateBlocks
  imports StateFrames StateApply
begin

text \<open>
  Blocks over the state database: an applied block is its transactions run one after the other
  on the market, and the commits of a node (the old head to disk, the head's layer into the
  database, and to disk again) keep what the database shows.
\<close>

section \<open>Applying a block\<close>

primrec m_trxs :: "'d env \<Rightarrow> string \<Rightarrow> signed_transaction list \<Rightarrow> market \<Rightarrow> (exn + bool) \<times> market" where
  "m_trxs E gen [] m = (Inr True, m)"
| "m_trxs E gen (t # ts) m =
     (case m_commands E t gen (trx_commands (strx_trx t)) m of
        (Inl e, m) \<Rightarrow> (Inl e, m)
      | (Inr ok, m) \<Rightarrow> if ok then m_trxs E gen ts m else (Inr False, m))"

definition small_trxs :: "'d env \<Rightarrow> string \<Rightarrow> signed_transaction list \<Rightarrow> bool" where
  "small_trxs E gen ts \<longleftrightarrow> (\<forall>t \<in> set ts. small_trx E gen (trx_commands (strx_trx t)))"

lemma grows_log_apply_trxs [grows_intros]: "grows_log (apply_trxs E g ts)"
  by (induction ts) (auto intro!: grows_intros)

lemma grows_log_hash [grows_intros]: "grows_log (calculate_state_hash E)"
  by (rule grows_still) (rule conjunct1 [OF followsD [OF calculate_state_hash_kept, unfolded kept_def]])

lemma apply_trxs_shows:
  assumes laws: "env_laws E ents" and "shows_market E ents m s" and "small_trxs E gen ts"
  shows "runs_log (apply_trxs E gen ts) s (fst (m_trxs E gen ts m)) (shows_market E ents (snd (m_trxs E gen ts m)))"
  using assms(2-)
proof (induction ts arbitrary: m s)
  case (Cons t ts)
  obtain r m' where mc: "m_commands E t gen (trx_commands (strx_trx t)) m = (r, m')" by fastforce
  have small: "small_trx E gen (trx_commands (strx_trx t))" "small_trxs E gen ts"
    using Cons.prems(2) by (simp_all add: small_trxs_def)
  have step: "runs_log (apply_trx E t gen) s r (shows_market E ents m')"
    using apply_trx_shows [OF laws Cons.prems(1) small(1)] mc by simp
  show ?case
  proof (cases r)
    case (Inl e)
    then show ?thesis using step mc
      by (simp, intro runs_bindP_Inl [where P = "shows_market E ents m'"] grows_intros) simp_all
  next
    case (Inr ok)
    then have "runs_log (apply_trx E t gen) s (Inr ok) (shows_market E ents m')" using step by simp
    then have "runs_log (bindP (apply_trx E t gen) (\<lambda>ok. if \<not> ok then ret False else apply_trxs E gen ts)) s
       (if \<not> ok then Inr False else fst (m_trxs E gen ts m'))
       (shows_market E ents (if \<not> ok then m' else snd (m_trxs E gen ts m')))"
      by (rule runs_bindP, intro grows_intros) (use Cons.IH small(2) in \<open>auto simp: runs_ret\<close>)
    then show ?thesis using mc Inr by (cases ok) simp_all
  qed
qed (simp add: runs_ret)

lemma state_hash_at_end:
  assumes "fst (calculate_state_hash E s) = Inr h" and "log_size s < log_limit" and "pos_ok s"
  shows "at_end (snd (calculate_state_hash E s))"
proof -
  have small: "log_size s < hash_chunk"
    using calculate_state_hash_stuck [of s E] assms(1,2) by (metis Inr_not_Inl not_less)
  have chunk: "unat (of_nat hash_chunk :: u64) = hash_chunk" by (simp add: hash_chunk_def)
  have "fst (sdb_read 0 (of_nat hash_chunk) s) = Inr (log_bytes s)"
    using sdb_read_ok [OF assms(2), of 0 "of_nat hash_chunk"] small chunk by (simp add: log_size_def)
  then obtain s' where s': "sdb_read 0 (of_nat hash_chunk) s = (Inr (log_bytes s), s')"
    by (cases "sdb_read 0 (of_nat hash_chunk) s") simp
  have "at_end s'" using sdb_read_whole [of s "of_nat hash_chunk"] s' assms(2,3) small chunk by simp
  moreover have "len64 (log_bytes s) \<noteq> of_nat hash_chunk"
    using small assms(2) chunk by (metis len64_def log_size_def nat_neq_iff unat_small)
  ultimately show ?thesis
    using s' by (simp add: calculate_state_hash_def bindP_def prog_simps loopP_def state_hash_loop.simps Let_def)
qed

lemma append_record_at_end: "at_end (snd (append_record E r s)) = at_end s" if "s = Trx b l"
  using that by (cases b) (simp_all add: append_record_def bindP_def on_layer_def prog_simps)

lemma append_record_ne: "env_laws E ents \<Longrightarrow> local_changes (layer_of (snd (append_record E r s))) \<noteq> []"
proof -
  have ne: "record_layout r \<noteq> []" for r using length_record_layout [of r] by fastforce
  assume "env_laws E ents"
  then show ?thesis by (simp add: append_record_def bindP_def on_layer_def prog_simps env_laws_def ne)
qed

lemma apply_block_shows:
  assumes laws: "env_laws E ents" and m: "shows_market E ents m (Trx (Some b) l)" and small: "small_trxs E gen ts"
    and run: "apply_block E blk gen ts check (Trx (Some b) l) = (Inr True, s')" and lim: "log_size s' < log_limit"
  shows "fst (m_trxs E gen ts m) = Inr True" and "shows_market E ents (snd (m_trxs E gen ts m)) s'"
    and "pos_ok b \<Longrightarrow> at_end s'" and "local_changes (layer_of s') \<noteq> []"
    and "\<exists>b' l'. s' = Trx (Some b') l' \<and> kept b b'"
proof -
  let ?s = "Trx (Some b) l" and ?r = "state_record_of (e_end_block E) end_block_id \<lparr>eb_blk = blk, eb_generator = gen\<rparr>"
  obtain ok s1 where s1: "apply_trxs E gen ts ?s = (Inr ok, s1)" and
    rest: "(if \<not> ok then ret False else bindP (calculate_state_hash E) (\<lambda>check'.
       if check' \<noteq> check then bindP (dump E 1000) (\<lambda>_. ret False)
       else bindP (append_record E ?r) (\<lambda>_. ret True))) s1 = (Inr True, s')"
    using run unfolding apply_block_def by (rule bindP_InrE)
  have ok: ok using rest by (cases ok) (simp_all add: ret_def)
  obtain h s2 where s2: "calculate_state_hash E s1 = (Inr h, s2)" and
    rest2: "(if h \<noteq> check then bindP (dump E 1000) (\<lambda>_. ret False) else bindP (append_record E ?r) (\<lambda>_. ret True)) s2 = (Inr True, s')"
    using rest unfolding if_not_P [OF not_not [THEN iffD2, OF ok]] by (rule bindP_InrE)
  have "h = check"
  proof (rule ccontr)
    assume "h \<noteq> check"
    then have "bindP (dump E 1000) (\<lambda>_. ret False) s2 = (Inr True, s')" using rest2 by simp
    then show False by (rule bindP_InrE) (simp add: ret_def)
  qed
  then obtain x where s3: "append_record E ?r s2 = (Inr x, s')"
    using rest2 by (auto simp: ret_def elim!: bindP_InrE)
  have kept2: "kept s1 s2" using followsE [OF calculate_state_hash_kept s2] .
  have size2: "log_size s2 = log_size s1" using kept2 by (intro log_size_still) (simp add: kept_def)
  have size3: "log_size s2 \<le> log_size s'" using growsD [OF grows_log_ops(4) [of E ?r], of s2] s3 by simp
  have lim1: "log_size s1 < log_limit" using size2 size3 lim by simp
  have "fst (m_trxs E gen ts m) = Inr ok" and m1: "shows_market E ents (snd (m_trxs E gen ts m)) s1"
    using apply_trxs_shows [OF laws m small] lim1 s1 by (simp_all add: runs_def)
  then show "fst (m_trxs E gen ts m) = Inr True" using ok by simp
  have m2: "shows_market E ents (snd (m_trxs E gen ts m)) s2"
    using m1 kept2 holds_same unfolding shows_market_def kept_def by blast
  show "shows_market E ents (snd (m_trxs E gen ts m)) s'"
    using append_start_shows [OF laws m2, of "End \<lparr>eb_blk = blk, eb_generator = gen\<rparr>"] s3 lim by (simp add: runs_def)
  obtain b1 l1 where b1: "s1 = Trx (Some b1) l1" "kept b b1"
    using followsE [OF below_apply_trxs s1] by (auto simp: below_kept_Trx)
  obtain b2 l2 where b2: "s2 = Trx (Some b2) l2" "kept b1 b2"
    using followsE [OF follows_below [OF calculate_state_hash_kept] s2] b1 by (auto simp: below_kept_Trx)
  obtain b3 l3 where b3: "s' = Trx (Some b3) l3" "kept b2 b3"
    using followsE [OF below_ops(5) s3] b2 by (auto simp: below_kept_Trx)
  show "\<exists>b' l'. s' = Trx (Some b') l' \<and> kept b b'"
    using b3 kept.kept_trans [OF b1(2) kept.kept_trans [OF b2(2) b3(2)]] by blast
  show "local_changes (layer_of s') \<noteq> []" using append_record_ne [OF laws, of ?r s2] s3 by simp
  show "at_end s'" if "pos_ok b"
  proof -
    have "pos_ok s1" using that b1 by (simp add: kept_def)
    then have "at_end s2" using state_hash_at_end [of E s1 h] s2 lim1 by simp
    then show ?thesis using append_record_at_end [OF b2(1), of E ?r] s3 by simp
  qed
qed

section \<open>The names of a layer\<close>

definition names_within :: "string set \<Rightarrow> 'd sdb \<Rightarrow> 'd sdb \<Rightarrow> bool" where
  "names_within N s s' \<longleftrightarrow>
     (fst ` set (last_name_edit_map (layer_of s)) \<subseteq> N \<longrightarrow> fst ` set (last_name_edit_map (layer_of s')) \<subseteq> N)"

interpretation within: kept_by_steps "names_within N" for N
  by unfold_locales (auto simp: names_within_def)

lemma kept_within: "kept s s' \<Longrightarrow> names_within N s s'"
proof -
  have "layer_of (still s) = layer_of s" for s :: "'d sdb" by (cases s rule: still.cases) simp_all
  then show "kept s s' \<Longrightarrow> names_within N s s'" unfolding kept_def names_within_def by metis
qed

lemma follows_within: "follows kept f \<Longrightarrow> follows (names_within N) f"
  by (simp add: follows_def kept_within)

lemma on_layer_within: "(\<And>l. last_name_edit_map (g l) = last_name_edit_map l) \<Longrightarrow> follows (names_within N) (on_layer g)"
  by (rule followsI) (simp add: names_within_def on_layer_def)

lemma set_name_within: "n \<in> N \<Longrightarrow> follows (names_within N) (set_name_edit n i)"
  by (rule followsI) (simp add: names_within_def set_name_edit_def on_layer_def fst_set_om_set)

lemma bind_liftE_within:
  "(\<And>x. v = Inr x \<Longrightarrow> follows (names_within N) (g x)) \<Longrightarrow> follows (names_within N) (bindP (liftE v) g)"
  by (cases v) (simp_all add: within.plain)

lemma within_ops:
  "follows (names_within N) (name_edit_index E n)" "follows (names_within N) (transfer_index E a)"
  "follows (names_within N) (set_transfer a i)" "follows (names_within N) (append_record E r)" "follows (names_within N) (get_record E loc r0)"
  unfolding set_transfer_def append_record_def
  by (intro within.rules on_layer_within follows_within [OF get_record_kept]
      | simp add: follows_def name_edit_index_def transfer_index_def within.kept_refl)+

lemma within_lookups:
  "follows (names_within N) (get_public_key E n)" "follows (names_within N) (get_name_index E n)" "follows (names_within N) (get_balance E a t)"
proof -
  show idx: "follows (names_within N) (get_name_index E n)" for n
    unfolding get_name_index_def by (intro within.rules within_ops)
  show "follows (names_within N) (get_public_key E n)" unfolding get_public_key_def by (intro within.rules within_ops)
  show "follows (names_within N) (get_balance E a t)" unfolding get_balance_def by (intro within.rules within_ops idx)
qed

lemma within_changes:
  "n \<in> N \<Longrightarrow> follows (names_within N) (set_public_key E n pk)" "follows (names_within N) (transfer_balance E a b t v p)"
  "follows (names_within N) (issue E t p)" "n \<in> N \<Longrightarrow> follows (names_within N) (ensure_destination E n)"
  unfolding set_public_key_def transfer_balance_def issue_def ensure_destination_def
  by (intro within.rules within_ops within_lookups set_name_within; assumption)+

lemma within_command:
  assumes n: "set (names_of E c) \<subseteq> N" "gen \<in> N"
  shows "follows (names_within N) (apply_command E trx gen p c)"
proof -
  have reg: "follows (names_within N) (apply_register_name E trx c)" if id: "c_id c = register_name_id"
    unfolding apply_register_name_def cast_command_id [OF id]
    by (rule bind_liftE_within, intro within.rules within_lookups within_changes)
      (use n id in \<open>simp_all add: names_of_def\<close>)
  have iss: "follows (names_within N) (apply_issue E trx p c)"
    unfolding apply_issue_def by (intro within.rules within_lookups within_changes)
  have tra: "follows (names_within N) (apply_transfer E trx gen p c)" if id: "c_id c = transfer_id"
    unfolding apply_transfer_def cast_command_id [OF id] Let_def
    by (rule bind_liftE_within, intro within.rules within_lookups within_changes)
      (use n id in \<open>simp add: names_of_def\<close>)
  show ?thesis unfolding apply_command_def using reg iss tra within.plain by auto
qed

lemma within_block:
  assumes "small_trxs E gen ts"
  shows "follows (names_within (small_names E)) (apply_block E blk gen ts check)"
proof -
  have cs: "follows (names_within (small_names E)) (apply_commands E trx gen p cs)" if "small_trx E gen cs" for trx p cs
    using that
  proof (induction cs)
    case (Cons c cs)
    then show ?case unfolding apply_commands.simps
      by (intro within.rules within_command) (simp_all add: small_trx_def)
  qed (simp add: within.plain)
  have "follows (names_within (small_names E)) (apply_trxs E gen ts)" using assms
  proof (induction ts)
    case (Cons t ts)
    then have "follows (names_within (small_names E)) (apply_trx E t gen)"
      unfolding apply_trx_def by (intro within.rules within_ops cs) (simp add: small_trxs_def)
    then show ?case using Cons unfolding apply_trxs.simps
      by (intro within.rules) (simp_all add: small_trxs_def)
  qed (simp add: within.plain)
  then show ?thesis unfolding apply_block_def
    by (intro within.rules within_ops follows_within [OF calculate_state_hash_kept] follows_within [OF dump_kept])
qed

section \<open>The commits of a node\<close>

definition layer_ready :: "'d env \<Rightarrow> layer \<Rightarrow> bool" where
  \<comment> \<open>a layer that can be committed to disk\<close>
  "layer_ready E l \<longleftrightarrow> fst ` set (last_name_edit_map l) \<subseteq> small_names E
     \<and> (local_changes l = [] \<longrightarrow> last_name_edit_map l = [] \<and> last_transfer_map l = [])"

lemma layer_ready_empty [simp]: "layer_ready E empty_layer"
  by (simp add: layer_ready_def om_empty_def)

lemma fold_set_names: "fst ` set (fold (\<lambda>(k, v). om_set k v) kvs m) = fst ` set kvs \<union> fst ` set m"
proof (induction kvs arbitrary: m)
  case (Cons e kvs)
  obtain k v where "e = (k, v)" by (cases e)
  then show ?case using Cons by (simp add: fst_set_om_set)
qed simp

lemma settle_holds:
  assumes laws: "env_laws E ents" and pos: "f_pos f = length (f_data f)" "f_writable f"
    and ready: "layer_ready E dl" "layer_ready E h"
  obtains db1 db2 f3 td3 nd3 where
    "commit E (State_Db f td nd dl) = (Inr (), db1)" "commit E (Trx (Some db1) h) = (Inr (), Trx (Some db2) empty_layer)"
    "commit E db2 = (Inr (), State_Db f3 td3 nd3 empty_layer)"
    "f_data f3 = f_data f @ local_changes dl @ local_changes h" "f_pos f3 = length (f_data f3)" "f_writable f3"
    "\<And>lg. holds E ents lg (Trx (Some (State_Db f td nd dl)) h) \<Longrightarrow> holds E ents lg (State_Db f3 td3 nd3 empty_layer)"
proof -
  let ?db = "State_Db f td nd dl"
  have once: "\<exists>f' td' nd'. commit E (State_Db f td nd l) = (Inr (), State_Db f' td' nd' empty_layer)
       \<and> f_data f' = f_data f @ local_changes l \<and> f_pos f' = length (f_data f') \<and> f_writable f'"
    if "f_pos f = length (f_data f)" "f_writable f" "layer_ready E l" for f td nd l
  proof (cases "local_changes l = []")
    case True
    then have "l = empty_layer" using that(3) by (cases l) (simp add: layer_ready_def empty_layer_def om_empty_def)
    then show ?thesis using that by (simp add: db_commit_def)
  qed (use that in \<open>simp add: db_commit_def fwrite_def Let_def patch_end\<close>)
  obtain f1 td1 nd1 where one: "commit E ?db = (Inr (), State_Db f1 td1 nd1 empty_layer)"
    "f_data f1 = f_data f @ local_changes dl" "f_pos f1 = length (f_data f1)" "f_writable f1"
    using once [OF pos ready(1)] by blast
  let ?db1 = "State_Db f1 td1 nd1 empty_layer"
  let ?h = "\<lparr>local_changes = local_changes h, last_transfer_map = fold (\<lambda>(k, v). om_set k v) (last_transfer_map h) om_empty,
      last_name_edit_map = fold (\<lambda>(k, v). om_set k v) (last_name_edit_map h) om_empty\<rparr>"
  let ?db2 = "State_Db f1 td1 nd1 ?h"
  have two: "commit E (Trx (Some ?db1) h) = (Inr (), Trx (Some ?db2) empty_layer)"
    by (simp add: append_layer_run)
  have rh: "layer_ready E ?h" using ready(2) by (simp add: layer_ready_def fold_set_names om_empty_def)
  obtain f3 td3 nd3 where three: "commit E ?db2 = (Inr (), State_Db f3 td3 nd3 empty_layer)"
    "f_data f3 = f_data f1 @ local_changes h" "f_pos f3 = length (f_data f3)" "f_writable f3"
    using once [OF one(3,4) rh, of td1 nd1] unfolding layer.simps by blast
  have disk: "holds E ents lg (snd (commit E (State_Db f td nd l)))"
    if "holds E ents lg (State_Db f td nd l)" "f_pos f = length (f_data f)" "f_writable f" "layer_ready E l" for lg f td nd l
    using that by (intro db_commit_holds(2) [OF laws]) (simp_all add: layer_ready_def)
  have "holds E ents lg (State_Db f3 td3 nd3 empty_layer)" if h: "holds E ents lg (Trx (Some ?db) h)" for lg
  proof -
    obtain blg es where b: "holds E ents blg ?db" "lg_log lg = lg_log blg @ es"
        "local_changes h = log_from E (entries_len E (lg_log blg)) es"
        "lg_names lg = over (lg_names blg) (last_name_edit_map h)" "lg_accts lg = over (lg_accts blg) (last_transfer_map h)"
        "index_ok (last_name_edit_map h)" "index_ok (last_transfer_map h)"
      using h unfolding holds.simps by blast
    have "holds E ents blg ?db1" using disk [OF b(1) pos ready(1)] one(1) by simp
    then have "holds E ents lg (Trx (Some ?db1) h)" using b by (intro holds_TrxI)
    then obtain b' where "commit E (Trx (Some ?db1) h) = (Inr (), Trx (Some b') empty_layer)" "holds E ents lg b'"
      by (rule commit_holds)
    then have "holds E ents lg ?db2" using two by simp
    then show ?thesis using disk [OF _ one(3,4) rh] three(1) by (metis snd_conv)
  qed
  then show ?thesis using that [OF one(1) two three(1)] one three by simp
qed

end
