(* ===== verification/NodeFrames.thy ===== *)
theory NodeFrames
  imports NodeBlocks StateBlocks
begin

text \<open>
  What the operations of a node leave alone. \<open>quiet\<close> is what preparing a block, printing and
  every query keep, on a node whose chain is not empty: the chain, the saved chain, the signals,
  the database of transactions, the layer of the head, and the state database but for the
  position of its stream.
\<close>

definition states_kept :: "'d states \<Rightarrow> 'd states \<Rightarrow> bool" where
  "states_kept x y \<longleftrightarrow> (\<forall>db h g. x = States db h g \<longrightarrow> (\<exists>db' g'. y = States db' h g' \<and> kept db db'))"

lemma states_kept_refl: "states_kept x x"
  by (simp add: states_kept_def kept.kept_refl)

lemma states_kept_trans: "states_kept x y \<Longrightarrow> states_kept y z \<Longrightarrow> states_kept x z"
  unfolding states_kept_def by (metis kept.kept_trans)

definition quiet :: "'d node \<Rightarrow> 'd node \<Rightarrow> bool" where
  "quiet s s' \<longleftrightarrow> (n_chain s \<noteq> [] \<longrightarrow> n_chain s' = n_chain s \<and> n_saved s' = n_saved s \<and> n_events s' = n_events s
     \<and> n_trx_db s' = n_trx_db s \<and> states_kept (n_states s) (n_states s'))"

interpretation quiet: kept_by_steps quiet
  by unfold_locales (auto simp: quiet_def states_kept_refl elim: states_kept_trans)

lemma kept_TrxD: "kept (Trx (Some b) l) t \<Longrightarrow> \<exists>b'. t = Trx (Some b') l \<and> kept b b'"
  using kept_below [of "Trx (Some b) l" t] by (auto simp: below_kept_Trx kept_Trx)

lemma quiet_modify:
  assumes "\<And>s. n_chain (f s) = n_chain s" "\<And>s. n_saved (f s) = n_saved s" "\<And>s. n_events (f s) = n_events s"
    "\<And>s. n_trx_db (f s) = n_trx_db s" "\<And>s. n_states (f s) = n_states s"
  shows "follows quiet (modify f)"
  by (rule followsI) (simp add: quiet_def modify_def assms states_kept_refl)

lemma quiet_on_gen: "follows below_kept f \<Longrightarrow> follows quiet (on_gen f)"
proof (rule followsI)
  fix s assume f: "follows below_kept f"
  show "quiet s (snd (on_gen f s))"
  proof (cases "n_states s")
    case (States db h g)
    obtain r t where rt: "f (Trx (Some (Trx (Some db) h)) g) = (r, t)" by fastforce
    obtain b' g' where t: "t = Trx (Some b') g'" and k: "kept (Trx (Some db) h) b'"
      using followsE [OF f rt] by (auto simp: below_kept_Trx)
    obtain db' where "b' = Trx (Some db') h" "kept db db'" using kept_TrxD [OF k] by blast
    then show ?thesis using States rt t by (simp add: on_gen_def quiet_def states_kept_def)
  qed (simp_all add: on_gen_def quiet.kept_refl)
qed

lemma quiet_on_head: "follows kept f \<Longrightarrow> follows quiet (on_head f)"
proof (rule followsI)
  fix s assume f: "follows kept f"
  show "quiet s (snd (on_head f s))"
  proof (cases "n_states s")
    case (States db h g)
    obtain r t where rt: "f (Trx (Some db) h) = (r, t)" by fastforce
    obtain db' where "t = Trx (Some db') h" "kept db db'" using kept_TrxD [OF followsE [OF f rt]] by blast
    then show ?thesis using States rt by (simp add: on_head_def quiet_def states_kept_def)
  qed (simp_all add: on_head_def quiet.kept_refl)
qed

lemma quiet_on_state: "follows kept f \<Longrightarrow> follows quiet (on_state f)"
proof (rule followsI)
  fix s assume f: "follows kept f"
  show "quiet s (snd (on_state f s))"
  proof (cases "n_states s")
    case (States db h g)
    obtain r t where rt: "f db = (r, t)" by fastforce
    then show ?thesis using States followsE [OF f rt] by (simp add: on_state_def quiet_def states_kept_def)
  qed (simp_all add: on_state_def quiet.kept_refl)
qed

lemma with_fresh_kept:
  assumes "follows below_kept f"
  shows "follows kept (with_fresh f)"
proof (rule followsI)
  fix s
  obtain r t where rt: "f (trx_new (Some s)) = (r, t)" by fastforce
  obtain b' l' where "t = Trx (Some b') l'" "kept s b'"
    using followsE [OF assms rt] by (auto simp: trx_new_def below_kept_Trx)
  then show "kept s (snd (with_fresh f s))" using rt by (simp add: with_fresh_def base_of_def)
qed

lemma quiet_on_trx_db: "follows quiet (on_trx_db (\<lambda>d. (r d, d)))"
  by (rule followsI) (auto simp: on_trx_db_def quiet_def states_kept_refl split: option.split)

lemma quiet_on_block_state_db: "follows quiet (on_block_state_db f)"
  by (rule followsI) (auto simp: on_block_state_db_def quiet_def states_kept_refl split: option.split prod.split)

lemma quiet_clock: "follows quiet utc_clock"
  by (rule followsI) (simp add: utc_clock_def quiet_def states_kept_refl)

lemma follows_tryP: "follows R f \<Longrightarrow> follows R (tryP f)"
proof (rule followsI)
  fix s assume f: "follows R f"
  obtain r s' where "f s = (r, s')" by fastforce
  then show "R s (snd (tryP f s))" using followsE [OF f] by (auto simp: tryP_def split: sum.split)
qed

lemma quiet_chain_back: "follows quiet chain_back"
  by (rule followsI) (simp add: chain_back_def quiet.kept_refl)

section \<open>Queries and printing\<close>

lemma quiet_queries:
  "follows quiet (find_block_state E hc)" "follows quiet (set_block_state E hc bs)" "follows quiet (get_head_transactions E)"
  "follows quiet (get_transactions E hs g)" "follows quiet (get_transaction E h)" "follows quiet (get_block_state E hc)"
  unfolding find_block_state_def set_block_state_def get_head_transactions_def get_transactions_def get_transaction_def get_block_state_def
  by (intro quiet.rules quiet_on_block_state_db quiet_on_trx_db quiet_chain_back)+

lemma quiet_dump: "follows quiet (node_dump E start len)"
proof -
  have trxs: "follows quiet (dump_block_trxs E hs)" for hs
  proof (induction hs)
    case (Cons h hs)
    then show ?case unfolding dump_block_trxs.simps by (intro quiet.rules quiet_queries)
  qed (simp add: quiet.plain)
  have "follows quiet (dump_blocks E bs)" for bs
  proof (induction bs)
    case (Cons b bs)
    then show ?case unfolding dump_blocks.simps by (intro quiet.rules quiet_queries trxs)
  qed (simp add: quiet.plain)
  then show ?thesis unfolding node_dump_def by (intro follows_tryP quiet.rules)
qed

section \<open>Preparing a block\<close>

lemma below_try_transaction: "follows below_kept (try_transaction E t gen)"
proof (rule followsI)
  fix s
  show "below_kept s (snd (try_transaction E t gen s))"
  proof (cases "\<exists>b l. s = Trx (Some b) l")
    case True
    then obtain b l where s: "s = Trx (Some b) l" by blast
    obtain r tmp where rt: "apply_trx E t gen (trx_new (Some s)) = (r, tmp)" by fastforce
    obtain s1 l1 where tmp: "tmp = Trx (Some s1) l1" "kept s s1"
      using followsE [OF below_apply_trx rt] by (auto simp: trx_new_def below_kept_Trx)
    obtain b1 where s1: "s1 = Trx (Some b1) l" "kept b b1" using kept_TrxD tmp(2) s by blast
    have "snd (try_transaction E t gen s) \<in> {s1, snd (append_layer (local_changes l1) (last_transfer_map l1) (last_name_edit_map l1) s1)}"
      using rt tmp by (auto simp: try_transaction_def base_of_def append_layer_run split: sum.split)
    then show ?thesis using s1 s by (auto simp: below_kept_Trx append_layer_run)
  qed (auto simp: below_kept_def)
qed

lemma below_apply_pending: "follows below_kept (apply_pending E gen ts used)"
proof (induction ts arbitrary: used)
  case (Cons t ts)
  then show ?case unfolding apply_pending.simps by (intro below.rules below_try_transaction)
qed (simp add: below.plain)

lemma below_abort: "follows below_kept (\<lambda>g. (Inr (), abort g))"
  by (rule followsI) (auto simp: below_kept_def abort_def kept.kept_refl)

lemma quiet_create_gen_block: "follows quiet (create_gen_block E)"
proof -
  define tail where "tail = (bindP chain_back (\<lambda>back.
     bindP (asks n_chain) (\<lambda>bc.
     bindP (asks n_gen_name) (\<lambda>name.
     bindP (pending_transactions E) (\<lambda>trxs.
     bindP (on_gen (apply_pending E name (e_sort_by_time E trxs) [])) (\<lambda>used.
     bindP (on_gen (calculate_state_hash E)) (\<lambda>h.
     let new_state = \<lparr>bs_index = of_nat (length bc), bs_generator_name = name, bs_state_db = h, bs_signed_transactions = used\<rparr> in
     bindP utc_clock (\<lambda>t.
     let new_block = block_new\<lparr>blk_prev_block := e_hash_block E back,
                               blk_utc_time := ucast (t div 1000000 + ucast seconds_per_block),
                               blk_state := e_hash_block_state E new_state\<rparr> in
     bindP (set_block_state E (blk_state new_block) new_state) (\<lambda>_. ret new_block)))))))) :: ('a node, block) prog)"
  have tail: "follows quiet tail"
    unfolding tail_def pending_transactions_def
    by (intro quiet.rules quiet_chain_back quiet_on_trx_db quiet_on_gen below_apply_pending
        follows_below [OF calculate_state_hash_kept] quiet_clock quiet_queries)
  have "quiet s (snd (bindP (asks n_chain) (\<lambda>bc. bindP (if bc = [] then first_block E else ret ()) (\<lambda>_. tail)) s))" for s :: "'a node"
  proof (cases "n_chain s = []")
    case False
    then have "bindP (asks n_chain) (\<lambda>bc. bindP (if bc = [] then first_block E else ret ()) (\<lambda>_. tail)) s = tail s"
      by (simp add: bindP_def prog_simps)
    then show ?thesis using followsD [OF tail] by simp
  qed (simp add: quiet_def)
  then show ?thesis
    unfolding create_gen_block_def tail_def [symmetric]
    by (intro quiet.bind quiet_on_gen below_abort followsI)
qed

lemma quiet_start_block: "follows quiet (start_block E)"
  unfolding start_block_def by (intro quiet.rules quiet_modify quiet_create_gen_block; simp)

end
