(* ===== verification/NodeRuns.thy ===== *)
theory NodeRuns
  imports NodeFrames
begin

text \<open>
  The runs of \<open>add_block\<close> that return, taken apart: what each of their steps was given and left.
\<close>

definition rest_kept :: "'d node \<Rightarrow> 'd node \<Rightarrow> bool" where
  "rest_kept s s' \<longleftrightarrow> n_saved s' = n_saved s \<and> n_events s' = n_events s \<and> n_trx_db s' = n_trx_db s
     \<and> states_kept (n_states s) (n_states s')"

lemma rest_kept_refl [simp]: "rest_kept s s"
  by (simp add: rest_kept_def states_kept_refl)

lemma rest_kept_trans: "rest_kept s t \<Longrightarrow> rest_kept t u \<Longrightarrow> rest_kept s u"
  unfolding rest_kept_def by (metis states_kept_trans)

lemma rest_kept_chain [simp]: "rest_kept (s\<lparr>n_chain := c\<rparr>) s' = rest_kept s s'" "rest_kept s (s'\<lparr>n_chain := c\<rparr>) = rest_kept s s'"
  by (simp_all add: rest_kept_def)

lemma quiet_run:
  assumes "follows quiet f" and "f s = (r, s')" and "n_chain s \<noteq> []"
  shows "n_chain s' = n_chain s" and "rest_kept s s'"
  using followsE [OF assms(1,2)] assms(3) by (simp_all add: quiet_def rest_kept_def)

lemma bind_push: "bindP (push_block b) g s = g () (s\<lparr>n_chain := n_chain s @ [b]\<rparr>)"
  by (simp add: push_block_def bindP_def modify_run)

lemma bind_asks [simp]: "bindP (asks f) g s = g (f s) s"
  by (simp add: bindP_def asks_run)

lemma bind_modify [simp]: "bindP (modify f) g s = g () (f s)"
  by (simp add: bindP_def modify_run)

lemma bind_liftE_Inr: "bindP (liftE v) g s = (Inr y, s') \<Longrightarrow> \<exists>x. v = Inr x \<and> g x s = (Inr y, s')"
  by (cases v) (auto simp: bindP_def liftE_run throw_run)

section \<open>The steps\<close>

lemma reject_append_run:
  assumes "reject_append E s = (Inr r, s')" and "n_chain s = c @ [b]"
  shows "r = -3" and "n_chain s' = c" and "rest_kept s s'"
proof -
  obtain x s1 where d: "node_dump E (of_nat (length (n_chain s)) - 1) 1 s = (Inr x, s1)"
    and rest: "bindP pop_block (\<lambda>_. ret (-3)) s1 = (Inr r, s')"
    using assms(1) unfolding reject_append_def bind_asks by (rule bindP_InrE)
  have k: "n_chain s1 = c @ [b]" "rest_kept s s1" using quiet_run [OF quiet_dump d] assms(2) by simp_all
  then show "r = -3" "n_chain s' = c" "rest_kept s s'"
    using rest by (auto simp: pop_block_def ret_def)
qed

lemma announce_run:
  assumes "announce E blk bs strxs s = (Inr r, s')" and ne: "n_chain s \<noteq> []"
  shows "r = 1" and "n_chain s' = n_chain s" and "n_saved s' = n_saved s" and "n_trx_db s' = n_trx_db s"
    and "n_events s' = n_events s @ [New_Block (full_block_of (n_chain s) blk bs strxs)]"
    and "states_kept (n_states s) (n_states s')"
proof -
  let ?e = "New_Block (full_block_of (n_chain s) blk bs strxs)"
  obtain x s1 where d: "node_dump E (of_nat (length (n_chain s)) - 1) 1 s = (Inr x, s1)"
    and rest: "bindP (emit ?e) (\<lambda>_. bindP is_generating (\<lambda>gen. bindP (if gen then start_block E else ret ()) (\<lambda>_. ret 1))) s1 = (Inr r, s')"
    using assms(1) unfolding announce_def bind_asks by (rule bindP_InrE)
  have k: "n_chain s1 = n_chain s" "rest_kept s s1" using quiet_run [OF quiet_dump d] ne by simp_all
  let ?s2 = "s1\<lparr>n_events := n_events s1 @ [?e]\<rparr>"
  have "bindP (if n_gen_enabled s1 then start_block E else ret ()) (\<lambda>_. ret 1) ?s2 = (Inr r, s')"
    using rest by (simp add: emit_def is_generating_def)
  then obtain y s3 where s3: "(if n_gen_enabled s1 then start_block E else ret ()) ?s2 = (Inr y, s3)" and "ret 1 s3 = (Inr r, s')"
    by (rule bindP_InrE)
  then have r: "r = 1" "s3 = s'" by (simp_all add: ret_def)
  have q: "follows quiet (if n_gen_enabled s1 then start_block E else ret ())"
    by (intro quiet.rules quiet_start_block)
  have "n_chain s' = n_chain ?s2" "rest_kept ?s2 s'" using quiet_run [OF q s3] k ne r by simp_all
  moreover have "states_kept (n_states s) (n_states s1)" using k by (simp add: rest_kept_def)
  ultimately show "r = 1" "n_chain s' = n_chain s" "n_saved s' = n_saved s" "n_trx_db s' = n_trx_db s"
    "n_events s' = n_events s @ [?e]" "states_kept (n_states s) (n_states s')"
    using k r by (auto simp: rest_kept_def elim: states_kept_trans)
qed

lemma on_trx_db_run:
  assumes "on_trx_db f s = (Inr x, s')"
  obtains d d' where "n_trx_db s = Some d" "f d = (Inr x, d')" "s' = s\<lparr>n_trx_db := Some d'\<rparr>"
  using assms by (auto simp: on_trx_db_def split: option.splits prod.splits)

lemma get_transactions_run:
  assumes "get_transactions E hs g s = (Inr ts, s')"
  shows "s' = s" and "\<exists>d. n_trx_db s = Some d \<and> transactions_loop E d g hs [] = Inr ts"
  using assms unfolding get_transactions_def by (auto elim!: on_trx_db_run)

lemma on_head_run:
  assumes "on_head f s = (Inr x, s')" and "follows kept f"
  obtains db h g db' where "n_states s = States db h g" "f (Trx (Some db) h) = (Inr x, Trx (Some db') h)"
    "kept db db'" "s' = s\<lparr>n_states := States db' h g\<rparr>"
proof (cases "n_states s")
  case (States db h g)
  obtain r t where rt: "f (Trx (Some db) h) = (r, t)" by fastforce
  obtain db' where "t = Trx (Some db') h" "kept db db'" using kept_TrxD [OF followsE [OF assms(2) rt]] by blast
  then show ?thesis using that States rt assms(1) by (simp add: on_head_def)
qed (use assms in \<open>simp_all add: on_head_def\<close>)

lemma on_state_run:
  assumes "on_state f s = (Inr x, s')"
  obtains db h g db' where "n_states s = States db h g" "f db = (Inr x, db')" "s' = s\<lparr>n_states := States db' h g\<rparr>"
  using assms by (auto simp: on_state_def split: states.splits prod.splits)

lemma with_fresh_run:
  assumes "with_fresh f s = (Inr (x, l), s')" and "follows below_kept f"
  shows "f (Trx (Some s) empty_layer) = (Inr x, Trx (Some s') l)" and "kept s s'"
proof -
  obtain r t where rt: "f (trx_new (Some s)) = (r, t)" by fastforce
  obtain b' l' where "t = Trx (Some b') l'" "kept s b'"
    using followsE [OF assms(2) rt] by (auto simp: trx_new_def below_kept_Trx)
  then show "f (Trx (Some s) empty_layer) = (Inr x, Trx (Some s') l)" and "kept s s'"
    using rt assms(1) by (cases r; simp add: with_fresh_def base_of_def trx_new_def)+
qed

section \<open>A block at the head\<close>

lemma append_block_runs:
  assumes run: "append_block E blk bs s = (Inr r, s')"
  obtains
    (refused) "r = -3" "n_chain s' = n_chain s" "rest_kept s s'"
  | (appended) d strxs db h g db' l d' s3 s4 where
      "validate E (n_chain s @ [blk]) = Inr True"
      "n_trx_db s = Some d" "transactions_loop E d pending_trx (bs_signed_transactions bs) [] = Inr strxs"
      "length strxs = length (bs_signed_transactions bs)"
      "n_states s = States db h g"
      "apply_block E blk (bs_generator_name bs) strxs (bs_state_db bs) (Trx (Some (Trx (Some db) h)) empty_layer)
         = (Inr True, Trx (Some (Trx (Some db') h)) l)" "kept db db'"
      "s3 = s\<lparr>n_chain := n_chain s @ [blk], n_states := States db' h g, n_trx_db := Some d'\<rparr>"
      "install_head E blk l s3 = (Inr (), s4)" "announce E blk bs strxs s4 = (Inr r, s')"
      "\<exists>d1. loopP (move_group_loop E head_trx applied_trx) d = (Inr (), d1) \<and> move_loop E pending_trx head_trx (bs_signed_transactions bs) d1 = (Inr (), d')"
proof -
  let ?s0 = "s\<lparr>n_chain := n_chain s @ [blk]\<rparr>" and ?hs = "bs_signed_transactions bs"
  let ?apply = "apply_block E blk (bs_generator_name bs)"
  have reject: thesis if "reject_append E t = (Inr r, s')" "n_chain t = n_chain s @ [blk]" "rest_kept s t" for t
    using reject_append_run [OF that(1,2)] that(3) refused rest_kept_trans by blast
  obtain v where v: "validate E (n_chain s @ [blk]) = Inr v" and
    rest: "(if v then bindP (get_transactions E ?hs pending_trx) (\<lambda>strxs.
       if length strxs \<noteq> length ?hs then reject_append E
       else bindP (on_head (with_fresh (?apply strxs (bs_state_db bs)))) (\<lambda>(ok, l).
         if ok then bindP (move_group E head_trx applied_trx) (\<lambda>_.
           bindP (move_transactions E ?hs pending_trx head_trx) (\<lambda>_.
           bindP (install_head E blk l) (\<lambda>_. announce E blk bs strxs)))
         else reject_append E)) else reject_append E) ?s0 = (Inr r, s')"
    using run unfolding append_block_def bind_push bind_asks by (auto dest: bind_liftE_Inr)
  show thesis
  proof (cases v)
    case False
    then show thesis using rest reject [of ?s0] by simp
  next
    case True
    obtain strxs s1 where s1: "get_transactions E ?hs pending_trx ?s0 = (Inr strxs, s1)" and
      rest1: "(if length strxs \<noteq> length ?hs then reject_append E
       else bindP (on_head (with_fresh (?apply strxs (bs_state_db bs)))) (\<lambda>(ok, l).
         if ok then bindP (move_group E head_trx applied_trx) (\<lambda>_.
           bindP (move_transactions E ?hs pending_trx head_trx) (\<lambda>_.
           bindP (install_head E blk l) (\<lambda>_. announce E blk bs strxs)))
         else reject_append E)) s1 = (Inr r, s')"
      using rest unfolding if_P [OF True] by (rule bindP_InrE)
    obtain d where d: "s1 = ?s0" "n_trx_db s = Some d" "transactions_loop E d pending_trx ?hs [] = Inr strxs"
      using get_transactions_run [OF s1] by auto
    show thesis
    proof (cases "length strxs = length ?hs")
      case False
      then show thesis using rest1 d(1) reject [of ?s0] by simp
    next
      case len: True
      obtain okl s2 where s2: "on_head (with_fresh (?apply strxs (bs_state_db bs))) ?s0 = (Inr okl, s2)" and
        rest2: "(\<lambda>(ok, l). if ok then bindP (move_group E head_trx applied_trx) (\<lambda>_.
           bindP (move_transactions E ?hs pending_trx head_trx) (\<lambda>_.
           bindP (install_head E blk l) (\<lambda>_. announce E blk bs strxs)))
         else reject_append E) okl s2 = (Inr r, s')"
        using rest1 len unfolding d(1) by (auto elim: bindP_InrE)
      obtain ok l where okl: "okl = (ok, l)" by fastforce
      have fk: "follows kept (with_fresh (?apply strxs (bs_state_db bs)))"
        by (rule with_fresh_kept [OF below_apply_block])
      obtain db h g db' where st: "n_states s = States db h g"
        "with_fresh (?apply strxs (bs_state_db bs)) (Trx (Some db) h) = (Inr (ok, l), Trx (Some db') h)"
        "kept db db'" "s2 = ?s0\<lparr>n_states := States db' h g\<rparr>"
        by (rule on_head_run [OF s2 fk]) (rule that; simp add: okl)
      have app: "?apply strxs (bs_state_db bs) (Trx (Some (Trx (Some db) h)) empty_layer) = (Inr ok, Trx (Some (Trx (Some db') h)) l)"
        using with_fresh_run [OF st(2) below_apply_block] by simp
      have k2: "rest_kept s s2" using st by (simp add: rest_kept_def states_kept_def)
      show thesis
      proof (cases ok)
        case False
        then show thesis using rest2 okl k2 st(4) reject [of s2] by simp
      next
        case ok: True
        obtain s3' where m1: "move_group E head_trx applied_trx s2 = (Inr (), s3')" and
          rest3: "bindP (move_transactions E ?hs pending_trx head_trx) (\<lambda>_.
             bindP (install_head E blk l) (\<lambda>_. announce E blk bs strxs)) s3' = (Inr r, s')"
          using rest2 ok okl by (auto elim: bindP_InrE)
        obtain s3 where m2: "move_transactions E ?hs pending_trx head_trx s3' = (Inr (), s3)" and
          rest4: "bindP (install_head E blk l) (\<lambda>_. announce E blk bs strxs) s3 = (Inr r, s')"
          using rest3 by (auto elim: bindP_InrE)
        obtain s4 where m3: "install_head E blk l s3 = (Inr (), s4)" "announce E blk bs strxs s4 = (Inr r, s')"
          using rest4 by (auto elim: bindP_InrE)
        obtain d1 where d1: "loopP (move_group_loop E head_trx applied_trx) d = (Inr (), d1)" "s3' = s2\<lparr>n_trx_db := Some d1\<rparr>"
          using m1 st(4) d(2) unfolding move_group_def by (auto elim!: on_trx_db_run)
        obtain d' where d': "move_loop E pending_trx head_trx ?hs d1 = (Inr (), d')" "s3 = s3'\<lparr>n_trx_db := Some d'\<rparr>"
          using m2 d1 unfolding move_transactions_def by (auto elim!: on_trx_db_run)
        have "s3 = s\<lparr>n_chain := n_chain s @ [blk], n_states := States db' h g, n_trx_db := Some d'\<rparr>"
          using d1(2) d'(2) st(4) by simp
        then show thesis
          by (intro appended [OF _ d(2,3) len st(1) _ st(3) _ m3, where d' = d']) (use v True app ok d1(1) d'(1) in auto)
      qed
    qed
  qed
qed

section \<open>A block in place of the head\<close>

lemma set_back_bind [simp]: "bindP (set_back b) g s = g () (s\<lparr>n_chain := butlast (n_chain s) @ [b]\<rparr>)"
  by (simp add: set_back_def)

lemma get_head_transactions_run:
  assumes "get_head_transactions E s = (Inr hs, s')" and "n_chain s = c @ [b]"
  obtains bs where "find_block_state E (blk_state b) s = (Inr (Some bs), s')" "hs = bs_signed_transactions bs"
proof -
  obtain bso s1 where f: "find_block_state E (blk_state b) s = (Inr bso, s1)" and
    rest: "(case bso of None \<Rightarrow> throw (Gpm_Exception ''Unable to find block_state for head.'') | Some bs \<Rightarrow> ret (bs_signed_transactions bs)) s1 = (Inr hs, s')"
    using assms unfolding get_head_transactions_def by (auto simp: bindP_def chain_back_def split: prod.splits sum.splits)
  then show ?thesis using that by (cases bso) (auto simp: throw_run ret_run)
qed

lemma find_block_state_run:
  assumes "find_block_state E hc s = (Inr x, s')"
  shows "s' = s" and "\<exists>d. n_block_state_db s = Some d \<and> kv_get (e_bdb E) (e_sha1_key E) (e_block_state E) hc d = Inr x"
  using assms by (auto simp: find_block_state_def on_block_state_db_def split: option.splits)

lemma replace_block_runs:
  assumes run: "replace_block E blk bs s = (Inr r, s')" and ne: "n_chain s \<noteq> []"
    and bs: "find_block_state E (blk_state blk) s = (Inr (Some bs), s)"
  obtains
    (refused) "r = -3" "s' = s" "\<not> e_hash_less E (e_hash_block E blk) (e_hash_block E (last (n_chain s)))
        \<or> validate E (butlast (n_chain s) @ [blk]) \<noteq> Inr True"
  | (failed) d d1 d2 where "r = -3" "n_chain s' = n_chain s" "rest_kept (s\<lparr>n_trx_db := Some d2\<rparr>) s'"
      "e_hash_less E (e_hash_block E blk) (e_hash_block E (last (n_chain s)))"
      "n_trx_db s = Some d" "move_loop E head_trx pending_trx (bs_signed_transactions bs) d = (Inr (), d1)"
      "move_loop E pending_trx head_trx (bs_signed_transactions bs) d1 = (Inr (), d2)"
  | (replaced) d d1 d2 strxs db h g db' l s2 where
      "e_hash_less E (e_hash_block E blk) (e_hash_block E (last (n_chain s)))"
      "validate E (butlast (n_chain s) @ [blk]) = Inr True"
      "n_trx_db s = Some d" "move_loop E head_trx pending_trx (bs_signed_transactions bs) d = (Inr (), d1)"
      "transactions_loop E d1 pending_trx (bs_signed_transactions bs) [] = Inr strxs"
      "length strxs = length (bs_signed_transactions bs)"
      "n_states s = States db h g"
      "apply_block E blk (bs_generator_name bs) strxs (bs_state_db bs) (Trx (Some db) empty_layer) = (Inr True, Trx (Some db') l)"
      "kept db db'" "move_loop E pending_trx head_trx (bs_signed_transactions bs) d1 = (Inr (), d2)"
      "s2 = s\<lparr>n_chain := butlast (n_chain s) @ [blk], n_trx_db := Some d2, n_states := States db' l empty_layer\<rparr>"
      "announce E blk bs strxs s2 = (Inr r, s')"
proof -
  let ?old = "last (n_chain s)" and ?c = "butlast (n_chain s)" and ?hs = "bs_signed_transactions bs"
  let ?s0 = "s\<lparr>n_chain := ?c @ [blk]\<rparr>" and ?apply = "apply_block E blk (bs_generator_name bs)"
  have whole: "?c @ [?old] = n_chain s" using ne by simp
  define attempt where "attempt = (\<lambda>hs. bindP (get_transactions E ?hs pending_trx) (\<lambda>strxs.
         bindP (if length strxs \<noteq> length ?hs then ret (False, empty_layer)
                else on_state (with_fresh (?apply strxs (bs_state_db bs)))) (\<lambda>(ok, l).
         if ok then
           bindP (move_transactions E ?hs pending_trx head_trx) (\<lambda>_.
           bindP (set_head l) (\<lambda>_. announce E blk bs strxs))
         else
           bindP (move_transactions E hs pending_trx head_trx) (\<lambda>_.
           bindP (set_back ?old) (\<lambda>_. ret (-3))))) :: ('a node, int) prog)"
  have "(if e_hash_less E (e_hash_block E blk) (e_hash_block E ?old) then
       bindP (set_back blk) (\<lambda>_.
       bindP (asks n_chain) (\<lambda>bc.
       bindP (liftE (validate E bc)) (\<lambda>valid.
       if valid then
         bindP (get_head_transactions E) (\<lambda>hs. bindP (move_transactions E hs head_trx pending_trx) (\<lambda>_. attempt hs))
       else bindP (set_back ?old) (\<lambda>_. ret (-3)))))
     else ret (-3)) s = (Inr r, s')"
    using run ne unfolding replace_block_def attempt_def by (simp add: bindP_def chain_back_def)
  then consider (no) "r = -3" "s' = s" "\<not> e_hash_less E (e_hash_block E blk) (e_hash_block E ?old)"
    | (yes) v where "e_hash_less E (e_hash_block E blk) (e_hash_block E ?old)" "validate E (?c @ [blk]) = Inr v"
      "(if v then bindP (get_head_transactions E) (\<lambda>hs. bindP (move_transactions E hs head_trx pending_trx) (\<lambda>_. attempt hs))
        else bindP (set_back ?old) (\<lambda>_. ret (-3))) ?s0 = (Inr r, s')"
    by (auto simp: ret_run split: if_splits dest!: bind_liftE_Inr)
  then show thesis
  proof cases
    case no
    then show thesis using refused by simp
  next
    case yes
    show thesis
    proof (cases v)
      case False
      then show thesis using yes(2,3) whole refused by (simp add: ret_run)
    next
      case True
      have bs0: "find_block_state E (blk_state blk) ?s0 = (Inr (Some bs), ?s0)"
        using bs by (auto simp: find_block_state_def on_block_state_db_def split: option.splits)
      have "bindP (get_head_transactions E) (\<lambda>hs. bindP (move_transactions E hs head_trx pending_trx) (\<lambda>_. attempt hs)) ?s0 = (Inr r, s')"
        using yes(3) True by simp
      then obtain hs s1 where hs: "get_head_transactions E ?s0 = (Inr hs, s1)" and
        rest: "bindP (move_transactions E hs head_trx pending_trx) (\<lambda>_. attempt hs) s1 = (Inr r, s')"
        by (rule bindP_InrE)
      have hs_eq: "hs = ?hs" "s1 = ?s0"
        by (rule get_head_transactions_run [OF hs], simp, use bs0 in simp)+
      obtain u s2 where mv: "move_transactions E ?hs head_trx pending_trx ?s0 = (Inr u, s2)" and att: "attempt ?hs s2 = (Inr r, s')"
        using rest unfolding hs_eq by (rule bindP_InrE)
      obtain d d1 where d: "n_trx_db s = Some d" "move_loop E head_trx pending_trx ?hs d = (Inr (), d1)" "s2 = ?s0\<lparr>n_trx_db := Some d1\<rparr>"
        using mv unfolding move_transactions_def by (auto elim!: on_trx_db_run)
      obtain strxs s3 where gt: "get_transactions E ?hs pending_trx s2 = (Inr strxs, s3)" and
        rest2: "bindP (if length strxs \<noteq> length ?hs then ret (False, empty_layer)
                else on_state (with_fresh (?apply strxs (bs_state_db bs)))) (\<lambda>(ok, l).
         if ok then
           bindP (move_transactions E ?hs pending_trx head_trx) (\<lambda>_.
           bindP (set_head l) (\<lambda>_. announce E blk bs strxs))
         else
           bindP (move_transactions E ?hs pending_trx head_trx) (\<lambda>_.
           bindP (set_back ?old) (\<lambda>_. ret (-3)))) s3 = (Inr r, s')"
        using att unfolding attempt_def by (rule bindP_InrE)
      have s3: "s3 = s2" "transactions_loop E d1 pending_trx ?hs [] = Inr strxs" using get_transactions_run [OF gt] d by auto
      obtain okl s4 where ap: "(if length strxs \<noteq> length ?hs then ret (False, empty_layer)
                else on_state (with_fresh (?apply strxs (bs_state_db bs)))) s2 = (Inr okl, s4)" and
        rest3: "(case okl of (ok, l) \<Rightarrow> if ok then
           bindP (move_transactions E ?hs pending_trx head_trx) (\<lambda>_.
           bindP (set_head l) (\<lambda>_. announce E blk bs strxs))
         else
           bindP (move_transactions E ?hs pending_trx head_trx) (\<lambda>_.
           bindP (set_back ?old) (\<lambda>_. ret (-3)))) s4 = (Inr r, s')"
        using rest2 unfolding s3(1) by (rule bindP_InrE)
      obtain ok l where okl: "okl = (ok, l)" by fastforce
      have k4: "rest_kept s2 s4" "n_chain s4 = n_chain s2"
        using followsE [OF quiet.branch [OF quiet.plain(1) quiet_on_state [OF with_fresh_kept [OF below_apply_block]]] ap] d(3)
        by (simp_all add: quiet_def rest_kept_def)
      have db4: "n_trx_db s4 = Some d1" using k4 d(3) by (simp add: rest_kept_def)
      have "bindP (move_transactions E ?hs pending_trx head_trx) (\<lambda>_.
          if ok then bindP (set_head l) (\<lambda>_. announce E blk bs strxs) else bindP (set_back ?old) (\<lambda>_. ret (-3))) s4 = (Inr r, s')"
        using rest3 okl by (cases ok) simp_all
      then obtain u' s5 where mv': "move_transactions E ?hs pending_trx head_trx s4 = (Inr u', s5)" and
        rest4: "(if ok then bindP (set_head l) (\<lambda>_. announce E blk bs strxs) else bindP (set_back ?old) (\<lambda>_. ret (-3))) s5 = (Inr r, s')"
        by (rule bindP_InrE)
      obtain d2 where mv2: "move_loop E pending_trx head_trx ?hs d1 = (Inr (), d2)" "s5 = s4\<lparr>n_trx_db := Some d2\<rparr>"
        using mv' db4 unfolding move_transactions_def by (auto elim!: on_trx_db_run)
      show thesis
      proof (cases ok)
        case False
        have "s' = s5\<lparr>n_chain := n_chain s\<rparr>" "r = -3" using rest4 False k4 d(3) mv2(2) whole by (auto simp: ret_run)
        moreover have "rest_kept (s\<lparr>n_trx_db := Some d2\<rparr>) s5"
          using k4 d(3) mv2(2) by (simp add: rest_kept_def)
        ultimately show thesis using failed yes(1) d mv2(1) by simp
      next
        case ok: True
        have ap': "on_state (with_fresh (?apply strxs (bs_state_db bs))) s2 = (Inr (True, l), s4)" and len: "length strxs = length ?hs"
          using ap okl ok by (auto simp: ret_run split: if_splits)
        obtain db h g db' where st: "n_states s = States db h g"
          "with_fresh (?apply strxs (bs_state_db bs)) db = (Inr (True, l), db')" "s4 = s2\<lparr>n_states := States db' h g\<rparr>"
          by (rule on_state_run [OF ap']) (rule that; use d(3) in simp)
        have app: "?apply strxs (bs_state_db bs) (Trx (Some db) empty_layer) = (Inr True, Trx (Some db') l)" "kept db db'"
          using with_fresh_run [OF st(2) below_apply_block] by simp_all
        have "announce E blk bs strxs (s\<lparr>n_chain := ?c @ [blk], n_trx_db := Some d2, n_states := States db' l empty_layer\<rparr>) = (Inr r, s')"
          using rest4 ok st(3) d(3) mv2(2) by (simp add: set_head_def)
        then show thesis
          using replaced [OF yes(1) _ d(1,2) s3(2) len st(1) app mv2(1) refl] yes(2) True by simp
      qed
    qed
  qed
qed

end
