(* ===== verification/NodeDb.thy ===== *)
theory NodeDb
  imports NodeRuns RawLayout
begin

text \<open>
  The database of transactions as a map from group and hash to transaction: what looking up,
  moving and collecting transactions does to it.
\<close>

definition small_strx :: "'d env \<Rightarrow> signed_transaction set" where
  "small_strx E = {t. length (pack (e_strx E) t) < log_limit}"

definition trx_laws :: "'d env \<Rightarrow> ('d \<Rightarrow> (bytes \<times> bytes) list) \<Rightarrow> bool" where
  "trx_laws E ents \<longleftrightarrow> kv_ok (e_bdb E) ents (e_trx_key E) (e_strx E) UNIV (small_strx E)"

definition trx_holds :: "'d env \<Rightarrow> ('d \<Rightarrow> (bytes \<times> bytes) list) \<Rightarrow> 'd \<Rightarrow> (u32 \<times> sha1, signed_transaction) omap \<Rightarrow> bool" where
  "trx_holds E ents d M \<longleftrightarrow> kv_rep ents (e_trx_key E) (e_strx E) UNIV (small_strx E) d M"

lemma trx_wf: "trx_holds E ents d M \<Longrightarrow> om_wf M"
  by (simp add: trx_holds_def kv_rep_def)

lemma trx_small: "trx_holds E ents d M \<Longrightarrow> om_find k M = Some t \<Longrightarrow> t \<in> small_strx E"
  by (auto simp: trx_holds_def kv_rep_def om_find_in)

lemma trx_ops_map:
  assumes "trx_laws E ents" and "trx_holds E ents d M"
  shows "trx_get E g h d = Inr (om_find (g, h) M)"
    and "t \<in> small_strx E \<Longrightarrow> trx_holds E ents (trx_set E g h t d) (om_set (g, h) t M)"
    and "trx_holds E ents (trx_remove E g h d) (om_erase (g, h) M)"
  using kv_get_map [OF assms [unfolded trx_laws_def trx_holds_def]] kv_set_map [OF assms [unfolded trx_laws_def trx_holds_def]]
    kv_remove_map(1) [OF assms [unfolded trx_laws_def trx_holds_def]]
  by (simp_all add: trx_get_def trx_set_def trx_remove_def trx_holds_def)

lemma trx_shift:
  assumes "trx_laws E ents" and "trx_holds E ents d M" and "om_find (g, h) M = Some t"
  shows "trx_holds E ents (trx_remove E g h (trx_set E g' h t d)) (om_erase (g, h) (om_set (g', h) t M))"
  using trx_ops_map(3) [OF assms(1) trx_ops_map(2) [OF assms(1,2) trx_small [OF assms(2,3)]]] .

lemma transactions_loop_map:
  assumes "trx_laws E ents" and "trx_holds E ents d M"
  shows "transactions_loop E d g hs acc =
    Inr (if \<forall>h \<in> set hs. om_find (g, h) M \<noteq> None then acc @ map (\<lambda>h. the (om_find (g, h) M)) hs else [])"
  by (induction hs arbitrary: acc) (auto simp: trx_ops_map(1) [OF assms] split: option.split)

lemma find_transaction_map:
  assumes "trx_laws E ents" and "trx_holds E ents d M"
  shows "\<exists>r. find_transaction E d h gs = Inr r \<and> (r = None \<longleftrightarrow> (\<forall>g \<in> set gs. om_find (g, h) M = None))"
  by (induction gs) (auto simp: trx_ops_map(1) [OF assms] split: option.split)

section \<open>Moving a list of transactions\<close>

primrec move_map :: "u32 \<Rightarrow> u32 \<Rightarrow> sha1 list \<Rightarrow> (u32 \<times> sha1, 'v) omap \<Rightarrow> (u32 \<times> sha1, 'v) omap" where
  "move_map g g' [] M = M"
| "move_map g g' (h # hs) M =
     move_map g g' hs (case om_find (g, h) M of None \<Rightarrow> M | Some t \<Rightarrow> om_erase (g, h) (om_set (g', h) t M))"

lemma find_move_map:
  assumes "g \<noteq> g'"
  shows "om_find (k, h) (move_map g g' hs M) =
    (if h \<in> set hs \<and> om_find (g, h) M \<noteq> None \<and> k \<in> {g, g'} then (if k = g then None else om_find (g, h) M) else om_find (k, h) M)"
  using assms by (induction hs arbitrary: M) (auto simp: om_erase_find om_find_set split: option.split)

lemma move_loop_map:
  assumes laws: "trx_laws E ents" and "trx_holds E ents d M"
  shows "\<exists>d'. move_loop E g g' hs d = (Inr (), d') \<and> trx_holds E ents d' (move_map g g' hs M)"
  using assms(2)
proof (induction hs arbitrary: d M)
  case (Cons h hs)
  obtain itr where itr: "kv_find (e_bdb E) (e_trx_key E) (e_strx E) (g, h) d = Inr itr" "it_end itr = (om_find (g, h) M = None)"
    "\<forall>v. om_find (g, h) M = Some v \<longrightarrow> it_value itr = Some v"
    using kv_find_map [OF laws [unfolded trx_laws_def] Cons.prems [unfolded trx_holds_def], of "(g, h)"] by auto
  show ?case
  proof (cases "om_find (g, h) M")
    case None
    then show ?thesis using itr Cons.IH [OF Cons.prems] by simp
  next
    case (Some t)
    then show ?thesis using itr Cons.IH [OF trx_shift [OF laws Cons.prems Some]] by simp
  qed
qed simp

section \<open>Moving a group\<close>

lemma key_le: "((g :: u32), (0 :: sha1)) \<le> (g', h) \<longleftrightarrow> g \<le> g'"
  by (auto simp: less_eq_prod_def)

lemma om_lower_bound_hd:
  assumes "om_wf M" and "om_lower_bound k M = e # s"
  shows "e \<in> set M" and "k \<le> fst e" and "\<forall>x \<in> set M. k \<le> fst x \<longrightarrow> fst e \<le> fst x"
proof -
  have set_eq: "set (e # s) = {x \<in> set M. k \<le> fst x}" using om_lower_bound_set [OF assms(1), of k] assms(2) by simp
  then show "e \<in> set M" "k \<le> fst e" by auto
  have "om_wf (e # s)"
    using assms by (metis om_lower_bound_def om_wf_def map_append sorted_wrt_append takeWhile_dropWhile_id)
  then show "\<forall>x \<in> set M. k \<le> fst x \<longrightarrow> fst e \<le> fst x"
    using set_eq by (auto simp: om_wf_Cons dest: order.strict_implies_order)
qed

lemma move_group_loop_map:
  assumes laws: "trx_laws E ents" and "g \<noteq> g'" and "trx_holds E ents d M"
  shows "\<exists>d' M'. move_group_loop E g g' d = Some (Inr (), d') \<and> trx_holds E ents d' M'
    \<and> (\<forall>k h. om_find (k, h) M' = (if k = g then None else if k = g' \<and> om_find (g, h) M \<noteq> None then om_find (g, h) M else om_find (k, h) M))"
  using assms(3)
proof (induction "card {h. om_find (g, h) M \<noteq> None}" arbitrary: d M rule: less_induct)
  case less
  let ?A = "\<lambda>M :: (u32 \<times> sha1, signed_transaction) omap. {h. om_find (g, h) M \<noteq> None}"
  have wf: "om_wf M" using less.prems by (rule trx_wf)
  obtain itr where itr: "kv_search (e_bdb E) (e_trx_key E) (e_strx E) (g, 0) d = Inr itr"
    "kv_at (e_trx_key E) itr (om_lower_bound (g, 0) M)"
    using kv_search_at [OF laws [unfolded trx_laws_def] less.prems [unfolded trx_holds_def], of "(g, 0)"] by auto
  have none: ?case if "\<not> it_end itr \<longrightarrow> fst (the (it_key itr)) \<noteq> g" and empty: "?A M = {}"
  proof -
    have "move_group_loop E g g' d = Some (Inr (), d)"
      using itr(1) that(1) by (subst move_group_loop.simps) auto
    then show ?thesis using less.prems empty by (intro exI [of _ d] exI [of _ M]) auto
  qed
  show ?case
  proof (cases "om_lower_bound (g, 0) M")
    case Nil
    have "om_find (g, h) M = None" for h
    proof (cases "om_find (g, h) M")
      case (Some t)
      then have "((g, h), t) \<in> set (om_lower_bound (g, 0) M)"
        using om_lower_bound_set [OF wf, of "(g, 0)"] om_find_in [OF wf] by simp
      then show ?thesis using Nil by simp
    qed
    then show ?thesis using none itr(2) Nil by (simp add: kv_at_def)
  next
    case (Cons e s)
    obtain k h t where e: "e = ((k, h), t)" by (metis surj_pair)
    have key: "\<not> it_end itr" "it_key itr = Some (k, h)" "it_value itr = Some t"
      using itr(2) Cons e by (simp_all add: kv_at_def)
    note hd = om_lower_bound_hd [OF wf Cons, unfolded e]
    show ?thesis
    proof (cases "k = g")
      case False
      have "om_find (g, h') M = None" for h'
      proof (rule ccontr)
        assume "om_find (g, h') M \<noteq> None"
        then obtain t' where "((g, h'), t') \<in> set M" using om_find_in [OF wf] by blast
        then have "(k, h) \<le> (g, h')" "(g, 0) \<le> (k, h)" using hd by (force simp: key_le)+
        then show False using False by (auto simp: less_eq_prod_def)
      qed
      then show ?thesis using none key False by simp
    next
      case True
      have at: "om_find (g, h) M = Some t" using hd(1) True om_find_in [OF wf] by simp
      let ?d = "trx_remove E g h (trx_set E g' h t d)" and ?M = "om_erase (g, h) (om_set (g', h) t M)"
      have find: "om_find (k', h') ?M = (if k' = g \<and> h' = h then None else if k' = g' \<and> h' = h then Some t else om_find (k', h') M)" for k' h'
        by (auto simp: om_erase_find om_find_set)
      have step: "move_group_loop E g g' d = move_group_loop E g g' ?d"
        using itr(1) key True by (simp add: move_group_loop.simps [of E g g' d] Let_def)
      have "?A ?M = ?A M - {h}" using find assms(2) by auto
      moreover have "finite (?A M)"
      proof (rule finite_subset)
        show "?A M \<subseteq> snd ` fst ` set M" using om_find_in [OF wf] by force
      qed simp
      ultimately have "card (?A ?M) < card (?A M)" using at by (intro psubset_card_mono) auto
      then obtain d' M' where "move_group_loop E g g' ?d = Some (Inr (), d')" "trx_holds E ents d' M'"
        "\<forall>k h. om_find (k, h) M' = (if k = g then None else if k = g' \<and> om_find (g, h) ?M \<noteq> None then om_find (g, h) ?M else om_find (k, h) ?M)"
        using less.hyps [OF _ trx_shift [OF laws less.prems at]] by blast
      then show ?thesis
        unfolding step using assms(2) at by (intro exI [of _ d'] exI [of _ M']) (auto simp: find)
    qed
  qed
qed

section \<open>The pending transactions\<close>

lemma pending_loop_at:
  assumes laws: "trx_laws E ents" and rep: "trx_holds E ents d M"
  shows "M = pre @ s \<Longrightarrow> kv_at (e_trx_key E) itr s \<Longrightarrow>
    pending_loop E d itr acc = Some (Inr (acc @ map (\<lambda>e. (snd (fst e), snd e)) (takeWhile (\<lambda>e. fst (fst e) = pending_trx) s)))"
proof (induction s arbitrary: pre itr acc)
  case Nil
  then show ?case by (simp add: pending_loop.simps kv_at_def)
next
  case (Cons e s)
  obtain itr' where itr': "kv_next (e_bdb E) (e_trx_key E) (e_strx E) itr d = Inr itr'" "kv_at (e_trx_key E) itr' s"
    using kv_next_at [OF laws [unfolded trx_laws_def], where pre = pre and e = e and s = s] rep Cons.prems by (auto simp: trx_holds_def)
  have key: "\<not> it_end itr" "it_key itr = Some (fst e)" "it_value itr = Some (snd e)"
    using Cons.prems(2) by (simp_all add: kv_at_def)
  show ?case
  proof (cases "fst (fst e) = pending_trx")
    case True
    then show ?thesis
      using key itr' Cons.IH [of "pre @ [e]" itr' "acc @ [(snd (fst e), snd e)]"] Cons.prems(1)
      by (simp add: pending_loop.simps [of E d itr])
  next
    case False
    then show ?thesis using key by (simp add: pending_loop.simps [of E d itr])
  qed
qed

lemma pending_takeWhile:
  assumes "om_wf M" and "((pending_trx, h), t) \<in> set M"
  shows "(h, t) \<in> set (map (\<lambda>e. (snd (fst e), snd e)) (takeWhile (\<lambda>e. fst (fst e) = pending_trx) M))"
  using assms
proof (induction M)
  case (Cons e M)
  have "fst (fst e) = pending_trx"
  proof (cases "e = ((pending_trx, h), t)")
    case False
    then have "fst e < (pending_trx, h)" using Cons.prems by (auto simp: om_wf_Cons)
    then show ?thesis by (auto simp: less_prod_def pending_trx_def)
  qed simp
  then show ?case using Cons by (auto simp: om_wf_Cons)
qed simp

lemma pending_transactions_map:
  assumes laws: "trx_laws E ents" and d: "n_trx_db s = Some d" and rep: "trx_holds E ents d M"
  obtains ts where "pending_transactions E s = (Inr ts, s)" "\<And>h t. om_find (pending_trx, h) M = Some t \<Longrightarrow> (h, t) \<in> set ts"
proof -
  let ?ts = "map (\<lambda>e. (snd (fst e), snd e)) (takeWhile (\<lambda>e. fst (fst e) = pending_trx) M)"
  have all: "om_lower_bound (pending_trx, 0) M = M"
    by (cases M) (auto simp: om_lower_bound_def pending_trx_def not_less key_le less_prod_def)
  obtain itr where itr: "kv_search (e_bdb E) (e_trx_key E) (e_strx E) (pending_trx, 0) d = Inr itr" "kv_at (e_trx_key E) itr M"
    using kv_search_at [OF laws [unfolded trx_laws_def] rep [unfolded trx_holds_def], of "(pending_trx, 0)"] all by auto
  have "pending_loop E d itr [] = Some (Inr ?ts)" using pending_loop_at [OF laws rep, of "[]" M itr "[]"] itr(2) by simp
  then have "pending_transactions E s = (Inr ?ts, s)"
    using itr(1) d by (simp add: pending_transactions_def on_trx_db_def)
  moreover have "(h, t) \<in> set ?ts" if "om_find (pending_trx, h) M = Some t" for h t
    using pending_takeWhile [OF trx_wf [OF rep]] that om_find_in [OF trx_wf [OF rep]] by blast
  ultimately show ?thesis by (rule that)
qed

lemma groups_differ [simp]: "pending_trx \<noteq> head_trx" "head_trx \<noteq> pending_trx" "head_trx \<noteq> applied_trx" "applied_trx \<noteq> head_trx"
  "pending_trx \<noteq> applied_trx" "applied_trx \<noteq> pending_trx"
  by (simp_all add: pending_trx_def head_trx_def applied_trx_def)

lemma raw_trx_laws: "trx_laws raw_env (\<lambda>es. es)"
proof -
  have key: "codec_laws (codec_of lay_trx_key) UNIV"
    by (rule codec_laws_of [OF lossless_node(4)]) (auto simp: lay_trx_key_def lay_pair_def lay_word_def log_limit_def)
  have val: "codec_laws (codec_of lay_strx) (small_strx raw_env)"
    by (rule codec_laws_of [OF lossless_node(1)]) (simp add: small_strx_def)
  have ne: "lay lay_trx_key k \<noteq> []" "lay lay_strx t \<noteq> []" for k t
    unfolding length_0_conv [symmetric]
    by (cases k; simp add: lay_trx_key_def lay_pair_def lay_word_def del: length_0_conv)
      (simp add: lay_strx_def lay_transaction_def lay_iso_def lay_pair_def lay_word_def del: length_0_conv)
  show ?thesis unfolding trx_laws_def kv_ok_def raw_env_sel
    by (intro conjI ballI list_bdb_laws key val) (simp_all add: ne)
qed

end
