(* ===== verification/NodeProps.thy ===== *)
theory NodeProps
  imports NodeDb
begin

text \<open>
  What \<open>add_block\<close> and the operations around it guarantee: the chain, the market the head shows
  and the disk holds, the groups of transactions, and what an error leaves behind.
\<close>

section \<open>The runs of add\_block\<close>

abbreviation ticked :: "'d node \<Rightarrow> 'd node" where
  "ticked s \<equiv> s\<lparr>n_ticks := Suc (n_ticks s)\<rparr>"

lemma add_block_runs:
  assumes run: "add_block E blk s = (Inr r, s')"
  obtains
    (ignored) "r = 0 \<or> r = -1" "n_chain s' = n_chain s" "rest_kept s s'"
  | (append) bs where "n_chain s \<noteq> []" "find_block_state E (blk_state blk) s = (Inr (Some bs), s)"
      "blk_prev_block blk = e_hash_block E (last (n_chain s))" "append_block E blk bs (ticked s) = (Inr r, s')"
  | (replace) bs where "n_chain s \<noteq> []" "find_block_state E (blk_state blk) s = (Inr (Some bs), s)"
      "blk_prev_block blk \<noteq> e_hash_block E (last (n_chain s))" "blk_prev_block blk = blk_prev_block (last (n_chain s))"
      "replace_block E blk bs (ticked s) = (Inr r, s')"
proof (cases "n_chain s = []")
  case True
  then have "r = 0" "s' = s" using run by (simp_all add: add_block_def ret_run)
  then show thesis using ignored by simp
next
  case False
  let ?cont = "\<lambda>bs. bindP utc_clock (\<lambda>t.
           if blk_utc_time blk > ucast (t div 1000000) + 30 then ret (-1)
           else if blk_prev_block blk = e_hash_block E (last (n_chain s)) then append_block E blk bs
           else if blk_prev_block blk = blk_prev_block (last (n_chain s)) then replace_block E blk bs
           else ret (-1))"
  have "bindP (find_block_state E (blk_state blk)) (\<lambda>bs. case bs of None \<Rightarrow> ret (-1) | Some bs \<Rightarrow> ?cont bs) s = (Inr r, s')"
    using run False by (simp add: add_block_def bindP_def chain_back_def asks_run Let_def)
  then obtain bso s1 where f: "find_block_state E (blk_state blk) s = (Inr bso, s1)"
    and rest: "(case bso of None \<Rightarrow> ret (-1) | Some bs \<Rightarrow> ?cont bs) s1 = (Inr r, s')"
    by (rule bindP_InrE)
  have s1: "s1 = s" using find_block_state_run [OF f] by simp
  show thesis
  proof (cases bso)
    case None
    then show thesis using rest s1 ignored by (simp add: ret_run)
  next
    case (Some bs)
    have "(if blk_utc_time blk > ucast (n_clock s (n_ticks s) div 1000000) + 30 then ret (-1)
           else if blk_prev_block blk = e_hash_block E (last (n_chain s)) then append_block E blk bs
           else if blk_prev_block blk = blk_prev_block (last (n_chain s)) then replace_block E blk bs
           else ret (-1)) (ticked s) = (Inr r, s')"
      using rest s1 Some by (simp add: bindP_def utc_clock_def Let_def)
    then show thesis
      using ignored append [OF False f [unfolded s1 Some]] replace [OF False f [unfolded s1 Some]]
      by (auto simp: ret_run rest_kept_def states_kept_refl split: if_splits)
  qed
qed

lemma find_block_state_ticked: "find_block_state E hc s = (Inr x, s) \<Longrightarrow> find_block_state E hc (ticked s) = (Inr x, ticked s)"
  by (auto simp: find_block_state_def on_block_state_db_def split: option.splits)

lemma on_state_bind:
  assumes "bindP (on_state f) g s = (Inr r, s')" and "n_states s = States db h l"
  obtains x db' where "f db = (Inr x, db')" "g x (s\<lparr>n_states := States db' h l\<rparr>) = (Inr r, s')"
  using assms by (auto simp: bindP_def on_state_def split: prod.splits sum.splits)

lemma install_head_run:
  assumes run: "install_head E blk l s = (Inr (), s')" and st: "n_states s = States db h g" and ch: "n_chain s = c @ [blk]"
  obtains db1 db2 db3 where "commit E db = (Inr (), db1)" "commit E (Trx (Some db1) h) = (Inr (), Trx (Some db2) empty_layer)"
    "commit E db2 = (Inr (), db3)"
    "s' = s\<lparr>n_states := States db3 l empty_layer, n_saved := Some (save_chain (e_chain E) c)\<rparr>"
proof -
  let ?g = "\<lambda>_. bindP (on_head (commit E)) (\<lambda>_. bindP (set_head l) (\<lambda>_. bindP pop_block (\<lambda>_.
     bindP (modify (\<lambda>s. s\<lparr>n_saved := Some (save_chain (e_chain E) (n_chain s))\<rparr>)) (\<lambda>_.
     bindP (on_state (commit E)) (\<lambda>_. push_block blk)))))"
  obtain u db1 where one: "commit E db = (Inr u, db1)" "?g u (s\<lparr>n_states := States db1 h g\<rparr>) = (Inr (), s')"
    using run unfolding install_head_def by (rule on_state_bind [OF _ st])
  let ?db2 = "snd (append_layer (local_changes h) (last_transfer_map h) (last_name_edit_map h) db1)"
  have two: "commit E (Trx (Some db1) h) = (Inr (), Trx (Some ?db2) empty_layer)" by (simp add: append_layer_run)
  have "bindP (on_state (commit E)) (\<lambda>_. push_block blk)
     (s\<lparr>n_states := States ?db2 l empty_layer, n_chain := c, n_saved := Some (save_chain (e_chain E) c)\<rparr>) = (Inr (), s')"
    using one(2) two ch by (simp add: bindP_def on_head_def set_head_def pop_block_def modify_run)
  then obtain v db3 where three: "commit E ?db2 = (Inr v, db3)"
    "push_block blk (s\<lparr>n_chain := c, n_saved := Some (save_chain (e_chain E) c), n_states := States db3 l empty_layer\<rparr>) = (Inr (), s')"
    by (rule on_state_bind) auto
  have "s' = s\<lparr>n_states := States db3 l empty_layer, n_saved := Some (save_chain (e_chain E) c)\<rparr>"
    using three(2) ch by (cases s) (simp add: push_block_def modify_run)
  then show thesis using that one(1) two three(1) by simp
qed

section \<open>The chain\<close>

lemma add_block_result:
  assumes "add_block E blk s = (Inr r, s')"
  shows "(r = 1 \<and> validate E (n_chain s') = Inr True \<and> n_chain s \<noteq> []
      \<and> (n_chain s' = n_chain s @ [blk] \<and> blk_prev_block blk = e_hash_block E (last (n_chain s))
         \<or> n_chain s' = butlast (n_chain s) @ [blk] \<and> blk_prev_block blk = blk_prev_block (last (n_chain s))
           \<and> e_hash_less E (e_hash_block E blk) (e_hash_block E (last (n_chain s))))
      \<and> (\<exists>fbs. n_events s' = n_events s @ [New_Block fbs] \<and> fbs_blk fbs = blk))
    \<or> (r \<in> {0, -1, -3} \<and> n_chain s' = n_chain s \<and> n_saved s' = n_saved s \<and> n_events s' = n_events s
      \<and> states_kept (n_states s) (n_states s'))"
  using assms
proof (cases rule: add_block_runs)
  case ignored
  then show ?thesis by (auto simp: rest_kept_def)
next
  case (append bs)
  from append(4) show ?thesis
  proof (cases rule: append_block_runs)
    case refused
    then show ?thesis by (simp add: rest_kept_def)
  next
    case (appended d strxs db h g db' l d' s3 s4)
    have st: "n_states s3 = States db' h g" "n_chain s3 = n_chain s @ [blk]" "n_events s3 = n_events s" using appended(8) by simp_all
    obtain db3 where s4: "s4 = s3\<lparr>n_states := States db3 l empty_layer, n_saved := Some (save_chain (e_chain E) (n_chain s))\<rparr>"
      by (rule install_head_run [OF appended(9) st(1,2)])
    have "n_chain s4 \<noteq> []" using s4 st by simp
    from announce_run [OF appended(10) this] show ?thesis
      using s4 st append(1,3) appended(1) by (auto simp: full_block_of_def)
  qed
next
  case (replace bs)
  have ch: "n_chain (ticked s) \<noteq> []" using replace(1) by simp
  show ?thesis
  proof (cases rule: replace_block_runs [OF replace(5) ch find_block_state_ticked [OF replace(2)]])
    case 1
    then show ?thesis by (simp add: states_kept_refl)
  next
    case (2 d d1 d2)
    then show ?thesis by (simp add: rest_kept_def)
  next
    case (3 d d1 d2 strxs db h g db' l s2)
    have "n_chain s2 \<noteq> []" using 3(11) by simp
    from announce_run [OF 3(12) this] show ?thesis
      using 3(1,2,11) replace(1,4) by (auto simp: full_block_of_def)
  qed
qed

text \<open>C7: Adding a block. When \<open>add_block\<close> returns 1, the chain it leaves is valid; the block is its last,
  behind the old head whose hash it names, or in place of an old head that follows the same
  block and has a greater hash; and the block was announced, once. When it returns anything
  else that is 0, -1 or -3, and the chain, the saved chain, the signals and the log of the state
  database and of the head are what they were.\<close>

theorem add_block_outcome:
  assumes "add_block E blk s = (Inr r, s')"
  shows "(r = 1 \<and> validate E (n_chain s') = Inr True \<and> n_chain s \<noteq> []
      \<and> (n_chain s' = n_chain s @ [blk] \<and> blk_prev_block blk = e_hash_block E (last (n_chain s))
         \<or> n_chain s' = butlast (n_chain s) @ [blk] \<and> blk_prev_block blk = blk_prev_block (last (n_chain s))
           \<and> e_hash_less E (e_hash_block E blk) (e_hash_block E (last (n_chain s))))
      \<and> (\<exists>fbs. n_events s' = n_events s @ [New_Block fbs] \<and> fbs_blk fbs = blk))
    \<or> (r \<in> {0, -1, -3} \<and> n_chain s' = n_chain s \<and> n_saved s' = n_saved s \<and> n_events s' = n_events s
      \<and> states_kept (n_states s) (n_states s'))"
  using add_block_result [OF assms] .

end
