(* ===== verification/NodeMarket.thy ===== *)
theory NodeMarket
  imports NodeProps BlockChainProofs
begin

text \<open>
  A node over the market: the head shows a market, the disk holds the market of the block before
  it. A block that is added runs its transactions on one of the two.
\<close>

definition node_shows :: "'d env \<Rightarrow> ('d \<Rightarrow> (bytes \<times> bytes) list) \<Rightarrow> market \<Rightarrow> 'd node \<Rightarrow> bool" where
  \<comment> \<open>the market the head block leaves\<close>
  "node_shows E ents m s \<longleftrightarrow> (\<exists>db h g. n_states s = States db h g \<and> shows_market E ents m (Trx (Some db) h))"

definition disk_shows :: "'d env \<Rightarrow> ('d \<Rightarrow> (bytes \<times> bytes) list) \<Rightarrow> market \<Rightarrow> 'd node \<Rightarrow> bool" where
  \<comment> \<open>the market in the file and the databases, nothing of it only in memory\<close>
  "disk_shows E ents m s \<longleftrightarrow> (\<exists>db h g. n_states s = States db h g \<and> layer_of db = empty_layer \<and> shows_market E ents m db)"

definition node_ready :: "'d env \<Rightarrow> 'd node \<Rightarrow> bool" where
  "node_ready E s \<longleftrightarrow> (\<exists>f td nd dl h g. n_states s = States (State_Db f td nd dl) h g
     \<and> f_pos f \<le> length (f_data f) \<and> f_writable f \<and> layer_ready E dl \<and> layer_ready E h)"

definition head_of :: "'d node \<Rightarrow> 'd sdb" where
  \<comment> \<open>\<open>m_head_trx\<close>\<close>
  "head_of s = (case n_states s of States db h g \<Rightarrow> Trx (Some db) h | _ \<Rightarrow> trx_new None)"

definition state_of :: "'d node \<Rightarrow> 'd sdb" where
  \<comment> \<open>\<open>m_state_db\<close>\<close>
  "state_of s = (case n_states s of States db h g \<Rightarrow> db | _ \<Rightarrow> trx_new None)"

lemma kept_State_Db:
  assumes "kept (State_Db f td nd l) s"
  obtains f' where "s = State_Db f' td nd l" "f_data f' = f_data f" "f_writable f' = f_writable f"
    "f_pos f \<le> length (f_data f) \<Longrightarrow> f_pos f' \<le> length (f_data f')"
proof -
  have st: "still s = State_Db (f\<lparr>f_pos := 0, f_eof := False\<rparr>) td nd l" using assms by (simp add: kept_def)
  then obtain f' where s: "s = State_Db f' td nd l" "f'\<lparr>f_pos := 0, f_eof := False\<rparr> = f\<lparr>f_pos := 0, f_eof := False\<rparr>"
    by (cases s rule: still.cases) auto
  have "f_data f' = f_data f" "f_writable f' = f_writable f"
    using arg_cong [OF s(2), of f_data] arg_cong [OF s(2), of f_writable] by simp_all
  then show ?thesis using that s(1) assms by (simp add: kept_def)
qed

lemma kept_shows: "kept s s' \<Longrightarrow> shows_market E ents m s \<Longrightarrow> shows_market E ents m s'"
  unfolding shows_market_def kept_def using holds_same by blast

lemma kept_log_size: "kept s s' \<Longrightarrow> log_size s' = log_size s"
  by (intro log_size_still) (simp add: kept_def)

lemma shows_fresh: "shows_market E ents m s \<Longrightarrow> shows_market E ents m (Trx (Some s) empty_layer)"
  unfolding shows_market_def using holds_empty_layer by blast

text \<open>The commits of an appended block, on the states \<open>apply\<close> left.\<close>

lemma settled:
  assumes laws: "env_laws E ents" and m: "shows_market E ents m (Trx (Some db) h)"
    and db: "db = State_Db f td nd dl" "f_pos f = length (f_data f)" "f_writable f" "layer_ready E dl" "layer_ready E h"
    and m': "shows_market E ents m' (Trx (Some (Trx (Some db) h)) l)"
  obtains db1 db2 db3 where "commit E db = (Inr (), db1)" "commit E (Trx (Some db1) h) = (Inr (), Trx (Some db2) empty_layer)"
    "commit E db2 = (Inr (), db3)" "shows_market E ents m db3" "shows_market E ents m' (Trx (Some db3) l)"
    "log_size (Trx (Some db3) l) = log_size (Trx (Some (Trx (Some db) h)) l)"
    "\<exists>f3 td3 nd3. db3 = State_Db f3 td3 nd3 empty_layer \<and> f_pos f3 \<le> length (f_data f3) \<and> f_writable f3"
proof -
  obtain db1 db2 f3 td3 nd3 where c: "commit E db = (Inr (), db1)" "commit E (Trx (Some db1) h) = (Inr (), Trx (Some db2) empty_layer)"
    "commit E db2 = (Inr (), State_Db f3 td3 nd3 empty_layer)"
    "f_data f3 = f_data f @ local_changes dl @ local_changes h" "f_pos f3 = length (f_data f3)" "f_writable f3"
    and holds3: "\<And>lg. holds E ents lg (Trx (Some db) h) \<Longrightarrow> holds E ents lg (State_Db f3 td3 nd3 empty_layer)"
    using settle_holds [OF laws db(2-5), of td nd] unfolding db(1) by metis
  let ?db3 = "State_Db f3 td3 nd3 empty_layer"
  have m3: "shows_market E ents m ?db3" using m holds3 unfolding shows_market_def by blast
  obtain lg where lg: "holds E ents lg (Trx (Some (Trx (Some db) h)) l)" "sound E lg" "market_of E lg = m'"
    using m' unfolding shows_market_def by blast
  obtain blg es where b: "holds E ents blg (Trx (Some db) h)" "lg_log lg = lg_log blg @ es"
      "local_changes l = log_from E (entries_len E (lg_log blg)) es"
      "lg_names lg = over (lg_names blg) (last_name_edit_map l)" "lg_accts lg = over (lg_accts blg) (last_transfer_map l)"
      "index_ok (last_name_edit_map l)" "index_ok (last_transfer_map l)"
    using lg(1) unfolding holds.simps(2) [of E ents lg "Trx (Some db) h"] by blast
  have "holds E ents lg (Trx (Some ?db3) l)" by (rule holds_TrxI [OF holds3 [OF b(1)] b(2-7)])
  then have m3': "shows_market E ents m' (Trx (Some ?db3) l)" using lg(2,3) by (rule shows_marketI)
  have sz: "log_size (Trx (Some ?db3) l) = log_size (Trx (Some (Trx (Some db) h)) l)"
    using c(4) by (simp add: log_size_def db(1))
  show ?thesis using c(5,6) by (intro that [OF c(1,2,3) m3 m3' sz]) auto
qed

lemma announce_shows:
  assumes "states_kept (States db l empty_layer) (n_states s')" and "shows_market E ents m' (Trx (Some db) l)"
  shows "node_shows E ents m' s'"
proof -
  obtain db' g' where st: "n_states s' = States db' l g'" "kept db db'" using assms(1) by (auto simp: states_kept_def)
  then have "kept (Trx (Some db) l) (Trx (Some db') l)" by (simp add: kept_Trx)
  then show ?thesis using kept_shows [OF _ assms(2)] st(1) by (auto simp: node_shows_def)
qed

lemma announce_ready:
  assumes fin: "states_kept (States (State_Db f td nd empty_layer) l empty_layer) (n_states s')"
    and m: "shows_market E ents m (State_Db f td nd empty_layer)"
    and f: "f_pos f \<le> length (f_data f)" "f_writable f" and l: "layer_ready E l"
  shows "disk_shows E ents m s'" and "node_ready E s'"
proof -
  obtain db' g' where st: "n_states s' = States db' l g'" "kept (State_Db f td nd empty_layer) db'"
    using fin by (auto simp: states_kept_def)
  obtain f' where f': "db' = State_Db f' td nd empty_layer" "f_writable f' = f_writable f"
      "f_pos f' \<le> length (f_data f')"
    using kept_State_Db [OF st(2)] f(1) by metis
  show "disk_shows E ents m s'"
    unfolding disk_shows_def using st(1) f'(1) kept_shows [OF st(2) m] by auto
  have "layer_ready E empty_layer" by (simp add: layer_ready_def om_empty_def)
  then show "node_ready E s'" unfolding node_ready_def using st(1) f' f(2) l by auto
qed

text \<open>Which of the two branches an \<open>add_block\<close> took, by the length of the chain.\<close>

lemma replaced_length:
  assumes "replace_block E blk bs (ticked s) = (Inr r, s')" and "n_chain s \<noteq> []" and "find_block_state E (blk_state blk) s = (Inr (Some bs), s)"
  shows "length (n_chain s') = length (n_chain s)"
proof -
  have ch: "n_chain (ticked s) \<noteq> []" using assms(2) by simp
  show ?thesis
  proof (cases rule: replace_block_runs [OF assms(1) ch find_block_state_ticked [OF assms(3)]])
    case (3 d d1 d2 strxs db h g db' l s2)
    have "n_chain s2 \<noteq> []" using 3(11) by simp
    then show ?thesis using announce_run(2) [OF 3(12)] 3(11) assms(2) by simp
  qed simp_all
qed

lemma appended_length:
  assumes "append_block E blk bs (ticked s) = (Inr 1, s')"
  shows "length (n_chain s') = Suc (length (n_chain s))"
  using assms
proof (cases rule: append_block_runs)
  case refused
  then show ?thesis by simp
next
  case (appended d strxs db h g db' l d' s3 s4)
  have st: "n_states s3 = States db' h g" "n_chain s3 = n_chain s @ [blk]" using appended(8) by simp_all
  have "n_chain s4 = n_chain s @ [blk]" by (rule install_head_run [OF appended(9) st]) (simp add: st)
  then show ?thesis using announce_run(2) [OF appended(10)] by simp
qed

lemma add_block_appended:
  assumes "add_block E blk s = (Inr r, s')" and "length (n_chain s') = Suc (length (n_chain s))"
    and "find_block_state E (blk_state blk) s = (Inr (Some bs), s)"
  shows "append_block E blk bs (ticked s) = (Inr r, s') \<and> n_chain s \<noteq> []"
  using assms(1)
proof (cases rule: add_block_runs)
  case ignored
  then show ?thesis using assms(2) by simp
next
  case (append bs')
  then show ?thesis using assms(3) by simp_all
next
  case (replace bs')
  then show ?thesis using replaced_length [OF replace(5,1,2)] assms(2) by simp
qed

lemma add_block_replaced:
  assumes "add_block E blk s = (Inr 1, s')" and "length (n_chain s') = length (n_chain s)"
    and "find_block_state E (blk_state blk) s = (Inr (Some bs), s)"
  shows "replace_block E blk bs (ticked s) = (Inr 1, s') \<and> n_chain s \<noteq> []"
  using assms(1)
proof (cases rule: add_block_runs)
  case ignored
  then show ?thesis by simp_all
next
  case (append bs')
  then show ?thesis using appended_length [OF append(4)] assms(2) by simp
next
  case (replace bs')
  then show ?thesis using assms(3) by simp_all
qed

text \<open>The new head in its place: what it and the disk show.\<close>

lemma installed_shows:
  assumes laws: "env_laws E ents" and m: "shows_market E ents m (Trx (Some (State_Db f td nd dl)) h)"
    and db: "f_pos f \<le> length (f_data f)" "f_writable f" "layer_ready E dl" "layer_ready E h"
    and small: "small_trxs E gen strxs"
    and app: "apply_block E blk gen strxs hash (Trx (Some (Trx (Some (State_Db f td nd dl)) h)) empty_layer)
      = (Inr True, Trx (Some (Trx (Some db') h)) l)"
    and k: "kept (State_Db f td nd dl) db'" and lim: "log_size (Trx (Some (Trx (Some db') h)) l) < log_limit"
    and inst: "install_head E blk l s3 = (Inr (), s4)" "n_states s3 = States db' h g" "n_chain s3 = ch @ [blk]"
  obtains f3 td3 nd3 where "s4 = s3\<lparr>n_states := States (State_Db f3 td3 nd3 empty_layer) l empty_layer, n_saved := Some (save_chain (e_chain E) ch)\<rparr>"
    "fst (m_trxs E gen strxs m) = Inr True" "shows_market E ents m (State_Db f3 td3 nd3 empty_layer)"
    "shows_market E ents (snd (m_trxs E gen strxs m)) (Trx (Some (State_Db f3 td3 nd3 empty_layer)) l)"
    "f_pos f3 \<le> length (f_data f3)" "f_writable f3" "layer_ready E l"
proof -
  obtain db1 db2 db3 where c: "commit E db' = (Inr (), db1)" "commit E (Trx (Some db1) h) = (Inr (), Trx (Some db2) empty_layer)"
    "commit E db2 = (Inr (), db3)" "s4 = s3\<lparr>n_states := States db3 l empty_layer, n_saved := Some (save_chain (e_chain E) ch)\<rparr>"
    by (rule install_head_run [OF inst])
  obtain f' where f': "db' = State_Db f' td nd dl" "f_data f' = f_data f" "f_writable f'" using kept_State_Db [OF k] db(2) by metis
  note block = apply_block_shows [OF laws shows_fresh [OF m] small app lim]
  have at_end: "f_pos f' = length (f_data f')" using block(3) f'(1) db(1) by simp
  have mdb: "shows_market E ents m (Trx (Some db') h)" using kept_shows [OF _ m, of "Trx (Some db') h"] k by (simp add: kept_Trx)
  obtain e1 e2 e3 where e: "commit E db' = (Inr (), e1)" "commit E (Trx (Some e1) h) = (Inr (), Trx (Some e2) empty_layer)"
    "commit E e2 = (Inr (), e3)" "shows_market E ents m e3" "shows_market E ents (snd (m_trxs E gen strxs m)) (Trx (Some e3) l)"
    "\<exists>f3 td3 nd3. e3 = State_Db f3 td3 nd3 empty_layer \<and> f_pos f3 \<le> length (f_data f3) \<and> f_writable f3"
    by (rule settled [OF laws mdb f'(1) at_end f'(3) db(3,4) block(2)])
  have "e1 = db1" using e(1) c(1) by simp
  then have "e2 = db2" using e(2) c(2) by simp
  then have e3: "e3 = db3" using e(3) c(3) by simp
  have "names_within (small_names E) (Trx (Some (Trx (Some (State_Db f td nd dl)) h)) empty_layer) (Trx (Some (Trx (Some db') h)) l)"
    using followsE [OF within_block [OF small] app] .
  then have l: "layer_ready E l" using block(4) by (simp add: names_within_def layer_ready_def om_empty_def)
  obtain f3 td3 nd3 where db3: "db3 = State_Db f3 td3 nd3 empty_layer" "f_pos f3 \<le> length (f_data f3)" "f_writable f3"
    using e(6) e3 by blast
  note shown = e(4,5) [unfolded e3 db3(1)]
  show thesis by (rule that [OF c(4) [unfolded db3(1)] block(1) shown db3(2,3) l])
qed

text \<open>C5: Extending the chain. When \<open>add_block\<close> appends a block, the block's transactions all apply to the
  market of the old head, the new head shows the market they leave, and the disk shows the
  market of the old head: every block but the head is on disk. The node stays ready for the
  next block, so this holds from block to block.\<close>

theorem append_block_refines:
  assumes "env_laws E ents" and "node_ready E s" and "node_shows E ents m s"
    and "add_block E blk s = (Inr r, s')" and "length (n_chain s') = Suc (length (n_chain s))"
    and "fst (find_block_state E (blk_state blk) s) = Inr (Some bs)"
    and "fst (get_transactions E (bs_signed_transactions bs) pending_trx s) = Inr strxs"
    and "small_trxs E (bs_generator_name bs) strxs" and "log_size (snd (apply_block E blk (bs_generator_name bs) strxs (bs_state_db bs) (trx_new (Some (head_of s))))) < log_limit"
  shows "fst (m_trxs E (bs_generator_name bs) strxs m) = Inr True
    \<and> node_shows E ents (snd (m_trxs E (bs_generator_name bs) strxs m)) s'
    \<and> disk_shows E ents m s' \<and> node_ready E s'"
proof -
  let ?gen = "bs_generator_name bs"
  obtain f td nd dl h g where ready: "n_states s = States (State_Db f td nd dl) h g"
     "f_pos f \<le> length (f_data f)" "f_writable f" "layer_ready E dl" "layer_ready E h"
    using assms(2) unfolding node_ready_def by blast
  have m: "shows_market E ents m (Trx (Some (State_Db f td nd dl)) h)" using assms(3) ready(1) by (simp add: node_shows_def)
  have "find_block_state E (blk_state blk) s = (Inr (Some bs), s)"
    using assms(6) find_block_state_run(1) by (metis prod.collapse)
  then have "append_block E blk bs (ticked s) = (Inr r, s')" using add_block_appended [OF assms(4,5)] by blast
  then show ?thesis
  proof (cases rule: append_block_runs)
    case refused
    then show ?thesis using assms(5) by simp
  next
    case (appended d strxs' db h' g0 db' l d' s3 s4)
    have same: "db = State_Db f td nd dl" "h' = h" using appended(5) ready(1) by simp_all
    have "strxs' = strxs"
      using assms(7) appended(2,3) by (simp add: get_transactions_def on_trx_db_def)
    with appended(6) have app: "apply_block E blk ?gen strxs (bs_state_db bs) (Trx (Some (Trx (Some (State_Db f td nd dl)) h)) empty_layer)
        = (Inr True, Trx (Some (Trx (Some db') h)) l)" by (simp add: same)
    have k: "kept (State_Db f td nd dl) db'" using appended(7) same by simp
    have st3: "n_states s3 = States db' h g0" "n_chain s3 = n_chain s @ [blk]" using appended(8) same by simp_all
    have lim: "log_size (Trx (Some (Trx (Some db') h)) l) < log_limit"
      using assms(9) app ready(1) by (simp add: head_of_def trx_new_def)
    obtain f3 td3 nd3 where s4: "n_states s4 = States (State_Db f3 td3 nd3 empty_layer) l empty_layer" "n_chain s4 = n_chain s @ [blk]"
      "fst (m_trxs E ?gen strxs m) = Inr True" "shows_market E ents m (State_Db f3 td3 nd3 empty_layer)"
      "shows_market E ents (snd (m_trxs E ?gen strxs m)) (Trx (Some (State_Db f3 td3 nd3 empty_layer)) l)"
      "f_pos f3 \<le> length (f_data f3)" "f_writable f3" "layer_ready E l"
      by (rule installed_shows [OF assms(1) m ready(2-5) assms(8) app k lim appended(9) st3]) (simp add: st3)
    have fin: "states_kept (States (State_Db f3 td3 nd3 empty_layer) l empty_layer) (n_states s')"
      using announce_run(6) [OF appended(10)] s4(1,2) by simp
    then show ?thesis
      using s4(3) announce_shows [OF fin s4(5)] announce_ready [OF fin s4(4,6-8)] by simp
  qed
qed

text \<open>C8: Replacing the head. When \<open>add_block\<close> puts a block in the place of the head, the transactions of the
  block run on the market the disk holds: nothing of the replaced head stays in the market.\<close>

theorem replace_block_refines:
  assumes "env_laws E ents" and "n_states s = States db h g" and "shows_market E ents m db"
    and "add_block E blk s = (Inr 1, s')" and "length (n_chain s') = length (n_chain s)"
    and "fst (find_block_state E (blk_state blk) s) = Inr (Some bs)"
    and "fst (bindP (move_transactions E (bs_signed_transactions bs) head_trx pending_trx)
            (\<lambda>_. get_transactions E (bs_signed_transactions bs) pending_trx) s) = Inr strxs"
    and "small_trxs E (bs_generator_name bs) strxs"
    and "log_size (snd (apply_block E blk (bs_generator_name bs) strxs (bs_state_db bs) (trx_new (Some db)))) < log_limit"
  shows "fst (m_trxs E (bs_generator_name bs) strxs m) = Inr True
    \<and> node_shows E ents (snd (m_trxs E (bs_generator_name bs) strxs m)) s'"
proof -
  have bs: "find_block_state E (blk_state blk) s = (Inr (Some bs), s)"
    using assms(6) find_block_state_run(1) by (metis prod.collapse)
  then have "replace_block E blk bs (ticked s) = (Inr 1, s') \<and> n_chain s \<noteq> []" by (rule add_block_replaced [OF assms(4,5)])
  then have run: "replace_block E blk bs (ticked s) = (Inr 1, s')" "n_chain (ticked s) \<noteq> []" by simp_all
  show ?thesis
  proof (cases rule: replace_block_runs [OF run find_block_state_ticked [OF bs]])
    case 1
    then show ?thesis by simp
  next
    case (2 d d1 d2)
    then show ?thesis by simp
  next
    case (3 d d1 d2 strxs' db0 h0 g0 db' l s2)
    have same: "db0 = db" using 3(7) assms(2) by simp
    have "strxs' = strxs"
      using assms(7) 3(3-5) by (simp add: bindP_def move_transactions_def get_transactions_def on_trx_db_def)
    with 3(8) have app: "apply_block E blk (bs_generator_name bs) strxs (bs_state_db bs) (Trx (Some db) empty_layer) = (Inr True, Trx (Some db') l)"
      by (simp add: same)
    have lim: "log_size (Trx (Some db') l) < log_limit" using assms(9) app by (simp add: trx_new_def)
    note block = apply_block_shows [OF assms(1) shows_fresh [OF assms(3)] assms(8) app lim]
    have ne: "n_chain s2 \<noteq> []" and st2: "n_states s2 = States db' l empty_layer" using 3(11) by simp_all
    have "states_kept (States db' l empty_layer) (n_states s')"
      using announce_run(6) [OF 3(12) ne] st2 by simp
    then show ?thesis using block(1) announce_shows [OF _ block(2)] by simp
  qed
qed

end
