(* ===== verification/NodeLive.thy ===== *)
theory NodeLive
  imports NodeMarket
begin

text \<open>
  A good block is added: what becomes of the chain and of the transactions, and when \<open>add_block\<close>
  returns 1. Once the block is in place, a node that generates blocks calls \<open>start_block\<close> (\<open>then_next\<close>).
\<close>

lemma bindP_Inr: "f s = (Inr x, s') \<Longrightarrow> bindP f g s = g x s'"
  by (simp add: bindP_def)

lemma with_fresh_Inr:
  assumes "fst (f (trx_new (Some s))) = Inr x" and "follows below_kept f"
  obtains s' l where "with_fresh f s = (Inr (x, l), s')" "f (trx_new (Some s)) = (Inr x, Trx (Some s') l)" "kept s s'"
proof -
  obtain t where t: "f (trx_new (Some s)) = (Inr x, t)" using assms(1) by (cases "f (trx_new (Some s))") simp
  obtain s' l where tr: "t = Trx (Some s') l" and k: "kept s s'"
    using followsE [OF assms(2) t] by (auto simp: trx_new_def below_kept_Trx)
  have w: "with_fresh f s = (Inr (x, l), s')" using t tr by (simp add: with_fresh_def base_of_def)
  show ?thesis by (rule that [OF w _ k]) (simp add: t tr)
qed

lemma dump_last:
  assumes ch: "n_chain s = c @ [blk]" and len: "length c + 1 < 2 ^ 32"
    and bs: "n_block_state_db s = Some bd" "kv_get (e_bdb E) (e_sha1_key E) (e_block_state E) (blk_state blk) bd = Inr (Some bs)"
    and d: "n_trx_db s = Some d" and found: "\<And>h. h \<in> set (bs_signed_transactions bs) \<Longrightarrow>
       \<exists>t. find_transaction E d h [0, 1, 2, 3] = Inr (Some t) \<and> dump_transaction E t = Inr ()"
  shows "node_dump E (of_nat (length (c @ [blk])) - 1) 1 s = (Inr (), s)"
proof -
  have u: "unat (of_nat (length c) :: u32) = length c" "unat (of_nat (length c) + 1 :: u32) = length c + 1"
    using len by (simp_all add: unat_of_nat_u32 unat_word_ariths)
  have trxs: "dump_block_trxs E hs s = (Inr (), s)" if "set hs \<subseteq> set (bs_signed_transactions bs)" for hs
    using that
  proof (induction hs)
    case (Cons h hs)
    then obtain t where "find_transaction E d h [0, 1, 2, 3] = Inr (Some t)" "dump_transaction E t = Inr ()"
      using found by auto
    then show ?case using Cons d by (simp add: bindP_def get_transaction_def prog_simps del: find_transaction.simps)
  qed (simp add: ret_run)
  have "get_block_state E (blk_state blk) s = (Inr bs, s)"
    using bs by (simp add: get_block_state_def find_block_state_def bindP_def on_block_state_db_def prog_simps)
  then have "dump_blocks E [blk] s = (Inr (), s)" using trxs by (simp add: bindP_def prog_simps)
  then show ?thesis using ch u by (simp add: node_dump_def tryP_def)
qed

text \<open>A node that generates prepares its next block before \<open>add_block\<close> returns.\<close>

definition then_next :: "'d env \<Rightarrow> 'd node \<Rightarrow> (exn + int) \<times> 'd node" where
  "then_next E s = bindP (if n_gen_enabled s then start_block E else ret ()) (\<lambda>_. ret 1) s"

lemma then_next_idle: "\<not> n_gen_enabled s \<Longrightarrow> then_next E s = (Inr 1, s)"
  by (simp add: then_next_def bindP_def ret_run)

lemma then_next_run:
  assumes "add_block E blk s = then_next E s1" and "n_chain s1 \<noteq> []" and "n_gen_enabled s1 = n_gen_enabled s"
  obtains r s' where "add_block E blk s = (r, s')" "n_chain s' = n_chain s1" "n_saved s' = n_saved s1" "n_trx_db s' = n_trx_db s1"
    "n_events s' = n_events s1"
    "if n_gen_enabled s then \<exists>u. start_block E s1 = (u, s') \<and> r = map_sum id (\<lambda>_. 1) u else r = Inr 1"
proof (cases "n_gen_enabled s")
  case True
  obtain u s' where u: "start_block E s1 = (u, s')" by fastforce
  have "add_block E blk s = (map_sum id (\<lambda>_. 1) u, s')"
    using assms(1,3) True u by (cases u) (simp_all add: then_next_def bindP_def ret_run)
  moreover have "n_chain s' = n_chain s1" "rest_kept s1 s'"
    using quiet_run [OF quiet_start_block u assms(2)] by simp_all
  ultimately show thesis using that True u by (simp add: rest_kept_def)
next
  case False
  then show thesis using that assms(1,3) by (simp add: then_next_idle)
qed

section \<open>Transactions through an appended block\<close>

definition groups_after :: "sha1 list \<Rightarrow> (u32 \<times> sha1, 'v) omap \<Rightarrow> (u32 \<times> sha1, 'v) omap \<Rightarrow> bool" where
  \<comment> \<open>the block's transactions are those of the head, and those of the old head are applied\<close>
  "groups_after hs M M' \<longleftrightarrow> (\<forall>h.
     om_find (pending_trx, h) M' = (if h \<in> set hs then None else om_find (pending_trx, h) M)
     \<and> om_find (head_trx, h) M' = (if h \<in> set hs then om_find (pending_trx, h) M else None)
     \<and> om_find (applied_trx, h) M' = (if om_find (head_trx, h) M \<noteq> None then om_find (head_trx, h) M else om_find (applied_trx, h) M))"

lemma moves_after_append:
  assumes laws: "trx_laws E ents" and rep: "trx_holds E ents d M"
    and pend: "\<forall>h \<in> set hs. om_find (pending_trx, h) M \<noteq> None"
  obtains d1 d2 M' where "loopP (move_group_loop E head_trx applied_trx) d = (Inr (), d1)"
    "move_loop E pending_trx head_trx hs d1 = (Inr (), d2)" "trx_holds E ents d2 M'" "groups_after hs M M'"
proof -
  obtain d1 M1 where m1: "move_group_loop E head_trx applied_trx d = Some (Inr (), d1)" "trx_holds E ents d1 M1"
    "\<forall>k h. om_find (k, h) M1 = (if k = head_trx then None
      else if k = applied_trx \<and> om_find (head_trx, h) M \<noteq> None then om_find (head_trx, h) M else om_find (k, h) M)"
    using move_group_loop_map [OF laws groups_differ(3) rep] by blast
  obtain d2 where m2: "move_loop E pending_trx head_trx hs d1 = (Inr (), d2)" "trx_holds E ents d2 (move_map pending_trx head_trx hs M1)"
    using move_loop_map [OF laws m1(2)] by blast
  have "groups_after hs M (move_map pending_trx head_trx hs M1)"
    using pend by (auto simp: groups_after_def find_move_map m1(3))
  moreover have "loopP (move_group_loop E head_trx applied_trx) d = (Inr (), d1)" using m1(1) by (simp add: loopP_def)
  ultimately show ?thesis using that m2 by blast
qed

lemma block_appended_next:
  assumes "env_laws E ents" and "trx_laws E ents" and "node_ready E s" and "node_shows E ents m s"
    and "n_trx_db s = Some d" and "trx_holds E ents d M"
    and "n_chain s \<noteq> []" and "length (n_chain s) + 1 < 2 ^ 32"
    and "blk_prev_block blk = e_hash_block E (last (n_chain s))"
    and "blk_utc_time blk \<le> ucast (n_clock s (n_ticks s) div 1000000) + 30"
    and "fst (find_block_state E (blk_state blk) s) = Inr (Some bs)"
    and "validate E (n_chain s @ [blk]) = Inr True"
    and "\<forall>h \<in> set (bs_signed_transactions bs). \<exists>t. om_find (pending_trx, h) M = Some t \<and> dump_transaction E t = Inr ()"
    and "strxs = map (\<lambda>h. the (om_find (pending_trx, h) M)) (bs_signed_transactions bs)"
    and "small_trxs E (bs_generator_name bs) strxs"
    and "fst (apply_block E blk (bs_generator_name bs) strxs (bs_state_db bs) (trx_new (Some (head_of s)))) = Inr True"
    and "log_size (snd (apply_block E blk (bs_generator_name bs) strxs (bs_state_db bs) (trx_new (Some (head_of s))))) < log_limit"
  shows "\<exists>s1 d' M'. add_block E blk s = then_next E s1 \<and> n_gen_enabled s1 = n_gen_enabled s
    \<and> n_chain s1 = n_chain s @ [blk] \<and> n_saved s1 = Some (save_chain (e_chain E) (n_chain s))
    \<and> n_trx_db s1 = Some d' \<and> trx_holds E ents d' M' \<and> groups_after (bs_signed_transactions bs) M M'"
proof -
  let ?hs = "bs_signed_transactions bs" and ?apply = "apply_block E blk (bs_generator_name bs) strxs (bs_state_db bs)"
  obtain f td nd dl h g where ready: "n_states s = States (State_Db f td nd dl) h g"
     "f_pos f \<le> length (f_data f)" "f_writable f" "layer_ready E dl" "layer_ready E h"
    using assms(3) unfolding node_ready_def by blast
  let ?db = "State_Db f td nd dl"
  have m: "shows_market E ents m (Trx (Some ?db) h)" using assms(4) ready(1) by (simp add: node_shows_def)
  have head: "head_of s = Trx (Some ?db) h" using ready(1) by (simp add: head_of_def)
  have bs: "find_block_state E (blk_state blk) s = (Inr (Some bs), s)"
    using assms(11) find_block_state_run(1) by (metis prod.collapse)
  have pend: "\<forall>h \<in> set ?hs. om_find (pending_trx, h) M \<noteq> None" using assms(13) by auto
  have loop: "transactions_loop E d pending_trx ?hs [] = Inr strxs"
    using transactions_loop_map [OF assms(2,6)] pend assms(14) by simp
  have lens: "length strxs = length ?hs" using assms(14) by simp
  obtain b' l where fresh: "with_fresh ?apply (head_of s) = (Inr (True, l), b')"
    and app: "?apply (trx_new (Some (head_of s))) = (Inr True, Trx (Some b') l)" and kb: "kept (head_of s) b'"
    by (rule with_fresh_Inr [OF assms(16) below_apply_block])
  obtain db' where b': "b' = Trx (Some db') h" and k: "kept ?db db'" using kept_TrxD kb head by metis
  have lim: "log_size (Trx (Some (Trx (Some db') h)) l) < log_limit" using assms(17) app b' by simp
  have app': "?apply (Trx (Some (Trx (Some ?db) h)) empty_layer) = (Inr True, Trx (Some (Trx (Some db') h)) l)"
    using app b' head by (simp add: trx_new_def)
  note block = apply_block_shows [OF assms(1) shows_fresh [OF m] assms(15) app' lim]
  obtain f' where f': "db' = State_Db f' td nd dl" "f_data f' = f_data f" "f_writable f'"
    using kept_State_Db [OF k] ready(3) by metis
  have "pos_ok (Trx (Some ?db) h)" using ready(2) by simp
  then have at_end: "f_pos f' = length (f_data f')" using block(3) f'(1) by simp
  obtain db1 db2 f3 td3 nd3 where c: "commit E db' = (Inr (), db1)" "commit E (Trx (Some db1) h) = (Inr (), Trx (Some db2) empty_layer)"
    "commit E db2 = (Inr (), State_Db f3 td3 nd3 empty_layer)"
    using settle_holds [OF assms(1) at_end f'(3) ready(4,5), of td nd] unfolding f'(1) by metis
  obtain d1 d2 M' where mv: "loopP (move_group_loop E head_trx applied_trx) d = (Inr (), d1)"
    "move_loop E pending_trx head_trx ?hs d1 = (Inr (), d2)" "trx_holds E ents d2 M'" "groups_after ?hs M M'"
    by (rule moves_after_append [OF assms(2,6) pend])
  let ?s1 = "(ticked s)\<lparr>n_chain := n_chain s @ [blk]\<rparr>"
  let ?s2 = "?s1\<lparr>n_states := States db' h g\<rparr>"
  let ?s3 = "?s2\<lparr>n_trx_db := Some d1\<rparr>" and ?s4 = "?s2\<lparr>n_trx_db := Some d2\<rparr>"
  let ?db3 = "State_Db f3 td3 nd3 empty_layer"
  let ?s5 = "?s4\<lparr>n_states := States ?db3 l empty_layer, n_saved := Some (save_chain (e_chain E) (n_chain s))\<rparr>"
  let ?s6 = "?s5\<lparr>n_events := n_events s @ [New_Block (full_block_of (n_chain s @ [blk]) blk bs strxs)]\<rparr>"
  have step2: "on_head (with_fresh ?apply) ?s1 = (Inr (True, l), ?s2)"
    using fresh ready(1) head b' by (simp add: on_head_def)
  have step3: "move_group E head_trx applied_trx ?s2 = (Inr (), ?s3)" "move_transactions E ?hs pending_trx head_trx ?s3 = (Inr (), ?s4)"
    using mv assms(5) by (simp_all add: move_group_def move_transactions_def on_trx_db_def)
  have step4: "install_head E blk l ?s4 = (Inr (), ?s5)"
    using c by (simp add: install_head_def bindP_def on_state_def on_head_def set_head_def pop_block_def push_block_def prog_simps)
  have found: "\<exists>t. find_transaction E d2 x [0, 1, 2, 3] = Inr (Some t) \<and> dump_transaction E t = Inr ()" if x: "x \<in> set ?hs" for x
  proof -
    have "om_find (0, x) M' = None" "om_find (1, x) M' = om_find (pending_trx, x) M"
      using mv(4) x unfolding groups_after_def pending_trx_def head_trx_def by simp_all
    then show ?thesis using assms(13) x by (auto simp: trx_ops_map(1) [OF assms(2) mv(3)])
  qed
  obtain bd where bd: "n_block_state_db s = Some bd" "kv_get (e_bdb E) (e_sha1_key E) (e_block_state E) (blk_state blk) bd = Inr (Some bs)"
    using find_block_state_run(2) [OF bs] by blast
  have step5: "node_dump E (of_nat (length (n_chain s @ [blk])) - 1) 1 ?s5 = (Inr (), ?s5)"
    by (rule dump_last [where d = d2 and bd = bd and bs = bs]) (use assms(8) bd found in simp_all)
  have step6: "announce E blk bs strxs ?s5 = then_next E ?s6"
    using step5 by (simp add: announce_def then_next_def bindP_Inr emit_def is_generating_def ret_run del: of_nat_Suc)
  have run: "append_block E blk bs (ticked s) = then_next E ?s6"
  proof -
    have g: "get_transactions E ?hs pending_trx ?s1 = (Inr strxs, ?s1)"
      using loop assms(5) by (simp add: get_transactions_def on_trx_db_def)
    have "append_block E blk bs (ticked s) = bindP (get_transactions E ?hs pending_trx) (\<lambda>strxs.
       if length strxs \<noteq> length ?hs then reject_append E
       else bindP (on_head (with_fresh (apply_block E blk (bs_generator_name bs) strxs (bs_state_db bs)))) (\<lambda>(ok, l).
         if ok then bindP (move_group E head_trx applied_trx) (\<lambda>_. bindP (move_transactions E ?hs pending_trx head_trx) (\<lambda>_.
           bindP (install_head E blk l) (\<lambda>_. announce E blk bs strxs))) else reject_append E)) ?s1"
      unfolding append_block_def bind_push bind_asks using assms(12) by simp
    also have "\<dots> = then_next E ?s6"
      using g lens step2 step3 step4 step6 by (simp add: bindP_Inr)
    finally show ?thesis .
  qed
  have "add_block E blk s = append_block E blk bs (ticked s)"
    using assms(7,9) leD [OF assms(10)] bs by (simp add: add_block_def bindP_def chain_back_def utc_clock_def Let_def prog_simps)
  then show ?thesis using run mv(3,4) by (intro exI [of _ ?s6] exI [of _ d2] exI [of _ M']) simp
qed

lemma block_appended:
  assumes "env_laws E ents" and "trx_laws E ents" and "node_ready E s" and "node_shows E ents m s"
    and "n_trx_db s = Some d" and "trx_holds E ents d M" and "\<not> n_gen_enabled s"
    and "n_chain s \<noteq> []" and "length (n_chain s) + 1 < 2 ^ 32"
    and "blk_prev_block blk = e_hash_block E (last (n_chain s))"
    and "blk_utc_time blk \<le> ucast (n_clock s (n_ticks s) div 1000000) + 30"
    and "fst (find_block_state E (blk_state blk) s) = Inr (Some bs)"
    and "validate E (n_chain s @ [blk]) = Inr True"
    and "\<forall>h \<in> set (bs_signed_transactions bs). \<exists>t. om_find (pending_trx, h) M = Some t \<and> dump_transaction E t = Inr ()"
    and "strxs = map (\<lambda>h. the (om_find (pending_trx, h) M)) (bs_signed_transactions bs)"
    and "small_trxs E (bs_generator_name bs) strxs"
    and "fst (apply_block E blk (bs_generator_name bs) strxs (bs_state_db bs) (trx_new (Some (head_of s)))) = Inr True"
    and "log_size (snd (apply_block E blk (bs_generator_name bs) strxs (bs_state_db bs) (trx_new (Some (head_of s))))) < log_limit"
  shows "\<exists>s' d' M'. add_block E blk s = (Inr 1, s') \<and> n_chain s' = n_chain s @ [blk] \<and> n_saved s' = Some (save_chain (e_chain E) (n_chain s))
    \<and> n_trx_db s' = Some d' \<and> trx_holds E ents d' M' \<and> groups_after (bs_signed_transactions bs) M M'"
  using block_appended_next [OF assms(1-6,8-)] assms(7) then_next_idle by metis

section \<open>A better head\<close>

definition waiting :: "(u32 \<times> sha1, 'v) omap \<Rightarrow> sha1 \<Rightarrow> 'v option" where
  \<comment> \<open>a transaction of the head, or a pending one\<close>
  "waiting M h = (if om_find (head_trx, h) M \<noteq> None then om_find (head_trx, h) M else om_find (pending_trx, h) M)"

definition groups_replaced :: "sha1 list \<Rightarrow> (u32 \<times> sha1, 'v) omap \<Rightarrow> (u32 \<times> sha1, 'v) omap \<Rightarrow> bool" where
  \<comment> \<open>the new head's transactions are those of the head; the others stay where they are\<close>
  "groups_replaced hs M M' \<longleftrightarrow> (\<forall>h.
     om_find (pending_trx, h) M' = (if h \<in> set hs then None else om_find (pending_trx, h) M)
     \<and> om_find (head_trx, h) M' = (if h \<in> set hs then waiting M h else om_find (head_trx, h) M)
     \<and> om_find (applied_trx, h) M' = om_find (applied_trx, h) M)"

lemma chain_back_run: "n_chain s \<noteq> [] \<Longrightarrow> chain_back s = (Inr (last (n_chain s)), s)"
  by (simp add: chain_back_def)

lemma block_replaced_next:
  assumes laws: "trx_laws E ents" and st: "n_states s = States db h g" and d: "n_trx_db s = Some d" and rep: "trx_holds E ents d M"
    and ch: "n_chain s \<noteq> []" and len: "length (n_chain s) < 2 ^ 32"
    and link: "blk_prev_block blk \<noteq> e_hash_block E (last (n_chain s))" "blk_prev_block blk = blk_prev_block (last (n_chain s))"
    and less: "e_hash_less E (e_hash_block E blk) (e_hash_block E (last (n_chain s)))"
    and time: "blk_utc_time blk \<le> ucast (n_clock s (n_ticks s) div 1000000) + 30"
    and found: "fst (find_block_state E (blk_state blk) s) = Inr (Some bs)"
    and valid: "validate E (butlast (n_chain s) @ [blk]) = Inr True"
    and known: "\<forall>h \<in> set (bs_signed_transactions bs). \<exists>t. waiting M h = Some t \<and> dump_transaction E t = Inr ()"
    and strxs: "strxs = map (\<lambda>h. the (waiting M h)) (bs_signed_transactions bs)"
    and app: "fst (apply_block E blk (bs_generator_name bs) strxs (bs_state_db bs) (trx_new (Some db))) = Inr True"
  shows "\<exists>s1 d' M'. add_block E blk s = then_next E s1 \<and> n_gen_enabled s1 = n_gen_enabled s
    \<and> n_chain s1 = butlast (n_chain s) @ [blk] \<and> n_saved s1 = n_saved s
    \<and> n_trx_db s1 = Some d' \<and> trx_holds E ents d' M' \<and> groups_replaced (bs_signed_transactions bs) M M'"
proof -
  let ?hs = "bs_signed_transactions bs" and ?apply = "apply_block E blk (bs_generator_name bs) strxs (bs_state_db bs)"
  let ?c = "butlast (n_chain s)"
  have bs: "find_block_state E (blk_state blk) s = (Inr (Some bs), s)"
    using found find_block_state_run(1) by (metis prod.collapse)
  obtain d1 where d1: "move_loop E head_trx pending_trx ?hs d = (Inr (), d1)" "trx_holds E ents d1 (move_map head_trx pending_trx ?hs M)"
    using move_loop_map [OF laws rep] by blast
  let ?M1 = "move_map head_trx pending_trx ?hs M"
  obtain d2 where d2: "move_loop E pending_trx head_trx ?hs d1 = (Inr (), d2)" "trx_holds E ents d2 (move_map pending_trx head_trx ?hs ?M1)"
    using move_loop_map [OF laws d1(2)] by blast
  let ?M2 = "move_map pending_trx head_trx ?hs ?M1"
  have pend: "om_find (pending_trx, x) ?M1 = waiting M x" if "x \<in> set ?hs" for x
    using that by (auto simp: waiting_def find_move_map)
  have loop: "transactions_loop E d1 pending_trx ?hs [] = Inr strxs" and lens: "length strxs = length ?hs"
    using transactions_loop_map [OF laws d1(2), of pending_trx ?hs "[]"] known strxs pend by (auto cong: map_cong)
  obtain db' l where fresh: "with_fresh ?apply db = (Inr (True, l), db')"
    by (rule with_fresh_Inr [OF app below_apply_block])
  let ?s1 = "(ticked s)\<lparr>n_chain := ?c @ [blk]\<rparr>"
  let ?s2 = "?s1\<lparr>n_trx_db := Some d1\<rparr>"
  let ?s3 = "?s2\<lparr>n_states := States db' h g\<rparr>"
  let ?s4 = "?s3\<lparr>n_trx_db := Some d2\<rparr>"
  let ?s5 = "?s4\<lparr>n_states := States db' l empty_layer\<rparr>"
  let ?s6 = "?s5\<lparr>n_events := n_events s @ [New_Block (full_block_of (?c @ [blk]) blk bs strxs)]\<rparr>"
  obtain bd where bd: "n_block_state_db s = Some bd" "kv_get (e_bdb E) (e_sha1_key E) (e_block_state E) (blk_state blk) bd = Inr (Some bs)"
    using find_block_state_run(2) [OF bs] by blast
  have heads: "get_head_transactions E ?s1 = (Inr ?hs, ?s1)"
    using bd by (simp add: get_head_transactions_def find_block_state_def on_block_state_db_def bindP_def chain_back_def prog_simps)
  have steps: "move_transactions E ?hs head_trx pending_trx ?s1 = (Inr (), ?s2)" "get_transactions E ?hs pending_trx ?s2 = (Inr strxs, ?s2)"
    "on_state (with_fresh ?apply) ?s2 = (Inr (True, l), ?s3)" "move_transactions E ?hs pending_trx head_trx ?s3 = (Inr (), ?s4)"
    "set_head l ?s4 = (Inr (), ?s5)"
    using d d1(1) d2(1) loop fresh st
    by (simp_all add: move_transactions_def get_transactions_def on_trx_db_def on_state_def set_head_def prog_simps)
  have after: "om_find (pending_trx, x) ?M2 = None" "om_find (head_trx, x) ?M2 = waiting M x" if "x \<in> set ?hs" for x
    using that known by (auto simp: find_move_map waiting_def)
  have shown: "\<exists>t. find_transaction E d2 x [0, 1, 2, 3] = Inr (Some t) \<and> dump_transaction E t = Inr ()" if x: "x \<in> set ?hs" for x
    using after [OF x] known x by (auto simp: trx_ops_map(1) [OF laws d2(2)] pending_trx_def head_trx_def)
  have dump: "node_dump E (of_nat (length (?c @ [blk])) - 1) 1 ?s5 = (Inr (), ?s5)"
    by (rule dump_last [where d = d2 and bd = bd and bs = bs]) (use len ch bd shown in \<open>simp_all add: Suc_leI\<close>)
  have ann: "announce E blk bs strxs ?s5 = then_next E ?s6"
    using dump by (simp add: announce_def then_next_def bindP_Inr emit_def is_generating_def ret_run del: of_nat_Suc)
  have run: "replace_block E blk bs (ticked s) = then_next E ?s6"
    using ch less valid heads steps ann lens
    by (simp add: replace_block_def bindP_Inr [OF chain_back_run] bindP_Inr)
  have "add_block E blk s = replace_block E blk bs (ticked s)"
    using ch link leD [OF time] bs by (simp add: add_block_def bindP_def chain_back_def utc_clock_def Let_def prog_simps)
  moreover have "groups_replaced ?hs M ?M2" by (auto simp: groups_replaced_def find_move_map waiting_def)
  ultimately show ?thesis using run d2(2) by (intro exI [of _ ?s6] exI [of _ d2] exI [of _ ?M2]) simp
qed

lemma block_replaced:
  assumes laws: "trx_laws E ents" and st: "n_states s = States db h g" and d: "n_trx_db s = Some d" and rep: "trx_holds E ents d M"
    and gen: "\<not> n_gen_enabled s" and ch: "n_chain s \<noteq> []" and len: "length (n_chain s) < 2 ^ 32"
    and link: "blk_prev_block blk \<noteq> e_hash_block E (last (n_chain s))" "blk_prev_block blk = blk_prev_block (last (n_chain s))"
    and less: "e_hash_less E (e_hash_block E blk) (e_hash_block E (last (n_chain s)))"
    and time: "blk_utc_time blk \<le> ucast (n_clock s (n_ticks s) div 1000000) + 30"
    and found: "fst (find_block_state E (blk_state blk) s) = Inr (Some bs)"
    and valid: "validate E (butlast (n_chain s) @ [blk]) = Inr True"
    and known: "\<forall>h \<in> set (bs_signed_transactions bs). \<exists>t. waiting M h = Some t \<and> dump_transaction E t = Inr ()"
    and strxs: "strxs = map (\<lambda>h. the (waiting M h)) (bs_signed_transactions bs)"
    and app: "fst (apply_block E blk (bs_generator_name bs) strxs (bs_state_db bs) (trx_new (Some db))) = Inr True"
  shows "\<exists>s' d' M'. add_block E blk s = (Inr 1, s') \<and> n_chain s' = butlast (n_chain s) @ [blk] \<and> n_saved s' = n_saved s
    \<and> n_trx_db s' = Some d' \<and> trx_holds E ents d' M' \<and> groups_replaced (bs_signed_transactions bs) M M'"
  using block_replaced_next [OF assms(1-4,6-)] gen then_next_idle by metis

section \<open>The properties\<close>

text \<open>C6: A good block is added. A block that names the head's hash, is not more than 30 seconds ahead of the
  clock, whose state is known, whose transactions are all pending and apply with the state hash
  it claims, and that leaves a valid chain, is appended: afterwards it is the head and the chain
  below it is saved, its transactions are those of the head, those of the old head are applied,
  and no other transaction has moved. On a node that does not generate blocks \<open>add_block\<close>
  terminates and returns 1. A node that generates then calls \<open>start_block\<close>, which changes none of this,
  and \<open>add_block\<close> returns 1 when that call returns; it throws what that call throws, although
  the block is added, and it does not return when that call does not.
\<close>

theorem add_block_appends:
  assumes "env_laws E ents" and "trx_laws E ents" and "node_ready E s" and "node_shows E ents m s"
    and "n_trx_db s = Some d" and "trx_holds E ents d M"
    and "n_chain s \<noteq> []" and "length (n_chain s) + 1 < 2 ^ 32"
    and "blk_prev_block blk = e_hash_block E (last (n_chain s))"
    and "blk_utc_time blk \<le> ucast (n_clock s (n_ticks s) div 1000000) + 30"
    and "fst (find_block_state E (blk_state blk) s) = Inr (Some bs)"
    and "validate E (n_chain s @ [blk]) = Inr True"
    and "\<forall>h \<in> set (bs_signed_transactions bs). \<exists>t. om_find (pending_trx, h) M = Some t \<and> dump_transaction E t = Inr ()"
    and "strxs = map (\<lambda>h. the (om_find (pending_trx, h) M)) (bs_signed_transactions bs)"
    and "small_trxs E (bs_generator_name bs) strxs"
    and "fst (apply_block E blk (bs_generator_name bs) strxs (bs_state_db bs) (trx_new (Some (head_of s)))) = Inr True"
    and "log_size (snd (apply_block E blk (bs_generator_name bs) strxs (bs_state_db bs) (trx_new (Some (head_of s))))) < log_limit"
  shows "\<exists>r s' d' M'. add_block E blk s = (r, s') \<and> n_chain s' = n_chain s @ [blk] \<and> n_saved s' = Some (save_chain (e_chain E) (n_chain s))
    \<and> n_trx_db s' = Some d' \<and> trx_holds E ents d' M' \<and> groups_after (bs_signed_transactions bs) M M'
    \<and> (if n_gen_enabled s
       then \<exists>s1 u. n_chain s1 = n_chain s' \<and> n_saved s1 = n_saved s' \<and> n_trx_db s1 = n_trx_db s'
         \<and> start_block E s1 = (u, s') \<and> r = map_sum id (\<lambda>_. 1) u
       else r = Inr 1)"
proof -
  obtain s1 d' M' where s1: "add_block E blk s = then_next E s1" "n_gen_enabled s1 = n_gen_enabled s"
      "n_chain s1 = n_chain s @ [blk]" "n_saved s1 = Some (save_chain (e_chain E) (n_chain s))"
      "n_trx_db s1 = Some d'" "trx_holds E ents d' M'" "groups_after (bs_signed_transactions bs) M M'"
    using block_appended_next [OF assms] by blast
  have "n_chain s1 \<noteq> []" using s1(3) by simp
  from then_next_run [OF s1(1) this s1(2)] obtain r s' where s': "add_block E blk s = (r, s')"
      "n_chain s' = n_chain s1" "n_saved s' = n_saved s1" "n_trx_db s' = n_trx_db s1"
      "if n_gen_enabled s then \<exists>u. start_block E s1 = (u, s') \<and> r = map_sum id (\<lambda>_. 1) u else r = Inr 1"
    by metis
  show ?thesis
    by (intro exI [of _ r] exI [of _ s'] exI [of _ d'] exI [of _ M']) (use s1(3-7) s' in \<open>auto split: if_splits\<close>)
qed

text \<open>C9: A better head replaces the head. A block that follows the block before the head and has a smaller hash,
  whose state and transactions are known (pending, or those of the head it replaces), that
  applies to the state on disk and leaves a valid chain, takes the place of the head; nothing
  is written to the saved chain, and its transactions become those of the head. On a node that
  does not generate blocks \<open>add_block\<close> terminates and returns 1. A node that generates then calls
  \<open>start_block\<close>, which changes none of this, and \<open>add_block\<close> returns 1 when that call returns; it throws
  what that call throws, although the block is the head, and it does not return when that
  call does not.\<close>

theorem add_block_replaces:
  assumes laws: "trx_laws E ents" and st: "n_states s = States db h g" and d: "n_trx_db s = Some d" and rep: "trx_holds E ents d M"
    and ch: "n_chain s \<noteq> []" and len: "length (n_chain s) < 2 ^ 32"
    and link: "blk_prev_block blk \<noteq> e_hash_block E (last (n_chain s))" "blk_prev_block blk = blk_prev_block (last (n_chain s))"
    and less: "e_hash_less E (e_hash_block E blk) (e_hash_block E (last (n_chain s)))"
    and time: "blk_utc_time blk \<le> ucast (n_clock s (n_ticks s) div 1000000) + 30"
    and found: "fst (find_block_state E (blk_state blk) s) = Inr (Some bs)"
    and valid: "validate E (butlast (n_chain s) @ [blk]) = Inr True"
    and known: "\<forall>h \<in> set (bs_signed_transactions bs). \<exists>t. waiting M h = Some t \<and> dump_transaction E t = Inr ()"
    and strxs: "strxs = map (\<lambda>h. the (waiting M h)) (bs_signed_transactions bs)"
    and app: "fst (apply_block E blk (bs_generator_name bs) strxs (bs_state_db bs) (trx_new (Some db))) = Inr True"
  shows "\<exists>r s' d' M'. add_block E blk s = (r, s') \<and> n_chain s' = butlast (n_chain s) @ [blk] \<and> n_saved s' = n_saved s
    \<and> n_trx_db s' = Some d' \<and> trx_holds E ents d' M' \<and> groups_replaced (bs_signed_transactions bs) M M'
    \<and> (if n_gen_enabled s
       then \<exists>s1 u. n_chain s1 = n_chain s' \<and> n_saved s1 = n_saved s' \<and> n_trx_db s1 = n_trx_db s'
         \<and> start_block E s1 = (u, s') \<and> r = map_sum id (\<lambda>_. 1) u
       else r = Inr 1)"
proof -
  obtain s1 d' M' where s1: "add_block E blk s = then_next E s1" "n_gen_enabled s1 = n_gen_enabled s"
      "n_chain s1 = butlast (n_chain s) @ [blk]" "n_saved s1 = n_saved s"
      "n_trx_db s1 = Some d'" "trx_holds E ents d' M'" "groups_replaced (bs_signed_transactions bs) M M'"
    using block_replaced_next [OF assms] by blast
  have "n_chain s1 \<noteq> []" using s1(3) by simp
  from then_next_run [OF s1(1) this s1(2)] obtain r s' where s': "add_block E blk s = (r, s')"
      "n_chain s' = n_chain s1" "n_saved s' = n_saved s1" "n_trx_db s' = n_trx_db s1"
      "if n_gen_enabled s then \<exists>u. start_block E s1 = (u, s') \<and> r = map_sum id (\<lambda>_. 1) u else r = Inr 1"
    by metis
  show ?thesis
    by (intro exI [of _ r] exI [of _ s'] exI [of _ d'] exI [of _ M']) (use s1(3-7) s' in \<open>auto split: if_splits\<close>)
qed

end
