(* ===== verification/NodeFaults.thy ===== *)
theory NodeFaults
  imports NodeMarket
begin

text \<open>
  What becomes of the transactions of a block that takes the head's place or fails to, what a
  malformed transaction and an exception leave behind, and the loops over the log of an account
  and of the search for a nonce.
\<close>

section \<open>Competing blocks\<close>

lemma competing_run:
  assumes "n_chain s \<noteq> []" and "fst (find_block_state E (blk_state blk) s) = Inr (Some bs)"
    and "blk_prev_block blk \<noteq> e_hash_block E (last (n_chain s))" and "add_block E blk s = (Inr r, s')" and "r = 1 \<or> r = -3"
  shows "replace_block E blk bs (ticked s) = (Inr r, s')" and "find_block_state E (blk_state blk) (ticked s) = (Inr (Some bs), ticked s)"
proof -
  have bs: "find_block_state E (blk_state blk) s = (Inr (Some bs), s)"
    using assms(2) find_block_state_run(1) by (metis prod.collapse)
  then show "find_block_state E (blk_state blk) (ticked s) = (Inr (Some bs), ticked s)" by (rule find_block_state_ticked)
  show "replace_block E blk bs (ticked s) = (Inr r, s')"
    using assms(4) by (cases rule: add_block_runs) (use assms(3,5) bs in auto)
qed

text \<open>C15: A refused competitor takes transactions. A block that competes with the head (same predecessor, smaller
  hash, valid in the chain) but is refused, because it does not apply or its transactions are not
  all known, takes every pending transaction it names out of the pending ones and leaves it
  in the group of the head, from where the next block makes it \<open>applied\<close>: it is never applied.\<close>

theorem refused_competitor_takes_pending:
  assumes "trx_laws E ents" and "n_trx_db s = Some d" and "trx_holds E ents d M"
    and "n_chain s \<noteq> []" and "fst (find_block_state E (blk_state blk) s) = Inr (Some bs)"
    and "blk_prev_block blk \<noteq> e_hash_block E (last (n_chain s))"
    and "e_hash_less E (e_hash_block E blk) (e_hash_block E (last (n_chain s)))"
    and "validate E (butlast (n_chain s) @ [blk]) = Inr True" and "add_block E blk s = (Inr (-3), s')"
  shows "\<exists>d' M'. n_trx_db s' = Some d' \<and> trx_holds E ents d' M' \<and> (\<forall>h \<in> set (bs_signed_transactions bs).
    om_find (pending_trx, h) M' = None \<and> (om_find (pending_trx, h) M \<noteq> None \<longrightarrow> om_find (head_trx, h) M' \<noteq> None))"
proof -
  let ?hs = "bs_signed_transactions bs"
  have ch: "n_chain (ticked s) \<noteq> []" using assms(4) by simp
  show ?thesis
  proof (cases rule: replace_block_runs [OF competing_run(1) [OF assms(4-6,9) disjI2 [OF refl]] ch competing_run(2) [OF assms(4-6,9) disjI2 [OF refl]]])
    case 1
    then show ?thesis using assms(7,8) by simp
  next
    case (2 d0 d1 d2)
    have d: "d0 = d" using 2(5) assms(2) by simp
    obtain e1 where e1: "move_loop E head_trx pending_trx ?hs d = (Inr (), e1)" "trx_holds E ents e1 (move_map head_trx pending_trx ?hs M)"
      using move_loop_map [OF assms(1,3)] by blast
    obtain e2 where e2: "move_loop E pending_trx head_trx ?hs e1 = (Inr (), e2)"
       "trx_holds E ents e2 (move_map pending_trx head_trx ?hs (move_map head_trx pending_trx ?hs M))"
      using move_loop_map [OF assms(1) e1(2)] by blast
    have "d2 = e2" using 2(6,7) d e1(1) e2(1) by simp
    moreover have "n_trx_db s' = Some d2" using 2(3) by (simp add: rest_kept_def)
    ultimately show ?thesis using e2(2)
      by (intro exI [of _ e2] exI [of _ "move_map pending_trx head_trx ?hs (move_map head_trx pending_trx ?hs M)"])
        (auto simp: find_move_map)
  next
    case (3 d0 d1 d2 strxs db h g db' l s2)
    have "n_chain s2 \<noteq> []" using 3(11) by simp
    then show ?thesis using announce_run(1) [OF 3(12)] by simp
  qed
qed

text \<open>C16: A replaced head loses transactions. When a block takes the place of the head, a transaction of the old
  head that the new block does not hold stays in the group of the head and does not become
  pending again, although the new head's market was computed without it: the code asks for the
  transactions of the old head when the head is already the new block.\<close>

theorem replaced_head_loses_transactions:
  assumes "trx_laws E ents" and "n_trx_db s = Some d" and "trx_holds E ents d M"
    and "n_chain s \<noteq> []" and "fst (find_block_state E (blk_state blk) s) = Inr (Some bs)"
    and "blk_prev_block blk \<noteq> e_hash_block E (last (n_chain s))" and "add_block E blk s = (Inr 1, s')"
    and "h \<notin> set (bs_signed_transactions bs)"
  shows "\<exists>d' M'. n_trx_db s' = Some d' \<and> trx_holds E ents d' M' \<and> (\<forall>g. om_find (g, h) M' = om_find (g, h) M)
    \<and> (\<forall>k \<in> set (bs_signed_transactions bs). om_find (head_trx, k) M' \<noteq> None \<and> om_find (pending_trx, k) M' = None)"
proof -
  let ?hs = "bs_signed_transactions bs"
  have ch: "n_chain (ticked s) \<noteq> []" using assms(4) by simp
  show ?thesis
  proof (cases rule: replace_block_runs [OF competing_run(1) [OF assms(4-7) disjI1 [OF refl]] ch competing_run(2) [OF assms(4-7) disjI1 [OF refl]]])
    case 1
    then show ?thesis by simp
  next
    case (2 d0 d1 d2)
    then show ?thesis by simp
  next
    case (3 d0 d1 d2 strxs db h0 g db' l s2)
    have d: "d0 = d" using 3(3) assms(2) by simp
    obtain e1 where e1: "move_loop E head_trx pending_trx ?hs d = (Inr (), e1)" "trx_holds E ents e1 (move_map head_trx pending_trx ?hs M)"
      using move_loop_map [OF assms(1,3)] by blast
    obtain e2 where e2: "move_loop E pending_trx head_trx ?hs e1 = (Inr (), e2)"
       "trx_holds E ents e2 (move_map pending_trx head_trx ?hs (move_map head_trx pending_trx ?hs M))"
      using move_loop_map [OF assms(1) e1(2)] by blast
    have eq: "d1 = e1" "d2 = e2" using 3(4,10) d e1(1) e2(1) by simp_all
    have ne: "n_chain s2 \<noteq> []" using 3(11) by simp
    have s': "n_trx_db s' = Some e2" using announce_run(4) [OF 3(12) ne] 3(11) eq by simp
    have all: "\<forall>k \<in> set ?hs. om_find (pending_trx, k) (move_map head_trx pending_trx ?hs M) \<noteq> None"
      using 3(5,6) transactions_loop_map [OF assms(1) e1(2), of pending_trx ?hs "[]"] eq by (auto split: if_splits)
    show ?thesis using s' e2(2) all assms(8)
      by (intro exI [of _ e2] exI [of _ "move_map pending_trx head_trx ?hs (move_map head_trx pending_trx ?hs M)"])
        (auto simp: find_move_map)
  qed
qed

section \<open>Exceptions\<close>

text \<open>An exception leaves the block in the chain. When the transactions of a block at the head throw instead of
  being refused (a command that cannot be read is enough), \<open>add_block\<close> throws with the block
  already in the chain, and the state of the head is that of the block before; for a block
  the node generated itself the handler swallows the exception.\<close>

theorem throwing_block_stays:
  assumes "n_chain s \<noteq> []" and "fst (find_block_state E (blk_state blk) s) = Inr (Some bs)"
    and "blk_prev_block blk = e_hash_block E (last (n_chain s))"
    and "blk_utc_time blk \<le> ucast (n_clock s (n_ticks s) div 1000000) + 30"
    and "validate E (n_chain s @ [blk]) = Inr True"
    and "fst (get_transactions E (bs_signed_transactions bs) pending_trx s) = Inr strxs"
    and "length strxs = length (bs_signed_transactions bs)" and "n_states s = States db h g"
    and "fst (apply_block E blk (bs_generator_name bs) strxs (bs_state_db bs) (trx_new (Some (head_of s)))) = Inl e" and "catchable e"
  shows "fst (add_block E blk s) = Inl e \<and> n_chain (snd (add_block E blk s)) = n_chain s @ [blk]
    \<and> states_kept (n_states s) (n_states (snd (add_block E blk s)))
    \<and> fst (generated_block E blk s) = Inr () \<and> n_chain (snd (generated_block E blk s)) = n_chain s @ [blk]"
proof -
  let ?hs = "bs_signed_transactions bs" and ?apply = "apply_block E blk (bs_generator_name bs) strxs (bs_state_db bs)"
  have bs: "find_block_state E (blk_state blk) s = (Inr (Some bs), s)"
    using assms(2) find_block_state_run(1) by (metis prod.collapse)
  let ?s1 = "(ticked s)\<lparr>n_chain := n_chain s @ [blk]\<rparr>"
  have head: "head_of s = Trx (Some db) h" using assms(8) by (simp add: head_of_def)
  obtain t where t: "?apply (trx_new (Some (head_of s))) = (Inl e, t)"
    using assms(9) by (cases "?apply (trx_new (Some (head_of s)))") simp
  obtain b' l where tr: "t = Trx (Some b') l" "kept (head_of s) b'"
    using followsE [OF below_apply_block t] by (auto simp: trx_new_def below_kept_Trx)
  obtain db' where db': "b' = Trx (Some db') h" "kept db db'" using kept_TrxD tr(2) head by metis
  let ?s2 = "?s1\<lparr>n_states := States db' h g\<rparr>"
  have ap: "on_head (with_fresh ?apply) ?s1 = (Inl e, ?s2)"
    using t tr db' head assms(8) by (simp add: on_head_def with_fresh_def base_of_def)
  have gt: "get_transactions E ?hs pending_trx ?s1 = (Inr strxs, ?s1)"
    using assms(6) by (auto simp: get_transactions_def on_trx_db_def split: option.splits)
  have "append_block E blk bs (ticked s) = bindP (get_transactions E ?hs pending_trx) (\<lambda>strxs.
       if length strxs \<noteq> length ?hs then reject_append E
       else bindP (on_head (with_fresh (apply_block E blk (bs_generator_name bs) strxs (bs_state_db bs)))) (\<lambda>(ok, l).
         if ok then bindP (move_group E head_trx applied_trx) (\<lambda>_. bindP (move_transactions E ?hs pending_trx head_trx) (\<lambda>_.
           bindP (install_head E blk l) (\<lambda>_. announce E blk bs strxs))) else reject_append E)) ?s1"
    unfolding append_block_def bind_push bind_asks using assms(5) by simp
  also have "\<dots> = (Inl e, ?s2)" using gt ap assms(7) by (simp add: bindP_def)
  finally have "append_block E blk bs (ticked s) = (Inl e, ?s2)" .
  moreover have "add_block E blk s = append_block E blk bs (ticked s)"
    using assms(1,3) leD [OF assms(4)] bs by (simp add: add_block_def bindP_def chain_back_def utc_clock_def Let_def prog_simps)
  ultimately have run: "add_block E blk s = (Inl e, ?s2)" by simp
  then show ?thesis
    using assms(8,10) db'(2) by (simp add: states_kept_def generated_block_def tryP_def)
qed

section \<open>Malformed transactions\<close>




section \<open>The log of an account\<close>

lemma ti_update_index: "ti_update E t s = (Inr p, s') \<Longrightarrow> ti_index (snd p) = ti_index t"
  unfolding ti_update_def
  by (auto elim!: bindP_InrE dest!: bind_liftE_Inr simp: ret_run liftE_run Let_def split: if_splits)

lemma ti_previous_index:
  "ti_previous E account t s = (Inr p, s') \<Longrightarrow> ti_index (snd p) = -1 \<or> ti_index (snd p) < ti_index t"
  unfolding ti_previous_def by (auto dest: ti_update_index simp: ret_run split: if_splits)

lemma list_grows:
  "(case r of Inl e \<Rightarrow> True | Inr l \<Rightarrow> \<exists>new. l = (log @ added) @ new \<and> list_all P new)
   \<Longrightarrow> list_all P added
   \<Longrightarrow> (case r of Inl e \<Rightarrow> True | Inr l \<Rightarrow> \<exists>new. l = log @ new \<and> list_all P new)"
  by (cases r) (auto intro: exI [of _ "added @ _"])

text \<open>The log of an account ends. Walking back through the transfers of an account terminates from any
  iterator over any state, even a damaged log, because each step goes to a smaller position of
  the log; what it adds to the result lies between the two dates.\<close>

theorem trx_log_loop_ends:
  "\<exists>y. trx_log_loop E account start_date end_date t log s = Some y
     \<and> (case fst y of Inl e \<Rightarrow> True
        | Inr l \<Rightarrow> \<exists>new. l = log @ new \<and> list_all (\<lambda>x. start_date \<le> lo_date x \<and> lo_date x \<le> end_date) new)"
proof (induction "if ti_end t then 0 else Suc (unat (ti_index t))" arbitrary: t log s rule: less_induct)
  case less
  show ?case
  proof (cases "ti_end t \<or> ti_time t < start_date")
    case True
    then show ?thesis by (subst trx_log_loop.simps) auto
  next
    case False
    define x where "x = \<lparr>lo_from = ti_from t, lo_to = ti_to t, lo_type = ti_type t, lo_amnt = ti_amount t,
                         lo_to_bal = ti_to_bal t, lo_from_bal = ti_from_bal t, lo_date = ti_time t\<rparr>"
    define log' where "log' = (if ti_time t \<le> end_date then log @ [x] else log)"
    obtain r s' where prev: "ti_previous E account t s = (r, s')" by fastforce
    have step: "trx_log_loop E account start_date end_date t log s =
       (case r of Inl e \<Rightarrow> Some (Inl e, s') | Inr p \<Rightarrow> trx_log_loop E account start_date end_date (snd p) log' s')"
      using False prev unfolding log'_def x_def by (subst trx_log_loop.simps) (simp add: Let_def)
    show ?thesis
    proof (cases r)
      case (Inl e)
      then show ?thesis using step by simp
    next
      case (Inr p)
      have "ti_index (snd p) = -1 \<or> ti_index (snd p) < ti_index t" using ti_previous_index prev Inr by blast
      then have lt: "(if ti_end (snd p) then 0 else Suc (unat (ti_index (snd p)))) < (if ti_end t then 0 else Suc (unat (ti_index t)))"
        using False by (auto simp: ti_end_def word_less_nat_alt)
      obtain y where y: "trx_log_loop E account start_date end_date (snd p) log' s' = Some y"
        "case fst y of Inl e \<Rightarrow> True
          | Inr l \<Rightarrow> \<exists>new. l = log' @ new \<and> list_all (\<lambda>x. start_date \<le> lo_date x \<and> lo_date x \<le> end_date) new"
        using less.hyps [OF lt] by blast
      let ?added = "if ti_time t \<le> end_date then [x] else []"
      have added: "list_all (\<lambda>x. start_date \<le> lo_date x \<and> lo_date x \<le> end_date) ?added"
        using False by (simp add: x_def not_less)
      have log': "log' = log @ ?added" by (simp add: log'_def)
      have "case fst y of Inl e \<Rightarrow> True
          | Inr l \<Rightarrow> \<exists>new. l = log @ new \<and> list_all (\<lambda>x. start_date \<le> lo_date x \<and> lo_date x \<le> end_date) new"
        using y(2) unfolding log' by (rule list_grows [OF _ added])
      then show ?thesis using step Inr y(1) by simp
    qed
  qed
qed

end
