(* ===== verification/NodeSample.thy ===== *)
theory NodeSample
  imports NodeLive NodeFaults StateProps
begin

text \<open>
  A node on which the properties of nodes are tried: a chain of a first block, or of that and a
  head, an empty market on disk, a pending transaction that applies, a pending one that cannot
  be read, and one of the head; and the block states of the blocks that are added to it.
\<close>

section \<open>The node\<close>

definition old_trx :: signed_transaction where
  "old_trx = \<lparr>strx_trx = \<lparr>trx_utc_time = 6, trx_commands = []\<rparr>, strx_sigs = []\<rparr>"

definition bad_trx :: "u64 \<Rightarrow> signed_transaction" where
  \<comment> \<open>its command has no data\<close>
  "bad_trx t = \<lparr>strx_trx = \<lparr>trx_utc_time = t, trx_commands = [\<lparr>c_id = issue_id, c_data = []\<rparr>]\<rparr>, strx_sigs = []\<rparr>"

definition sample_trx_map :: "(u32 \<times> sha1, signed_transaction) omap" where
  "sample_trx_map = om_set (head_trx, 6) old_trx (om_set (pending_trx, 8) (bad_trx 8) (om_set (pending_trx, 5) sample_trx om_empty))"

definition sample_trx_db :: "(bytes \<times> bytes) list" where
  "sample_trx_db = trx_set raw_env head_trx 6 old_trx (trx_set raw_env pending_trx 8 (bad_trx 8) (trx_set raw_env pending_trx 5 sample_trx []))"

definition sample_disk :: "(bytes \<times> bytes) list sdb" where
  "sample_disk = State_Db \<lparr>f_data = [], f_pos = 0, f_eof = False, f_writable = True\<rparr> [] [] empty_layer"

definition hash_after :: "(bytes \<times> bytes) list sdb \<Rightarrow> sha1" where
  \<comment> \<open>the hash of the state after the transaction\<close>
  "hash_after s =
     (case fst (calculate_state_hash raw_env (snd (apply_trx raw_env sample_trx [] (trx_new (Some s))))) of Inr h \<Rightarrow> h | Inl e \<Rightarrow> 0)"

definition sample_state :: "u32 \<Rightarrow> sha1 \<Rightarrow> sha1 list \<Rightarrow> block_state" where
  "sample_state i h trxs = \<lparr>bs_index = i, bs_generator_name = [], bs_state_db = h, bs_signed_transactions = trxs\<rparr>"

definition state_one :: block_state where \<comment> \<open>for a block behind the first\<close>
  "state_one = sample_state 1 (hash_after (Trx (Some sample_disk) empty_layer)) [5]"

definition state_two :: block_state where \<comment> \<open>for a block in place of the head\<close>
  "state_two = sample_state 2 (hash_after sample_disk) [5]"

definition state_three :: block_state where \<comment> \<open>with an unknown transaction\<close>
  "state_three = sample_state 3 0 [5, 77]"

definition state_four :: block_state where \<comment> \<open>with the transaction that cannot be read\<close>
  "state_four = sample_state 4 0 [8]"

definition set_state :: "sha1 \<Rightarrow> block_state \<Rightarrow> (bytes \<times> bytes) list \<Rightarrow> (bytes \<times> bytes) list" where
  "set_state k b d = kv_set list_bdb (codec_of (lay_word 20)) (codec_of lay_block_state) k b d"

definition sample_states :: "(bytes \<times> bytes) list" where
  "sample_states = set_state 4 state_four (set_state 3 state_three (set_state 2 state_two (set_state 1 state_one [])))"

definition sample_block :: "sha1 \<Rightarrow> sha1 \<Rightarrow> u64 \<Rightarrow> block" where
  "sample_block p st n = \<lparr>blk_prev_block = p, blk_version = 0, blk_utc_time = 20, blk_state = st, blk_nonce = n\<rparr>"

definition sample_first :: block where
  "sample_first = sample_block 0 100 5"

definition sample_head :: block where
  "sample_head = sample_block 5 101 9"

definition sample_node :: "block list \<Rightarrow> (bytes \<times> bytes) list node" where
  "sample_node c = (node_new 0 (\<lambda>_. 100000000))\<lparr>n_chain := c, n_states := States sample_disk empty_layer empty_layer,
     n_trx_db := Some sample_trx_db, n_block_state_db := Some sample_states\<rparr>"

lemma sample_node_sel [simp]:
  "n_chain (sample_node c) = c" "n_states (sample_node c) = States sample_disk empty_layer empty_layer"
  "n_trx_db (sample_node c) = Some sample_trx_db" "n_block_state_db (sample_node c) = Some sample_states"
  "\<not> n_gen_enabled (sample_node c)" "n_clock (sample_node c) k = 100000000"
  by (simp_all add: sample_node_def node_new_def)

lemma sample_node_same [simp]: "(sample_node c)\<lparr>n_trx_db := Some sample_trx_db\<rparr> = sample_node c"
  by (simp add: sample_node_def)

lemma sample_block_sel [simp]:
  "blk_prev_block (sample_block p st n) = p" "blk_utc_time (sample_block p st n) = 20" "blk_state (sample_block p st n) = st"
  "blk_nonce (sample_block p st n) = n"
  by (simp_all add: sample_block_def)

lemma sample_state_sel [simp]:
  "bs_generator_name (sample_state i h ts) = []" "bs_state_db (sample_state i h ts) = h" "bs_signed_transactions (sample_state i h ts) = ts"
  by (simp_all add: sample_state_def)

section \<open>What it holds\<close>

lemma length_lay_list: "length (lay (lay_list y) xs) = 4 + sum_list (map (\<lambda>x. length (lay y x)) xs)"
  by (simp add: lay_list_def) (induction xs, simp_all)

lemma length_lay_node:
  "length (lay lay_command c) = 6 + length (c_data c)"
  "length (lay lay_transaction x) = 12 + sum_list (map (\<lambda>c. 6 + length (c_data c)) (trx_commands x))"
  "length (lay lay_strx t) = 16 + sum_list (map (\<lambda>c. 6 + length (c_data c)) (trx_commands (strx_trx t))) + 256 * length (strx_sigs t)"
  "length (lay lay_block_state b) = 32 + length (bs_generator_name b) + 20 * length (bs_signed_transactions b)"
proof -
  show c: "length (lay lay_command c) = 6 + length (c_data c)" for c
    by (simp add: lay_command_def length_lay lay_bytes_def)
  show x: "length (lay lay_transaction x) = 12 + sum_list (map (\<lambda>c. 6 + length (c_data c)) (trx_commands x))" for x
    by (simp add: lay_transaction_def length_lay length_lay_list c)
  show "length (lay lay_strx t) = 16 + sum_list (map (\<lambda>c. 6 + length (c_data c)) (trx_commands (strx_trx t))) + 256 * length (strx_sigs t)"
    by (simp add: lay_strx_def length_lay length_lay_list x sum_list_triv)
  show "length (lay lay_block_state b) = 32 + length (bs_generator_name b) + 20 * length (bs_signed_transactions b)"
    by (simp add: lay_block_state_def length_lay length_lay_list sum_list_triv)
qed

lemma sample_small_strx: "sample_trx \<in> small_strx raw_env" "old_trx \<in> small_strx raw_env" "bad_trx t \<in> small_strx raw_env"
  by (simp_all add: small_strx_def length_lay_node sample_trx_def old_trx_def bad_trx_def sample_commands_def command_of_def
      length_lay_structs log_limit_def)

lemma empty_trx_db: "trx_holds E (\<lambda>es. es) [] om_empty"
  by (simp add: trx_holds_def kv_rep_def kv_repr_def om_empty_def)

lemma sample_trx_db_holds: "trx_holds raw_env (\<lambda>es. es) sample_trx_db sample_trx_map"
  unfolding sample_trx_db_def sample_trx_map_def
  by (intro trx_ops_map(2) raw_trx_laws empty_trx_db sample_small_strx)

lemma find_sample_trx:
  "om_find k sample_trx_map = (if k = (head_trx, 6) then Some old_trx else if k = (pending_trx, 8) then Some (bad_trx 8)
     else if k = (pending_trx, 5) then Some sample_trx else None)"
  by (auto simp: sample_trx_map_def om_find_set)

definition small_states :: "block_state set" where
  "small_states = {b. length (lay lay_block_state b) < log_limit}"

lemma raw_state_laws: "kv_ok list_bdb (\<lambda>es. es) (codec_of (lay_word 20 :: sha1 layout)) (codec_of lay_block_state) UNIV small_states"
proof -
  have key: "codec_laws (codec_of (lay_word 20 :: sha1 layout)) UNIV"
    by (rule codec_laws_of) (rule lossless_words, simp, simp add: lay_word_def log_limit_def)
  have val: "codec_laws (codec_of lay_block_state) small_states"
    by (rule codec_laws_of [OF lossless_node(2)]) (simp add: small_states_def)
  have ne: "lay (lay_word 20 :: sha1 layout) k \<noteq> []" "lay lay_block_state b \<noteq> []" for k b
    unfolding length_0_conv [symmetric] by (simp_all add: length_lay length_lay_node del: length_0_conv)
  show ?thesis unfolding kv_ok_def by (intro conjI ballI list_bdb_laws key val) (simp_all add: ne)
qed

lemma find_sample_state:
  "fst (find_block_state raw_env 1 (sample_node c)) = Inr (Some state_one)"
  "fst (find_block_state raw_env 2 (sample_node c)) = Inr (Some state_two)"
  "fst (find_block_state raw_env 3 (sample_node c)) = Inr (Some state_three)"
  "fst (find_block_state raw_env 4 (sample_node c)) = Inr (Some state_four)"
  and find_sample_state_again:
  "kv_get list_bdb (codec_of (lay_word 20)) (codec_of lay_block_state) (1 :: sha1) (set_state 1 state_one sample_states) = Inr (Some state_one)"
proof -
  let ?rep = "kv_rep (\<lambda>es. es) (codec_of (lay_word 20 :: sha1 layout)) (codec_of lay_block_state) UNIV small_states"
  let ?M = "om_set 4 state_four (om_set 3 state_three (om_set 2 state_two (om_set 1 state_one om_empty)))"
  have small: "state_one \<in> small_states" "state_two \<in> small_states" "state_three \<in> small_states" "state_four \<in> small_states"
    by (simp_all add: small_states_def length_lay_node state_one_def state_two_def state_three_def state_four_def log_limit_def)
  have empty: "?rep [] om_empty" by (simp add: kv_rep_def kv_repr_def om_empty_def)
  have set: "?rep (set_state k b d) (om_set k b m)" if "b \<in> small_states" "?rep d m" for k b d m
    unfolding set_state_def using that by (intro kv_set_map [OF raw_state_laws]) simp_all
  have rep: "?rep sample_states ?M" unfolding sample_states_def by (intro set small empty)
  show "fst (find_block_state raw_env 1 (sample_node c)) = Inr (Some state_one)"
    "fst (find_block_state raw_env 2 (sample_node c)) = Inr (Some state_two)"
    "fst (find_block_state raw_env 3 (sample_node c)) = Inr (Some state_three)"
    "fst (find_block_state raw_env 4 (sample_node c)) = Inr (Some state_four)"
    by (simp_all add: find_block_state_def on_block_state_db_def kv_get_map [OF raw_state_laws rep] om_find_set)
  show "kv_get list_bdb (codec_of (lay_word 20)) (codec_of lay_block_state) (1 :: sha1) (set_state 1 state_one sample_states) = Inr (Some state_one)"
    by (simp add: kv_get_map [OF raw_state_laws set [OF small(1) rep, of 1]] om_find_set)
qed

lemma sample_disk_shows: "shows_market E (\<lambda>es. es) empty_market sample_disk"
proof (rule shows_marketI)
  let ?lg = "\<lparr>lg_log = [], lg_names = (\<lambda>_. None), lg_accts = (\<lambda>_. None)\<rparr>"
  show "holds E (\<lambda>es. es) ?lg sample_disk"
    unfolding sample_disk_def
    by (rule holds_DbI [where ?es1.0 = "[]" and es = "[]" and nm = "[]" and tm = "[]"])
      (simp_all add: kv_rep_def kv_repr_def fun_eq_iff over_def index_ok_def empty_layer_def om_empty_def)
  show "sound E ?lg" by (simp add: sound_def sound_names_def sound_accts_def)
  show "market_of E ?lg = empty_market"
    by (auto simp: market_of_def empty_market_def key_of_def id_of_def name_entry_def fun_eq_iff)
qed

lemma sample_node_shows: "node_shows raw_env (\<lambda>es. es) empty_market (sample_node c)"
  by (simp add: node_shows_def shows_fresh [OF sample_disk_shows])

lemma sample_node_ready: "node_ready raw_env (sample_node c)"
  by (simp add: node_ready_def sample_disk_def)

section \<open>Blocks that are added to it\<close>

lemma sample_end_adds: "adds 304 (append_record raw_env (entry_record raw_env (End \<lparr>eb_blk = b, eb_generator = []\<rparr>)))"
  by (rule adds_append [OF raw_record_bound])
    (simp add: entry_len_def state_record_of_def lay_end_block_def lay_block_def length_lay)

lemma sample_applies:
  assumes m: "shows_market raw_env (\<lambda>es. es) empty_market s" and empty: "log_size s = 0"
  shows "fst (apply_block raw_env b [] [sample_trx] (hash_after s) (trx_new (Some s))) = Inr True"
    and "log_size (snd (apply_block raw_env b [] [sample_trx] (hash_after s) (trx_new (Some s)))) < log_limit"
proof -
  let ?s = "trx_new (Some s)" and ?r = "entry_record raw_env (End \<lparr>eb_blk = b, eb_generator = []\<rparr>)"
  have m0: "shows_market raw_env (\<lambda>es. es) empty_market ?s" using shows_fresh [OF m] by (simp add: trx_new_def)
  have "adds (304 + 2 * 304 * length (trx_commands (strx_trx sample_trx))) (apply_trx raw_env sample_trx [])"
    by (rule adds_trx [OF raw_record_bound]) (use sample_names in \<open>simp_all add: sample_trx_def\<close>)
  then have "log_size (snd (apply_trx raw_env sample_trx [] ?s)) \<le> log_size ?s + (304 + 2 * 304 * 4)"
    by (rule addsD [THEN order_trans]) (simp add: sample_trx_def sample_commands_def)
  then have size: "log_size (snd (apply_trx raw_env sample_trx [] ?s)) \<le> 2736"
    using empty by (simp add: trx_new_def log_size_def)
  then have "fst (apply_trx raw_env sample_trx [] ?s) = Inr True"
    using apply_trx_run(1) [OF raw_env_laws m0 sample_small] sample_accepted by (simp add: sample_trx_def log_limit_def)
  then obtain s1 where s1: "apply_trx raw_env sample_trx [] ?s = (Inr True, s1)" by (cases "apply_trx raw_env sample_trx [] ?s") simp
  have "log_size s1 < hash_chunk" using size s1 by (simp add: hash_chunk_def)
  then obtain h s2 where s2: "calculate_state_hash raw_env s1 = (Inr h, s2)"
    using calculate_state_hash_small [of s1 raw_env] by (cases "calculate_state_hash raw_env s1") simp
  have "kept s1 s2" by (rule followsE [OF calculate_state_hash_kept s2])
  then have size2: "log_size s2 \<le> 2736" using kept_log_size size s1 by fastforce
  have h: "hash_after s = h" using s1 s2 by (simp add: hash_after_def)
  obtain s3 where s3: "append_record raw_env ?r s2 = (Inr True, s3)"
    by (simp add: append_record_def bindP_def on_layer_def prog_simps)
  have "log_size s3 < log_limit" using addsD [OF sample_end_adds, of b s2] size2 s3 by (simp add: log_limit_def)
  moreover have run: "apply_block raw_env b [] [sample_trx] (hash_after s) ?s = (Inr True, s3)"
    using s1 s2 s3 h by (simp add: apply_block_def bindP_Inr ret_run)
  ultimately show "fst (apply_block raw_env b [] [sample_trx] (hash_after s) ?s) = Inr True"
    "log_size (snd (apply_block raw_env b [] [sample_trx] (hash_after s) ?s)) < log_limit"
    by simp_all
qed

lemma raw_hash_block [simp]: "e_hash_block raw_env b = ucast (blk_nonce b)" "e_hash_less raw_env x y = (x < y)"
  by (simp_all add: raw_env_def)

lemma sample_valid_block:
  assumes "i < length bc" and "length bc < 2 ^ 32" and "bc ! i = sample_block p st n" and "n < 1000"
  shows "valid_block raw_env bc i p"
proof -
  have "e_hash_block raw_env (bc ! i) = ucast n" using assms(3) by simp
  moreover have "ucast n \<le> get_max_hash"
  proof -
    have "unat (ucast n :: sha1) = unat n" using order_less_le_trans [OF unsigned_less [where 'a = nat, of n], of "2 ^ 160"] by (simp add: unsigned_ucast_eq take_bit_nat_eq_self)
    moreover have "unat n < 1000" using assms(4) by (simp add: word_less_nat_alt)
    ultimately show ?thesis using max_hash_val by (simp add: word_le_nat_alt)
  qed
  ultimately show ?thesis
    using hash_target_admits [OF raw_hash_order assms(2,1)] assms(3) by (auto simp: valid_block_def seconds_per_block_def)
qed

lemma sample_chain_valid: "n < 1000 \<Longrightarrow> validate raw_env [sample_first, sample_block 5 st n] = Inr True"
  unfolding validate_def validate_loop_True
  by (auto simp: less_Suc_eq sample_first_def intro: sample_valid_block)

lemma sample_casts: "dump_transaction raw_env sample_trx = Inr ()"
  by (simp add: dump_transaction_def sample_trx_def sample_commands_def cast_command_def command_of_def
      register_name_id_def issue_id_def transfer_id_def)


lemma sample_state_four_sel [simp]:
  "bs_generator_name state_one = []" "bs_signed_transactions state_one = [5]" "bs_generator_name state_two = []" "bs_signed_transactions state_two = [5]"
  "bs_generator_name state_three = []" "bs_signed_transactions state_three = [5, 77]"
  "bs_generator_name state_four = []" "bs_signed_transactions state_four = [8]"
  by (simp_all add: state_one_def state_two_def state_three_def state_four_def)

lemma sample_trxs_small: "small_trxs raw_env [] [sample_trx]"
  using sample_small by (simp add: small_trxs_def)

definition sample_appends :: block where "sample_appends = sample_block 5 1 7"
definition sample_replaces :: block where "sample_replaces = sample_block 5 2 7"

text \<open>What a block behind the first, and one in place of the head, are applied to.\<close>

lemma sample_over_disk:
  "shows_market raw_env (\<lambda>es. es) empty_market (Trx (Some sample_disk) empty_layer)" "log_size (Trx (Some sample_disk) empty_layer) = 0"
  "log_size sample_disk = 0" "head_of (sample_node c) = Trx (Some sample_disk) empty_layer"
  by (rule shows_fresh [OF sample_disk_shows]) (simp_all add: sample_disk_def log_size_def head_of_def empty_layer_def)

lemma state_hashes: "bs_state_db state_one = hash_after (Trx (Some sample_disk) empty_layer)" "bs_state_db state_two = hash_after sample_disk"
  by (simp_all add: state_one_def state_two_def)

lemma sample_appended_block:
  "fst (apply_block raw_env b [] [sample_trx] (bs_state_db state_one) (trx_new (Some (head_of (sample_node c))))) = Inr True"
  "log_size (snd (apply_block raw_env b [] [sample_trx] (bs_state_db state_one) (trx_new (Some (head_of (sample_node c)))))) < log_limit"
  unfolding state_hashes sample_over_disk by (rule sample_applies [OF sample_over_disk(1,2)])+

lemma sample_replaced_block:
  "fst (apply_block raw_env b [] [sample_trx] (bs_state_db state_two) (trx_new (Some sample_disk))) = Inr True"
  "log_size (snd (apply_block raw_env b [] [sample_trx] (bs_state_db state_two) (trx_new (Some sample_disk)))) < log_limit"
  unfolding state_hashes by (rule sample_applies [OF sample_disk_shows sample_over_disk(3)])+

lemma sample_block_facts [simp]:
  "blk_prev_block sample_appends = 5" "blk_prev_block sample_replaces = 5" "blk_state sample_appends = 1" "blk_state sample_replaces = 2"
  "blk_nonce sample_appends = 7" "blk_nonce sample_replaces = 7" "blk_utc_time sample_appends = 20" "blk_utc_time sample_replaces = 20"
  "blk_nonce sample_first = 5" "blk_nonce sample_head = 9" "blk_prev_block sample_head = 5" "blk_prev_block sample_first = 0"
  by (simp_all add: sample_appends_def sample_replaces_def sample_first_def sample_head_def)

lemma sample_valid: "validate raw_env [sample_first, sample_appends] = Inr True" "validate raw_env [sample_first, sample_replaces] = Inr True"
  by (simp_all add: sample_appends_def sample_replaces_def sample_chain_valid)

lemma sample_trx_known:
  "\<exists>t. om_find (pending_trx, 5) sample_trx_map = Some t \<and> dump_transaction raw_env t = Inr ()"
  "the (om_find (pending_trx, 5) sample_trx_map) = sample_trx" "the (waiting sample_trx_map 5) = sample_trx"
  "\<exists>t. waiting sample_trx_map 5 = Some t \<and> dump_transaction raw_env t = Inr ()"
  by (simp_all add: find_sample_trx sample_casts waiting_def)

lemma sample_pending: "fst (get_transactions raw_env [5] pending_trx (sample_node c)) = Inr [sample_trx]"
  using transactions_loop_map [OF raw_trx_laws sample_trx_db_holds, of pending_trx "[5]" "[]"]
  by (simp add: get_transactions_def on_trx_db_def find_sample_trx del: transactions_loop.simps)

lemma sample_appended:
  obtains s' d' M' where "add_block raw_env sample_appends (sample_node [sample_first]) = (Inr 1, s')" "n_chain s' = [sample_first, sample_appends]"
    "n_trx_db s' = Some d'" "trx_holds raw_env (\<lambda>es. es) d' M'" "groups_after [5] sample_trx_map M'"
proof -
  have "\<exists>s' d' M'. add_block raw_env sample_appends (sample_node [sample_first]) = (Inr 1, s')
     \<and> n_chain s' = n_chain (sample_node [sample_first]) @ [sample_appends]
     \<and> n_saved s' = Some (save_chain (e_chain raw_env) (n_chain (sample_node [sample_first])))
     \<and> n_trx_db s' = Some d' \<and> trx_holds raw_env (\<lambda>es. es) d' M' \<and> groups_after (bs_signed_transactions state_one) sample_trx_map M'"
    by (rule block_appended [where d = sample_trx_db and strxs = "[sample_trx]", OF raw_env_laws raw_trx_laws sample_node_ready sample_node_shows])
      (simp_all add: sample_trx_db_holds find_sample_state sample_valid sample_trx_known sample_trxs_small sample_appended_block)
  then show ?thesis using that by fastforce
qed

lemma sample_replaced:
  obtains s' d' M' where "add_block raw_env sample_replaces (sample_node [sample_first, sample_head]) = (Inr 1, s')"
    "n_chain s' = [sample_first, sample_replaces]" "n_trx_db s' = Some d'" "trx_holds raw_env (\<lambda>es. es) d' M'" "groups_replaced [5] sample_trx_map M'"
proof -
  have "\<exists>s' d' M'. add_block raw_env sample_replaces (sample_node [sample_first, sample_head]) = (Inr 1, s')
     \<and> n_chain s' = butlast (n_chain (sample_node [sample_first, sample_head])) @ [sample_replaces]
     \<and> n_saved s' = n_saved (sample_node [sample_first, sample_head])
     \<and> n_trx_db s' = Some d' \<and> trx_holds raw_env (\<lambda>es. es) d' M' \<and> groups_replaced (bs_signed_transactions state_two) sample_trx_map M'"
    by (rule block_replaced [where d = sample_trx_db and db = sample_disk and strxs = "[sample_trx]", OF raw_trx_laws])
      (simp_all add: sample_trx_db_holds find_sample_state sample_valid sample_trx_known sample_replaced_block)
  then show ?thesis using that by fastforce
qed

lemma sample_refused:
  obtains s' where "add_block raw_env (sample_block 5 3 7) (sample_node [sample_first, sample_head]) = (Inr (-3), s')"
proof -
  let ?s = "sample_node [sample_first, sample_head]" and ?blk = "sample_block 5 3 7" and ?hs = "[5, 77] :: sha1 list"
  let ?s1 = "(ticked ?s)\<lparr>n_chain := [sample_first, ?blk]\<rparr>"
  obtain d1 where d1: "move_loop raw_env head_trx pending_trx ?hs sample_trx_db = (Inr (), d1)"
    "trx_holds raw_env (\<lambda>es. es) d1 (move_map head_trx pending_trx ?hs sample_trx_map)"
    using move_loop_map [OF raw_trx_laws sample_trx_db_holds] by blast
  obtain d2 where d2: "move_loop raw_env pending_trx head_trx ?hs d1 = (Inr (), d2)"
    using move_loop_map [OF raw_trx_laws d1(2)] by blast
  have loop: "transactions_loop raw_env d1 pending_trx ?hs [] = Inr []"
    using transactions_loop_map [OF raw_trx_laws d1(2), of pending_trx ?hs "[]"] by (simp add: find_move_map find_sample_trx)
  have bs: "find_block_state raw_env 3 ?s = (Inr (Some state_three), ?s)"
    using find_sample_state(3) find_block_state_run(1) by (metis prod.collapse)
  then have bs1: "find_block_state raw_env 3 ?s1 = (Inr (Some state_three), ?s1)"
    by (simp add: find_block_state_def on_block_state_db_def)
  have heads: "get_head_transactions raw_env ?s1 = (Inr ?hs, ?s1)"
    using bs1 by (simp add: get_head_transactions_def bindP_def chain_back_def prog_simps)
  have "replace_block raw_env ?blk state_three (ticked ?s) = (Inr (-3), ?s1\<lparr>n_chain := [sample_first, sample_head], n_trx_db := Some d2\<rparr>)"
    using sample_chain_valid [of 7 3] heads d1(1) d2 loop
    by (simp add: replace_block_def bindP_Inr [OF chain_back_run] bindP_Inr move_transactions_def get_transactions_def on_trx_db_def ret_run)
  moreover have "add_block raw_env ?blk ?s = replace_block raw_env ?blk state_three (ticked ?s)"
    using bs by (simp add: add_block_def bindP_def chain_back_def utc_clock_def Let_def prog_simps)
  ultimately show ?thesis using that by simp
qed

section \<open>The properties on it\<close>

lemma generating_sample:
  "fst (find_block_state raw_env 1 ((sample_node c)\<lparr>n_gen_enabled := True\<rparr>)) = Inr (Some state_one)"
  "fst (find_block_state raw_env 2 ((sample_node c)\<lparr>n_gen_enabled := True\<rparr>)) = Inr (Some state_two)"
  "node_ready raw_env ((sample_node c)\<lparr>n_gen_enabled := True\<rparr>)"
  "node_shows raw_env (\<lambda>es. es) empty_market ((sample_node c)\<lparr>n_gen_enabled := True\<rparr>)"
  "head_of ((sample_node c)\<lparr>n_gen_enabled := True\<rparr>) = head_of (sample_node c)"
  using find_sample_state(1,2) [of c] sample_node_ready [of c] sample_node_shows [of c]
  by (simp_all add: find_block_state_def on_block_state_db_def node_ready_def node_shows_def head_of_def)

theorem add_block_appends_witness:
  "(\<exists>s' d' M'. add_block raw_env sample_appends (sample_node [sample_first]) = (Inr 1, s') \<and> n_chain s' = [sample_first, sample_appends]
     \<and> n_trx_db s' = Some d' \<and> trx_holds raw_env (\<lambda>es. es) d' M' \<and> groups_after [5] sample_trx_map M')
   \<and> n_chain (snd (add_block raw_env sample_appends ((sample_node [sample_first])\<lparr>n_gen_enabled := True\<rparr>))) = [sample_first, sample_appends]"
proof
  note good = add_block_appends [where E = raw_env and ents = "\<lambda>es. es" and m = empty_market and d = sample_trx_db
      and M = sample_trx_map and blk = sample_appends and bs = state_one and strxs = "[sample_trx]", OF raw_env_laws raw_trx_laws]
  show "\<exists>s' d' M'. add_block raw_env sample_appends (sample_node [sample_first]) = (Inr 1, s') \<and> n_chain s' = [sample_first, sample_appends]
     \<and> n_trx_db s' = Some d' \<and> trx_holds raw_env (\<lambda>es. es) d' M' \<and> groups_after [5] sample_trx_map M'"
    using good [where s = "sample_node [sample_first]"]
    by (simp add: sample_node_ready sample_node_shows sample_trx_db_holds find_sample_state sample_valid
        sample_trx_known sample_trxs_small sample_appended_block) blast
  show "n_chain (snd (add_block raw_env sample_appends ((sample_node [sample_first])\<lparr>n_gen_enabled := True\<rparr>))) = [sample_first, sample_appends]"
    using good [where s = "(sample_node [sample_first])\<lparr>n_gen_enabled := True\<rparr>"]
    by (simp add: generating_sample sample_trx_db_holds sample_valid sample_trx_known sample_trxs_small sample_appended_block) auto
qed

theorem add_block_replaces_witness:
  "(\<exists>s' d' M'. add_block raw_env sample_replaces (sample_node [sample_first, sample_head]) = (Inr 1, s')
     \<and> n_chain s' = [sample_first, sample_replaces]
     \<and> n_trx_db s' = Some d' \<and> trx_holds raw_env (\<lambda>es. es) d' M' \<and> groups_replaced [5] sample_trx_map M')
   \<and> n_chain (snd (add_block raw_env sample_replaces ((sample_node [sample_first, sample_head])\<lparr>n_gen_enabled := True\<rparr>))) = [sample_first, sample_replaces]"
proof
  note good = add_block_replaces [where E = raw_env and ents = "\<lambda>es. es" and d = sample_trx_db and M = sample_trx_map
      and blk = sample_replaces and bs = state_two and db = sample_disk and strxs = "[sample_trx]", OF raw_trx_laws]
  show "\<exists>s' d' M'. add_block raw_env sample_replaces (sample_node [sample_first, sample_head]) = (Inr 1, s')
     \<and> n_chain s' = [sample_first, sample_replaces]
     \<and> n_trx_db s' = Some d' \<and> trx_holds raw_env (\<lambda>es. es) d' M' \<and> groups_replaced [5] sample_trx_map M'"
    using good [where s = "sample_node [sample_first, sample_head]"]
    by (simp add: sample_trx_db_holds find_sample_state sample_valid sample_trx_known sample_replaced_block) blast
  show "n_chain (snd (add_block raw_env sample_replaces ((sample_node [sample_first, sample_head])\<lparr>n_gen_enabled := True\<rparr>))) = [sample_first, sample_replaces]"
    using good [where s = "(sample_node [sample_first, sample_head])\<lparr>n_gen_enabled := True\<rparr>"]
    by (simp add: generating_sample sample_trx_db_holds sample_valid sample_trx_known sample_replaced_block) auto
qed

theorem add_block_outcome_witness:
  "\<exists>s' fbs. add_block raw_env sample_appends (sample_node [sample_first]) = (Inr 1, s') \<and> n_events s' = [New_Block fbs]"
proof -
  obtain s' where run: "add_block raw_env sample_appends (sample_node [sample_first]) = (Inr 1, s')" by (rule sample_appended)
  have "n_events (sample_node [sample_first]) = []" by (simp add: sample_node_def node_new_def)
  then show ?thesis using add_block_outcome [OF run] run by auto
qed

theorem append_block_refines_witness:
  "\<exists>s'. add_block raw_env sample_appends (sample_node [sample_first]) = (Inr 1, s') \<and> disk_shows raw_env (\<lambda>es. es) empty_market s'
     \<and> node_shows raw_env (\<lambda>es. es) (snd (m_trxs raw_env [] [sample_trx] empty_market)) s' \<and> node_ready raw_env s'"
proof -
  obtain s' where run: "add_block raw_env sample_appends (sample_node [sample_first]) = (Inr 1, s')" "n_chain s' = [sample_first, sample_appends]"
    by (rule sample_appended)
  have "fst (m_trxs raw_env (bs_generator_name state_one) [sample_trx] empty_market) = Inr True
    \<and> node_shows raw_env (\<lambda>es. es) (snd (m_trxs raw_env (bs_generator_name state_one) [sample_trx] empty_market)) s'
    \<and> disk_shows raw_env (\<lambda>es. es) empty_market s' \<and> node_ready raw_env s'"
    by (rule append_block_refines [OF raw_env_laws sample_node_ready sample_node_shows run(1), of state_one])
      (simp_all add: run(2) find_sample_state sample_pending sample_trxs_small sample_appended_block)
  then show ?thesis using run(1) by simp
qed

theorem replace_block_refines_witness:
  "\<exists>s'. add_block raw_env sample_replaces (sample_node [sample_first, sample_head]) = (Inr 1, s')
     \<and> node_shows raw_env (\<lambda>es. es) (snd (m_trxs raw_env [] [sample_trx] empty_market)) s'"
proof -
  let ?s = "sample_node [sample_first, sample_head]"
  obtain s' where run: "add_block raw_env sample_replaces ?s = (Inr 1, s')" "n_chain s' = [sample_first, sample_replaces]"
    by (rule sample_replaced)
  obtain d1 where d1: "move_loop raw_env head_trx pending_trx [5] sample_trx_db = (Inr (), d1)"
    "trx_holds raw_env (\<lambda>es. es) d1 (move_map head_trx pending_trx [5] sample_trx_map)"
    using move_loop_map [OF raw_trx_laws sample_trx_db_holds] by blast
  have "fst (bindP (move_transactions raw_env [5] head_trx pending_trx) (\<lambda>_. get_transactions raw_env [5] pending_trx) ?s) = Inr [sample_trx]"
    using d1(1) transactions_loop_map [OF raw_trx_laws d1(2), of pending_trx "[5]" "[]"]
    by (simp add: move_transactions_def get_transactions_def on_trx_db_def bindP_def find_sample_trx del: transactions_loop.simps move_loop.simps)
  then have "fst (m_trxs raw_env (bs_generator_name state_two) [sample_trx] empty_market) = Inr True
    \<and> node_shows raw_env (\<lambda>es. es) (snd (m_trxs raw_env (bs_generator_name state_two) [sample_trx] empty_market)) s'"
    by (intro replace_block_refines [OF raw_env_laws sample_node_sel(2) sample_disk_shows run(1)])
      (simp_all add: run(2) find_sample_state sample_trxs_small sample_replaced_block)
  then show ?thesis using run(1) by simp
qed

theorem replaced_head_loses_transactions_witness:
  "\<exists>s' d' M'. add_block raw_env sample_replaces (sample_node [sample_first, sample_head]) = (Inr 1, s') \<and> n_trx_db s' = Some d'
     \<and> trx_holds raw_env (\<lambda>es. es) d' M' \<and> om_find (head_trx, 6) M' = Some old_trx \<and> om_find (pending_trx, 6) M' = None"
proof -
  obtain s' where run: "add_block raw_env sample_replaces (sample_node [sample_first, sample_head]) = (Inr 1, s')"
    by (rule sample_replaced)
  have "\<exists>d' M'. n_trx_db s' = Some d' \<and> trx_holds raw_env (\<lambda>es. es) d' M' \<and> (\<forall>g. om_find (g, 6) M' = om_find (g, 6) sample_trx_map)
    \<and> (\<forall>k \<in> set (bs_signed_transactions state_two). om_find (head_trx, k) M' \<noteq> None \<and> om_find (pending_trx, k) M' = None)"
    by (rule replaced_head_loses_transactions [OF raw_trx_laws sample_node_sel(3) sample_trx_db_holds _ _ _ run])
      (simp_all add: find_sample_state)
  then obtain d' M' where d': "n_trx_db s' = Some d'" "trx_holds raw_env (\<lambda>es. es) d' M'"
    and six: "om_find (g, 6) M' = om_find (g, 6) sample_trx_map" for g by blast
  show ?thesis
    using run d' six [of head_trx] six [of pending_trx] by (intro exI [of _ s'] exI [of _ d'] exI [of _ M']) (simp add: find_sample_trx)
qed

theorem refused_competitor_takes_pending_witness:
  "\<exists>s' d' M'. add_block raw_env (sample_block 5 3 7) (sample_node [sample_first, sample_head]) = (Inr (-3), s') \<and> n_trx_db s' = Some d'
     \<and> trx_holds raw_env (\<lambda>es. es) d' M' \<and> om_find (pending_trx, 5) M' = None \<and> om_find (head_trx, 5) M' \<noteq> None"
proof -
  obtain s' where run: "add_block raw_env (sample_block 5 3 7) (sample_node [sample_first, sample_head]) = (Inr (-3), s')"
    by (rule sample_refused)
  have "\<exists>d' M'. n_trx_db s' = Some d' \<and> trx_holds raw_env (\<lambda>es. es) d' M' \<and> (\<forall>h \<in> set (bs_signed_transactions state_three).
    om_find (pending_trx, h) M' = None \<and> (om_find (pending_trx, h) sample_trx_map \<noteq> None \<longrightarrow> om_find (head_trx, h) M' \<noteq> None))"
    by (rule refused_competitor_takes_pending [OF raw_trx_laws sample_node_sel(3) sample_trx_db_holds _ _ _ _ _ run])
      (simp_all add: find_sample_state sample_chain_valid)
  then show ?thesis using run by (auto simp: find_sample_trx)
qed

text \<open>A block with the transaction that cannot be read.\<close>

lemma bad_applies: "fst (apply_block raw_env b [] [bad_trx 8] 0 (trx_new (Some (head_of (sample_node c))))) = Inl Unpack_Error"
proof -
  let ?s = "trx_new (Some (head_of (sample_node c)))"
  have m: "shows_market raw_env (\<lambda>es. es) empty_market ?s"
    using shows_fresh [OF sample_over_disk(1)] by (simp add: trx_new_def sample_over_disk(4))
  have names: "names_of raw_env \<lparr>c_id = issue_id, c_data = []\<rparr> = []"
    by (simp add: names_of_def cast_command_def lay_issue_def lay_iso_def lay_string_def lay_bytes_def issue_id_def register_name_id_def transfer_id_def)
  have "adds (304 + 2 * 304 * length (trx_commands (strx_trx (bad_trx 8)))) (apply_trx raw_env (bad_trx 8) [])"
    by (rule adds_trx [OF raw_record_bound]) (use names in \<open>simp_all add: bad_trx_def\<close>)
  then have "log_size (snd (apply_trx raw_env (bad_trx 8) [] ?s)) \<le> log_size ?s + (304 + 2 * 304)"
    by (rule addsD [THEN order_trans]) (simp add: bad_trx_def)
  then have size: "log_size (snd (apply_trx raw_env (bad_trx 8) [] ?s)) < log_limit"
    using sample_over_disk by (simp add: trx_new_def log_size_def log_limit_def empty_layer_def)
  have small: "small_trx raw_env [] (trx_commands (strx_trx (bad_trx 8)))"
    using names raw_small_names [of "[]"] by (simp add: small_trx_def bad_trx_def)
  have "fst (m_commands raw_env (bad_trx 8) [] (trx_commands (strx_trx (bad_trx 8))) empty_market) = Inl Unpack_Error"
    by (simp add: bad_trx_def m_command_def cast_command_def lay_issue_def lay_iso_def lay_string_def lay_bytes_def
        issue_id_def register_name_id_def transfer_id_def)
  then have "fst (apply_trx raw_env (bad_trx 8) [] ?s) = Inl Unpack_Error"
    using apply_trx_run(1) [OF raw_env_laws m small size] by simp
  then show ?thesis by (cases "apply_trx raw_env (bad_trx 8) [] ?s") (simp add: apply_block_def bindP_def)
qed

theorem throwing_block_stays_witness:
  "n_chain (snd (generated_block raw_env (sample_block 5 4 7) (sample_node [sample_first]))) = [sample_first, sample_block 5 4 7]"
proof -
  have pend: "fst (get_transactions raw_env [8] pending_trx (sample_node c)) = Inr [bad_trx 8]" for c
    using transactions_loop_map [OF raw_trx_laws sample_trx_db_holds, of pending_trx "[8]" "[]"]
    by (simp add: get_transactions_def on_trx_db_def find_sample_trx del: transactions_loop.simps)
  have "fst (generated_block raw_env (sample_block 5 4 7) (sample_node [sample_first])) = Inr ()
      \<and> n_chain (snd (generated_block raw_env (sample_block 5 4 7) (sample_node [sample_first]))) = n_chain (sample_node [sample_first]) @ [sample_block 5 4 7]"
    using throwing_block_stays [of "sample_node [sample_first]" raw_env "sample_block 5 4 7" state_four "[bad_trx 8]" sample_disk empty_layer empty_layer Unpack_Error]
      bad_applies
    by (simp add: find_sample_state sample_chain_valid pend state_four_def)
  then show ?thesis by simp
qed


end
