(* ===== verification/Protocol.thy ===== *)
theory Protocol
  imports Types
begin

text \<open>
  libs/gpm/node/protocol.hpp: the messages nodes send each other. A message is an id and the
  packed struct. The packing of the structs and of the message itself is the third-party
  \<open>boost::rpc::raw\<close>, given by a record of functions; \<open>wire_laws\<close> states what the reader of
  messages relies on: a message is packed as its id, the size of its data and the data, the
  integers in the byte order of the machine.
\<close>

record message =
  m_id :: u16
  m_data :: bytes

record report_transaction =
  rt_trx :: signed_transaction

record request_full_block = \<comment> \<open>\<open>proto::get_full_block\<close>\<close>
  gfb_index :: u32

record report_full_block =
  rfb_state :: full_block_state

record report_head_block_index =
  rhi_index :: "32 word"

record report_block_chain =
  rbc_chain :: block_chain

record request_block_chain =
  req_start :: u32
  req_end :: u32

definition report_transaction_id :: u16 where "report_transaction_id = 1"
definition get_full_block_id :: u16 where "get_full_block_id = 2"
definition report_full_block_id :: u16 where "report_full_block_id = 3"
definition get_head_block_index_id :: u16 where "get_head_block_index_id = 4"
definition report_head_block_index_id :: u16 where "report_head_block_index_id = 5"
definition report_block_chain_id :: u16 where "report_block_chain_id = 6"
definition request_block_chain_id :: u16 where "request_block_chain_id = 7"

lemmas message_ids = report_transaction_id_def get_full_block_id_def report_full_block_id_def
  get_head_block_index_id_def report_head_block_index_id_def report_block_chain_id_def request_block_chain_id_def

record wire =
  w_message :: "message \<Rightarrow> bytes"
  w_report_transaction :: "report_transaction codec"
  w_get_full_block :: "request_full_block codec"
  w_report_full_block :: "report_full_block codec"
  w_report_head_block_index :: "report_head_block_index codec"

definition wire_laws :: "wire \<Rightarrow> bool" where
  "wire_laws W \<longleftrightarrow> (\<forall>m. length (m_data m) < 2 ^ 32 \<longrightarrow>
     w_message W m = le_bytes 2 (unat (m_id m)) @ le_bytes 4 (length (m_data m)) @ m_data m)"

definition message_new :: message where
  "message_new = \<lparr>m_id = 0, m_data = []\<rparr>"

definition message_of :: "'m codec \<Rightarrow> u16 \<Rightarrow> 'm \<Rightarrow> message" where
  \<comment> \<open>the constructor from a struct\<close>
  "message_of c i m = \<lparr>m_id = i, m_data = pack c m\<rparr>"

definition cast_message :: "'m codec \<Rightarrow> u16 \<Rightarrow> message \<Rightarrow> exn + 'm" where
  \<comment> \<open>the conversion to a struct\<close>
  "cast_message c i m =
     (if m_id m \<noteq> i then Inl (Gpm_Exception ''Invalid attempt to cast command'') else unpack c (m_data m))"

end
