(* ===== verification/Server.thy ===== *)
theory Server
  imports NodeBlocks Protocol
begin

text \<open>
  libs/gpm/node/server.hpp and server.cpp: the connections of a node to other nodes. The network
  thread reads and writes the sockets (\<open>boost::asio\<close>); what concerns the node it posts to the
  main thread, whose queue is \<open>w_tasks\<close>. A socket is the bytes that have arrived and are not yet
  read, the read that waits for a number of them, and the buffers whose writes were started and
  have not completed. A signal of the node calls the connections that are connected to it and
  not blocked, in order.

  A connection is never destroyed: the slot of its own signal \<open>closed\<close> holds a shared pointer to
  it. So \<open>w_conns\<close> keeps every connection there was, and \<open>w_open\<close> is the list \<open>m_connections\<close>.
\<close>

section \<open>A connection\<close>

record connection =
  cn_msg :: message
  cn_msg_size :: u32
  cn_step :: nat \<comment> \<open>the state the outstanding read completes with; 0 if there is none\<close>
  cn_wanted :: nat \<comment> \<open>how many bytes it waits for\<close>
  cn_input :: bytes
  cn_writes :: "bytes list"
  cn_signals :: bool \<comment> \<open>connected to the signals of the node\<close>
  cn_block_blocked :: bool \<comment> \<open>\<open>new_block_con\<close> is blocked\<close>
  cn_trx_blocked :: bool

datatype task = \<comment> \<open>what \<open>handle_message\<close> posts to the main thread\<close>
    Add_Transaction message
  | Get_Full_Block u32
  | Get_Head_Block_Index
  | Add_Full_Block message

definition connection_new :: connection where
  "connection_new = \<lparr>cn_msg = message_new, cn_msg_size = 0, cn_step = 0, cn_wanted = 0, cn_input = [], cn_writes = [],
     cn_signals = False, cn_block_blocked = False, cn_trx_blocked = False\<rparr>"

section \<open>Reading\<close>

definition handle_message :: "wire \<Rightarrow> message \<Rightarrow> exn + task list" where
  \<comment> \<open>only the request for a block is unpacked before it is posted\<close>
  "handle_message W msg =
     (if m_id msg = report_transaction_id then Inr [Add_Transaction msg]
      else if m_id msg = get_full_block_id then
        map_sum id (\<lambda>gfb. [Get_Full_Block (gfb_index gfb)]) (cast_message (w_get_full_block W) get_full_block_id msg)
      else if m_id msg = get_head_block_index_id then Inr [Get_Head_Block_Index]
      else if m_id msg = report_full_block_id then Inr [Add_Full_Block msg]
      else Inr [])"

definition async_read :: "nat \<Rightarrow> nat \<Rightarrow> connection \<Rightarrow> connection" where
  \<comment> \<open>a read of \<open>n\<close> bytes that completes with the state \<open>st\<close>\<close>
  "async_read st n c = c\<lparr>cn_step := st, cn_wanted := n\<rparr>"

definition read_message :: "wire \<Rightarrow> nat \<Rightarrow> (connection \<times> task list, unit) prog" where
  \<comment> \<open>without an error; the tasks are those posted so far\<close>
  "read_message W st s =
     (case s of (c, posted) \<Rightarrow>
      if st = 0 then (Inr (), async_read 1 2 c, posted)
      else if st = 1 then (Inr (), async_read 2 4 c, posted)
      else if st = 2 then (Inr (), async_read 3 (unat (cn_msg_size c)) c, posted)
      else if st = 3 then
        (case handle_message W (cn_msg c) of
           Inl e \<Rightarrow> (Inl e, async_read 0 0 c, posted)
         | Inr ts \<Rightarrow> (Inr (), async_read 1 2 c, posted @ ts))
      else (Inr (), c, posted))"

definition store_read :: "connection \<Rightarrow> connection" where
  \<comment> \<open>the outstanding read completes: the bytes go where the read was told to put them\<close>
  "store_read c =
     (let bs = take (cn_wanted c) (cn_input c); c' = c\<lparr>cn_input := drop (cn_wanted c) (cn_input c)\<rparr> in
      if cn_step c = 1 then c'\<lparr>cn_msg := (cn_msg c)\<lparr>m_id := of_nat (le_val bs)\<rparr>\<rparr>
      else if cn_step c = 2 then c'\<lparr>cn_msg_size := of_nat (le_val bs)\<rparr>
      else c'\<lparr>cn_msg := (cn_msg c)\<lparr>m_data := bs\<rparr>\<rparr>)"

function pump :: "wire \<Rightarrow> connection \<Rightarrow> task list \<Rightarrow> (exn + unit) \<times> connection \<times> task list" where
  \<comment> \<open>\<open>io_service::run\<close> on the reads of one socket: as long as the read that waits can complete, it does\<close>
  "pump W c posted =
     (if cn_step c \<in> {1, 2, 3} \<and> cn_wanted c \<le> length (cn_input c) then
        (case read_message W (cn_step c) (store_read c, posted) of
           (Inl e, s) \<Rightarrow> (Inl e, s)
         | (Inr _, s) \<Rightarrow> pump W (fst s) (snd s))
      else (Inr (), c, posted))"
  by pat_completeness auto

termination
  by (relation "measures [\<lambda>(W, c, p). length (cn_input c),
      \<lambda>(W, c, p). if cn_step c = 1 then (if cn_wanted c = 0 then 1 else 0)
        else if cn_step c = 2 then (if cn_wanted c = 0 then 2 else 0) else 1]")
    (auto simp: read_message_def store_read_def async_read_def Let_def split: if_splits sum.splits)

declare pump.simps [simp del]

section \<open>The node and its connections\<close>

record 'd world =
  w_node :: "'d node"
  w_conns :: "connection list"
  w_open :: "nat list"
  w_tasks :: "(nat \<times> task) list"
  w_accepting :: bool

definition change_conn :: "nat \<Rightarrow> (connection \<Rightarrow> connection) \<Rightarrow> ('d world, unit) prog" where
  "change_conn i f = modify (\<lambda>w. w\<lparr>w_conns := (w_conns w)[i := f (w_conns w ! i)]\<rparr>)"

definition send_message :: "wire \<Rightarrow> nat \<Rightarrow> message \<Rightarrow> ('d world, unit) prog" where
  "send_message W i msg = change_conn i (\<lambda>c. c\<lparr>cn_writes := cn_writes c @ [w_message W msg]\<rparr>)"

definition report_transaction_msg :: "wire \<Rightarrow> signed_transaction \<Rightarrow> message" where
  "report_transaction_msg W t = message_of (w_report_transaction W) report_transaction_id \<lparr>rt_trx = t\<rparr>"

definition report_full_block_msg :: "wire \<Rightarrow> full_block_state \<Rightarrow> message" where
  "report_full_block_msg W b = message_of (w_report_full_block W) report_full_block_id \<lparr>rfb_state = b\<rparr>"

definition get_full_block_msg :: "wire \<Rightarrow> u32 \<Rightarrow> message" where
  "get_full_block_msg W i = message_of (w_get_full_block W) get_full_block_id \<lparr>gfb_index = i\<rparr>"

fun called :: "wire \<Rightarrow> event \<Rightarrow> connection \<Rightarrow> connection" where
  \<comment> \<open>the slots \<open>send_transaction\<close> and \<open>send_full_block\<close> of a connection\<close>
  "called W (New_Transaction t) c =
     (if cn_signals c \<and> \<not> cn_trx_blocked c
      then c\<lparr>cn_writes := cn_writes c @ [w_message W (report_transaction_msg W t)]\<rparr> else c)"
| "called W (New_Block b) c =
     (if cn_signals c \<and> \<not> cn_block_blocked c
      then c\<lparr>cn_writes := cn_writes c @ [w_message W (report_full_block_msg W b)]\<rparr> else c)"
| "called W (Generation_State_Changed n on) c = c"

definition on_node :: "wire \<Rightarrow> ('d node, 'a) prog \<Rightarrow> ('d world, 'a) prog" where
  \<comment> \<open>a call on \<open>m_node\<close>, and the slots its signals call\<close>
  "on_node W f w =
     (case f (w_node w) of (r, n) \<Rightarrow>
        let new = drop (length (n_events (w_node w))) (n_events n) in
        (r, w\<lparr>w_node := n, w_conns := map (fold (called W) new) (w_conns w)\<rparr>))"

definition start_connection :: "wire \<Rightarrow> nat \<Rightarrow> ('d world, unit) prog" where
  "start_connection W i =
     bindP (change_conn i (async_read 1 2)) (\<lambda>_.
     bindP (on_node W get_head_block_index) (\<lambda>hi.
     bindP (send_message W i (get_full_block_msg W (hi + 1))) (\<lambda>_.
     change_conn i (\<lambda>c. c\<lparr>cn_signals := True\<rparr>))))"

section \<open>The tasks of the main thread\<close>

definition perform_add_full_block :: "'d env \<Rightarrow> wire \<Rightarrow> nat \<Rightarrow> report_full_block \<Rightarrow> ('d world, unit) prog" where
  "perform_add_full_block E W i rfb =
     bindP (change_conn i (\<lambda>c. c\<lparr>cn_block_blocked := True\<rparr>)) (\<lambda>_.
     bindP (on_node W (add_full_block E (rfb_state rfb))) (\<lambda>rtn.
     bindP (if rtn > 0 \<and> sint (fbs_index (rfb_state rfb)) < sint (fbs_head_index (rfb_state rfb)) then
              bindP (on_node W get_head_block_index) (\<lambda>hi. send_message W i (get_full_block_msg W (hi + 1)))
            else ret ()) (\<lambda>_.
     change_conn i (\<lambda>c. c\<lparr>cn_block_blocked := False\<rparr>))))"

definition perform_add_transaction :: "'d env \<Rightarrow> wire \<Rightarrow> nat \<Rightarrow> report_transaction \<Rightarrow> ('d world, unit) prog" where
  "perform_add_transaction E W i at =
     bindP (change_conn i (\<lambda>c. c\<lparr>cn_trx_blocked := True\<rparr>)) (\<lambda>_.
     bindP (on_node W (add_transaction E (rt_trx at))) (\<lambda>_.
     change_conn i (\<lambda>c. c\<lparr>cn_trx_blocked := False\<rparr>)))"

definition perform_get_full_block :: "'d env \<Rightarrow> wire \<Rightarrow> nat \<Rightarrow> u32 \<Rightarrow> ('d world, unit) prog" where
  "perform_get_full_block E W i index =
     tryP (bindP (on_node W (get_full_block E index)) (\<lambda>b. send_message W i (report_full_block_msg W b)))"

definition perform_get_head_block_index :: "wire \<Rightarrow> nat \<Rightarrow> ('d world, unit) prog" where
  "perform_get_head_block_index W i =
     bindP (on_node W get_head_block_index) (\<lambda>hi.
     send_message W i (message_of (w_report_head_block_index W) report_head_block_index_id \<lparr>rhi_index = hi\<rparr>))"

fun perform :: "'d env \<Rightarrow> wire \<Rightarrow> nat \<Rightarrow> task \<Rightarrow> ('d world, unit) prog" where
  \<comment> \<open>the functors of \<open>handle_message\<close>; the message is converted when the functor is called\<close>
  "perform E W i (Add_Transaction msg) =
     bindP (liftE (cast_message (w_report_transaction W) report_transaction_id msg)) (perform_add_transaction E W i)"
| "perform E W i (Get_Full_Block index) = perform_get_full_block E W i index"
| "perform E W i Get_Head_Block_Index = perform_get_head_block_index W i"
| "perform E W i (Add_Full_Block msg) =
     bindP (liftE (cast_message (w_report_full_block W) report_full_block_id msg)) (perform_add_full_block E W i)"

definition run_task :: "'d env \<Rightarrow> wire \<Rightarrow> ('d world, unit) prog" where
  \<comment> \<open>\<open>QFunctorHandler::event\<close> for the first event of the queue\<close>
  "run_task E W w =
     (case w_tasks w of
        [] \<Rightarrow> (Inr (), w)
      | (i, t) # ts \<Rightarrow> perform E W i t (w\<lparr>w_tasks := ts\<rparr>))"

section \<open>The server\<close>

definition connection_closed :: "nat \<Rightarrow> ('d world, unit) prog" where
  \<comment> \<open>\<open>m_connections.erase( find(...) )\<close>\<close>
  "connection_closed i =
     bindP (asks w_open) (\<lambda>open_list.
     if i \<in> set open_list then modify (\<lambda>w. w\<lparr>w_open := remove1 i (w_open w)\<rparr>)
     else throw (Undefined_Behaviour ''erase( end() )''))"

definition add_connection :: "wire \<Rightarrow> ('d world, unit) prog" where
  \<comment> \<open>a connected socket: it joins the list and starts\<close>
  "add_connection W =
     bindP (asks (\<lambda>w. length (w_conns w))) (\<lambda>i.
     bindP (modify (\<lambda>w. w\<lparr>w_conns := w_conns w @ [connection_new], w_open := w_open w @ [i]\<rparr>)) (\<lambda>_.
     start_connection W i))"

definition handle_accept :: "wire \<Rightarrow> bool \<Rightarrow> ('d world, unit) prog" where
  \<comment> \<open>after an error no other accept is started\<close>
  "handle_accept W err =
     (if \<not> err then bindP (add_connection W) (\<lambda>_. modify (\<lambda>w. w\<lparr>w_accepting := True\<rparr>))
      else modify (\<lambda>w. w\<lparr>w_accepting := False\<rparr>))"

definition connect_to :: "wire \<Rightarrow> bool list \<Rightarrow> ('d world, unit) prog" where
  \<comment> \<open>for the endpoints the name resolves to: does the attempt fail? It ends at the first that does not\<close>
  "connect_to W errs = (if list_all id errs then throw (Gpm_Exception ''system_error'') else add_connection W)"

definition receive :: "wire \<Rightarrow> nat \<Rightarrow> bytes \<Rightarrow> ('d world, unit) prog" where
  \<comment> \<open>bytes arrive at a socket\<close>
  "receive W i bs w =
     (case pump W ((w_conns w ! i)\<lparr>cn_input := cn_input (w_conns w ! i) @ bs\<rparr>) [] of
        (r, c, posted) \<Rightarrow> (r, w\<lparr>w_conns := (w_conns w)[i := c], w_tasks := w_tasks w @ map (Pair i) posted\<rparr>))"

definition read_failed :: "nat \<Rightarrow> ('d world, unit) prog" where
  \<comment> \<open>\<open>read_message\<close> with an error\<close>
  "read_failed i = bindP (change_conn i (async_read 0 0)) (\<lambda>_. connection_closed i)"

definition handle_write :: "nat \<Rightarrow> bool \<Rightarrow> ('d world, unit) prog" where
  \<comment> \<open>a write completes\<close>
  "handle_write i err =
     bindP (change_conn i (\<lambda>c. c\<lparr>cn_writes := tl (cn_writes c)\<rparr>)) (\<lambda>_. if err then connection_closed i else ret ())"

end
