(* ===== verification/ServerReads.thy ===== *)
theory ServerReads
  imports Server StateFrames
begin

text \<open>
  The reads of a connection: however the bytes of a stream of messages are cut into arrivals,
  the messages come out whole and in order.
\<close>

section \<open>Reads of one socket\<close>

definition ready_to_read :: "connection \<Rightarrow> bool" where
  \<comment> \<open>it waits for the id of the next message\<close>
  "ready_to_read c \<longleftrightarrow> cn_step c = 1 \<and> cn_wanted c = 2"

definition socket_kept :: "connection \<Rightarrow> connection \<Rightarrow> bool" where
  \<comment> \<open>all but what is being read\<close>
  "socket_kept c c' \<longleftrightarrow> cn_writes c' = cn_writes c \<and> cn_signals c' = cn_signals c
     \<and> cn_block_blocked c' = cn_block_blocked c \<and> cn_trx_blocked c' = cn_trx_blocked c"

lemma socket_kept_refl [simp]: "socket_kept c c"
  by (simp add: socket_kept_def)

lemma socket_kept_trans: "socket_kept c d \<Longrightarrow> socket_kept d e \<Longrightarrow> socket_kept c e"
  by (simp add: socket_kept_def)

lemma read_message_kept:
  "socket_kept c (fst (snd (read_message W st (store_read c, posted))))"
  by (auto simp: read_message_def store_read_def async_read_def Let_def socket_kept_def split: sum.split)

lemma pump_stop: "\<not> (cn_step c \<in> {1, 2, 3} \<and> cn_wanted c \<le> length (cn_input c)) \<Longrightarrow> pump W c posted = (Inr (), c, posted)"
  by (subst pump.simps) (rule if_not_P)

lemma pump_kept: "pump W c posted = (r, c', posted') \<Longrightarrow> socket_kept c c' \<and> (\<exists>new. posted' = posted @ new)"
proof (induction W c posted rule: pump.induct)
  case (1 W c posted)
  show ?case
  proof (cases "cn_step c \<in> {1, 2, 3} \<and> cn_wanted c \<le> length (cn_input c)")
    case True
    obtain x d p where rm: "read_message W (cn_step c) (store_read c, posted) = (x, d, p)" by (metis prod_cases3)
    have k: "socket_kept c d" using read_message_kept [of c W "cn_step c" posted] rm by simp
    have p: "\<exists>new. p = posted @ new"
      using rm by (auto simp: read_message_def split: if_splits sum.splits)
    show ?thesis
    proof (cases x)
      case (Inl e)
      then show ?thesis using "1.prems" True rm k p by (subst (asm) pump.simps) simp
    next
      case (Inr u)
      then have "pump W d p = (r, c', posted')" using "1.prems" True rm by (subst (asm) pump.simps) simp
      then have "socket_kept d c' \<and> (\<exists>new. posted' = p @ new)" using "1.IH" [OF True rm [symmetric]] Inr by simp
      then show ?thesis using k p socket_kept_trans by (metis append_assoc)
    qed
  next
    case False
    then show ?thesis using "1.prems" pump_stop [OF False, of W posted] by simp
  qed
qed

text \<open>Bytes that arrive later do not disturb a read that can complete.\<close>

definition arrive :: "bytes \<Rightarrow> connection \<Rightarrow> connection" where
  "arrive bs c = c\<lparr>cn_input := cn_input c @ bs\<rparr>"

lemma arrive_sel [simp]:
  "cn_step (arrive bs c) = cn_step c" "cn_wanted (arrive bs c) = cn_wanted c" "cn_input (arrive bs c) = cn_input c @ bs"
  "arrive ys (arrive xs c) = arrive (xs @ ys) c" "arrive [] c = c"
  by (simp_all add: arrive_def)

lemma read_message_arrive:
  "cn_wanted c \<le> length (cn_input c) \<Longrightarrow> read_message W st (store_read (arrive bs c), posted) =
     (case read_message W st (store_read c, posted) of (r, d, p) \<Rightarrow> (r, arrive bs d, p))"
  by (auto simp: read_message_def store_read_def async_read_def arrive_def Let_def split: sum.split)

lemma pump_arrive:
  "pump W (arrive bs c) posted =
     (case pump W c posted of
        (Inl e, d, p) \<Rightarrow> (Inl e, arrive bs d, p)
      | (Inr _, d, p) \<Rightarrow> pump W (arrive bs d) p)"
proof (induction W c posted rule: pump.induct)
  case (1 W c posted)
  show ?case
  proof (cases "cn_step c \<in> {1, 2, 3} \<and> cn_wanted c \<le> length (cn_input c)")
    case True
    obtain x d p where rm: "read_message W (cn_step c) (store_read c, posted) = (x, d, p)" by (metis prod_cases3)
    have rm': "read_message W (cn_step c) (store_read (arrive bs c), posted) = (x, arrive bs d, p)"
      using read_message_arrive [of c W "cn_step c" bs posted] True rm by simp
    have a: "pump W (arrive bs c) posted = (case x of Inl e \<Rightarrow> (Inl e, arrive bs d, p) | Inr _ \<Rightarrow> pump W (arrive bs d) p)"
      using True rm' by (subst pump.simps) (simp split: sum.split)
    have b: "pump W c posted = (case x of Inl e \<Rightarrow> (Inl e, d, p) | Inr _ \<Rightarrow> pump W d p)"
      using True rm by (subst pump.simps) (simp split: sum.split)
    show ?thesis
    proof (cases x)
      case (Inr u)
      then show ?thesis using a b "1.IH" [OF True rm [symmetric]] by simp
    qed (simp add: a b)
  next
    case False
    then have "pump W c posted = (Inr (), c, posted)" by (rule pump_stop)
    then show ?thesis by simp
  qed
qed

section \<open>Messages\<close>

lemma message_eq: "m_id m = i \<Longrightarrow> m_data m = d \<Longrightarrow> m = \<lparr>m_id = i, m_data = d\<rparr>"
  by (cases m) simp

lemma pump_message:
  assumes W: "wire_laws W" and c: "ready_to_read c" "cn_input c = w_message W m @ rest" and len: "length (m_data m) < 2 ^ 32"
  obtains d where "socket_kept c d" "cn_input d = rest"
    "pump W c posted = (case handle_message W m of Inl e \<Rightarrow> (Inl e, d, posted) | Inr ts \<Rightarrow> pump W d (posted @ ts))"
    "case handle_message W m of Inl e \<Rightarrow> cn_step d = 0 | Inr ts \<Rightarrow> ready_to_read d"
proof -
  let ?i = "le_bytes 2 (unat (m_id m))" and ?n = "le_bytes 4 (length (m_data m))"
  have input: "cn_input c = ?i @ ?n @ m_data m @ rest" using W c(2) len by (simp add: wire_laws_def)
  have "unat (m_id m) < 256 ^ 2" using unsigned_less [where 'a = nat, of "m_id m"] by simp
  then have i: "of_nat (le_val ?i) = m_id m" by (simp add: le_val_le_bytes)
  have n: "of_nat (le_val ?n) = (of_nat (length (m_data m)) :: u32)" "unat (of_nat (length (m_data m)) :: u32) = length (m_data m)"
    using len by (simp_all add: le_val_le_bytes unat_of_nat_u32)
  define c1 where "c1 = c\<lparr>cn_input := ?n @ m_data m @ rest, cn_msg := (cn_msg c)\<lparr>m_id := m_id m\<rparr>, cn_step := 2, cn_wanted := 4\<rparr>"
  define c2 where "c2 = c1\<lparr>cn_input := m_data m @ rest, cn_msg_size := of_nat (length (m_data m)), cn_step := 3, cn_wanted := length (m_data m)\<rparr>"
  define c3 where "c3 = c2\<lparr>cn_input := rest, cn_msg := m\<rparr>"
  have step1: "pump W c posted = pump W c1 posted"
    using c(1) input i by (subst pump.simps) (simp add: ready_to_read_def read_message_def store_read_def async_read_def Let_def c1_def)
  have step2: "pump W c1 posted = pump W c2 posted"
    using n by (subst pump.simps) (simp add: read_message_def store_read_def async_read_def Let_def c1_def c2_def)
  have m: "(cn_msg c2)\<lparr>m_data := m_data m\<rparr> = m" by (cases m) (simp add: c1_def c2_def)
  have stored: "store_read c2 = c3"
    using m by (simp add: store_read_def Let_def c2_def c3_def)
  have step3: "pump W c2 posted = (case handle_message W m of Inl e \<Rightarrow> (Inl e, async_read 0 0 c3, posted)
      | Inr ts \<Rightarrow> pump W (async_read 1 2 c3) (posted @ ts))"
    by (subst pump.simps) (simp add: c2_def [THEN arg_cong [of _ _ cn_step]] c2_def [THEN arg_cong [of _ _ cn_wanted]]
        c2_def [THEN arg_cong [of _ _ cn_input]] stored read_message_def c3_def split: sum.split)
  have kept: "socket_kept c c3" by (simp add: socket_kept_def c1_def c2_def c3_def)
  show ?thesis
  proof (cases "handle_message W m")
    case (Inl e)
    show ?thesis
      by (rule that [of "async_read 0 0 c3"]) (use kept Inl step1 step2 step3 in \<open>simp_all add: socket_kept_def async_read_def c3_def\<close>)
  next
    case (Inr ts)
    show ?thesis
      by (rule that [of "async_read 1 2 c3"])
        (use kept Inr step1 step2 step3 in \<open>simp_all add: socket_kept_def async_read_def c3_def ready_to_read_def\<close>)
  qed
qed

definition tasks_of :: "wire \<Rightarrow> message \<Rightarrow> task list" where
  \<comment> \<open>what a message that can be read posts\<close>
  "tasks_of W m = (case handle_message W m of Inl e \<Rightarrow> [] | Inr ts \<Rightarrow> ts)"

lemma pump_idle: "ready_to_read c \<Longrightarrow> cn_input c = [] \<Longrightarrow> pump W c posted = (Inr (), c, posted)"
  by (rule pump_stop) (simp add: ready_to_read_def)

lemma pump_messages:
  assumes W: "wire_laws W" and "ready_to_read c" and "cn_input c = concat (map (w_message W) ms)"
    and "\<forall>m \<in> set ms. length (m_data m) < 2 ^ 32 \<and> (\<exists>ts. handle_message W m = Inr ts)"
  shows "\<exists>d. pump W c posted = (Inr (), d, posted @ concat (map (tasks_of W) ms)) \<and> ready_to_read d \<and> cn_input d = [] \<and> socket_kept c d"
  using assms(2-)
proof (induction ms arbitrary: c posted)
  case Nil
  then show ?case using pump_idle by force
next
  case (Cons m ms)
  have len: "length (m_data m) < 2 ^ 32" and input: "cn_input c = w_message W m @ concat (map (w_message W) ms)"
    using Cons.prems by simp_all
  obtain ts where ts: "handle_message W m = Inr ts" using Cons.prems(3) by auto
  obtain d where d: "socket_kept c d" "cn_input d = concat (map (w_message W) ms)" "pump W c posted = pump W d (posted @ ts)" "ready_to_read d"
    by (rule pump_message [OF W Cons.prems(1) input len, of posted]) (use ts in auto)
  obtain d' where d': "pump W d (posted @ ts) = (Inr (), d', (posted @ ts) @ concat (map (tasks_of W) ms))" "ready_to_read d'" "cn_input d' = []" "socket_kept d d'"
    using Cons.IH [OF d(4,2), of "posted @ ts"] Cons.prems(3) by auto
  have "tasks_of W m = ts" using ts by (simp add: tasks_of_def)
  then show ?case using d d' socket_kept_trans [OF d(1) d'(4)] by (intro exI [of _ d']) simp
qed

section \<open>A stream that arrives in pieces\<close>

lemma pump_posted: "pump W c posted = (case pump W c [] of (r, d, new) \<Rightarrow> (r, d, posted @ new))"
proof -
  have gen: "pump W c (old @ posted) = (case pump W c posted of (r, d, new) \<Rightarrow> (r, d, old @ new))" for W c old posted
  proof (induction W c posted arbitrary: old rule: pump.induct)
    case (1 W c posted)
    show ?case
    proof (cases "cn_step c \<in> {1, 2, 3} \<and> cn_wanted c \<le> length (cn_input c)")
      case True
      obtain x d p where rm: "read_message W (cn_step c) (store_read c, posted) = (x, d, p)" by (metis prod_cases3)
      have rm': "read_message W (cn_step c) (store_read c, old @ posted) = (x, d, old @ p)"
        using rm by (auto simp: read_message_def split: if_splits sum.splits)
      have both: "pump W c q = (case read_message W (cn_step c) (store_read c, q) of (Inl e, s) \<Rightarrow> (Inl e, s) | (Inr _, s) \<Rightarrow> pump W (fst s) (snd s))" for q
        using True by (subst pump.simps) (rule if_P)
      show ?thesis using "1.IH" [OF True rm [symmetric]] rm rm' by (simp add: both [of posted] both [of "old @ posted"] split: sum.split)
    next
      case False
      then show ?thesis using pump_stop [OF False] by simp
    qed
  qed
  show ?thesis using gen [of W c posted "[]"] by simp
qed

lemma pump_done: "pump W c posted = (Inr u, d, p) \<Longrightarrow> pump W d [] = (Inr (), d, [])"
proof (induction W c posted rule: pump.induct)
  case (1 W c posted)
  show ?case
  proof (cases "cn_step c \<in> {1, 2, 3} \<and> cn_wanted c \<le> length (cn_input c)")
    case True
    obtain x d' p' where rm: "read_message W (cn_step c) (store_read c, posted) = (x, d', p')" by (metis prod_cases3)
    have go: "pump W c posted = (case x of Inl e \<Rightarrow> (Inl e, d', p') | Inr _ \<Rightarrow> pump W d' p')"
      using True rm by (subst pump.simps) (simp split: sum.split)
    show ?thesis using "1.IH" [OF True rm [symmetric]] "1.prems" go by (cases x) simp_all
  next
    case False
    then show ?thesis using pump_stop [OF False] "1.prems" by simp
  qed
qed

primrec receive_all :: "wire \<Rightarrow> nat \<Rightarrow> bytes list \<Rightarrow> ('d world, unit) prog" where
  \<comment> \<open>the bytes of a socket arrive in pieces\<close>
  "receive_all W i [] = ret ()"
| "receive_all W i (b # bs) = bindP (receive W i b) (\<lambda>_. receive_all W i bs)"

lemma receive_run: "receive W i bs w =
   (case pump W (arrive bs (w_conns w ! i)) [] of
      (r, c, posted) \<Rightarrow> (r, w\<lparr>w_conns := (w_conns w)[i := c], w_tasks := w_tasks w @ map (Pair i) posted\<rparr>))"
  by (simp add: receive_def arrive_def)

lemma receive_all_pump:
  assumes "i < length (w_conns w)" and "pump W (w_conns w ! i) [] = (Inr (), w_conns w ! i, [])"
    and "pump W (arrive (concat chunks) (w_conns w ! i)) [] = (Inr (), d, new)"
  shows "receive_all W i chunks w = (Inr (), w\<lparr>w_conns := (w_conns w)[i := d], w_tasks := w_tasks w @ map (Pair i) new\<rparr>)"
  using assms
proof (induction chunks arbitrary: w new)
  case Nil
  then have "d = w_conns w ! i" "new = []" by simp_all
  then show ?case by (cases w) (simp add: ret_run)
next
  case (Cons b bs)
  let ?c = "w_conns w ! i"
  obtain r c1 p1 where p1: "pump W (arrive b ?c) [] = (r, c1, p1)" by (metis prod_cases3)
  have go: "(case r of Inl e \<Rightarrow> (Inl e, arrive (concat bs) c1, p1) | Inr _ \<Rightarrow> pump W (arrive (concat bs) c1) p1) = (Inr (), d, new)"
    using Cons.prems(3) pump_arrive [of W "concat bs" "arrive b ?c" "[]"] p1 by (simp split: sum.splits)
  then have r: "r = Inr ()" by (cases r) simp_all
  obtain q where q: "pump W (arrive (concat bs) c1) [] = (Inr (), d, q)" "new = p1 @ q"
    using go r pump_posted [of W "arrive (concat bs) c1" p1] by (auto split: prod.splits)
  let ?w = "w\<lparr>w_conns := (w_conns w)[i := c1], w_tasks := w_tasks w @ map (Pair i) p1\<rparr>"
  have "receive W i b w = (Inr (), ?w)" using p1 r by (simp add: receive_run)
  moreover have "receive_all W i bs ?w = (Inr (), ?w\<lparr>w_conns := (w_conns ?w)[i := d], w_tasks := w_tasks ?w @ map (Pair i) q\<rparr>)"
    by (rule Cons.IH) (use Cons.prems(1) pump_done [OF p1 [unfolded r]] q(1) in simp_all)
  ultimately show ?case using q(2) by (simp add: bindP_def)
qed

section \<open>The properties\<close>

text \<open>C12: Messages survive fragmentation. However the bytes of a sequence of messages are cut into pieces that
  arrive one after the other, a connection that waits for a message takes exactly these
  messages out of them, posts what they ask for in their order, and waits for the next one; the
  node, the other connections and what is being written are not touched.\<close>

theorem messages_survive_fragmentation:
  assumes "wire_laws W" and "i < length (w_conns w)" and "ready_to_read (w_conns w ! i)" and "cn_input (w_conns w ! i) = []"
    and "concat chunks = concat (map (w_message W) ms)"
    and "\<forall>m \<in> set ms. length (m_data m) < 2 ^ 32 \<and> (\<exists>ts. handle_message W m = Inr ts)"
  shows "\<exists>c. receive_all W i chunks w =
      (Inr (), w\<lparr>w_conns := (w_conns w)[i := c], w_tasks := w_tasks w @ map (Pair i) (concat (map (tasks_of W) ms))\<rparr>)
    \<and> ready_to_read c \<and> cn_input c = [] \<and> socket_kept (w_conns w ! i) c"
proof -
  let ?c = "w_conns w ! i"
  have "ready_to_read (arrive (concat chunks) ?c)" "cn_input (arrive (concat chunks) ?c) = concat (map (w_message W) ms)"
    using assms(3-5) by (simp_all add: ready_to_read_def)
  from pump_messages [OF assms(1) this assms(6), of "[]"] obtain d where
    d: "pump W (arrive (concat chunks) ?c) [] = (Inr (), d, concat (map (tasks_of W) ms))" "ready_to_read d" "cn_input d = []"
      "socket_kept (arrive (concat chunks) ?c) d"
    by auto
  have "socket_kept ?c d" using d(4) by (simp add: socket_kept_def arrive_def)
  then show ?thesis
    using receive_all_pump [OF assms(2) pump_idle [OF assms(3,4)] d(1)] d(2,3) by blast
qed

text \<open>C18: A peer can stop the network thread. A message throws in the network thread, out of
  \<open>io_service::run\<close>, exactly when it is a request for a block whose data cannot be unpacked; the
  connection then reads no more. Every other message is taken, unknown ids included.\<close>

theorem malformed_request_throws:
  assumes "wire_laws W" and "i < length (w_conns w)" and "ready_to_read (w_conns w ! i)" and "cn_input (w_conns w ! i) = []"
    and "length (m_data m) < 2 ^ 32"
  shows "fst (receive W i (w_message W m) w) =
      (if m_id m = get_full_block_id then map_sum id (\<lambda>_. ()) (unpack (w_get_full_block W) (m_data m)) else Inr ())
    \<and> (case fst (receive W i (w_message W m) w) of
         Inl e \<Rightarrow> cn_step (w_conns (snd (receive W i (w_message W m) w)) ! i) = 0
       | Inr u \<Rightarrow> ready_to_read (w_conns (snd (receive W i (w_message W m) w)) ! i))"
proof -
  let ?c = "arrive (w_message W m) (w_conns w ! i)"
  have c: "ready_to_read ?c" "cn_input ?c = w_message W m @ []" using assms(3,4) by (simp_all add: ready_to_read_def)
  obtain d where d: "cn_input d = []"
    "pump W ?c [] = (case handle_message W m of Inl e \<Rightarrow> (Inl e, d, []) | Inr ts \<Rightarrow> pump W d ([] @ ts))"
    "case handle_message W m of Inl e \<Rightarrow> cn_step d = 0 | Inr ts \<Rightarrow> ready_to_read d"
    by (rule pump_message [OF assms(1) c assms(5), of "[]"])
  have taken: "map_sum id (\<lambda>_. ()) (handle_message W m) =
      (if m_id m = get_full_block_id then map_sum id (\<lambda>_. ()) (unpack (w_get_full_block W) (m_data m)) else Inr ())"
    by (cases "unpack (w_get_full_block W) (m_data m)") (simp_all add: handle_message_def cast_message_def message_ids)
  have "fst (receive W i (w_message W m) w) = map_sum id (\<lambda>_. ()) (handle_message W m)
    \<and> (case fst (receive W i (w_message W m) w) of
         Inl e \<Rightarrow> cn_step (w_conns (snd (receive W i (w_message W m) w)) ! i) = 0
       | Inr u \<Rightarrow> ready_to_read (w_conns (snd (receive W i (w_message W m) w)) ! i))"
  proof (cases "handle_message W m")
    case (Inl e)
    then show ?thesis using d assms(2) by (simp add: receive_run)
  next
    case (Inr ts)
    then have "pump W ?c [] = (Inr (), d, ts)" using d pump_idle by simp
    then show ?thesis using d(3) assms(2) Inr by (simp add: receive_run)
  qed
  then show ?thesis unfolding taken .
qed

end
