(* ===== verification/ServerProofs.thy ===== *)
theory ServerProofs
  imports ServerReads NodeProps
begin

text \<open>
  The server with its node: what a block from a peer makes it send, what closing a connection
  twice does, and an invariant of the server over all its steps.
\<close>

section \<open>A full block at the node\<close>

lemma add_full_block_events:
  assumes run: "add_full_block E fbs s = (Inr r, s')" and ne: "n_chain s \<noteq> []"
  shows "(r = 1 \<and> (\<exists>f. n_events s' = n_events s @ [New_Block f] \<and> fbs_blk f = fbs_blk fbs))
    \<or> (r \<in> {0, -1, -3} \<and> n_events s' = n_events s \<and> n_chain s' = n_chain s)"
proof -
  let ?bs = "fbs_blk_state fbs" and ?blk = "fbs_blk fbs"
  obtain added s1 where s1: "on_trx_db (store_transactions E (fbs_trxs fbs) False) s = (Inr added, s1)"
    and rest1: "bindP (get_transactions E (bs_signed_transactions ?bs) pending_trx) (\<lambda>_.
      bindP (set_block_state E (blk_state ?blk) ?bs) (\<lambda>_. bindP (asks n_chain) (\<lambda>bc.
      if bc = [] \<and> fbs_index fbs = 0 then
        bindP (on_head (apply_block E ?blk (bs_generator_name ?bs) [] (bs_state_db ?bs))) (\<lambda>_.
        bindP (set_block_state E (blk_state ?blk) ?bs) (\<lambda>_.
        bindP (push_block ?blk) (\<lambda>_. ret 1)))
      else
        bindP (add_block E ?blk) (\<lambda>rtn.
        bindP is_generating (\<lambda>gen.
        bindP (if rtn \<le> 0 \<and> added \<and> gen then start_block E else ret ()) (\<lambda>_. ret rtn)))))) s1 = (Inr r, s')"
    using run unfolding add_full_block_def Let_def by (rule bindP_InrE)
  obtain ts s2 where s2: "get_transactions E (bs_signed_transactions ?bs) pending_trx s1 = (Inr ts, s2)"
    and rest2: "bindP (set_block_state E (blk_state ?blk) ?bs) (\<lambda>_. bindP (asks n_chain) (\<lambda>bc.
      if bc = [] \<and> fbs_index fbs = 0 then
        bindP (on_head (apply_block E ?blk (bs_generator_name ?bs) [] (bs_state_db ?bs))) (\<lambda>_.
        bindP (set_block_state E (blk_state ?blk) ?bs) (\<lambda>_.
        bindP (push_block ?blk) (\<lambda>_. ret 1)))
      else
        bindP (add_block E ?blk) (\<lambda>rtn.
        bindP is_generating (\<lambda>gen.
        bindP (if rtn \<le> 0 \<and> added \<and> gen then start_block E else ret ()) (\<lambda>_. ret rtn))))) s2 = (Inr r, s')"
    using rest1 by (rule bindP_InrE)
  obtain u s3 where s3: "set_block_state E (blk_state ?blk) ?bs s2 = (Inr u, s3)"
    and rest3: "(if n_chain s3 = [] \<and> fbs_index fbs = 0 then
        bindP (on_head (apply_block E ?blk (bs_generator_name ?bs) [] (bs_state_db ?bs))) (\<lambda>_.
        bindP (set_block_state E (blk_state ?blk) ?bs) (\<lambda>_.
        bindP (push_block ?blk) (\<lambda>_. ret 1)))
      else
        bindP (add_block E ?blk) (\<lambda>rtn.
        bindP is_generating (\<lambda>gen.
        bindP (if rtn \<le> 0 \<and> added \<and> gen then start_block E else ret ()) (\<lambda>_. ret rtn)))) s3 = (Inr r, s')"
    using rest2 unfolding bind_asks by (rule bindP_InrE) simp
  have k: "n_chain s3 = n_chain s" "n_events s3 = n_events s"
    using s1 s3 get_transactions_run(1) [OF s2]
    by (auto simp: set_block_state_def on_block_state_db_def elim!: on_trx_db_run split: option.splits)
  have "bindP (add_block E ?blk) (\<lambda>rtn. bindP is_generating (\<lambda>gen.
      bindP (if rtn \<le> 0 \<and> added \<and> gen then start_block E else ret ()) (\<lambda>_. ret rtn))) s3 = (Inr r, s')"
    using rest3 ne k(1) by simp
  then obtain rtn s4 where s4: "add_block E ?blk s3 = (Inr rtn, s4)"
    and rest4: "bindP (if rtn \<le> 0 \<and> added \<and> n_gen_enabled s4 then start_block E else ret ()) (\<lambda>_. ret rtn) s4 = (Inr r, s')"
    unfolding is_generating_def bind_asks by (rule bindP_InrE)
  obtain v s5 where s5: "(if rtn \<le> 0 \<and> added \<and> n_gen_enabled s4 then start_block E else ret ()) s4 = (Inr v, s5)" "r = rtn" "s' = s5"
    using rest4 by (auto simp: ret_run elim!: bindP_InrE)
  from add_block_result [OF s4] consider
    (yes) f where "rtn = 1" "n_events s4 = n_events s3 @ [New_Block f]" "fbs_blk f = ?blk"
    | (no) "rtn \<in> {0, -1, -3}" "n_chain s4 = n_chain s3" "n_events s4 = n_events s3" by blast
  then show ?thesis
  proof cases
    case yes
    then show ?thesis using s5 k by (auto simp: ret_run)
  next
    case no
    have "follows quiet (if rtn \<le> 0 \<and> added \<and> n_gen_enabled s4 then start_block E else ret ())"
      by (intro quiet.rules quiet_start_block)
    from quiet_run [OF this s5(1)] show ?thesis using no k ne s5(2,3) by (simp add: rest_kept_def)
  qed
qed

section \<open>A full block from a peer\<close>

lemma called_fold_i:
  "fold (called W) [New_Block b] (c\<lparr>cn_block_blocked := True\<rparr>) = c\<lparr>cn_block_blocked := True\<rparr>" "fold (called W) [] c = c"
  by simp_all

lemma head_index_run: "on_node W get_head_block_index w = (Inr (of_nat (length (n_chain (w_node w))) - 1), w)"
  by (cases w) (simp add: on_node_def get_head_block_index_def asks_run)

lemma change_conn_run: "change_conn i f w = (Inr (), w\<lparr>w_conns := (w_conns w)[i := f (w_conns w ! i)]\<rparr>)"
  by (simp add: change_conn_def modify_run)

lemma bind_change: "bindP (change_conn i f) g w = g () (w\<lparr>w_conns := (w_conns w)[i := f (w_conns w ! i)]\<rparr>)"
  using change_conn_run by (rule bindP_run_Inr)

lemma bind_head_index: "bindP (on_node W get_head_block_index) g w = g (of_nat (length (n_chain (w_node w))) - 1) w"
  using head_index_run by (rule bindP_run_Inr)

text \<open>C13: Relaying a block. When the node takes a block a peer sent (it returns 1), the server sends it, once,
  to every other connection that listens and is not blocked, not to the peer it came from; that
  peer, when it has more blocks, is asked for the one after the new head. A block that is not
  taken is not sent to anyone. Either way the connection is no longer blocked.\<close>

theorem block_is_relayed:
  assumes "perform E W i (Add_Full_Block msg) w = (Inr (), w')"
    and "cast_message (w_report_full_block W) report_full_block_id msg = Inr rfb"
    and "i < length (w_conns w)" and "n_chain (w_node w) \<noteq> []" and "fst (add_full_block E (rfb_state rfb) (w_node w)) = Inr r"
  shows "\<exists>news. (if r = 1 then \<exists>b. news = [New_Block b] \<and> fbs_blk b = fbs_blk (rfb_state rfb) else news = [])
    \<and> n_events (w_node w') = n_events (w_node w) @ news
    \<and> (\<forall>j < length (w_conns w). j \<noteq> i \<longrightarrow> w_conns w' ! j = fold (called W) news (w_conns w ! j))
    \<and> w_conns w' ! i = (w_conns w ! i)\<lparr>cn_writes := cn_writes (w_conns w ! i) @
        (if r = 1 \<and> sint (fbs_index (rfb_state rfb)) < sint (fbs_head_index (rfb_state rfb))
         then [w_message W (get_full_block_msg W (of_nat (length (n_chain (w_node w')))))] else []), cn_block_blocked := False\<rparr>"
proof -
  let ?st = "rfb_state rfb" and ?c = "w_conns w ! i"
  let ?more = "sint (fbs_index ?st) < sint (fbs_head_index ?st)"
  obtain n where n: "add_full_block E ?st (w_node w) = (Inr r, n)"
    using assms(5) by (cases "add_full_block E ?st (w_node w)") simp
  define news where "news = drop (length (n_events (w_node w))) (n_events n)"
  have ev: "n_events n = n_events (w_node w) @ news"
    "if r = 1 then \<exists>b. news = [New_Block b] \<and> fbs_blk b = fbs_blk ?st else news = []" "0 < r \<longleftrightarrow> r = 1"
    using add_full_block_events [OF n assms(4)] by (auto simp: news_def)
  have silent: "fold (called W) news (?c\<lparr>cn_block_blocked := True\<rparr>) = ?c\<lparr>cn_block_blocked := True\<rparr>"
    using ev(2) by (auto split: if_splits)
  let ?conns = "(w_conns w)[i := ?c\<lparr>cn_block_blocked := True\<rparr>]"
  let ?w2 = "w\<lparr>w_node := n, w_conns := map (fold (called W) news) ?conns\<rparr>"
  have step: "on_node W (add_full_block E ?st) (w\<lparr>w_conns := ?conns\<rparr>) = (Inr r, ?w2)"
    using n by (simp add: on_node_def Let_def news_def)
  have bind_step: "bindP (on_node W (add_full_block E ?st)) g (w\<lparr>w_conns := ?conns\<rparr>) = g r ?w2" for g :: "int \<Rightarrow> ('a world, unit) prog"
    using step by (rule bindP_run_Inr)
  have "perform_add_full_block E W i rfb w = (Inr (), w')" using assms(1,2) by simp
  then have "bindP (if r = 1 \<and> ?more then bindP (on_node W get_head_block_index) (\<lambda>hi. send_message W i (get_full_block_msg W (hi + 1)))
            else ret ()) (\<lambda>_. change_conn i (\<lambda>c. c\<lparr>cn_block_blocked := False\<rparr>)) ?w2 = (Inr (), w')"
    unfolding perform_add_full_block_def bind_change bind_step ev(3) .
  then have w': "w' = ?w2\<lparr>w_conns := (map (fold (called W) news) ?conns)[i := (?c\<lparr>cn_writes := cn_writes ?c @
      (if r = 1 \<and> ?more then [w_message W (get_full_block_msg W (of_nat (length (n_chain n))))] else []), cn_block_blocked := False\<rparr>)]\<rparr>"
    using silent assms(3)
    by (auto simp: bindP_assoc bind_head_index bind_change send_message_def change_conn_run split: if_splits)
  then show ?thesis
    using ev(1,2) assms(3) by (intro exI [of _ news]) simp
qed

end
