(* ===== verification/ServerSteps.thy ===== *)
theory ServerSteps
  imports ServerProofs
begin

text \<open>
  The steps of a server as a relation on worlds: a peer connects, bytes arrive, a read or a write
  completes, the main thread runs a task or the node is used from the program itself. A step
  that throws ends the program (no thread of it has a handler), so it has no successor.
\<close>

inductive net_step :: "'d env \<Rightarrow> wire \<Rightarrow> 'd world \<Rightarrow> 'd world \<Rightarrow> bool" for E :: "'d env" and W :: wire where
  Accepted: "w_accepting w \<Longrightarrow> handle_accept W err w = (Inr (), w') \<Longrightarrow> net_step E W w w'"
| Connected: "connect_to W errs w = (Inr (), w') \<Longrightarrow> net_step E W w w'"
| Received: "i < length (w_conns w) \<Longrightarrow> receive W i bs w = (Inr (), w') \<Longrightarrow> net_step E W w w'"
| Read_Failed: "i < length (w_conns w) \<Longrightarrow> cn_step (w_conns w ! i) \<noteq> 0 \<Longrightarrow> read_failed i w = (Inr (), w') \<Longrightarrow> net_step E W w w'"
| Written: "i < length (w_conns w) \<Longrightarrow> cn_writes (w_conns w ! i) \<noteq> [] \<Longrightarrow> handle_write i err w = (Inr (), w') \<Longrightarrow> net_step E W w w'"
| Task: "run_task E W w = (Inr (), w') \<Longrightarrow> net_step E W w w'"
| Used: "on_node W (add_transaction E t) w = (Inr r, w') \<Longrightarrow> net_step E W w w'"
| Generated: "on_node W (generated_block E b) w = (Inr (), w') \<Longrightarrow> net_step E W w w'"
| Configured: "on_node W (configure_generation E name on) w = (Inr (), w') \<Longrightarrow> net_step E W w w'"

inductive net_run :: "'d env \<Rightarrow> wire \<Rightarrow> 'd world \<Rightarrow> 'd world \<Rightarrow> bool" for E :: "'d env" and W :: wire where
  Stay: "net_run E W w w"
| Step: "net_run E W w w' \<Longrightarrow> net_step E W w' w'' \<Longrightarrow> net_run E W w w''"

inductive_cases net_stepE: "net_step E W w w'"

lemma net_run_trans: "net_run E W v w \<Longrightarrow> net_run E W u v \<Longrightarrow> net_run E W u w"
  by (induction rule: net_run.induct) (auto intro: net_run.intros)

definition server_new :: "'d node \<Rightarrow> 'd world" where
  \<comment> \<open>the constructor of the server\<close>
  "server_new n = \<lparr>w_node = n, w_conns = [], w_open = [], w_tasks = [], w_accepting = True\<rparr>"

section \<open>What the node's tasks keep\<close>

definition reads_kept :: "connection \<Rightarrow> connection \<Rightarrow> bool" where
  "reads_kept c c' \<longleftrightarrow> cn_msg c' = cn_msg c \<and> cn_msg_size c' = cn_msg_size c \<and> cn_step c' = cn_step c \<and> cn_wanted c' = cn_wanted c
     \<and> cn_input c' = cn_input c \<and> cn_signals c' = cn_signals c"

definition world_kept :: "'d world \<Rightarrow> 'd world \<Rightarrow> bool" where
  "world_kept w w' \<longleftrightarrow> length (w_conns w') = length (w_conns w) \<and> w_open w' = w_open w \<and> w_tasks w' = w_tasks w
     \<and> (\<forall>j < length (w_conns w). reads_kept (w_conns w ! j) (w_conns w' ! j))"

interpretation world: kept_by_steps world_kept
  by unfold_locales (auto simp: world_kept_def reads_kept_def)

definition flags_kept :: "'d world \<Rightarrow> 'd world \<Rightarrow> bool" where
  "flags_kept w w' \<longleftrightarrow> length (w_conns w') = length (w_conns w) \<and> (\<forall>j < length (w_conns w).
     cn_block_blocked (w_conns w' ! j) = cn_block_blocked (w_conns w ! j) \<and> cn_trx_blocked (w_conns w' ! j) = cn_trx_blocked (w_conns w ! j))"

interpretation flags: kept_by_steps flags_kept
  by unfold_locales (auto simp: flags_kept_def)

lemma called_kept: "reads_kept c (called W e c)" "cn_block_blocked (called W e c) = cn_block_blocked c" "cn_trx_blocked (called W e c) = cn_trx_blocked c"
  by (cases e; simp add: reads_kept_def)+

lemma fold_called_kept: "reads_kept c (fold (called W) es c)" "cn_block_blocked (fold (called W) es c) = cn_block_blocked c"
  "cn_trx_blocked (fold (called W) es c) = cn_trx_blocked c"
proof (induction es arbitrary: c)
  case (Cons e es)
  { case 1
    show ?case using Cons(1) [of "called W e c"] called_kept(1) [of c W e] by (simp add: reads_kept_def)
  next
    case 2
    show ?case using Cons(2) [of "called W e c"] called_kept(2) [of W e c] by simp
  next
    case 3
    show ?case using Cons(3) [of "called W e c"] called_kept(3) [of W e c] by simp
  }
qed (simp_all add: reads_kept_def)

lemma nth_update: "j < length xs \<Longrightarrow> xs[i := x] ! j = (if i = j then x else xs ! j)"
  by (auto simp: nth_list_update)

lemma reads_kept_refl [simp]: "reads_kept c c"
  by (simp add: reads_kept_def)

lemma change_kept: "(\<And>c. reads_kept c (f c)) \<Longrightarrow> follows world_kept (change_conn i f)"
  by (rule followsI) (simp add: change_conn_run world_kept_def nth_update)

lemma on_node_kept: "follows world_kept (on_node W f)" "follows flags_kept (on_node W f)"
  by (auto intro!: followsI simp: on_node_def world_kept_def flags_kept_def fold_called_kept Let_def split: prod.split)

lemma send_kept: "follows world_kept (send_message W i m)" "follows flags_kept (send_message W i m)"
  unfolding send_message_def
  by (rule change_kept, simp add: reads_kept_def)
    (auto intro!: followsI simp: change_conn_run flags_kept_def nth_update)

lemma tryP_kept: "follows R f \<Longrightarrow> follows R (tryP f)"
  by (auto intro!: followsI dest: followsE simp: tryP_def split: prod.split sum.split)

lemma performs_kept:
  "follows world_kept (perform_add_transaction E W i at)" "follows world_kept (perform_get_full_block E W i k)"
  "follows world_kept (perform_get_head_block_index W i)" "follows world_kept (perform_add_full_block E W i rfb)"
  unfolding perform_add_transaction_def perform_get_full_block_def perform_get_head_block_index_def perform_add_full_block_def
  by (intro tryP_kept world.rules on_node_kept send_kept change_kept; simp add: reads_kept_def)+

lemma perform_kept: "follows world_kept (perform E W i t)"
  by (cases t; simp only: perform.simps; intro world.rules performs_kept)

definition unblocked :: "'d world \<Rightarrow> bool" where
  "unblocked w \<longleftrightarrow> (\<forall>j < length (w_conns w). \<not> cn_block_blocked (w_conns w ! j) \<and> \<not> cn_trx_blocked (w_conns w ! j))"

lemma flags_unblocked: "flags_kept w w' \<Longrightarrow> unblocked w \<Longrightarrow> unblocked w'"
  by (simp add: flags_kept_def unblocked_def)

lemma perform_unblocked:
  assumes "perform E W i t w = (Inr (), w')" and "unblocked w"
  shows "unblocked w'"
proof (cases t)
  case (Add_Transaction m)
  then obtain at where "perform_add_transaction E W i at w = (Inr (), w')"
    using assms(1) by (auto dest: bind_liftE_Inr)
  then obtain r w2 where w2: "on_node W (add_transaction E (rt_trx at)) (w\<lparr>w_conns := (w_conns w)[i := (w_conns w ! i)\<lparr>cn_trx_blocked := True\<rparr>]\<rparr>) = (Inr r, w2)"
    "change_conn i (\<lambda>c. c\<lparr>cn_trx_blocked := False\<rparr>) w2 = (Inr (), w')"
    unfolding perform_add_transaction_def bind_change by (rule bindP_InrE)
  show ?thesis
    using followsE [OF on_node_kept(2) w2(1)] w2(2) assms(2)
    by (auto simp: flags_kept_def unblocked_def change_conn_run nth_update split: if_splits)
next
  case (Get_Full_Block k)
  have "follows flags_kept (perform_get_full_block E W i k)"
    unfolding perform_get_full_block_def by (intro tryP_kept flags.rules on_node_kept send_kept)
  then show ?thesis using followsE assms flags_unblocked Get_Full_Block by fastforce
next
  case Get_Head_Block_Index
  have "follows flags_kept (perform_get_head_block_index W i)"
    unfolding perform_get_head_block_index_def by (intro flags.rules on_node_kept send_kept)
  then show ?thesis using followsE assms flags_unblocked Get_Head_Block_Index by fastforce
next
  case (Add_Full_Block m)
  then obtain rfb where run: "perform_add_full_block E W i rfb w = (Inr (), w')"
    using assms(1) by (auto dest: bind_liftE_Inr)
  let ?w1 = "w\<lparr>w_conns := (w_conns w)[i := (w_conns w ! i)\<lparr>cn_block_blocked := True\<rparr>]\<rparr>"
  let ?more = "\<lambda>r. if r > 0 \<and> sint (fbs_index (rfb_state rfb)) < sint (fbs_head_index (rfb_state rfb))
     then bindP (on_node W get_head_block_index) (\<lambda>hi. send_message W i (get_full_block_msg W (hi + 1))) else ret ()"
  have body: "follows flags_kept (bindP (on_node W (add_full_block E (rfb_state rfb))) ?more)"
    by (intro flags.rules on_node_kept send_kept)
  have "bindP (bindP (on_node W (add_full_block E (rfb_state rfb))) ?more)
     (\<lambda>_. change_conn i (\<lambda>c. c\<lparr>cn_block_blocked := False\<rparr>)) ?w1 = (Inr (), w')"
    using run unfolding perform_add_full_block_def bind_change bindP_assoc .
  then obtain u w2 where w2: "bindP (on_node W (add_full_block E (rfb_state rfb))) ?more ?w1 = (Inr u, w2)"
    "change_conn i (\<lambda>c. c\<lparr>cn_block_blocked := False\<rparr>) w2 = (Inr (), w')"
    by (rule bindP_InrE)
  show ?thesis
    using followsE [OF body w2(1)] w2(2) assms(2)
    by (auto simp: flags_kept_def unblocked_def change_conn_run nth_update split: if_splits)
qed

section \<open>The invariant\<close>

definition reading_ok :: "connection \<Rightarrow> bool" where
  \<comment> \<open>the outstanding read, if any, is one of the three of a message\<close>
  "reading_ok c \<longleftrightarrow> cn_step c = 0 \<or> cn_step c = 1 \<and> cn_wanted c = 2 \<or> cn_step c = 2 \<and> cn_wanted c = 4
     \<or> cn_step c = 3 \<and> cn_wanted c = unat (cn_msg_size c)"

definition waits :: "connection \<Rightarrow> bool" where
  \<comment> \<open>a read that could complete has completed\<close>
  "waits c \<longleftrightarrow> cn_step c = 0 \<or> length (cn_input c) < cn_wanted c"

definition server_ok :: "'d world \<Rightarrow> bool" where
  "server_ok w \<longleftrightarrow> distinct (w_open w) \<and> set (w_open w) \<subseteq> {..<length (w_conns w)} \<and> fst ` set (w_tasks w) \<subseteq> {..<length (w_conns w)}
     \<and> (\<forall>i \<in> set (w_open w). cn_step (w_conns w ! i) \<noteq> 0)
     \<and> (\<forall>i < length (w_conns w). reading_ok (w_conns w ! i) \<and> waits (w_conns w ! i) \<and> cn_signals (w_conns w ! i)) \<and> unblocked w"

lemma pump_reading:
  assumes "pump W c posted = (Inr u, d, q)" and "reading_ok c"
  shows "reading_ok d \<and> waits d \<and> (cn_step d = 0 \<longleftrightarrow> cn_step c = 0)"
  using assms
proof (induction W c posted rule: pump.induct)
  case (1 W c posted)
  show ?case
  proof (cases "cn_step c \<in> {1, 2, 3} \<and> cn_wanted c \<le> length (cn_input c)")
    case True
    obtain x e p where rm: "read_message W (cn_step c) (store_read c, posted) = (x, e, p)" by (metis prod_cases3)
    have go: "pump W c posted = (case x of Inl y \<Rightarrow> (Inl y, e, p) | Inr _ \<Rightarrow> pump W e p)"
      using True rm by (subst pump.simps) (simp split: sum.split)
    then obtain v where x: "x = Inr v" using "1.prems"(1) by (cases x) simp_all
    have "reading_ok e \<and> cn_step e \<noteq> 0"
      using rm True x by (auto simp: read_message_def store_read_def async_read_def reading_ok_def Let_def split: if_splits sum.splits)
    then show ?thesis using "1.IH" [OF True rm [symmetric] x] go x "1.prems"(1) True by auto
  next
    case False
    then show ?thesis using "1.prems" pump_stop [OF False, of W posted] by (auto simp: reading_ok_def waits_def)
  qed
qed

lemma server_ok_kept: "world_kept w w' \<Longrightarrow> unblocked w' \<Longrightarrow> server_ok w \<Longrightarrow> server_ok w'"
  unfolding server_ok_def world_kept_def
  by (auto simp: reads_kept_def reading_ok_def waits_def subset_iff)

lemma unblocked_flags: "follows flags_kept f \<Longrightarrow> f w = (r, w') \<Longrightarrow> unblocked w \<Longrightarrow> unblocked w'"
  by (blast dest: followsE intro: flags_unblocked)

lemma on_node_ok: "on_node W f w = (r, w') \<Longrightarrow> server_ok w \<Longrightarrow> server_ok w'"
  by (rule server_ok_kept [OF followsE [OF on_node_kept(1)]], assumption)
    (auto simp: server_ok_def intro: unblocked_flags [OF on_node_kept(2)])

lemma add_connection_run:
  "add_connection W w = (Inr (), w\<lparr>w_conns := w_conns w @ [(async_read 1 2 connection_new)\<lparr>cn_signals := True,
      cn_writes := [w_message W (get_full_block_msg W (of_nat (length (n_chain (w_node w)))))]\<rparr>], w_open := w_open w @ [length (w_conns w)]\<rparr>)"
  by (simp add: add_connection_def start_connection_def bind_change bind_head_index send_message_def change_conn_run async_read_def connection_new_def)

lemma add_connection_ok: "server_ok w \<Longrightarrow> server_ok (snd (add_connection W w))"
  by (auto simp: add_connection_run server_ok_def nth_append less_Suc_eq unblocked_def async_read_def connection_new_def reading_ok_def waits_def
      image_subset_iff subset_iff)

lemma accepting_ok: "server_ok w \<Longrightarrow> server_ok (w\<lparr>w_accepting := b\<rparr>)"
  by (simp add: server_ok_def unblocked_def)

lemma change_ok:
  assumes ok: "server_ok w" and c: "reading_ok (f (w_conns w ! i))" "waits (f (w_conns w ! i))" "cn_signals (f (w_conns w ! i))"
    "cn_step (f (w_conns w ! i)) = 0 \<Longrightarrow> i \<notin> set os" "\<not> cn_block_blocked (f (w_conns w ! i))" "\<not> cn_trx_blocked (f (w_conns w ! i))"
    and os: "distinct os" "set os \<subseteq> set (w_open w)"
  shows "server_ok (w\<lparr>w_conns := (w_conns w)[i := f (w_conns w ! i)], w_open := os\<rparr>)"
  using assms unfolding server_ok_def unblocked_def by (auto simp: nth_update subset_iff)

lemma closed_run: "connection_closed i w = (Inr (), w') \<Longrightarrow> i \<in> set (w_open w) \<and> w' = w\<lparr>w_open := remove1 i (w_open w)\<rparr>"
  by (auto simp: connection_closed_def throw_run modify_run split: if_splits)

lemma net_step_ok:
  assumes "net_step E W w w'" and ok: "server_ok w"
  shows "server_ok w'"
  using assms(1)
proof (cases rule: net_step.cases)
  case (Accepted err)
  then show ?thesis using accepting_ok [OF ok, of False] accepting_ok [OF add_connection_ok [OF ok], of True W]
    by (cases err) (auto simp: handle_accept_def add_connection_run bindP_def modify_run)
next
  case (Connected errs)
  then show ?thesis using add_connection_ok [OF ok, of W] by (auto simp: connect_to_def throw_run split: if_splits)
next
  case (Received i bs)
  let ?c = "w_conns w ! i"
  obtain d posted where d: "pump W (arrive bs ?c) [] = (Inr (), d, posted)"
    and w': "w' = w\<lparr>w_conns := (w_conns w)[i := d], w_tasks := w_tasks w @ map (Pair i) posted\<rparr>"
    using Received(2) by (auto simp: receive_run split: prod.splits)
  have "reading_ok (arrive bs ?c)" using ok Received(1) by (simp add: server_ok_def reading_ok_def arrive_def)
  then have "reading_ok d \<and> waits d \<and> (cn_step d = 0 \<longleftrightarrow> cn_step ?c = 0)" using pump_reading [OF d] by simp
  moreover have "socket_kept (arrive bs ?c) d" using pump_kept [OF d] by simp
  ultimately show ?thesis
    using ok Received(1) w' by (auto simp: server_ok_def unblocked_def nth_update socket_kept_def arrive_def image_image subset_iff)
next
  case (Read_Failed i)
  let ?f = "async_read 0 0" and ?os = "remove1 i (w_open w)"
  have "w' = w\<lparr>w_conns := (w_conns w)[i := ?f (w_conns w ! i)], w_open := ?os\<rparr>"
    using Read_Failed(3) closed_run by (fastforce simp: read_failed_def bind_change)
  moreover have "server_ok (w\<lparr>w_conns := (w_conns w)[i := ?f (w_conns w ! i)], w_open := ?os\<rparr>)"
    using ok Read_Failed(1)
    by (intro change_ok) (auto simp: server_ok_def unblocked_def async_read_def reading_ok_def waits_def set_remove1_eq)
  ultimately show ?thesis by simp
next
  case (Written i err)
  let ?f = "\<lambda>c. c\<lparr>cn_writes := tl (cn_writes c)\<rparr>" and ?os = "if err then remove1 i (w_open w) else w_open w"
  have "w' = w\<lparr>w_conns := (w_conns w)[i := ?f (w_conns w ! i)], w_open := ?os\<rparr>"
    using Written(3) closed_run by (fastforce simp: handle_write_def bind_change ret_run split: if_splits)
  moreover have "server_ok (w\<lparr>w_conns := (w_conns w)[i := ?f (w_conns w ! i)], w_open := ?os\<rparr>)"
    using ok Written(1)
    by (intro change_ok) (auto simp: server_ok_def unblocked_def reading_ok_def waits_def set_remove1_eq)
  ultimately show ?thesis by simp
next
  case Task
  show ?thesis
  proof (cases "w_tasks w")
    case Nil
    then show ?thesis using Task ok by (simp add: run_task_def)
  next
    case (Cons it ts)
    let ?w = "w\<lparr>w_tasks := ts\<rparr>"
    have run: "perform E W (fst it) (snd it) ?w = (Inr (), w')" using Task Cons by (simp add: run_task_def case_prod_unfold)
    have "server_ok ?w" using ok Cons by (auto simp: server_ok_def unblocked_def)
    then show ?thesis using server_ok_kept [OF followsE [OF perform_kept run]] perform_unblocked [OF run] by (simp add: server_ok_def)
  qed
qed (use ok on_node_ok in blast)+

lemma server_run_ok: "net_run E W (server_new n) w \<Longrightarrow> server_ok w"
proof (induction "server_new n" w rule: net_run.induct)
  case Stay
  show ?case by (simp add: server_new_def server_ok_def unblocked_def)
qed (rule net_step_ok)

text \<open>C14: The invariant of the server. Whatever steps a server takes from its start, the list of open
  connections holds no connection twice and only connections that are reading; every
  connection waits for the id, the size or the data of a message and every read that could
  complete has completed; every connection listens to the node and, between two steps, none is
  blocked; the tasks that wait belong to connections.\<close>

theorem server_invariant:
  assumes "net_run E W (server_new n) w"
  shows "server_ok w"
  using server_run_ok [OF assms] .

section \<open>Closing a connection twice\<close>

lemma net_step_closed:
  assumes "net_step E W w w'" and "i < length (w_conns w)" and "i \<notin> set (w_open w)"
  shows "i < length (w_conns w') \<and> i \<notin> set (w_open w')"
  using assms(1)
proof (cases rule: net_step.cases)
  case (Accepted err)
  then show ?thesis using assms(2,3) by (cases err) (auto simp: handle_accept_def add_connection_run bindP_def modify_run)
next
  case (Connected errs)
  then show ?thesis using assms(2,3) by (auto simp: connect_to_def throw_run add_connection_run split: if_splits)
next
  case (Received j bs)
  then show ?thesis using assms(2,3) by (auto simp: receive_run split: prod.splits)
next
  case (Read_Failed j)
  then have "w' = w\<lparr>w_conns := (w_conns w)[j := async_read 0 0 (w_conns w ! j)], w_open := remove1 j (w_open w)\<rparr>"
    using closed_run by (force simp: read_failed_def bind_change)
  then show ?thesis using assms(2,3) notin_set_remove1 by fastforce
next
  case (Written j err)
  let ?w = "w\<lparr>w_conns := (w_conns w)[j := (w_conns w ! j)\<lparr>cn_writes := tl (cn_writes (w_conns w ! j))\<rparr>]\<rparr>"
  have "w' = ?w \<or> w' = ?w\<lparr>w_open := remove1 j (w_open w)\<rparr>"
    using Written(3) closed_run [of j ?w w'] by (cases err) (simp_all add: handle_write_def bind_change change_conn_run ret_run)
  then show ?thesis using assms(2,3) notin_set_remove1 by fastforce
next
  case Task
  show ?thesis
  proof (cases "w_tasks w")
    case Nil
    then show ?thesis using Task assms(2,3) by (simp add: run_task_def)
  next
    case (Cons it ts)
    then have "perform E W (fst it) (snd it) (w\<lparr>w_tasks := ts\<rparr>) = (Inr (), w')" using Task by (simp add: run_task_def case_prod_unfold)
    from followsE [OF perform_kept this] show ?thesis using assms(2,3) by (simp add: world_kept_def)
  qed
qed (use assms(2,3) followsE [OF on_node_kept(1)] in \<open>fastforce simp: world_kept_def\<close>)+

lemma net_run_closed: "net_run E W w w' \<Longrightarrow> i < length (w_conns w) \<Longrightarrow> i \<notin> set (w_open w) \<Longrightarrow> i < length (w_conns w') \<and> i \<notin> set (w_open w')"
  by (induction rule: net_run.induct) (auto dest: net_step_closed)

text \<open>C19: Closing a connection twice. A connection that was closed after an error stays connected to the
  signals of the node: every new block starts another write on it. If that write, or a read
  still under way, reports its error, the connection is closed again and the server erases the
  end of its list: undefined behaviour, in every state the server can reach from there.\<close>

theorem closing_twice:
  assumes "net_run E W (server_new n) w" and "i < length (w_conns w)" and "i \<notin> set (w_open w)" and "net_run E W w w'"
  shows "cn_writes (called W (New_Block b) (w_conns w' ! i)) = cn_writes (w_conns w' ! i) @ [w_message W (report_full_block_msg W b)]
    \<and> fst (handle_write i True w') = Inl (Undefined_Behaviour ''erase( end() )'')
    \<and> fst (read_failed i w') = Inl (Undefined_Behaviour ''erase( end() )'')"
proof -
  have c: "i < length (w_conns w')" "i \<notin> set (w_open w')" using net_run_closed [OF assms(4,2,3)] by simp_all
  have "net_run E W (server_new n) w'" using net_run_trans [OF assms(4,1)] .
  then have "server_ok w'" by (rule server_run_ok)
  then have "cn_signals (w_conns w' ! i)" "\<not> cn_block_blocked (w_conns w' ! i)" using c(1) by (simp_all add: server_ok_def unblocked_def)
  then show ?thesis
    using c by (simp add: handle_write_def read_failed_def bind_change connection_closed_def throw_run)
qed

end
