(* ===== verification/ServerSample.thy ===== *)
theory ServerSample
  imports ServerSteps NodeSample
begin

text \<open>
  The properties of the server on a wire with the layouts of \<open>boost::rpc::raw\<close> and the sample
  node with two peers.
\<close>

definition lay_full_block :: "full_block_state layout" where
  "lay_full_block = lay_iso
     (\<lambda>b. (fbs_index b, fbs_head_index b, fbs_blk b, fbs_blk_state b, fbs_trxs b))
     (\<lambda>(i, h, k, s, t). \<lparr>fbs_index = i, fbs_head_index = h, fbs_blk = k, fbs_blk_state = s, fbs_trxs = t\<rparr>)
     (lay_pair (lay_word 4) (lay_pair (lay_word 4) (lay_pair lay_block (lay_pair lay_block_state (lay_list lay_strx)))))"

definition raw_wire :: wire where
  "raw_wire = \<lparr>
     w_message = (\<lambda>m. le_bytes 2 (unat (m_id m)) @ le_bytes 4 (length (m_data m)) @ m_data m),
     w_report_transaction = codec_of (lay_iso rt_trx (\<lambda>t. \<lparr>rt_trx = t\<rparr>) lay_strx),
     w_get_full_block = codec_of (lay_iso gfb_index (\<lambda>i. \<lparr>gfb_index = i\<rparr>) (lay_word 4)),
     w_report_full_block = codec_of (lay_iso rfb_state (\<lambda>s. \<lparr>rfb_state = s\<rparr>) lay_full_block),
     w_report_head_block_index = codec_of (lay_iso rhi_index (\<lambda>i. \<lparr>rhi_index = i\<rparr>) (lay_word 4))\<rparr>"

lemma raw_wire_laws: "wire_laws raw_wire"
  by (simp add: wire_laws_def raw_wire_def)

definition peer :: connection where
  \<comment> \<open>a started connection\<close>
  "peer = (async_read 1 2 connection_new)\<lparr>cn_signals := True\<rparr>"

lemma peer_sel [simp]: "ready_to_read peer" "cn_input peer = []" "cn_writes peer = []" "cn_signals peer" "\<not> cn_block_blocked peer"
  by (simp_all add: peer_def ready_to_read_def async_read_def connection_new_def)

definition two_peers :: "'d node \<Rightarrow> 'd world" where
  "two_peers n = (server_new n)\<lparr>w_conns := [peer, peer], w_open := [0, 1]\<rparr>"

lemma two_peers_sel [simp]: "w_conns (two_peers n) = [peer, peer]" "w_node (two_peers n) = n" "w_tasks (two_peers n) = []"
  by (simp_all add: two_peers_def server_new_def)

section \<open>Messages\<close>

lemma le_bytes_numeral: "le_bytes (numeral k) v = of_nat (v mod 256) # le_bytes (pred_numeral k) (v div 256)"
  using le_bytes.simps(2) [of "pred_numeral k" v] by (simp only: numeral_eq_Suc [symmetric])

theorem messages_survive_fragmentation_witness:
  "\<exists>w'. receive_all raw_wire 0 [[4], [0, 0, 0, 0, 0, 4, 0, 0], [], [0, 0, 0]] (two_peers (node_new 0 (\<lambda>_. 0))) = (Inr (), w')
     \<and> w_tasks w' = [(0, Get_Head_Block_Index), (0, Get_Head_Block_Index)]"
proof -
  let ?m = "\<lparr>m_id = get_head_block_index_id, m_data = []\<rparr>"
  have h: "handle_message raw_wire ?m = Inr [Get_Head_Block_Index]" by (simp add: handle_message_def message_ids)
  have t: "tasks_of raw_wire ?m = [Get_Head_Block_Index]" by (simp add: tasks_of_def h)
  have b: "w_message raw_wire ?m = [4, 0, 0, 0, 0, 0]" by (simp add: raw_wire_def message_ids le_bytes_numeral)
  show ?thesis
    using messages_survive_fragmentation [OF raw_wire_laws, of 0 "two_peers (node_new 0 (\<lambda>_. 0))" "[[4], [0, 0, 0, 0, 0, 4, 0, 0], [], [0, 0, 0]]" "[?m, ?m]"]
    by (auto simp: h t b)
qed

theorem malformed_request_throws_witness:
  "\<exists>e. fst (receive raw_wire 0 [2, 0, 1, 0, 0, 0, 7] (two_peers (node_new 0 (\<lambda>_. 0)))) = Inl e"
proof -
  let ?m = "\<lparr>m_id = get_full_block_id, m_data = [7]\<rparr>"
  have b: "w_message raw_wire ?m = [2, 0, 1, 0, 0, 0, 7]" by (simp add: raw_wire_def message_ids le_bytes_numeral)
  have u: "unpack (w_get_full_block raw_wire) [7] = Inl Unpack_Error" by (simp add: raw_wire_def lay_iso_def lay_word_def)
  show ?thesis
    using malformed_request_throws [OF raw_wire_laws, of 0 "two_peers (node_new 0 (\<lambda>_. 0))" ?m] by (auto simp: b u)
qed

section \<open>A block from a peer\<close>

definition sample_fbs :: full_block_state where
  "sample_fbs = \<lparr>fbs_index = 1, fbs_head_index = 2, fbs_blk = sample_appends, fbs_blk_state = state_one, fbs_trxs = []\<rparr>"

definition sample_report :: message where
  "sample_report = message_of (w_report_full_block raw_wire) report_full_block_id \<lparr>rfb_state = sample_fbs\<rparr>"

lemma sample_report_cast: "cast_message (w_report_full_block raw_wire) report_full_block_id sample_report = Inr \<lparr>rfb_state = sample_fbs\<rparr>"
proof -
  have ne: "lay lay_strx t \<noteq> []" for t
    unfolding length_0_conv [symmetric] by (simp add: length_lay_node del: length_0_conv)
  have "lossless lay_full_block"
    unfolding lay_full_block_def
    by (intro lossless_iso lossless_pair lossless_words lossless_list lossless_structs lossless_node ne; simp)
  moreover have "length (lay lay_full_block sample_fbs) < log_limit"
    by (simp add: lay_full_block_def sample_fbs_def length_lay length_lay_node length_lay_list lay_block_def log_limit_def)
  ultimately have "parse lay_full_block (lay lay_full_block sample_fbs) = Inr (sample_fbs, [])" by (rule lossless_parse)
  then show ?thesis by (simp add: cast_message_def sample_report_def message_of_def raw_wire_def lay_iso_def)
qed

lemma sample_full_block_taken: "fst (add_full_block raw_env sample_fbs (sample_node [sample_first])) = Inr 1"
proof -
  let ?s = "sample_node [sample_first]"
  let ?s1 = "?s\<lparr>n_block_state_db := Some (set_state 1 state_one sample_states)\<rparr>"
  have found: "fst (find_block_state raw_env 1 ?s1) = Inr (Some state_one)"
    using find_sample_state_again by (simp add: find_block_state_def on_block_state_db_def)
  have "\<exists>s' d' M'. add_block raw_env sample_appends ?s1 = (Inr 1, s') \<and> n_chain s' = n_chain ?s1 @ [sample_appends]
     \<and> n_saved s' = Some (save_chain (e_chain raw_env) (n_chain ?s1))
     \<and> n_trx_db s' = Some d' \<and> trx_holds raw_env (\<lambda>es. es) d' M' \<and> groups_after (bs_signed_transactions state_one) sample_trx_map M'"
    by (rule block_appended [where d = sample_trx_db and strxs = "[sample_trx]" and m = empty_market, OF raw_env_laws raw_trx_laws])
      (use sample_node_ready sample_node_shows found sample_appended_block in
        \<open>simp_all add: node_ready_def node_shows_def head_of_def sample_trx_db_holds sample_valid sample_trx_known sample_trxs_small\<close>)
  then obtain s' where "add_block raw_env sample_appends ?s1 = (Inr 1, s')" by blast
  moreover have "get_transactions raw_env [5] pending_trx ?s = (Inr [sample_trx], ?s)"
    using sample_pending get_transactions_run(1) by (metis prod.collapse)
  ultimately show ?thesis
    by (simp add: add_full_block_def sample_fbs_def Let_def bindP_def on_trx_db_def set_block_state_def on_block_state_db_def
        set_state_def prog_simps is_generating_def)
qed

theorem block_is_relayed_witness:
  "\<exists>w' b. perform raw_env raw_wire 0 (Add_Full_Block sample_report) (two_peers (sample_node [sample_first])) = (Inr (), w')
     \<and> fbs_blk b = sample_appends \<and> cn_writes (w_conns w' ! 1) = [w_message raw_wire (report_full_block_msg raw_wire b)]
     \<and> cn_writes (w_conns w' ! 0) = [w_message raw_wire (get_full_block_msg raw_wire (of_nat (length (n_chain (w_node w')))))]"
proof -
  let ?w = "two_peers (sample_node [sample_first])"
  obtain n where n: "add_full_block raw_env sample_fbs (sample_node [sample_first]) = (Inr 1, n)"
    using sample_full_block_taken by (cases "add_full_block raw_env sample_fbs (sample_node [sample_first])") simp
  have total: "\<exists>y. bindP (if c then bindP (on_node raw_wire get_head_block_index) (\<lambda>hi. send_message raw_wire i (m hi)) else ret ())
     (\<lambda>_. change_conn i f) x = (Inr (), y)" for c i m f and x :: "(bytes \<times> bytes) list world"
    by (cases c) (simp_all add: bindP_assoc bind_head_index send_message_def bind_change change_conn_run)
  let ?w1 = "?w\<lparr>w_conns := (w_conns ?w)[0 := (w_conns ?w ! 0)\<lparr>cn_block_blocked := True\<rparr>]\<rparr>"
  obtain x where x: "on_node raw_wire (add_full_block raw_env sample_fbs) ?w1 = (Inr 1, x)"
    using n by (simp add: on_node_def Let_def)
  obtain w' where "perform_add_full_block raw_env raw_wire 0 \<lparr>rfb_state = sample_fbs\<rparr> ?w = (Inr (), w')"
    unfolding perform_add_full_block_def bind_change report_full_block.simps bindP_def [of "on_node raw_wire (add_full_block raw_env sample_fbs)"] x
    using total [of "sint (fbs_index sample_fbs) < sint (fbs_head_index sample_fbs)" 0 "\<lambda>hi. get_full_block_msg raw_wire (hi + 1)"
        "cn_block_blocked_update (\<lambda>_. False)" x]
    by (auto simp del: two_peers_sel)
  then have run: "perform raw_env raw_wire 0 (Add_Full_Block sample_report) ?w = (Inr (), w')"
    using sample_report_cast by simp
  have more: "sint (1 :: 32 word) < sint (2 :: 32 word)" by simp
  have r: "fst (add_full_block raw_env (rfb_state \<lparr>rfb_state = sample_fbs\<rparr>) (w_node ?w)) = Inr 1" using n by simp
  obtain b where "fbs_blk b = sample_appends" "w_conns w' ! 1 = fold (called raw_wire) [New_Block b] peer"
    "w_conns w' ! 0 = peer\<lparr>cn_writes := [w_message raw_wire (get_full_block_msg raw_wire (of_nat (length (n_chain (w_node w')))))],
       cn_block_blocked := False\<rparr>"
    using block_is_relayed [OF run sample_report_cast _ _ r] more by (auto simp: sample_fbs_def)
  then show ?thesis using run by (intro exI [of _ w'] exI [of _ b]) simp
qed

section \<open>Steps\<close>

lemma one_step: "net_step E W w w' \<Longrightarrow> net_run E W w w'"
  by (rule net_run.Step [OF net_run.Stay])

definition one_peer :: "'d node \<Rightarrow> 'd world" where
  \<comment> \<open>the server after it accepted a peer\<close>
  "one_peer n = (snd (add_connection raw_wire (server_new n)))\<lparr>w_accepting := True\<rparr>"

lemma one_peer_run: "net_run E raw_wire (server_new n) (one_peer n)"
proof (rule one_step, rule net_step.Accepted [where err = False])
  show "handle_accept raw_wire False (server_new n) = (Inr (), one_peer n)"
    by (simp add: handle_accept_def one_peer_def add_connection_run bindP_def modify_run)
qed (simp add: server_new_def)

theorem server_invariant_witness: "server_ok (one_peer (node_new 0 (\<lambda>_. 0)) :: (bytes \<times> bytes) list world)"
  by (rule server_invariant [OF one_peer_run [where E = raw_env]])

theorem closing_twice_witness:
  "\<exists>w :: (bytes \<times> bytes) list world. net_run raw_env raw_wire (server_new (node_new 0 (\<lambda>_. 0))) w
     \<and> fst (handle_write 0 True w) = Inl (Undefined_Behaviour ''erase( end() )'')"
proof -
  let ?w = "one_peer (node_new 0 (\<lambda>_. 0)) :: (bytes \<times> bytes) list world"
  obtain w where w: "read_failed 0 ?w = (Inr (), w)" "length (w_conns w) = 1" "w_open w = []"
    by (simp add: read_failed_def bind_change connection_closed_def modify_run one_peer_def add_connection_run server_new_def)
  have "net_step raw_env raw_wire ?w w"
    by (rule net_step.Read_Failed [OF _ _ w(1)]) (simp_all add: one_peer_def add_connection_run server_new_def async_read_def)
  then have run: "net_run raw_env raw_wire (server_new (node_new 0 (\<lambda>_. 0))) w"
    by (rule net_run.Step [OF one_peer_run])
  have "fst (handle_write 0 True w) = Inl (Undefined_Behaviour ''erase( end() )'')"
    using closing_twice [OF run _ _ net_run.Stay, of 0] w(2,3) by simp
  then show ?thesis using run by blast
qed

end
