(* ===== verification/Clock.thy ===== *)
theory Clock
  imports Prelude
begin

text \<open>
  libs/gpm/time/usclock.cpp (the part for systems with \<open>gettimeofday\<close>): the clock of the program.
  \<open>usclock\<close> counts microseconds from its first call and \<open>utc_clock\<close> adds them to the time of day
  of its own first call, so that the readings increase even when the clock of the operating
  system is set back. The clocks of the system are parameters: \<open>ck_timeofday i\<close> is what
  \<open>gettimeofday\<close> stores at the i-th reading, \<open>ck_universal i\<close> the microseconds since 1970 that the
  third-party \<open>boost::posix_time\<close> gives at the i-th reading.
\<close>

section \<open>The clock\<close>

record timeval =
  tv_sec :: u64
  tv_usec :: u64

record os_clock =
  ck_timeofday :: "nat \<Rightarrow> timeval"
  ck_universal :: "nat \<Rightarrow> u64"
  ck_left_first :: bool \<comment> \<open>does the compiler evaluate the left operand of a subtraction first?\<close>

text \<open>
  The variables of the file and the local statics of its functions; a static is \<open>None\<close> until its
  declaration is first reached. \<open>uc_readings\<close> counts the readings of the system's clocks.
\<close>

record usclock_vars =
  uc_start_time :: u64
  uc_last_time :: "u64 option"
  uc_start_utc :: "u64 option"
  uc_start_us :: "u64 option"
  uc_offset :: "u64 option"
  uc_readings :: nat

definition usclock_vars_new :: usclock_vars where
  "usclock_vars_new = \<lparr>uc_start_time = 0, uc_last_time = None, uc_start_utc = None, uc_start_us = None, uc_offset = None, uc_readings = 0\<rparr>"

definition gettimeofday :: "os_clock \<Rightarrow> (usclock_vars, u64) prog" where
  \<comment> \<open>a reading in microseconds: \<open>uint64_t(tv_sec) * 1000000 + tv_usec\<close>\<close>
  "gettimeofday K v =
     (let tv = ck_timeofday K (uc_readings v) in (Inr (tv_sec tv * 1000000 + tv_usec tv), v\<lparr>uc_readings := Suc (uc_readings v)\<rparr>))"

definition usclock_init :: "os_clock \<Rightarrow> (usclock_vars, u64) prog" where
  "usclock_init K =
     bindP (gettimeofday K) (\<lambda>t.
     bindP (modify (\<lambda>v. v\<lparr>uc_start_time := t\<rparr>)) (\<lambda>_.
     ret t))"

definition static_var :: "('s \<Rightarrow> 'a option) \<Rightarrow> ('a \<Rightarrow> 's \<Rightarrow> 's) \<Rightarrow> ('s, 'a) prog \<Rightarrow> ('s, 'a) prog" where
  \<comment> \<open>a local static: initialised the first time its declaration is reached\<close>
  "static_var get_var set_var init =
     bindP (asks get_var) (\<lambda>x.
     case x of
       Some a \<Rightarrow> ret a
     | None \<Rightarrow> bindP init (\<lambda>a. bindP (modify (set_var a)) (\<lambda>_. ret a)))"

definition usclock_current :: "os_clock \<Rightarrow> (usclock_vars, u64) prog" where
  "usclock_current K =
     bindP (static_var uc_last_time (\<lambda>t v. v\<lparr>uc_last_time := Some t\<rparr>) (usclock_init K)) (\<lambda>last_time.
     bindP (gettimeofday K) (\<lambda>new_time.
     let t = (if new_time > last_time then new_time else last_time + 1) in
     bindP (modify (\<lambda>v. v\<lparr>uc_last_time := Some t\<rparr>)) (\<lambda>_.
     ret t)))"

definition usclock :: "os_clock \<Rightarrow> (usclock_vars, u64) prog" where
  \<comment> \<open>\<open>usclock_current() - start_time\<close>: the standard leaves open which operand is evaluated first\<close>
  "usclock K =
     (if ck_left_first K then
        bindP (usclock_current K) (\<lambda>t. bindP (asks uc_start_time) (\<lambda>start. ret (t - start)))
      else
        bindP (asks uc_start_time) (\<lambda>start. bindP (usclock_current K) (\<lambda>t. ret (t - start))))"

definition universal_time :: "os_clock \<Rightarrow> (usclock_vars, u64) prog" where
  "universal_time K v = (Inr (ck_universal K (uc_readings v)), v\<lparr>uc_readings := Suc (uc_readings v)\<rparr>)"

definition utc_clock_now :: "os_clock \<Rightarrow> (usclock_vars, u64) prog" where
  \<comment> \<open>\<open>utc_clock\<close>\<close>
  "utc_clock_now K =
     bindP (static_var uc_start_utc (\<lambda>t v. v\<lparr>uc_start_utc := Some t\<rparr>) (universal_time K)) (\<lambda>start_utc.
     bindP (static_var uc_start_us (\<lambda>t v. v\<lparr>uc_start_us := Some t\<rparr>) (usclock K)) (\<lambda>start_us.
     bindP (static_var uc_offset (\<lambda>t v. v\<lparr>uc_offset := Some t\<rparr>) (ret (start_utc - start_us))) (\<lambda>offset.
     bindP (usclock K) (\<lambda>us.
     ret (offset + us)))))"

primrec utc_readings :: "os_clock \<Rightarrow> nat \<Rightarrow> usclock_vars \<Rightarrow> u64 list" where
  \<comment> \<open>what the next calls of \<open>utc_clock\<close> return\<close>
  "utc_readings K 0 v = []"
| "utc_readings K (Suc n) v =
     (case utc_clock_now K v of
        (Inl e, v') \<Rightarrow> []
      | (Inr t, v') \<Rightarrow> t # utc_readings K n v')"

section \<open>The readings increase\<close>

definition os_reading :: "os_clock \<Rightarrow> nat \<Rightarrow> u64" where
  "os_reading K i = tv_sec (ck_timeofday K i) * 1000000 + tv_usec (ck_timeofday K i)"

definition in_range :: "os_clock \<Rightarrow> bool" where
  \<comment> \<open>the clocks of the system stay below 2 ^ 62 microseconds (about the year 148000)\<close>
  "in_range K \<longleftrightarrow> (\<forall>i. unat (os_reading K i) < 2 ^ 62 \<and> unat (ck_universal K i) < 2 ^ 62)"

text \<open>
  The clock has started: the last time \<open>l\<close> it gave, the time \<open>l0\<close> it gave to initialise the
  offset and the time of day \<open>s\<close> it started at; \<open>k\<close> bounds how often it was read.
\<close>

definition started :: "usclock_vars \<Rightarrow> u64 \<Rightarrow> u64 \<Rightarrow> u64 \<Rightarrow> nat \<Rightarrow> bool" where
  "started v s l0 l k \<longleftrightarrow> uc_start_utc v = Some s \<and> uc_start_us v \<noteq> None
     \<and> uc_offset v = Some (s - l0 + uc_start_time v) \<and> uc_last_time v = Some l
     \<and> l0 \<le> l \<and> unat s < 2 ^ 62 \<and> unat l < 2 ^ 62 + k"

lemmas clock_run = usclock_current_def usclock_def usclock_init_def static_var_def gettimeofday_def universal_time_def
  utc_clock_now_def bindP_def ret_def asks_def modify_def Let_def

lemma add_less_word:
  assumes "unat (a :: u64) < 2 ^ 62" and "unat l < 2 ^ 63" and "l0 \<le> k" and "k < l"
  shows "a + (k - l0) < a + (l - l0)"
proof -
  have k: "unat (k - l0) = unat k - unat l0" using assms(3) by (rule unat_sub)
  have l: "unat (l - l0) = unat l - unat l0" using assms(3,4) by (intro unat_sub) simp
  have le: "unat l0 \<le> unat k" "unat k < unat l" using assms(3,4) by (simp_all add: word_le_nat_alt word_less_nat_alt)
  have "unat a + (unat l - unat l0) < 2 ^ 64" "unat a + (unat k - unat l0) < 2 ^ 64" using assms(1,2) le by simp_all
  then have "unat (a + (k - l0)) = unat a + (unat k - unat l0)" "unat (a + (l - l0)) = unat a + (unat l - unat l0)"
    by (simp_all add: unat_plus_simple [THEN iffD1] k l no_olen_add_nat)
  then show ?thesis using le by (simp add: word_less_nat_alt)
qed

lemma next_time:
  assumes "in_range K" and "unat l < 2 ^ 62 + k" and "k < 2 ^ 62" and t_def: "t = (if os_reading K i > l then os_reading K i else l + 1)"
  shows "l < t" and "unat t < 2 ^ 62 + Suc k"
proof -
  have r: "unat (os_reading K i) < 2 ^ 62" using assms(1) by (simp add: in_range_def)
  have "unat (l + 1) = unat l + 1" using assms(2,3) by (simp add: unat_word_ariths)
  then show "l < t" "unat t < 2 ^ 62 + Suc k"
    using assms(2) r by (auto simp: t_def word_less_nat_alt)
qed

lemma utc_clock_step:
  assumes "in_range K" and "started v s l0 l k" and "k < 2 ^ 62"
  obtains l' v' where "utc_clock_now K v = (Inr (s + (l' - l0)), v')" and "l < l'" and "started v' s l0 l' (Suc k)"
proof -
  define t where "t = (if os_reading K (uc_readings v) > l then os_reading K (uc_readings v) else l + 1)"
  define v' where "v' = v\<lparr>uc_last_time := Some t, uc_readings := Suc (uc_readings v)\<rparr>"
  have s: "uc_start_utc v = Some s" "uc_last_time v = Some l" "uc_offset v = Some (s - l0 + uc_start_time v)"
    using assms(2) by (simp_all add: started_def)
  obtain u where u: "uc_start_us v = Some u" using assms(2) by (auto simp: started_def)
  have "usclock_current K v = (Inr t, v')"
    using s(2) by (simp add: clock_run t_def v'_def os_reading_def)
  then have us: "usclock K v = (Inr (t - uc_start_time v), v')"
    by (simp add: usclock_def bindP_def asks_def ret_def v'_def)
  have now: "utc_clock_now K v = (Inr (s + (t - l0)), v')"
    by (simp add: utc_clock_now_def static_var_def bindP_def asks_def ret_def s u us algebra_simps)
  have unat_l: "unat l < 2 ^ 62 + k" using assms(2) by (simp add: started_def)
  note t = next_time [OF assms(1) unat_l assms(3) t_def]
  have "started v' s l0 t (Suc k)" using assms(2) t order_trans [of l0 l t] by (simp add: started_def v'_def)
  with now t(1) show ?thesis by (rule that)
qed

lemma readings_increase:
  assumes "in_range K" and "started v s l0 l k" and "k + n < 2 ^ 62"
  shows "sorted_wrt (<) (utc_readings K n v) \<and> length (utc_readings K n v) = n
    \<and> (\<forall>t \<in> set (utc_readings K n v). s + (l - l0) < t)"
  using assms(2,3)
proof (induction n arbitrary: v l k)
  case (Suc n)
  obtain l' v' where step: "utc_clock_now K v = (Inr (s + (l' - l0)), v')" "l < l'" "started v' s l0 l' (Suc k)"
    using utc_clock_step [OF assms(1) Suc.prems(1)] Suc.prems(2) by (metis add_lessD1)
  have "s + (l - l0) < s + (l' - l0)"
    using step(2,3) Suc.prems by (intro add_less_word) (simp_all add: started_def)
  then show ?case using Suc.IH [OF step(3)] Suc.prems step(1) by force
qed simp

lemma utc_clock_first:
  assumes "in_range K" and "ck_left_first K" and "uc_readings v = 0"
    and "uc_last_time v = None" and "uc_start_utc v = None" and "uc_start_us v = None" and "uc_offset v = None"
  obtains l0 l v' where "utc_clock_now K v = (Inr (ck_universal K 0 + (l - l0)), v')" and "l0 < l"
    and "started v' (ck_universal K 0) l0 l 2"
proof -
  let ?s = "ck_universal K 0"
  let ?t0 = "os_reading K 1"
  define l0 where "l0 = (if os_reading K 2 > ?t0 then os_reading K 2 else ?t0 + 1)"
  define l where "l = (if os_reading K 3 > l0 then os_reading K 3 else l0 + 1)"
  define v1 where "v1 = v\<lparr>uc_start_utc := Some ?s, uc_readings := 1\<rparr>"
  define v2 where "v2 = v1\<lparr>uc_start_time := ?t0, uc_last_time := Some l0, uc_readings := 3\<rparr>"
  define v3 where "v3 = v2\<lparr>uc_start_us := Some (l0 - ?t0), uc_offset := Some (?s - (l0 - ?t0))\<rparr>"
  define v4 where "v4 = v3\<lparr>uc_last_time := Some l, uc_readings := 4\<rparr>"
  have one: "usclock K v1 = (Inr (l0 - ?t0), v2)"
    using assms(2,4) by (simp add: clock_run v1_def v2_def l0_def os_reading_def numeral_eq_Suc)
  have two: "usclock K v3 = (Inr (l - ?t0), v4)"
    using assms(2) by (simp add: clock_run v2_def v3_def v4_def l_def os_reading_def numeral_eq_Suc)
  have "static_var uc_start_utc (\<lambda>t v. v\<lparr>uc_start_utc := Some t\<rparr>) (universal_time K) v = (Inr ?s, v1)"
    using assms(3,5) by (cases v) (simp add: static_var_def universal_time_def bindP_def asks_def ret_def modify_def v1_def)
  moreover have "static_var uc_start_us (\<lambda>t v. v\<lparr>uc_start_us := Some t\<rparr>) (usclock K) v1
      = (Inr (l0 - ?t0), v2\<lparr>uc_start_us := Some (l0 - ?t0)\<rparr>)"
    using assms(6) one by (simp add: static_var_def bindP_def asks_def ret_def modify_def v1_def)
  moreover have "static_var uc_offset (\<lambda>t v. v\<lparr>uc_offset := Some t\<rparr>) (ret (?s - (l0 - ?t0))) (v2\<lparr>uc_start_us := Some (l0 - ?t0)\<rparr>)
      = (Inr (?s - (l0 - ?t0)), v3)"
    using assms(7) by (simp add: static_var_def bindP_def asks_def ret_def modify_def v3_def v2_def v1_def)
  ultimately have "utc_clock_now K v = (Inr (?s + (l - l0)), v4)"
    using two by (simp add: utc_clock_now_def bindP_def ret_def)
  moreover have t0: "unat ?t0 < 2 ^ 62 + 0" using assms(1) by (simp add: in_range_def)
  have l0: "?t0 < l0" "unat l0 < 2 ^ 62 + Suc 0"
    using next_time [OF assms(1) t0 _ l0_def] by simp_all
  have l: "l0 < l" "unat l < 2 ^ 62 + Suc (Suc 0)"
    using next_time [OF assms(1) l0(2) _ l_def] by simp_all
  have "unat ?s < 2 ^ 62" using assms(1) by (simp add: in_range_def)
  then have "started v4 ?s l0 l 2"
    using l less_imp_le [OF l(1)] by (simp add: started_def v4_def v3_def v2_def v1_def numeral_2_eq_2)
  ultimately show ?thesis using l(1) by (intro that)
qed

text \<open>C38: the readings of \<open>utc_clock\<close> strictly increase and lie after the time of day of the first
  one, whatever the clock of the operating system does in between, as long as it stays below
  2 ^ 62 microseconds and the left operand of \<open>usclock\<close>'s subtraction is evaluated first.\<close>

theorem utc_clock_increases:
  assumes "in_range K" and "ck_left_first K" and "n < 2 ^ 61"
  shows "sorted_wrt (<) (utc_readings K n usclock_vars_new) \<and> length (utc_readings K n usclock_vars_new) = n
    \<and> (\<forall>t \<in> set (utc_readings K n usclock_vars_new). ck_universal K 0 < t)"
proof (cases n)
  case (Suc m)
  let ?s = "ck_universal K 0"
  obtain l0 l v' where first: "utc_clock_now K usclock_vars_new = (Inr (?s + (l - l0)), v')" "l0 < l" "started v' ?s l0 l 2"
    by (rule utc_clock_first [OF assms(1,2), of usclock_vars_new]) (simp_all add: usclock_vars_new_def)
  have "?s + (l0 - l0) < ?s + (l - l0)"
    using first(2,3) by (intro add_less_word) (simp_all add: started_def)
  then show ?thesis
    using readings_increase [OF assms(1) first(3), of m] first(1) assms(3) Suc by force
qed simp

definition clock_set_back :: os_clock where
  \<comment> \<open>the clock of the system is set back by almost two hours after the fifth reading\<close>
  "clock_set_back = \<lparr>ck_timeofday = (\<lambda>i. \<lparr>tv_sec = (if i < 5 then 7000 else 10), tv_usec = 0\<rparr>),
     ck_universal = (\<lambda>i. 6999000000), ck_left_first = True\<rparr>"

lemma clock_set_back_ok:
  "in_range clock_set_back" "ck_left_first clock_set_back" "ck_universal clock_set_back 0 = 6999000000"
  by (simp_all add: in_range_def os_reading_def clock_set_back_def)

lemma utc_clock_increases_witness:
  "\<exists>a b c. utc_readings clock_set_back 3 usclock_vars_new = [a, b, c] \<and> 6999000000 < a \<and> a < b \<and> b < c"
proof -
  have "sorted_wrt (<) (utc_readings clock_set_back 3 usclock_vars_new) \<and> length (utc_readings clock_set_back 3 usclock_vars_new) = 3
      \<and> (\<forall>t \<in> set (utc_readings clock_set_back 3 usclock_vars_new). 6999000000 < t)"
    using utc_clock_increases [OF clock_set_back_ok(1,2), of 3] by (simp add: clock_set_back_ok(3))
  moreover have "\<exists>a b c. ts = [a, b, c]" if "length ts = 3" for ts :: "u64 list"
    using that by (auto simp: length_Suc_conv numeral_3_eq_3)
  ultimately show ?thesis by fastforce
qed

end
