(* ===== verification/FileShare.thy ===== *)
theory FileShare
  imports Blowfish BlockChain
begin

text \<open>
  libs/bitblocks/block.hpp and the part of libs/bitblocks/node.cpp that works on one node: a file
  is cut into blocks of a megabyte, encrypted with a key made from its name and stored under
  the hashes of the blocks; a last block, encrypted too, lists the hashes. The key and the
  hash of that block name the file (\<open>key_hash\<close>).

  The database, SHA-1, base64 and the hash of the file name are the third-party code of the
  record \<open>env\<close>; \<open>share_env\<close> adds the packing of the two structs, the path functions of
  boost::filesystem and the values C++ leaves uninitialised. The file system is a map from path
  names to contents; directories are not modelled.
\<close>

section \<open>Data\<close>

record shared_block = \<comment> \<open>\<open>struct block\<close>\<close>
  sb_publish_date :: u64
  sb_last_request :: u64
  sb_total_btc :: u64
  sb_total_requests :: u64
  sb_payto_address :: string
  sb_data :: bytes

record metafile =
  mf_name :: string
  mf_size :: u64
  mf_blocks :: "sha1 list"

record user_id =
  ui_ip :: u32
  ui_port :: u16

definition user_id_greater :: "user_id \<Rightarrow> user_id \<Rightarrow> bool" where
  "user_id_greater l r \<longleftrightarrow> ui_ip l > ui_ip r \<or> (ui_ip l = ui_ip r \<and> ui_port l > ui_port r)"

definition user_id_equal :: "user_id \<Rightarrow> user_id \<Rightarrow> bool" where
  "user_id_equal l r \<longleftrightarrow> ui_ip l = ui_ip r \<and> ui_ip l = ui_ip r"

record user_info =
  uf_created_utc :: u64
  uf_last_recv_utc :: u64
  uf_payto_address :: string
  uf_receive_address :: string
  uf_total_received :: u64
  uf_total_spent :: u64
  uf_total_earned :: u64
  uf_total_paid :: u64

definition user_balance :: "user_info \<Rightarrow> int" where
  \<comment> \<open>computed on \<open>uint64_t\<close> and converted to \<open>int64_t\<close>\<close>
  "user_balance u = sint (uf_total_received u + uf_total_earned u - uf_total_spent u - uf_total_paid u)"

record 'd share_env =
  se_env :: "'d env"
  se_block :: "shared_block codec"
  se_pack_metafile :: "bytes \<Rightarrow> metafile \<Rightarrow> bytes" \<comment> \<open>\<open>raw::pack\<close> into a vector with that contents\<close>
  se_unpack_metafile :: "bytes \<Rightarrow> exn + metafile"
  se_filename :: "string \<Rightarrow> string"
  se_join :: "string \<Rightarrow> string \<Rightarrow> string"
  se_blank_block :: shared_block
  se_blank_cipher :: blowfish
  se_blank_hash :: bytes

record 'd share_node =
  sn_blocks :: 'd
  sn_files :: "string \<Rightarrow> bytes option"

section \<open>Keys and names\<close>

fun decimal :: "nat \<Rightarrow> string" where
  \<comment> \<open>\<open>operator<<\<close> of an unsigned integer\<close>
  "decimal n = (if n < 10 then [char_of (48 + n)] else decimal (n div 10) @ [char_of (48 + n mod 10)])"

declare decimal.simps [simp del]

definition c_str :: "string \<Rightarrow> bytes" where
  "c_str s = map byte_of_char s"

definition share_key :: "'d share_env \<Rightarrow> string \<Rightarrow> string" where
  \<comment> \<open>\<open>bf_key\<close>: the hash of the path in decimal\<close>
  "share_key E filename = decimal (unat (e_super_fast_hash (se_env E) (c_str filename)))"

definition share_cipher :: "'d share_env \<Rightarrow> string \<Rightarrow> exn + blowfish" where
  \<comment> \<open>\<open>gpm::blowfish bf; bf.start( bf_key )\<close>\<close>
  "share_cipher E bf_key =
     (case blowfish_start (c_str bf_key) (length bf_key) \<lparr>m_uil = 0, m_uir = 0\<rparr> (se_blank_cipher E) of
        (Inl e, _) \<Rightarrow> Inl e
      | (Inr _, bf) \<Rightarrow> Inr bf)"

definition make_urn :: "'d share_env \<Rightarrow> string \<Rightarrow> sha1 \<Rightarrow> string" where
  "make_urn E bf_key hc = bf_key @ ''_'' @ e_base64_encode (se_env E) (sha1_to_bytes hc)"

definition split_urn :: "string \<Rightarrow> string \<times> string" where
  \<comment> \<open>without a \<open>'_'\<close>, \<open>sep\<close> is -1 and both parts are the whole string\<close>
  "split_urn key_meta =
     (case dropWhile (\<lambda>c. c \<noteq> CHR ''_'') key_meta of
        [] \<Rightarrow> (key_meta, key_meta)
      | _ # meta \<Rightarrow> (takeWhile (\<lambda>c. c \<noteq> CHR ''_'') key_meta, meta))"

definition urn_hash :: "'d share_env \<Rightarrow> string \<Rightarrow> exn + sha1" where
  \<comment> \<open>\<open>memcpy( hc.hash, hash.c_str(), hash.size() )\<close> into the twenty bytes of a new hash\<close>
  "urn_hash E meta =
     (let hash = e_base64_decode (se_env E) meta in
      if length hash > 20 then Inl (Undefined_Behaviour ''memcpy past the hash'')
      else Inr (sha1_of_bytes (overlay hash (se_blank_hash E))))"

section \<open>Blocks\<close>

definition block_limit :: nat where "block_limit = 1024 * 1024"

definition block_len :: "u64 \<Rightarrow> nat" where
  \<comment> \<open>\<open>std::min( size_t(1024*1024), size_t((len+7)/8)*8 )\<close>; \<open>len+7\<close> wraps\<close>
  "block_len len = min block_limit (unat ((len + 7) div 8 * 8))"

definition encrypt_vector :: "blowfish \<Rightarrow> bytes \<Rightarrow> exn + bytes" where
  \<comment> \<open>\<open>bf.encrypt( &v.front(), v.size() )\<close>\<close>
  "encrypt_vector bf v = (if v = [] then Inl (Undefined_Behaviour ''front of an empty vector'') else encrypt_buffer bf v ECB)"

definition decrypt_vector :: "blowfish \<Rightarrow> bytes \<Rightarrow> exn + bytes" where
  "decrypt_vector bf v = (if v = [] then Inl (Undefined_Behaviour ''front of an empty vector'') else decrypt_buffer bf v ECB)"

definition read_into :: "bytes \<Rightarrow> bytes \<Rightarrow> bytes" where
  \<comment> \<open>\<open>in.read( &v.front(), v.size() )\<close> where the stream has \<open>rest\<close> left: a short read leaves the tail of \<open>v\<close>\<close>
  "read_into rest v = overlay (take (length v) rest) v"

definition set_block :: "'d share_env \<Rightarrow> sha1 \<Rightarrow> shared_block \<Rightarrow> 'd \<Rightarrow> 'd" where
  \<comment> \<open>\<open>m_blocks.set\<close>\<close>
  "set_block E hc b d = kv_set (e_bdb (se_env E)) (e_sha1_key (se_env E)) (se_block E) hc b d"

definition get_block :: "'d share_env \<Rightarrow> sha1 \<Rightarrow> 'd \<Rightarrow> exn + shared_block option" where
  "get_block E hc d = kv_get (e_bdb (se_env E)) (e_sha1_key (se_env E)) (se_block E) hc d"

definition shared_block_new :: "'d share_env \<Rightarrow> shared_block" where
  \<comment> \<open>the default constructor leaves the numbers uninitialised\<close>
  "shared_block_new E = (se_blank_block E)\<lparr>sb_payto_address := [], sb_data := []\<rparr>"

definition store_block :: "'d share_env \<Rightarrow> sha1 \<Rightarrow> bytes \<Rightarrow> string \<Rightarrow> ('d share_node, unit) prog" where
  "store_block E hc d payto =
     modify (\<lambda>n. n\<lparr>sn_blocks := set_block E hc ((shared_block_new E)\<lparr>sb_payto_address := payto, sb_data := d\<rparr>) (sn_blocks n)\<rparr>)"

definition read_block :: "'d share_env \<Rightarrow> sha1 \<Rightarrow> u64 \<Rightarrow> u64 \<Rightarrow> ('d share_node, bytes) prog" where
  \<comment> \<open>a block that is not found is empty; \<open>start\<close> and \<open>len\<close> are not used\<close>
  "read_block E hc start len =
     bindP (asks sn_blocks) (\<lambda>d.
     bindP (liftE (get_block E hc d)) (\<lambda>found.
     ret (sb_data (case found of None \<Rightarrow> shared_block_new E | Some b \<Rightarrow> b))))"

definition on_blocks :: "('d, 'a) prog \<Rightarrow> ('d share_node, 'a) prog" where
  "on_blocks f n = (case f (sn_blocks n) of (r, d) \<Rightarrow> (r, n\<lparr>sn_blocks := d\<rparr>))"

section \<open>Importing a file\<close>

lemma length_read_into [simp]: "length (read_into rest v) = length v"
  by (simp add: read_into_def length_overlay)

lemma length_resize [simp]: "length (resize n v) = n"
  by (simp add: resize_def)

lemma block_len_nat: "block_len len = min block_limit ((unat len + 7) mod 2 ^ 64 div 8 * 8)"
proof -
  have "unat (w div 8 * 8 :: u64) = unat w div 8 * 8" for w
  proof -
    have "unat w div 8 * 8 < 2 ^ 64"
      using unsigned_less [of w, where 'a = nat] by (intro order_le_less_trans [OF div_times_less_eq_dividend]) simp
    moreover have "unat (w div 8 * 8) = unat w div 8 * 8 mod 2 ^ 64"
      by (simp only: unat_word_ariths unat_div) (simp add: mod_mult_left_eq)
    ultimately show ?thesis by (simp only: mod_less)
  qed
  moreover have "unat (len + 7) = (unat len + 7) mod 2 ^ 64"
    by (simp only: unat_word_ariths) simp
  ultimately show ?thesis by (simp only: block_len_def)
qed

lemma block_len_wraps:
  assumes "2 ^ 64 \<le> unat len + 7"
  shows "block_len len = 0"
proof -
  have "unat len < 2 ^ 64" using unsigned_less [of len, where 'a = nat] by simp
  then have small: "unat len + 7 - 2 ^ 64 < 8" by linarith
  moreover have "(unat len + 7) mod 2 ^ 64 = (unat len + 7 - 2 ^ 64) mod 2 ^ 64" by (rule le_mod_geq [OF assms])
  moreover have "unat len + 7 - 2 ^ 64 < 2 ^ 64" by (rule order_less_trans [OF small]) simp
  ultimately have "(unat len + 7) mod 2 ^ 64 div 8 = 0" by (simp only: mod_less div_less)
  then show ?thesis by (simp add: block_len_nat)
qed

definition import_measure :: "nat \<Rightarrow> nat" where
  \<comment> \<open>after a short block \<open>len\<close> is just below 2 ^ 64 and the next block is empty\<close>
  "import_measure l = (if l = 0 then 0 else if 2 ^ 64 \<le> l + 7 then 1 else l + 1)"

lemma block_len_decreases:
  assumes "len > 0" and "block_len len \<noteq> 0"
  shows "import_measure (unat (len - of_nat (block_len len))) < import_measure (unat len)"
proof -
  define l where "l = unat len"
  define n where "n = block_len len"
  have l: "0 < l" "l < 2 ^ 64" using assms(1) unsigned_less [of len, where 'a = nat] by (simp_all add: l_def word_less_nat_alt)
  have fits: "l + 7 < 2 ^ 64" using assms(2) block_len_wraps [of len] by (auto simp only: l_def not_less [symmetric])
  have "n = min block_limit ((l + 7) div 8 * 8)"
    using fits by (simp only: n_def block_len_nat l_def mod_less)
  then have n: "n \<le> l + 7" "0 < n" "n \<le> block_limit"
    using assms(2) order_trans [OF min.cobounded2 div_times_less_eq_dividend [of "l + 7" 8]]
    by (auto simp only: n_def [symmetric] min.cobounded1 neq0_conv)
  have "unat (of_nat n :: u64) = n" using n(3) by (intro unat_of_nat_u64) (simp add: block_limit_def)
  then have "unat (len - of_nat n) = (if n \<le> l then l - n else l + 2 ^ 64 - n)"
    by (simp add: unat_sub_if' l_def)
  moreover have "import_measure (if n \<le> l then l - n else l + 2 ^ 64 - n) < import_measure l"
    using l n fits by (auto simp: import_measure_def)
  ultimately show ?thesis by (simp add: n_def l_def)
qed

function import_loop ::
  "'d share_env \<Rightarrow> blowfish \<Rightarrow> bytes \<Rightarrow> u64 \<Rightarrow> shared_block \<Rightarrow> sha1 list \<Rightarrow> ('d, blowfish \<times> shared_block \<times> sha1 list) prog" where
  \<comment> \<open>\<open>rest\<close> is what the stream has left, \<open>len\<close> what the code believes it has left\<close>
  "import_loop E bf rest len b blocks d =
     (if \<not> len > 0 then (Inr (bf, b, blocks), d)
      else let n = block_len len; v = read_into rest (resize n (sb_data b)) in
        case encrypt_vector bf v of
          Inl e \<Rightarrow> (Inl e, d)
        | Inr c \<Rightarrow>
            let b = b\<lparr>sb_data := c\<rparr>; hc = e_sha1 (se_env E) c in
            import_loop E (reset_chain bf) (drop n rest) (len - of_nat n) b (blocks @ [hc]) (set_block E hc b d))"
  by pat_completeness auto

termination
proof (relation "measure (\<lambda>(E, bf, rest, len, b, blocks, d). import_measure (unat len))", goal_cases)
  case (2 E bf rest len b blocks d n v c b' hc)
  then have "block_len len \<noteq> 0" by (auto simp: encrypt_vector_def resize_def read_into_def overlay_def split: if_splits)
  then show ?case using block_len_decreases [of len] 2 by simp
qed simp

declare import_loop.simps [simp del]

definition pad8 :: "bytes \<Rightarrow> bytes" where
  "pad8 v = resize ((length v + 7) div 8 * 8) v"

definition seal_metafile :: "'d share_env \<Rightarrow> blowfish \<Rightarrow> bytes \<Rightarrow> metafile \<Rightarrow> exn + bytes" where
  \<comment> \<open>pack the metafile into the vector of the last block, pad and encrypt it\<close>
  "seal_metafile E bf v mf = encrypt_vector bf (pad8 (se_pack_metafile E v mf))"

definition import_file :: "'d share_env \<Rightarrow> string \<Rightarrow> ('d share_node, string) prog" where
  "import_file E filename =
     bindP (asks (\<lambda>n. sn_files n filename)) (\<lambda>file.
     case file of
       None \<Rightarrow> ret ''file does not exist''
     | Some contents \<Rightarrow>
         let bf_key = share_key E filename; len = of_nat (length contents);
             b = (shared_block_new E)\<lparr>sb_data := resize block_limit []\<rparr> in
         bindP (liftE (share_cipher E bf_key)) (\<lambda>bf.
         bindP (on_blocks (import_loop E bf contents len b [])) (\<lambda>(bf, b, blocks).
         let mf = \<lparr>mf_name = se_filename E filename, mf_size = len, mf_blocks = blocks\<rparr> in
         bindP (liftE (seal_metafile E bf (sb_data b) mf)) (\<lambda>c.
         let hc = e_sha1 (se_env E) c in
         bindP (modify (\<lambda>n. n\<lparr>sn_blocks := set_block E hc (b\<lparr>sb_data := c\<rparr>) (sn_blocks n)\<rparr>)) (\<lambda>_.
         ret (make_urn E bf_key hc))))))"

section \<open>Exporting a file\<close>

primrec export_loop ::
  "'d share_env \<Rightarrow> blowfish \<Rightarrow> 'd \<Rightarrow> u64 \<Rightarrow> sha1 list \<Rightarrow> shared_block \<Rightarrow> u64 \<Rightarrow> (bytes, unit) prog" where
  \<comment> \<open>the state is what was written; a block that is not found leaves \<open>b\<close> as it was\<close>
  "export_loop E bf d fsize [] b len out = (Inr (), out)"
| "export_loop E bf d fsize (hc # blocks) b len out =
     (case get_block E hc d of
        Inl e \<Rightarrow> (Inl e, out)
      | Inr found \<Rightarrow>
          let b = (case found of None \<Rightarrow> b | Some x \<Rightarrow> x) in
          (case decrypt_vector bf (sb_data b) of
             Inl e \<Rightarrow> (Inl e, out)
           | Inr v \<Rightarrow>
               let nlen = len + of_nat (length v); nlen = (if nlen > fsize then fsize else nlen) in
               export_loop E (reset_chain bf) d fsize blocks (b\<lparr>sb_data := v\<rparr>) nlen (out @ take (unat (nlen - len)) v)))"

definition write_file :: "string \<Rightarrow> (bytes, unit) prog \<Rightarrow> ('d share_node, unit) prog" where
  \<comment> \<open>an \<open>ofstream\<close>: the file is created empty, and keeps what was written when an exception passes\<close>
  "write_file path body n = (case body [] of (r, out) \<Rightarrow> (r, n\<lparr>sn_files := (sn_files n)(path \<mapsto> out)\<rparr>))"

definition export_file :: "'d share_env \<Rightarrow> string \<Rightarrow> string \<Rightarrow> ('d share_node, unit) prog" where
  "export_file E key_meta dir =
     (case split_urn key_meta of (bf_key, meta) \<Rightarrow>
      bindP (liftE (urn_hash E meta)) (\<lambda>hc.
      bindP (asks sn_blocks) (\<lambda>d.
      bindP (liftE (get_block E hc d)) (\<lambda>found.
      let b = (case found of None \<Rightarrow> shared_block_new E | Some b \<Rightarrow> b) in
      bindP (liftE (share_cipher E bf_key)) (\<lambda>bf.
      bindP (liftE (decrypt_vector bf (sb_data b))) (\<lambda>v.
      bindP (liftE (se_unpack_metafile E v)) (\<lambda>mf.
      write_file (se_join E dir (mf_name mf))
        (export_loop E (reset_chain bf) d (mf_size mf) (mf_blocks mf) (b\<lparr>sb_data := v\<rparr>) 0))))))))"

end
