(* ===== verification/PeerNode.thy ===== *)
theory PeerNode
  imports FileShare Protocol
begin

text \<open>
  libs/bitblocks/node.hpp, protocol.hpp and the part of libs/bitblocks/node.cpp that talks to
  other nodes: connections with their reads, writes and pending requests, and the uploads and
  downloads that are driven by the completion of writes and by answers.

  The objects that callbacks point to (\<open>upload_file_state\<close>, \<open>download_urn_state\<close>) live in lists
  and are named by their position; a deleted one is \<open>None\<close>, and calling it is undefined. A
  function object of the caller is a number; \<open>ns_calls\<close> records the calls of them. A write is the
  packed message and what to call when it completes.
\<close>

section \<open>Messages\<close>

record create_account =
  ca_btc_address :: string

record store_block_msg = \<comment> \<open>\<open>proto::store_block\<close>\<close>
  sm_payto_address :: string
  sm_data :: bytes

record request_block_msg =
  rq_request_id :: u64
  rq_block_id :: sha1
  rq_start :: u64
  rq_len :: u64

record report_block_msg =
  rp_request_id :: u64
  rp_start :: u64
  rp_data :: bytes

definition create_account_id :: u16 where "create_account_id = 1"
definition store_block_id :: u16 where "store_block_id = 2"
definition request_block_id :: u16 where "request_block_id = 3"
definition report_block_id :: u16 where "report_block_id = 4"

lemmas share_ids = create_account_id_def store_block_id_def request_block_id_def report_block_id_def

record share_wire =
  wr_message :: "message \<Rightarrow> bytes"
  wr_create_account :: "create_account codec"
  wr_store_block :: "store_block_msg codec"
  wr_request_block :: "request_block_msg codec"
  wr_report_block :: "report_block_msg codec"

section \<open>State\<close>

datatype closure =
    No_Closure
  | Send_Block nat
  | Cleanup nat string
  | Meta_Block_Complete nat
  | Block_Complete nat nat

datatype callback = \<comment> \<open>a call of a function object of the user, with its arguments\<close>
    Upload_Done nat string bool
  | Download_Done nat bool

record share_peer =
  pc_remote_btc_address :: string
  pc_requests :: "(u64, nat \<times> closure) omap" \<comment> \<open>whose \<open>blk_data\<close> the answer goes to, and what to call\<close>
  pc_next_req_id :: u64
  pc_msg :: message
  pc_msg_size :: u32
  pc_step :: nat
  pc_wanted :: nat
  pc_input :: bytes
  pc_writes :: "(bytes \<times> closure) list"

record upload_file_state =
  up_len :: u64
  up_mf :: metafile
  up_bf_key :: string
  up_bf :: blowfish
  up_cur_block :: shared_block
  up_payto :: string
  up_closure :: "nat option"
  up_in :: bytes

record download_urn_state =
  dn_bf_key :: string
  dn_hc :: sha1
  dn_c :: "nat option"
  dn_bf :: blowfish
  dn_ofile :: string
  dn_mf :: metafile
  dn_dir :: string
  dn_blk_data :: bytes

record 'd net_state =
  ns_node :: "'d share_node"
  ns_peers :: "share_peer list"
  ns_connections :: "nat list"
  ns_uploads :: "upload_file_state option list"
  ns_downloads :: "download_urn_state option list"
  ns_calls :: "callback list"
  ns_accepting :: bool

definition on_share :: "('d share_node, 'a) prog \<Rightarrow> ('d net_state, 'a) prog" where
  "on_share f s = (case f (ns_node s) of (r, n) \<Rightarrow> (r, s\<lparr>ns_node := n\<rparr>))"

definition change_peer :: "nat \<Rightarrow> (share_peer \<Rightarrow> share_peer) \<Rightarrow> ('d net_state, unit) prog" where
  "change_peer i f = modify (\<lambda>s. s\<lparr>ns_peers := (ns_peers s)[i := f (ns_peers s ! i)]\<rparr>)"

definition the_upload :: "nat \<Rightarrow> ('d net_state, upload_file_state) prog" where
  "the_upload u =
     bindP (asks (\<lambda>s. if u < length (ns_uploads s) then ns_uploads s ! u else None)) (\<lambda>x.
     case x of None \<Rightarrow> throw (Undefined_Behaviour ''upload_file_state deleted'') | Some st \<Rightarrow> ret st)"

definition set_upload :: "nat \<Rightarrow> upload_file_state option \<Rightarrow> ('d net_state, unit) prog" where
  "set_upload u x = modify (\<lambda>s. s\<lparr>ns_uploads := (ns_uploads s)[u := x]\<rparr>)"

definition the_download :: "nat \<Rightarrow> ('d net_state, download_urn_state) prog" where
  "the_download i =
     bindP (asks (\<lambda>s. if i < length (ns_downloads s) then ns_downloads s ! i else None)) (\<lambda>x.
     case x of None \<Rightarrow> throw (Undefined_Behaviour ''download_urn_state deleted'') | Some st \<Rightarrow> ret st)"

definition set_download :: "nat \<Rightarrow> download_urn_state option \<Rightarrow> ('d net_state, unit) prog" where
  "set_download i x = modify (\<lambda>s. s\<lparr>ns_downloads := (ns_downloads s)[i := x]\<rparr>)"

definition call_back :: "(nat \<Rightarrow> callback) \<Rightarrow> nat option \<Rightarrow> ('d net_state, unit) prog" where
  \<comment> \<open>\<open>if( c ) c(...)\<close>\<close>
  "call_back f c = (case c of None \<Rightarrow> ret () | Some k \<Rightarrow> modify (\<lambda>s. s\<lparr>ns_calls := ns_calls s @ [f k]\<rparr>))"

section \<open>Sending\<close>

definition peer_send :: "share_wire \<Rightarrow> nat \<Rightarrow> message \<Rightarrow> closure \<Rightarrow> ('d net_state, unit) prog" where
  \<comment> \<open>\<open>connection::send\<close>\<close>
  "peer_send W i m c = change_peer i (\<lambda>p. p\<lparr>pc_writes := pc_writes p @ [(wr_message W m, c)]\<rparr>)"

definition upload_block :: "share_wire \<Rightarrow> string \<Rightarrow> bytes \<Rightarrow> closure \<Rightarrow> ('d net_state, unit) prog" where
  "upload_block W payto d c =
     bindP (asks ns_connections) (\<lambda>cs.
     case cs of
       [] \<Rightarrow> throw (Gpm_Exception ''No connections'')
     | i # _ \<Rightarrow> peer_send W i (message_of (wr_store_block W) store_block_id \<lparr>sm_payto_address = payto, sm_data = d\<rparr>) c)"

definition request_block :: "share_wire \<Rightarrow> nat \<Rightarrow> sha1 \<Rightarrow> nat \<Rightarrow> u64 \<Rightarrow> u64 \<Rightarrow> closure \<Rightarrow> ('d net_state, unit) prog" where
  \<comment> \<open>\<open>connection::request_block\<close>; the answer goes to the \<open>blk_data\<close> of download \<open>dest\<close>\<close>
  "request_block W i hc dest start len c =
     bindP (change_peer i (\<lambda>p. p\<lparr>pc_next_req_id := pc_next_req_id p + 1,
       pc_requests := om_set (pc_next_req_id p + 1) (dest, c) (pc_requests p)\<rparr>)) (\<lambda>_.
     bindP (asks (\<lambda>s. pc_next_req_id (ns_peers s ! i))) (\<lambda>rid.
     peer_send W i (message_of (wr_request_block W) request_block_id
       \<lparr>rq_request_id = rid, rq_block_id = hc, rq_start = start, rq_len = len\<rparr>) No_Closure))"

definition download_block :: "share_wire \<Rightarrow> sha1 \<Rightarrow> nat \<Rightarrow> closure \<Rightarrow> ('d net_state, unit) prog" where
  "download_block W hc dest c =
     bindP (asks ns_connections) (\<lambda>cs.
     case cs of
       [] \<Rightarrow> throw (Undefined_Behaviour ''front of an empty list'')
     | i # _ \<Rightarrow> request_block W i hc dest 0 (-1) c)"

section \<open>Uploading a file\<close>

definition send_block :: "'d share_env \<Rightarrow> share_wire \<Rightarrow> nat \<Rightarrow> bool \<Rightarrow> ('d net_state, unit) prog" where
  "send_block E W u ec =
     bindP (the_upload u) (\<lambda>st.
     if ec then
       bindP (call_back (\<lambda>k. Upload_Done k ''Error'' ec) (up_closure st)) (\<lambda>_. set_upload u None)
     else if up_len st > 0 then
       let v = read_into (up_in st) (resize (block_len (up_len st)) (sb_data (up_cur_block st))) in
       bindP (liftE (encrypt_vector (up_bf st) v)) (\<lambda>c.
       bindP (set_upload u (Some (st\<lparr>up_cur_block := (up_cur_block st)\<lparr>sb_data := c\<rparr>, up_bf := reset_chain (up_bf st),
         up_mf := (up_mf st)\<lparr>mf_blocks := mf_blocks (up_mf st) @ [e_sha1 (se_env E) c]\<rparr>,
         up_len := up_len st - of_nat (length c), up_in := drop (length v) (up_in st)\<rparr>))) (\<lambda>_.
       upload_block W (up_payto st) c (Send_Block u)))
     else
       bindP (liftE (seal_metafile E (up_bf st) (sb_data (up_cur_block st)) (up_mf st))) (\<lambda>c.
       bindP (set_upload u (Some (st\<lparr>up_cur_block := (up_cur_block st)\<lparr>sb_data := c\<rparr>\<rparr>))) (\<lambda>_.
       let urn = make_urn E (up_bf_key st) (e_sha1 (se_env E) c) in
       upload_block W (up_payto st) c (Cleanup u urn))))"

definition cleanup :: "nat \<Rightarrow> bool \<Rightarrow> string \<Rightarrow> ('d net_state, unit) prog" where
  "cleanup u ec urn =
     bindP (the_upload u) (\<lambda>st.
     bindP (call_back (\<lambda>k. Upload_Done k urn ec) (up_closure st)) (\<lambda>_. set_upload u None))"

definition destroy_on_throw :: "('s, unit) prog \<Rightarrow> ('s, unit) prog \<Rightarrow> ('s, unit) prog" where
  \<comment> \<open>an exception in a constructor frees the object before it goes on\<close>
  "destroy_on_throw f d s = (case f s of (Inl e, s') \<Rightarrow> (Inl e, snd (d s')) | r \<Rightarrow> r)"

definition upload_file :: "'d share_env \<Rightarrow> share_wire \<Rightarrow> string \<Rightarrow> string \<Rightarrow> nat option \<Rightarrow> ('d net_state, unit) prog" where
  \<comment> \<open>with the constructor of \<open>upload_file_state\<close>\<close>
  "upload_file E W payto filename c =
     bindP (asks (\<lambda>s. sn_files (ns_node s) filename)) (\<lambda>file.
     case file of
       None \<Rightarrow> throw (Gpm_Exception ''file does not exist'')
     | Some contents \<Rightarrow>
         let bf_key = share_key E filename; len = of_nat (length contents) in
         bindP (liftE (share_cipher E bf_key)) (\<lambda>bf.
         bindP (asks (\<lambda>s. length (ns_uploads s))) (\<lambda>u.
         let st = \<lparr>up_len = len, up_mf = \<lparr>mf_name = se_filename E filename, mf_size = len, mf_blocks = []\<rparr>,
                   up_bf_key = bf_key, up_bf = bf, up_cur_block = (shared_block_new E)\<lparr>sb_data := resize block_limit []\<rparr>,
                   up_payto = payto, up_closure = c, up_in = contents\<rparr> in
         bindP (modify (\<lambda>s. s\<lparr>ns_uploads := ns_uploads s @ [Some st]\<rparr>)) (\<lambda>_.
         destroy_on_throw (send_block E W u False) (set_upload u None)))))"

section \<open>Downloading a file\<close>

definition download_urn :: "'d share_env \<Rightarrow> share_wire \<Rightarrow> string \<Rightarrow> string \<Rightarrow> nat option \<Rightarrow> ('d net_state, unit) prog" where
  \<comment> \<open>with the constructor of \<open>download_urn_state\<close>; the cipher, the file and the metafile are set later\<close>
  "download_urn E W urn dir c =
     (case split_urn urn of (bf_key, meta) \<Rightarrow>
      bindP (liftE (urn_hash E meta)) (\<lambda>hc.
      bindP (asks (\<lambda>s. length (ns_downloads s))) (\<lambda>i.
      let st = \<lparr>dn_bf_key = bf_key, dn_hc = hc, dn_c = c, dn_bf = se_blank_cipher E, dn_ofile = [],
                dn_mf = \<lparr>mf_name = [], mf_size = 0, mf_blocks = []\<rparr>, dn_dir = dir, dn_blk_data = []\<rparr> in
      bindP (modify (\<lambda>s. s\<lparr>ns_downloads := ns_downloads s @ [Some st]\<rparr>)) (\<lambda>_.
      destroy_on_throw (download_block W hc i (Meta_Block_Complete i)) (set_download i None)))))"

definition finish_download :: "nat \<Rightarrow> bool \<Rightarrow> ('d net_state, unit) prog" where
  \<comment> \<open>\<open>if( c ) c(ec); delete this\<close>\<close>
  "finish_download i ec =
     bindP (the_download i) (\<lambda>st.
     bindP (call_back (\<lambda>k. Download_Done k ec) (dn_c st)) (\<lambda>_. set_download i None))"

definition append_file :: "string \<Rightarrow> bytes \<Rightarrow> ('d share_node, unit) prog" where
  "append_file path d =
     modify (\<lambda>n. n\<lparr>sn_files := (sn_files n)(path \<mapsto> (case sn_files n path of None \<Rightarrow> [] | Some old \<Rightarrow> old) @ d)\<rparr>)"

definition meta_block_complete :: "'d share_env \<Rightarrow> share_wire \<Rightarrow> nat \<Rightarrow> bool \<Rightarrow> ('d net_state, unit) prog" where
  "meta_block_complete E W i ec =
     bindP (the_download i) (\<lambda>st.
     if \<not> ec then
       bindP (liftE (share_cipher E (dn_bf_key st))) (\<lambda>bf.
       bindP (set_download i (Some (st\<lparr>dn_bf := bf\<rparr>))) (\<lambda>_.
       bindP (liftE (decrypt_vector bf (dn_blk_data st))) (\<lambda>v.
       bindP (set_download i (Some (st\<lparr>dn_bf := reset_chain bf, dn_blk_data := v\<rparr>))) (\<lambda>_.
       bindP (liftE (se_unpack_metafile E v)) (\<lambda>mf.
       let path = se_join E (dn_dir st) (mf_name mf) in
       bindP (set_download i (Some (st\<lparr>dn_bf := reset_chain bf, dn_blk_data := v, dn_mf := mf, dn_ofile := path\<rparr>))) (\<lambda>_.
       bindP (on_share (modify (\<lambda>n. n\<lparr>sn_files := (sn_files n)(path \<mapsto> [])\<rparr>))) (\<lambda>_.
       case mf_blocks mf of
         hc # _ \<Rightarrow> download_block W hc i (Block_Complete i 0)
       | [] \<Rightarrow> finish_download i ec)))))))
     else
       bindP (case dn_c st of None \<Rightarrow> throw (Gpm_Exception ''bad_function_call'')
         | Some k \<Rightarrow> call_back (\<lambda>k. Download_Done k ec) (Some k)) (\<lambda>_. set_download i None))"

definition block_complete :: "'d share_env \<Rightarrow> share_wire \<Rightarrow> nat \<Rightarrow> nat \<Rightarrow> bool \<Rightarrow> ('d net_state, unit) prog" where
  "block_complete E W i k ec =
     bindP (the_download i) (\<lambda>st.
     if ec then finish_download i ec
     else
       bindP (if dn_blk_data st \<noteq> [] then
                bindP (liftE (decrypt_vector (dn_bf st) (dn_blk_data st))) (\<lambda>v.
                bindP (set_download i (Some (st\<lparr>dn_blk_data := v, dn_bf := reset_chain (dn_bf st)\<rparr>))) (\<lambda>_.
                on_share (append_file (dn_ofile st) v)))
              else ret ()) (\<lambda>_.
       if k + 1 < length (mf_blocks (dn_mf st)) then
         download_block W (mf_blocks (dn_mf st) ! (k + 1)) i (Block_Complete i (k + 1))
       else finish_download i ec))"

section \<open>Completions\<close>

fun run_closure :: "'d share_env \<Rightarrow> share_wire \<Rightarrow> closure \<Rightarrow> bool \<Rightarrow> ('d net_state, unit) prog" where
  \<comment> \<open>the call of a \<open>boost::function\<close>; an empty one throws\<close>
  "run_closure E W No_Closure ec = throw (Gpm_Exception ''bad_function_call'')"
| "run_closure E W (Send_Block u) ec = send_block E W u ec"
| "run_closure E W (Cleanup u urn) ec = cleanup u ec urn"
| "run_closure E W (Meta_Block_Complete i) ec = meta_block_complete E W i ec"
| "run_closure E W (Block_Complete i k) ec = block_complete E W i k ec"

definition handle_write_complete :: "'d share_env \<Rightarrow> share_wire \<Rightarrow> nat \<Rightarrow> bool \<Rightarrow> ('d net_state, unit) prog" where
  \<comment> \<open>the first write of a connection completes; without a closure an error is only printed\<close>
  "handle_write_complete E W i ec =
     bindP (asks (\<lambda>s. pc_writes (ns_peers s ! i))) (\<lambda>ws.
     case ws of
       [] \<Rightarrow> ret ()
     | (_, c) # rest \<Rightarrow> bindP (change_peer i (\<lambda>p. p\<lparr>pc_writes := rest\<rparr>)) (\<lambda>_.
         if c = No_Closure then ret () else run_closure E W c ec))"

section \<open>Receiving\<close>

definition peer_create_account :: "share_wire \<Rightarrow> nat \<Rightarrow> message \<Rightarrow> ('d net_state, unit) prog" where
  "peer_create_account W i msg =
     bindP (liftE (cast_message (wr_create_account W) create_account_id msg)) (\<lambda>ca.
     change_peer i (\<lambda>p. p\<lparr>pc_remote_btc_address := ca_btc_address ca\<rparr>))"

definition peer_store_block :: "'d share_env \<Rightarrow> share_wire \<Rightarrow> message \<Rightarrow> ('d net_state, unit) prog" where
  "peer_store_block E W msg =
     bindP (liftE (cast_message (wr_store_block W) store_block_id msg)) (\<lambda>sb.
     if sm_data sb = [] then throw (Undefined_Behaviour ''front of an empty vector'')
     else on_share (store_block E (e_sha1 (se_env E) (sm_data sb)) (sm_data sb) (sm_payto_address sb)))"

definition peer_request_block :: "'d share_env \<Rightarrow> share_wire \<Rightarrow> nat \<Rightarrow> message \<Rightarrow> ('d net_state, unit) prog" where
  "peer_request_block E W i msg =
     bindP (liftE (cast_message (wr_request_block W) request_block_id msg)) (\<lambda>req.
     bindP (on_share (read_block E (rq_block_id req) (rq_start req) (rq_len req))) (\<lambda>d.
     peer_send W i (message_of (wr_report_block W) report_block_id
       \<lparr>rp_request_id = rq_request_id req, rp_start = rq_start req, rp_data = d\<rparr>) No_Closure))"

definition peer_report_block :: "'d share_env \<Rightarrow> share_wire \<Rightarrow> nat \<Rightarrow> message \<Rightarrow> ('d net_state, unit) prog" where
  \<comment> \<open>the request is erased after its closure ran; an unknown id is only printed\<close>
  "peer_report_block E W i msg =
     bindP (liftE (cast_message (wr_report_block W) report_block_id msg)) (\<lambda>rb.
     bindP (asks (\<lambda>s. om_find (rp_request_id rb) (pc_requests (ns_peers s ! i)))) (\<lambda>itr.
     case itr of
       None \<Rightarrow> ret ()
     | Some (dest, c) \<Rightarrow>
         bindP (the_download dest) (\<lambda>st.
         bindP (set_download dest (Some (st\<lparr>dn_blk_data := rp_data rb\<rparr>))) (\<lambda>_.
         bindP (run_closure E W c False) (\<lambda>_.
         change_peer i (\<lambda>p. p\<lparr>pc_requests := om_erase (rp_request_id rb) (pc_requests p)\<rparr>))))))"

definition peer_handle_message :: "'d share_env \<Rightarrow> share_wire \<Rightarrow> nat \<Rightarrow> message \<Rightarrow> ('d net_state, unit) prog" where
  "peer_handle_message E W i msg =
     (if m_id msg = create_account_id then peer_create_account W i msg
      else if m_id msg = store_block_id then peer_store_block E W msg
      else if m_id msg = request_block_id then peer_request_block E W i msg
      else if m_id msg = report_block_id then peer_report_block E W i msg
      else ret ())"

definition peer_async_read :: "nat \<Rightarrow> nat \<Rightarrow> share_peer \<Rightarrow> share_peer" where
  "peer_async_read st n p = p\<lparr>pc_step := st, pc_wanted := n\<rparr>"

definition peer_closed :: "nat \<Rightarrow> ('d net_state, unit) prog" where
  \<comment> \<open>\<open>node::closed\<close>: \<open>m_connections.erase( find(...) )\<close>\<close>
  "peer_closed i =
     bindP (asks ns_connections) (\<lambda>cs.
     if i \<in> set cs then modify (\<lambda>s. s\<lparr>ns_connections := remove1 i (ns_connections s)\<rparr>)
     else throw (Undefined_Behaviour ''erase( end() )''))"

definition peer_read_message :: "'d share_env \<Rightarrow> share_wire \<Rightarrow> nat \<Rightarrow> nat \<Rightarrow> bool \<Rightarrow> ('d net_state, unit) prog" where
  \<comment> \<open>\<open>connection::read_message\<close>: \<open>st\<close> is its state and \<open>ec\<close> the error of the read that completed\<close>
  "peer_read_message E W i st ec =
     (if ec then bindP (change_peer i (peer_async_read 0 0)) (\<lambda>_. peer_closed i)
      else if st = 0 then change_peer i (peer_async_read 1 2)
      else if st = 1 then change_peer i (peer_async_read 2 4)
      else if st = 2 then change_peer i (\<lambda>p. peer_async_read 3 (unat (pc_msg_size p)) p)
      else if st = 3 then
        bindP (change_peer i (peer_async_read 0 0)) (\<lambda>_.
        bindP (asks (\<lambda>s. pc_msg (ns_peers s ! i))) (\<lambda>msg.
        bindP (peer_handle_message E W i msg) (\<lambda>_.
        change_peer i (peer_async_read 1 2))))
      else ret ())"

definition peer_store_read :: "share_peer \<Rightarrow> share_peer" where
  \<comment> \<open>the outstanding read completes: the bytes go where the read was told to put them\<close>
  "peer_store_read p =
     (let bs = take (pc_wanted p) (pc_input p); p' = p\<lparr>pc_input := drop (pc_wanted p) (pc_input p)\<rparr> in
      if pc_step p = 1 then p'\<lparr>pc_msg := (pc_msg p)\<lparr>m_id := of_nat (le_val bs)\<rparr>\<rparr>
      else if pc_step p = 2 then p'\<lparr>pc_msg_size := of_nat (le_val bs)\<rparr>
      else p'\<lparr>pc_msg := (pc_msg p)\<lparr>m_data := bs\<rparr>\<rparr>)"

definition complete_read :: "'d share_env \<Rightarrow> share_wire \<Rightarrow> nat \<Rightarrow> ('d net_state, unit) prog" where
  \<comment> \<open>the outstanding read of a connection, if the bytes it waits for have arrived\<close>
  "complete_read E W i =
     bindP (asks (\<lambda>s. ns_peers s ! i)) (\<lambda>p.
     if pc_step p \<in> {1, 2, 3} \<and> pc_wanted p \<le> length (pc_input p) then
       bindP (change_peer i peer_store_read) (\<lambda>_. peer_read_message E W i (pc_step p) False)
     else ret ())"

definition bytes_arrive :: "nat \<Rightarrow> bytes \<Rightarrow> ('d net_state, unit) prog" where
  \<comment> \<open>bytes arrive at a socket\<close>
  "bytes_arrive i bs = change_peer i (\<lambda>p. p\<lparr>pc_input := pc_input p @ bs\<rparr>)"

section \<open>Connections\<close>

definition peer_new :: "u64 \<Rightarrow> share_peer" where
  \<comment> \<open>\<open>next_req_id\<close> is not initialised: its value is a parameter\<close>
  "peer_new rid = \<lparr>pc_remote_btc_address = [], pc_requests = om_empty, pc_next_req_id = rid, pc_msg = message_new,
     pc_msg_size = 0, pc_step = 0, pc_wanted = 0, pc_input = [], pc_writes = []\<rparr>"

definition add_peer :: "'d share_env \<Rightarrow> share_wire \<Rightarrow> u64 \<Rightarrow> ('d net_state, nat) prog" where
  \<comment> \<open>a connected socket: it starts and joins the list\<close>
  "add_peer E W rid =
     bindP (asks (\<lambda>s. length (ns_peers s))) (\<lambda>i.
     bindP (modify (\<lambda>s. s\<lparr>ns_peers := ns_peers s @ [peer_new rid], ns_connections := ns_connections s @ [i]\<rparr>)) (\<lambda>_.
     bindP (peer_read_message E W i 0 False) (\<lambda>_.
     ret i)))"

definition peer_handle_accept :: "'d share_env \<Rightarrow> share_wire \<Rightarrow> u64 \<Rightarrow> bool \<Rightarrow> ('d net_state, unit) prog" where
  "peer_handle_accept E W rid err =
     (if \<not> err then bindP (add_peer E W rid) (\<lambda>_. modify (\<lambda>s. s\<lparr>ns_accepting := True\<rparr>))
      else modify (\<lambda>s. s\<lparr>ns_accepting := False\<rparr>))"

partial_function (option) connect_loop :: "(nat \<Rightarrow> bool) \<Rightarrow> nat \<Rightarrow> nat option" where
  \<comment> \<open>\<open>while( error && epi != end )\<close>: nothing in the loop moves \<open>epi\<close>, so attempt \<open>k\<close> is always at the
    first endpoint; \<open>fails k\<close> tells whether it fails\<close>
  "connect_loop fails k = (if fails k then connect_loop fails (Suc k) else Some k)"

definition peer_connect_to :: "'d share_env \<Rightarrow> share_wire \<Rightarrow> u64 \<Rightarrow> nat \<Rightarrow> (nat \<Rightarrow> bool) \<Rightarrow> ('d net_state, nat option) prog" where
  \<comment> \<open>\<open>node::connect_to\<close> for a name that resolves to \<open>endpoints\<close> addresses; \<open>None\<close> is the null pointer\<close>
  "peer_connect_to E W rid endpoints fails =
     (if endpoints = 0 then ret None
      else bindP (loopP (\<lambda>s. map_option (\<lambda>k. (Inr (), s)) (connect_loop fails 0))) (\<lambda>_.
           bindP (add_peer E W rid) (\<lambda>i. ret (Some i))))"

end
