(* ===== verification/FileShareProofs.thy ===== *)
theory FileShareProofs
  imports FileShare BlowfishProofs
begin

text \<open>
  What importing a file stores, when it fails, and that exporting gives the file back. The
  functions \<open>chunks\<close>, \<open>file_parts\<close> and \<open>sealed_meta\<close> describe the stored blocks without the
  loop, its counter and its buffer.
\<close>

section \<open>Keys\<close>

lemma decimal_ne [simp]: "decimal n \<noteq> []"
  by (simp add: decimal.simps [of n])

lemma decimal_no_sep: "CHR ''_'' \<notin> set (decimal n)"
proof (induction n rule: decimal.induct)
  case (1 n)
  have "CHR ''_'' \<noteq> char_of (48 + k)" if "k < 10" for k :: nat
  proof
    assume "CHR ''_'' = char_of (48 + k)"
    then have "of_char CHR ''_'' = (of_char (char_of (48 + k)) :: nat)" by simp
    then show False using that by simp
  qed
  then show ?case using 1 by (auto simp: decimal.simps [of n])
qed

lemma split_make_urn:
  assumes "CHR ''_'' \<notin> set key"
  shows "split_urn (make_urn E key hc) = (key, e_base64_encode (se_env E) (sha1_to_bytes hc))"
proof -
  have "\<And>c. c \<in> set key \<Longrightarrow> c \<noteq> CHR ''_''" using assms by auto
  then have "dropWhile (\<lambda>c. c \<noteq> CHR ''_'') (key @ CHR ''_'' # s) = CHR ''_'' # s"
      "takeWhile (\<lambda>c. c \<noteq> CHR ''_'') (key @ CHR ''_'' # s) = key" for s
    by (simp_all add: dropWhile_append2 takeWhile_append2)
  then show ?thesis by (simp add: split_urn_def make_urn_def)
qed

lemma share_key_no_sep: "CHR ''_'' \<notin> set (share_key E filename)"
  by (simp add: share_key_def decimal_no_sep)

lemma share_key_ne [simp]: "share_key E filename \<noteq> []"
  by (simp add: share_key_def)

definition cipher_of :: "'d share_env \<Rightarrow> string \<Rightarrow> blowfish" where
  "cipher_of E key = projr (share_cipher E key)"

lemma share_cipher_of:
  assumes "key \<noteq> []"
  shows "share_cipher E key = Inr (cipher_of E key)" and "reset_chain (cipher_of E key) = cipher_of E key"
proof -
  let ?bf = "keyed \<lparr>m_uil = 0, m_uir = 0\<rparr> (take (min (length key) 56) (c_str key))"
  have "share_cipher E key = Inr ?bf"
    using assms by (simp add: share_cipher_def blowfish_start_eq c_str_def)
  moreover have "reset_chain ?bf = ?bf"
    using keyed_chain by (simp add: reset_chain_def)
  ultimately show "share_cipher E key = Inr (cipher_of E key)" "reset_chain (cipher_of E key) = cipher_of E key"
    by (simp_all add: cipher_of_def)
qed

section \<open>Blocks\<close>

abbreviation enc :: "blowfish \<Rightarrow> bytes \<Rightarrow> bytes" where
  "enc bf \<equiv> ecb_loop (encrypt_block bf)"

definition whole :: "bytes \<Rightarrow> bool" where
  "whole v \<longleftrightarrow> v \<noteq> [] \<and> 8 dvd length v"

lemma encrypt_whole: "whole v \<Longrightarrow> encrypt_vector bf v = Inr (enc bf v)"
  by (simp add: whole_def encrypt_vector_def encrypt_buffer_def ECB_def CBC_def CFB_def dvd_eq_mod_eq_0)

lemma decrypt_whole: "whole v \<Longrightarrow> decrypt_vector bf (enc bf v) = Inr v"
  using decrypt_encrypt_buffer [of bf v ECB "enc bf v"] encrypt_whole [of v bf]
  by (auto simp: decrypt_vector_def encrypt_vector_def whole_def)

function chunks :: "bytes \<Rightarrow> bytes list" where
  "chunks f = (if f = [] then [] else take block_limit f # chunks (drop block_limit f))"
  by pat_completeness auto

termination
  by (relation "measure length") (simp_all add: block_limit_def)

declare chunks.simps [simp del]

lemma concat_chunks: "concat (chunks f) = f"
  by (induction f rule: chunks.induct) (simp add: chunks.simps)

lemma chunks_whole:
  assumes "8 dvd length f" and "x \<in> set (chunks f)"
  shows "whole x \<and> length x \<le> block_limit"
  using assms
proof (induction f rule: chunks.induct)
  case (1 f)
  have "8 dvd length (drop block_limit f)"
    using 1(2) by (cases "block_limit \<le> length f") (auto simp: block_limit_def intro: dvd_diff_nat)
  moreover have "8 dvd length (take block_limit f)" using 1(2) by (simp add: block_limit_def min_def)
  ultimately show ?case
    using 1(1) 1(3) by (cases "f = []") (auto simp: chunks.simps [of f] chunks.simps [of "[]"] whole_def block_limit_def)
qed

lemma block_len_of:
  assumes "n < 2 ^ 63"
  shows "block_len (of_nat n) = min block_limit ((n + 7) div 8 * 8)"
proof -
  have "unat (of_nat n :: u64) = n" using assms by (intro unat_of_nat_u64) simp
  moreover have "(n + 7) mod 2 ^ 64 = n + 7" using assms by (intro mod_less) simp
  ultimately show ?thesis by (simp only: block_len_nat)
qed

lemma round_up8: "8 dvd n \<Longrightarrow> (n + 7) div 8 * 8 = (n :: nat)"
  by (auto elim!: dvdE)

lemma read_into_full: "n \<le> length rest \<Longrightarrow> read_into rest (resize n v) = take n rest"
  by (simp add: read_into_def overlay_full)

definition store_all :: "'d share_env \<Rightarrow> shared_block \<Rightarrow> bytes list \<Rightarrow> 'd \<Rightarrow> 'd" where
  "store_all E b cs = fold (\<lambda>c. set_block E (e_sha1 (se_env E) c) (b\<lparr>sb_data := c\<rparr>)) cs"

lemma import_step:
  assumes "len > 0" and "v = read_into rest (resize (block_len len) (sb_data b))" and "whole v" and "reset_chain bf = bf"
  shows "import_loop E bf rest len b blocks d =
    import_loop E bf (drop (block_len len) rest) (len - of_nat (block_len len)) (b\<lparr>sb_data := enc bf v\<rparr>)
      (blocks @ [e_sha1 (se_env E) (enc bf v)]) (set_block E (e_sha1 (se_env E) (enc bf v)) (b\<lparr>sb_data := enc bf v\<rparr>) d)"
  using assms by (subst import_loop.simps) (simp add: encrypt_whole Let_def)

lemma import_loop_whole:
  assumes bf: "reset_chain bf = bf" and "8 dvd length rest" and "length rest < 2 ^ 63"
  defines "cs \<equiv> map (enc bf) (chunks rest)"
  shows "import_loop E bf rest (of_nat (length rest)) b blocks d
    = (Inr (bf, b\<lparr>sb_data := last (sb_data b # cs)\<rparr>, blocks @ map (e_sha1 (se_env E)) cs), store_all E b cs d)"
  using assms(2,3) unfolding cs_def
proof (induction rest arbitrary: b blocks d rule: chunks.induct)
  case (1 rest)
  show ?case
  proof (cases "rest = []")
    case False
    let ?n = "min block_limit (length rest)"
    let ?c = "enc bf (take block_limit rest)"
    let ?b = "b\<lparr>sb_data := ?c\<rparr>"
    have len: "(of_nat (length rest) :: u64) > 0"
      using False 1(3) unat_of_nat_u64 [of "length rest"] by (simp add: word_less_nat_alt)
    have n: "block_len (of_nat (length rest)) = ?n"
      using block_len_of [OF 1(3)] by (simp only: round_up8 [OF 1(2)])
    have take: "take ?n rest = take block_limit rest" "drop ?n rest = drop block_limit rest" by (auto simp: min_def)
    have v: "take block_limit rest = read_into rest (resize (block_len (of_nat (length rest))) (sb_data b))"
      by (simp only: n take read_into_full min.cobounded2)
    have w: "whole (take block_limit rest)" using chunks_whole [OF 1(2), of "take block_limit rest"] False by (simp add: chunks.simps [of rest])
    have rest: "of_nat (length rest) - of_nat ?n = (of_nat (length (drop block_limit rest)) :: u64)"
      by (simp add: min_def)
    have "8 dvd length (drop block_limit rest)"
      using 1(2) by (cases "block_limit \<le> length rest") (auto simp: block_limit_def intro: dvd_diff_nat)
    moreover have "length (drop block_limit rest) < 2 ^ 63" using 1(3) by simp
    ultimately have "import_loop E bf (drop block_limit rest) (of_nat (length (drop block_limit rest))) ?b blocks' d' =
        (Inr (bf, ?b\<lparr>sb_data := last (sb_data ?b # map (enc bf) (chunks (drop block_limit rest)))\<rparr>,
           blocks' @ map (e_sha1 (se_env E)) (map (enc bf) (chunks (drop block_limit rest)))),
         store_all E ?b (map (enc bf) (chunks (drop block_limit rest))) d')" for blocks' d'
      by (rule 1(1) [OF False])
    then show ?thesis
      by (simp only: import_step [OF len v w bf] n take rest) (simp add: chunks.simps [of rest] False store_all_def)
  qed (simp add: import_loop.simps chunks.simps store_all_def)
qed

lemma import_stuck:
  assumes "len > 0" and "block_len len = 0"
  shows "fst (import_loop E bf rest len b blocks d) = Inl (Undefined_Behaviour ''front of an empty vector'')"
  using assms by (subst import_loop.simps) (simp add: resize_def read_into_def overlay_def encrypt_vector_def)

lemma import_loop_ragged:
  assumes bf: "reset_chain bf = bf" and "\<not> 8 dvd length rest" and "length rest < 2 ^ 63"
  shows "fst (import_loop E bf rest (of_nat (length rest)) b blocks d) = Inl (Undefined_Behaviour ''front of an empty vector'')"
  using assms(2,3)
proof (induction rest arbitrary: b blocks d rule: chunks.induct)
  case (1 rest)
  let ?len = "of_nat (length rest) :: u64"
  let ?n = "block_len ?len"
  have ne: "rest \<noteq> []" using 1(2) by auto
  have len: "?len > 0" using ne 1(3) unat_of_nat_u64 [of "length rest"] by (simp add: word_less_nat_alt)
  have n: "?n = min block_limit ((length rest + 7) div 8 * 8)" by (rule block_len_of [OF 1(3)])
  have pos: "0 < (length rest + 7) div 8"
    using ne by (cases rest) (simp_all add: div_greater_zero_iff)
  have w: "whole (read_into rest (resize ?n (sb_data b)))"
    using ne pos unfolding n whole_def length_0_conv [symmetric]
    by (auto simp: min_def block_limit_def simp del: length_0_conv)
  note step = import_step [OF len refl w bf]
  show ?case
  proof (cases "block_limit \<le> length rest")
    case True
    then have n': "?n = block_limit" using n div_mult2_eq [of "length rest" 8 1] by (simp add: min_def)
    have "\<not> 8 dvd length (drop block_limit rest)"
      using 1(2) True dvd_diffD [of 8 "length rest" block_limit] by (auto simp: block_limit_def)
    moreover have "length (drop block_limit rest) < 2 ^ 63" using 1(3) by simp
    moreover have "?len - of_nat ?n = of_nat (length (drop block_limit rest))" using True n' by simp
    ultimately show ?thesis using 1(1) [OF ne] n' by (simp only: step simp_thms)
  next
    case False
    then have "(length rest + 7) div 8 * 8 \<le> block_limit"
      using div_le_mono [of "length rest + 7" "1048576 + 6" 8] by (simp add: block_limit_def)
    then have n': "?n = (length rest + 7) div 8 * 8" using n by (simp only: min.absorb2)
    have more: "length rest < ?n" "?n \<le> length rest + 7"
      using 1(2) n' by (auto simp: dvd_eq_mod_eq_0) presburger
    have "unat ?len = length rest" "unat (of_nat ?n :: u64) = ?n"
      using 1(3) n unat_of_nat_u64 by (auto simp: block_limit_def)
    then have "unat (?len - of_nat ?n) = 2 ^ 64 - (?n - length rest)"
      using more(1) by (simp add: unat_sub_if')
    then have left: "2 ^ 64 \<le> unat (?len - of_nat ?n) + 7" "?len - of_nat ?n > 0"
      using more by (simp_all add: word_less_nat_alt)
    have "block_len (?len - of_nat ?n) = 0" by (rule block_len_wraps [OF left(1)])
    then show ?thesis unfolding step by (rule import_stuck [OF left(2)])
  qed
qed

section \<open>Importing a file\<close>

definition file_parts :: "'d share_env \<Rightarrow> string \<Rightarrow> bytes \<Rightarrow> bytes list" where
  "file_parts E filename f = map (enc (cipher_of E (share_key E filename))) (chunks f)"

definition file_meta :: "'d share_env \<Rightarrow> string \<Rightarrow> bytes \<Rightarrow> metafile" where
  "file_meta E filename f = \<lparr>mf_name = se_filename E filename, mf_size = of_nat (length f),
     mf_blocks = map (e_sha1 (se_env E)) (file_parts E filename f)\<rparr>"

definition packed_meta :: "'d share_env \<Rightarrow> string \<Rightarrow> bytes \<Rightarrow> bytes" where
  \<comment> \<open>packed into the vector that held the last block\<close>
  "packed_meta E filename f = se_pack_metafile E (last (resize block_limit [] # file_parts E filename f)) (file_meta E filename f)"

definition sealed_meta :: "'d share_env \<Rightarrow> string \<Rightarrow> bytes \<Rightarrow> bytes" where
  "sealed_meta E filename f = enc (cipher_of E (share_key E filename)) (pad8 (packed_meta E filename f))"

definition stored_parts :: "'d share_env \<Rightarrow> string \<Rightarrow> bytes \<Rightarrow> bytes list" where
  "stored_parts E filename f = file_parts E filename f @ [sealed_meta E filename f]"

definition file_urn :: "'d share_env \<Rightarrow> string \<Rightarrow> bytes \<Rightarrow> string" where
  "file_urn E filename f = make_urn E (share_key E filename) (e_sha1 (se_env E) (sealed_meta E filename f))"

lemma pad8_whole: "v \<noteq> [] \<Longrightarrow> whole (pad8 v)"
  unfolding whole_def length_0_conv [symmetric]
  by (cases v) (simp_all add: pad8_def div_greater_zero_iff del: length_0_conv)

lemma pad8_eq: "pad8 v = v @ replicate (length (pad8 v) - length v) 0"
proof -
  have "length v \<le> (length v + 7) div 8 * 8" by presburger
  then show ?thesis by (simp add: pad8_def resize_def)
qed

lemma seal_metafile_packed:
  "se_pack_metafile E v mf \<noteq> [] \<Longrightarrow> seal_metafile E bf v mf = Inr (enc bf (pad8 (se_pack_metafile E v mf)))"
  by (simp add: seal_metafile_def encrypt_whole pad8_whole)

lemma import_file_run:
  assumes f: "sn_files nd filename = Some f" and len: "length f < 2 ^ 63" and ne: "packed_meta E filename f \<noteq> []"
  shows "8 dvd length f \<Longrightarrow> import_file E filename nd
      = (Inr (file_urn E filename f), nd\<lparr>sn_blocks := store_all E (shared_block_new E) (stored_parts E filename f) (sn_blocks nd)\<rparr>)"
    and "\<not> 8 dvd length f \<Longrightarrow> fst (import_file E filename nd) = Inl (Undefined_Behaviour ''front of an empty vector'')"
proof -
  let ?bf = "cipher_of E (share_key E filename)"
  let ?b = "(shared_block_new E)\<lparr>sb_data := resize block_limit []\<rparr>"
  let ?loop = "import_loop E ?bf f (of_nat (length f)) ?b [] (sn_blocks nd)"
  note bf = share_cipher_of [where E = E, OF share_key_ne [of E filename]]
  {
    assume "8 dvd length f"
    from import_loop_whole [OF bf(2) this len, where E = E and b = ?b and blocks = "[]" and d = "sn_blocks nd"]
    have loop: "?loop = (Inr (?bf, ?b\<lparr>sb_data := last (resize block_limit [] # file_parts E filename f)\<rparr>,
        map (e_sha1 (se_env E)) (file_parts E filename f)), store_all E ?b (file_parts E filename f) (sn_blocks nd))"
      by (simp add: file_parts_def del: last.simps map_map)
    have "seal_metafile E ?bf (last (resize block_limit [] # file_parts E filename f)) (file_meta E filename f)
        = Inr (sealed_meta E filename f)"
      using ne unfolding packed_meta_def sealed_meta_def by (rule seal_metafile_packed)
    moreover have "store_all E ?b cs = store_all E (shared_block_new E) cs" for cs
      by (simp add: store_all_def)
    ultimately show "import_file E filename nd
      = (Inr (file_urn E filename f), nd\<lparr>sn_blocks := store_all E (shared_block_new E) (stored_parts E filename f) (sn_blocks nd)\<rparr>)"
      by (simp add: import_file_def bindP_def asks_def f liftE_def bf(1) on_blocks_def loop modify_def ret_def Let_def
          stored_parts_def store_all_def file_urn_def file_meta_def del: last.simps)
  }
  assume "\<not> 8 dvd length f"
  then have "fst ?loop = Inl (Undefined_Behaviour ''front of an empty vector'')"
    by (rule import_loop_ragged [OF bf(2) _ len])
  then show "fst (import_file E filename nd) = Inl (Undefined_Behaviour ''front of an empty vector'')"
    by (cases ?loop) (simp add: import_file_def bindP_def asks_def f liftE_def bf(1) on_blocks_def Let_def)
qed

section \<open>What the third-party code is relied on for\<close>

definition share_limit :: nat where "share_limit = 2 ^ 29"

definition small_blocks :: "shared_block set" where
  "small_blocks = {b. length (sb_payto_address b) < share_limit \<and> length (sb_data b) < share_limit}"

definition share_laws :: "'d share_env \<Rightarrow> ('d \<Rightarrow> (bytes \<times> bytes) list) \<Rightarrow> bool" where
  \<comment> \<open>the database and the packing of its keys and blocks, base64, and the packing of a metafile, of
    which unpacking reads a prefix\<close>
  "share_laws E ents \<longleftrightarrow>
     kv_ok (e_bdb (se_env E)) ents (e_sha1_key (se_env E)) (se_block E) UNIV small_blocks
     \<and> (\<forall>bs. e_base64_decode (se_env E) (e_base64_encode (se_env E) bs) = bs)
     \<and> length (se_blank_hash E) = 20
     \<and> (\<forall>v mf rest. length (se_pack_metafile E v mf) < share_limit \<longrightarrow>
          se_pack_metafile E v mf \<noteq> [] \<and> se_unpack_metafile E (se_pack_metafile E v mf @ rest) = Inr mf)"

definition holds_blocks :: "'d share_env \<Rightarrow> ('d \<Rightarrow> (bytes \<times> bytes) list) \<Rightarrow> 'd \<Rightarrow> (sha1, shared_block) omap \<Rightarrow> bool" where
  "holds_blocks E ents d m \<longleftrightarrow> kv_rep ents (e_sha1_key (se_env E)) (se_block E) UNIV small_blocks d m"

lemma get_block_map: "share_laws E ents \<Longrightarrow> holds_blocks E ents d m \<Longrightarrow> get_block E hc d = Inr (om_find hc m)"
  unfolding get_block_def share_laws_def holds_blocks_def by (blast intro: kv_get_map)

lemma set_block_map:
  "share_laws E ents \<Longrightarrow> holds_blocks E ents d m \<Longrightarrow> b \<in> small_blocks \<Longrightarrow> holds_blocks E ents (set_block E hc b d) (om_set hc b m)"
  unfolding set_block_def share_laws_def holds_blocks_def by (blast intro: kv_set_map)

definition as_stored :: "'d share_env \<Rightarrow> shared_block \<Rightarrow> bytes list \<Rightarrow> (sha1 \<times> shared_block) list" where
  "as_stored E b cs = map (\<lambda>c. (e_sha1 (se_env E) c, b\<lparr>sb_data := c\<rparr>)) cs"

lemma store_all_map:
  assumes "share_laws E ents" and "holds_blocks E ents d m" and "b \<in> small_blocks" and "\<forall>c \<in> set cs. length c < share_limit"
  shows "holds_blocks E ents (store_all E b cs d) (om.put_all (as_stored E b cs) m)"
  using assms(2,4)
proof (induction cs arbitrary: d m)
  case (Cons c cs)
  have "b\<lparr>sb_data := c\<rparr> \<in> small_blocks" using assms(3) Cons.prems(2) by (simp add: small_blocks_def)
  from set_block_map [OF assms(1) Cons.prems(1) this] Cons show ?case
    by (simp add: store_all_def as_stored_def om.put_all_def)
qed (simp add: store_all_def as_stored_def om.put_all_def)

lemma get_stored:
  assumes "share_laws E ents" and "holds_blocks E ents d m" and "b \<in> small_blocks" and "\<forall>c \<in> set cs. length c < share_limit"
    and inj: "inj_on (e_sha1 (se_env E)) (set cs)" and c: "c \<in> set cs"
  shows "get_block E (e_sha1 (se_env E) c) (store_all E b cs d) = Inr (Some (b\<lparr>sb_data := c\<rparr>))"
proof -
  let ?xs = "rev (as_stored E b cs)" and ?k = "e_sha1 (se_env E) c"
  have "?k \<in> fst ` set ?xs" using c by (force simp: as_stored_def)
  then obtain v where v: "map_of ?xs ?k = Some v" by (metis map_of_eq_None_iff not_None_eq)
  then obtain c' where "c' \<in> set cs" "e_sha1 (se_env E) c' = ?k" "v = b\<lparr>sb_data := c'\<rparr>"
    by (auto simp: as_stored_def dest!: map_of_SomeD)
  then have "v = b\<lparr>sb_data := c\<rparr>" using inj c by (auto dest: inj_onD)
  then show ?thesis
    using get_block_map [OF assms(1) store_all_map [OF assms(1-4)]] v by (simp add: om.find_put_all)
qed

section \<open>Exporting a file\<close>

lemma sha1_bytes_roundtrip: "sha1_of_bytes (sha1_to_bytes hc) = hc"
proof -
  have "unat hc < 256 ^ 20" using unsigned_less [of hc, where 'a = nat] by simp
  then show ?thesis by (simp add: sha1_of_bytes_def sha1_to_bytes_def be_val_be_bytes)
qed

lemma urn_hash_encoded:
  assumes "share_laws E ents"
  shows "urn_hash E (e_base64_encode (se_env E) (sha1_to_bytes hc)) = Inr hc"
proof -
  have "length (sha1_to_bytes hc) = 20" by (simp add: sha1_to_bytes_def)
  then show ?thesis
    using assms by (simp add: urn_hash_def share_laws_def overlay_full sha1_bytes_roundtrip)
qed

definition has_block :: "'d share_env \<Rightarrow> 'd \<Rightarrow> bytes \<Rightarrow> bool" where
  \<comment> \<open>the database finds these bytes under their hash\<close>
  "has_block E d c \<longleftrightarrow> (\<exists>b. get_block E (e_sha1 (se_env E) c) d = Inr (Some b) \<and> sb_data b = c)"

lemma export_loop_run:
  assumes "\<forall>x \<in> set xs. whole x \<and> has_block E d (enc bf x)" and "length out + length (concat xs) = n" and "n < 2 ^ 63"
    and "reset_chain bf = bf"
  shows "export_loop E bf d (of_nat n) (map (\<lambda>x. e_sha1 (se_env E) (enc bf x)) xs) b (of_nat (length out)) out
    = (Inr (), out @ concat xs)"
  using assms(1,2)
proof (induction xs arbitrary: b out)
  case (Cons x xs)
  obtain y where y: "get_block E (e_sha1 (se_env E) (enc bf x)) d = Inr (Some y)" "sb_data y = enc bf x"
    using Cons.prems(1) by (auto simp: has_block_def)
  have dec: "decrypt_vector bf (sb_data y) = Inr x" using Cons.prems(1) y(2) by (simp add: decrypt_whole)
  have sum: "length out + length x \<le> n" using Cons.prems(2) by simp
  have len: "of_nat (length out) + of_nat (length x) = (of_nat (length (out @ x)) :: u64)" by simp
  have le: "\<not> of_nat n < (of_nat (length (out @ x)) :: u64)"
    using sum assms(3) by (simp add: word_less_nat_alt unat_of_nat_u64 del: of_nat_add)
  have "unat (of_nat (length (out @ x)) - of_nat (length out) :: u64) = length x"
    using sum assms(3) by (simp add: unat_of_nat_u64)
  then have "export_loop E bf d (of_nat n) (map (\<lambda>x. e_sha1 (se_env E) (enc bf x)) (x # xs)) b (of_nat (length out)) out
      = export_loop E bf d (of_nat n) (map (\<lambda>x. e_sha1 (se_env E) (enc bf x)) xs) (y\<lparr>sb_data := x\<rparr>) (of_nat (length (out @ x))) (out @ x)"
    by (simp only: export_loop.simps list.map y(1) dec assms(4) Let_def len sum.case option.case if_not_P [OF le])
      (simp add: y(2) del: of_nat_add length_append)
  then show ?case using Cons.IH [of "out @ x"] Cons.prems by simp
qed simp

lemma export_file_run:
  assumes laws: "share_laws E ents" and "8 dvd length f" and len: "length f < 2 ^ 63"
    and meta: "length (packed_meta E filename f) < share_limit"
    and has: "\<forall>c \<in> set (stored_parts E filename f). has_block E (sn_blocks nd) c"
  shows "export_file E (file_urn E filename f) dir nd
    = (Inr (), nd\<lparr>sn_files := (sn_files nd)(se_join E dir (se_filename E filename) \<mapsto> f)\<rparr>)"
proof -
  let ?key = "share_key E filename"
  let ?bf = "cipher_of E ?key"
  let ?m = "pad8 (packed_meta E filename f)"
  note bf = share_cipher_of [where E = E, OF share_key_ne [of E filename]]
  have split: "split_urn (file_urn E filename f)
      = (?key, e_base64_encode (se_env E) (sha1_to_bytes (e_sha1 (se_env E) (sealed_meta E filename f))))"
    unfolding file_urn_def by (rule split_make_urn [OF share_key_no_sep])
  obtain b where b: "get_block E (e_sha1 (se_env E) (sealed_meta E filename f)) (sn_blocks nd) = Inr (Some b)"
      "sb_data b = sealed_meta E filename f"
    using has by (auto simp: stored_parts_def has_block_def)
  have unpack: "se_unpack_metafile E (packed_meta E filename f @ rest) = Inr (file_meta E filename f)"
    and ne: "packed_meta E filename f \<noteq> []" for rest
    using laws meta unfolding share_laws_def packed_meta_def by blast+
  have dec: "decrypt_vector ?bf (sb_data b) = Inr ?m"
    unfolding b(2) sealed_meta_def by (rule decrypt_whole [OF pad8_whole [OF ne]])
  have "\<forall>x \<in> set (chunks f). whole x \<and> has_block E (sn_blocks nd) (enc ?bf x)"
    using has chunks_whole [OF assms(2)] by (auto simp: stored_parts_def file_parts_def)
  from export_loop_run [OF this, where out = "[]", OF _ len bf(2)]
  have "export_loop E ?bf (sn_blocks nd) (mf_size (file_meta E filename f)) (mf_blocks (file_meta E filename f)) b' 0 [] = (Inr (), f)" for b'
    by (simp add: concat_chunks file_meta_def file_parts_def comp_def)
  moreover have "se_unpack_metafile E ?m = Inr (file_meta E filename f)"
    by (subst pad8_eq) (rule unpack)
  ultimately show ?thesis
    by (simp add: export_file_def split urn_hash_encoded [OF laws] b(1) asks_def bindP_def liftE_def bf dec write_file_def file_meta_def)
qed

section \<open>Properties\<close>

definition storable :: "'d share_env \<Rightarrow> string \<Rightarrow> bytes \<Rightarrow> bool" where
  \<comment> \<open>the loop ends, the last block is small, and no two of the stored blocks have one hash\<close>
  "storable E filename f \<longleftrightarrow> 8 dvd length f \<and> length f < 2 ^ 63 \<and> length (packed_meta E filename f) + 8 \<le> share_limit
     \<and> inj_on (e_sha1 (se_env E)) (set (stored_parts E filename f))"

lemma storable_parts:
  assumes "share_laws E ents" and "storable E filename f"
  shows "packed_meta E filename f \<noteq> []" and "\<forall>c \<in> set (stored_parts E filename f). c \<noteq> [] \<and> length c < share_limit"
proof -
  show ne: "packed_meta E filename f \<noteq> []"
    using assms unfolding share_laws_def storable_def packed_meta_def by simp
  have "length (pad8 (packed_meta E filename f)) \<le> length (packed_meta E filename f) + 7"
    by (simp only: pad8_def length_resize div_times_less_eq_dividend)
  moreover have "length (packed_meta E filename f) + 8 \<le> share_limit" using assms(2) by (simp add: storable_def)
  ultimately have "length (pad8 (packed_meta E filename f)) < share_limit" by linarith
  moreover have "length x < share_limit" if "x \<in> set (chunks f)" for x
    using chunks_whole [OF _ that] assms(2) by (simp add: storable_def block_limit_def share_limit_def)
  ultimately show "\<forall>c \<in> set (stored_parts E filename f). c \<noteq> [] \<and> length c < share_limit"
    using chunks_whole assms(2) pad8_whole [OF ne]
    by (auto simp: stored_parts_def file_parts_def sealed_meta_def storable_def whole_def)
qed

lemma stored_parts_found:
  assumes "share_laws E ents" and "holds_blocks E ents d m" and "storable E filename f"
    and "length payto < share_limit"
  shows "\<forall>c \<in> set (stored_parts E filename f).
    has_block E (store_all E ((shared_block_new E)\<lparr>sb_payto_address := payto\<rparr>) (stored_parts E filename f) d) c"
proof
  fix c assume c: "c \<in> set (stored_parts E filename f)"
  have "(shared_block_new E)\<lparr>sb_payto_address := payto\<rparr> \<in> small_blocks"
    using assms(4) by (simp add: small_blocks_def shared_block_new_def share_limit_def)
  moreover have "\<forall>c \<in> set (stored_parts E filename f). length c < share_limit"
    using storable_parts [OF assms(1,3)] by blast
  moreover have "inj_on (e_sha1 (se_env E)) (set (stored_parts E filename f))" using assms(3) by (simp add: storable_def)
  ultimately show "has_block E (store_all E ((shared_block_new E)\<lparr>sb_payto_address := payto\<rparr>) (stored_parts E filename f) d) c"
    using get_stored [OF assms(1,2) _ _ _ c] by (simp add: has_block_def)
qed

text \<open>C37: importing a file whose length is a multiple of eight stores its blocks and returns its name;
  for any other length the counter of the loop falls below zero and the import fails.\<close>

theorem import_file_outcome:
  assumes "sn_files nd filename = Some f" and "length f < 2 ^ 63" and "packed_meta E filename f \<noteq> []"
  shows "if 8 dvd length f
    then import_file E filename nd
      = (Inr (file_urn E filename f), nd\<lparr>sn_blocks := store_all E (shared_block_new E) (stored_parts E filename f) (sn_blocks nd)\<rparr>)
    else fst (import_file E filename nd) = Inl (Undefined_Behaviour ''front of an empty vector'')"
  using import_file_run [OF assms] by simp

text \<open>C34: exporting the name that an import returned writes the file that was imported, if no two
  of its blocks have one hash.\<close>

theorem import_export_roundtrip:
  assumes "share_laws E ents" and "holds_blocks E ents (sn_blocks nd) m" and "sn_files nd filename = Some f"
    and "storable E filename f"
  shows "\<exists>urn nd'. import_file E filename nd = (Inr urn, nd') \<and> sn_files nd' = sn_files nd
    \<and> export_file E urn dir nd' = (Inr (), nd'\<lparr>sn_files := (sn_files nd)(se_join E dir (se_filename E filename) \<mapsto> f)\<rparr>)"
proof -
  let ?nd = "nd\<lparr>sn_blocks := store_all E (shared_block_new E) (stored_parts E filename f) (sn_blocks nd)\<rparr>"
  have f: "8 dvd length f" "length f < 2 ^ 63" "length (packed_meta E filename f) < share_limit"
    using assms(4) by (simp_all add: storable_def)
  have "(shared_block_new E)\<lparr>sb_payto_address := []\<rparr> = shared_block_new E" by (simp add: shared_block_new_def)
  then have "\<forall>c \<in> set (stored_parts E filename f). has_block E (sn_blocks ?nd) c"
    using stored_parts_found [OF assms(1,2,4), of "[]"] by (simp add: share_limit_def)
  from export_file_run [OF assms(1) f this]
  have "export_file E (file_urn E filename f) dir ?nd = (Inr (), ?nd\<lparr>sn_files := (sn_files nd)(se_join E dir (se_filename E filename) \<mapsto> f)\<rparr>)"
    by simp
  moreover have "import_file E filename nd = (Inr (file_urn E filename f), ?nd)"
    using import_file_run(1) [OF assms(3) f(2) storable_parts(1) [OF assms(1,4)] f(1)] .
  ultimately show ?thesis by (intro exI [of _ "file_urn E filename f"] exI [of _ ?nd]) simp
qed

end
