(* ===== verification/PeerProofs.thy ===== *)
theory PeerProofs
  imports PeerNode FileShareProofs
begin

text \<open>
  Uploads and downloads between two nodes: the messages of an upload are the blocks that an
  import stores, so that the other node stores the same file, and a download from a node that
  has the blocks of a file writes that file.
\<close>

section \<open>Reading a message\<close>

definition share_wire_laws :: "share_wire \<Rightarrow> bool" where
  \<comment> \<open>what the reader of messages relies on, and unpacking what was packed\<close>
  "share_wire_laws W \<longleftrightarrow>
     (\<forall>m. length (m_data m) < 2 ^ 32 \<longrightarrow>
        wr_message W m = le_bytes 2 (unat (m_id m)) @ le_bytes 4 (length (m_data m)) @ m_data m)
     \<and> (\<forall>x. length (sm_data x) < share_limit \<and> length (sm_payto_address x) < share_limit \<longrightarrow>
          unpack (wr_store_block W) (pack (wr_store_block W) x) = Inr x \<and> length (pack (wr_store_block W) x) < 2 ^ 32)
     \<and> (\<forall>x. unpack (wr_request_block W) (pack (wr_request_block W) x) = Inr x \<and> length (pack (wr_request_block W) x) < 2 ^ 32)
     \<and> (\<forall>x. length (rp_data x) < share_limit \<longrightarrow>
          unpack (wr_report_block W) (pack (wr_report_block W) x) = Inr x \<and> length (pack (wr_report_block W) x) < 2 ^ 32)"

definition put_peer :: "nat \<Rightarrow> share_peer \<Rightarrow> 'd net_state \<Rightarrow> 'd net_state" where
  "put_peer i p s = s\<lparr>ns_peers := (ns_peers s)[i := p]\<rparr>"

lemma change_peer_put: "change_peer i f s = (Inr (), put_peer i (f (ns_peers s ! i)) s)"
  by (simp add: change_peer_def modify_def put_peer_def)

lemma put_peer_simps [simp]:
  "ns_node (put_peer i p s) = ns_node s" "ns_connections (put_peer i p s) = ns_connections s"
  "ns_uploads (put_peer i p s) = ns_uploads s" "ns_downloads (put_peer i p s) = ns_downloads s"
  "ns_calls (put_peer i p s) = ns_calls s" "length (ns_peers (put_peer i p s)) = length (ns_peers s)"
  "i < length (ns_peers s) \<Longrightarrow> ns_peers (put_peer i p s) ! i = p"
  "put_peer i q (put_peer i p s) = put_peer i q s"
  by (simp_all add: put_peer_def)

lemma put_peer_same: "i < length (ns_peers s) \<Longrightarrow> p = ns_peers s ! i \<Longrightarrow> put_peer i p s = s"
  by (simp add: put_peer_def)

primrec complete_reads :: "'d share_env \<Rightarrow> share_wire \<Rightarrow> nat \<Rightarrow> nat \<Rightarrow> ('d net_state, unit) prog" where
  "complete_reads E W i 0 = ret ()"
| "complete_reads E W i (Suc n) = bindP (complete_read E W i) (\<lambda>_. complete_reads E W i n)"

lemma complete_reads_add:
  "complete_reads E W i (m + n) = bindP (complete_reads E W i m) (\<lambda>_. complete_reads E W i n)"
  by (induction m) (simp_all add: bindP_assoc)

definition ready :: "share_peer \<Rightarrow> bool" where
  \<comment> \<open>waiting for the id of the next message\<close>
  "ready p \<longleftrightarrow> pc_step p = 1 \<and> pc_wanted p = 2"

definition reading :: "share_peer \<Rightarrow> message \<Rightarrow> bytes \<Rightarrow> share_peer" where
  \<comment> \<open>while the message is handled\<close>
  "reading p m rest = p\<lparr>pc_step := 0, pc_wanted := 0, pc_msg := m, pc_msg_size := of_nat (length (m_data m)), pc_input := rest\<rparr>"

lemma complete_read_step:
  assumes "pc_step (ns_peers s ! i) \<in> {1, 2, 3}" and "pc_wanted (ns_peers s ! i) \<le> length (pc_input (ns_peers s ! i))"
  shows "complete_read E W i s = peer_read_message E W i (pc_step (ns_peers s ! i)) False
    (put_peer i (peer_store_read (ns_peers s ! i)) s)"
  using assms by (auto simp: complete_read_def bindP_def asks_def change_peer_put)

lemma reads_message:
  assumes W: "share_wire_laws W" and m: "length (m_data m) < 2 ^ 32" and i: "i < length (ns_peers s)"
    and p: "ready (ns_peers s ! i)" and input: "pc_input (ns_peers s ! i) = wr_message W m @ rest"
  shows "complete_reads E W i 3 s =
    bindP (peer_handle_message E W i m) (\<lambda>_. change_peer i (peer_async_read 1 2)) (put_peer i (reading (ns_peers s ! i) m rest) s)"
proof -
  let ?p = "ns_peers s ! i"
  let ?n = "length (m_data m)"
  have wire: "wr_message W m = le_bytes 2 (unat (m_id m)) @ le_bytes 4 ?n @ m_data m"
    using W m by (simp add: share_wire_laws_def)
  have id_lim: "unat (m_id m) < 256 ^ 2" using unsigned_less [of "m_id m", where 'a = nat] by simp
  have n_lim: "?n < 256 ^ 4" using m by simp
  have id_val: "(of_nat (le_val (le_bytes 2 (unat (m_id m)))) :: u16) = m_id m"
    by (simp add: le_val_le_bytes [OF id_lim])
  have n_val: "le_val (le_bytes 4 ?n) = ?n" by (rule le_val_le_bytes [OF n_lim])
  define p1 where "p1 = ?p\<lparr>pc_step := 2, pc_wanted := 4, pc_msg := (pc_msg ?p)\<lparr>m_id := m_id m\<rparr>,
     pc_input := le_bytes 4 ?n @ m_data m @ rest\<rparr>"
  define p2 where "p2 = p1\<lparr>pc_step := 3, pc_wanted := ?n, pc_msg_size := of_nat ?n, pc_input := m_data m @ rest\<rparr>"
  have size: "unat (of_nat ?n :: u32) = ?n" by (rule unat_of_nat_u32 [OF m])
  have "peer_async_read 2 4 (peer_store_read ?p) = p1"
    using p input by (cases ?p) (simp add: ready_def wire peer_store_read_def peer_async_read_def id_val p1_def Let_def)
  then have s1: "complete_read E W i s = (Inr (), put_peer i p1 s)"
    using p i by (subst complete_read_step) (simp_all add: ready_def input wire peer_read_message_def change_peer_put)
  have "peer_async_read 3 ?n (peer_store_read p1) = p2" "pc_msg_size (peer_store_read p1) = of_nat ?n"
    by (cases ?p, simp add: peer_store_read_def peer_async_read_def p1_def p2_def n_val Let_def)+
  then have s2: "complete_read E W i (put_peer i p1 s) = (Inr (), put_peer i p2 s)"
    using i by (subst complete_read_step) (simp_all add: peer_read_message_def change_peer_put size, simp_all add: p1_def)
  have r: "peer_async_read 0 0 (peer_store_read p2) = reading ?p m rest" "pc_msg (reading ?p m rest) = m"
    by (cases ?p, simp add: peer_store_read_def peer_async_read_def p1_def p2_def reading_def Let_def)+
  then have s3: "complete_read E W i (put_peer i p2 s) =
      bindP (peer_handle_message E W i m) (\<lambda>_. change_peer i (peer_async_read 1 2)) (put_peer i (reading ?p m rest) s)"
    using i by (subst complete_read_step)
      (simp_all add: peer_read_message_def change_peer_put bindP_def [of "change_peer i f" for f] bindP_def [of "asks f" for f] asks_def,
        simp_all add: p2_def)
  show ?thesis
    by (simp add: numeral_3_eq_3 bindP_run_Inr [where f = "complete_read E W i", OF s1] bindP_run_Inr [where f = "complete_read E W i", OF s2])
      (simp add: s3)
qed

section \<open>Connecting\<close>

lemma connect_loop_fails: "connect_loop fails k = Some n \<Longrightarrow> \<not> fails n"
  by (rule connect_loop.raw_induct [where P = "\<lambda>fails k n. \<not> fails n"]) (auto split: if_splits)

lemma connect_loop_stops: "\<not> fails (k + n) \<Longrightarrow> \<exists>m. connect_loop fails k = Some m"
proof (induction n arbitrary: k)
  case 0
  then show ?case by (simp add: connect_loop.simps)
next
  case (Suc n)
  then have "\<exists>m. connect_loop fails (Suc k) = Some m" by (intro Suc.IH) simp
  then show ?case by (simp add: connect_loop.simps [of fails k])
qed

lemma connect_loop_iff: "connect_loop fails k = None \<longleftrightarrow> (\<forall>n. fails (k + n))"
proof
  show "connect_loop fails k = None \<Longrightarrow> \<forall>n. fails (k + n)" using connect_loop_stops [of fails k] by fastforce
  have "connect_loop fails k = Some n \<Longrightarrow> k \<le> n" for n
    by (rule connect_loop.raw_induct [where P = "\<lambda>fails k n. k \<le> n"]) (fastforce split: if_splits dest: Suc_leD)
  then show "\<forall>n. fails (k + n) \<Longrightarrow> connect_loop fails k = None"
    using connect_loop_fails [of fails k] by (metis le_Suc_ex not_None_eq)
qed

text \<open>Connecting to a name with an address ends exactly when some attempt at its first address
  succeeds: the other addresses are never tried.\<close>

theorem connect_first_address:
  "fst (peer_connect_to E W rid n fails s)
    = (if n = 0 then Inr None else if \<forall>k. fails k then Inl Diverges else Inr (Some (length (ns_peers s))))"
proof (cases "connect_loop fails 0")
  case None
  then show ?thesis using connect_loop_iff [of fails 0]
    by (simp add: peer_connect_to_def loopP_def bindP_def ret_def)
next
  case (Some m)
  then have "\<not> fails m" by (rule connect_loop_fails)
  then show ?thesis using Some
    by (auto simp: peer_connect_to_def loopP_def bindP_def ret_def add_peer_def asks_def modify_def peer_read_message_def change_peer_put)
qed

end
