(* ===== verification/PeerUploads.thy ===== *)
theory PeerUploads
  imports PeerProofs
begin

text \<open>
  An upload: the writes it starts, one after the completion of the other, carry the blocks an
  import of the same file would store, and a node that reads them stores these blocks.
\<close>

section \<open>The sender\<close>

definition store_msg :: "share_wire \<Rightarrow> string \<Rightarrow> bytes \<Rightarrow> message" where
  "store_msg W payto c = message_of (wr_store_block W) store_block_id \<lparr>sm_payto_address = payto, sm_data = c\<rparr>"

primrec complete_writes :: "'d share_env \<Rightarrow> share_wire \<Rightarrow> nat \<Rightarrow> nat \<Rightarrow> 'd net_state \<Rightarrow> bytes list \<times> 'd net_state" where
  \<comment> \<open>the first \<open>n\<close> writes of connection \<open>i\<close> complete: what was written, and the state after\<close>
  "complete_writes E W i 0 s = ([], s)"
| "complete_writes E W i (Suc n) s =
     (case pc_writes (ns_peers s ! i) of
        [] \<Rightarrow> ([], s)
      | (b, c) # _ \<Rightarrow>
          (case handle_write_complete E W i False s of
             (Inl e, s') \<Rightarrow> ([b], s')
           | (Inr _, s') \<Rightarrow> (case complete_writes E W i n s' of (bs, t) \<Rightarrow> (b # bs, t))))"

definition stage :: "'d net_state \<Rightarrow> nat \<Rightarrow> nat \<Rightarrow> upload_file_state option \<Rightarrow> (bytes \<times> closure) list \<Rightarrow> 'd net_state" where
  \<comment> \<open>what an upload \<open>u\<close> over connection \<open>i\<close> changes: its own object and the writes\<close>
  "stage s i u x ws = put_peer i ((ns_peers s ! i)\<lparr>pc_writes := ws\<rparr>) (s\<lparr>ns_uploads := (ns_uploads s)[u := x]\<rparr>)"

definition upload_over :: "'d net_state \<Rightarrow> nat \<Rightarrow> nat \<Rightarrow> bool" where
  "upload_over s i u \<longleftrightarrow> u < length (ns_uploads s) \<and> i < length (ns_peers s) \<and> (\<exists>cs. ns_connections s = i # cs)"

lemma stage_upload: "upload_over s i u \<Longrightarrow> the_upload u (stage s i u (Some st) ws) = (Inr st, stage s i u (Some st) ws)"
  by (simp add: the_upload_def stage_def upload_over_def bindP_def asks_def ret_def)

lemma stage_set: "upload_over s i u \<Longrightarrow> set_upload u y (stage s i u x ws) = (Inr (), stage s i u y ws)"
  by (simp add: set_upload_def stage_def put_peer_def modify_def)

lemma stage_send:
  assumes "upload_over s i u"
  shows "upload_block W payto c k (stage s i u x ws) = (Inr (), stage s i u x (ws @ [(wr_message W (store_msg W payto c), k)]))"
  using assms by (auto simp: upload_over_def upload_block_def stage_def bindP_def asks_def peer_send_def change_peer_put store_msg_def put_peer_def)

lemma stage_complete:
  assumes "upload_over s i u"
  shows "handle_write_complete E W i False (stage s i u x ((b, k) # ws))
      = (if k = No_Closure then ret () else run_closure E W k False) (stage s i u x ws)"
    and "pc_writes (ns_peers (stage s i u x ws) ! i) = ws"
  using assms by (simp_all add: upload_over_def handle_write_complete_def stage_def bindP_def asks_def change_peer_put put_peer_def)

definition upload_at :: "upload_file_state \<Rightarrow> bytes \<Rightarrow> sha1 list \<Rightarrow> bytes \<Rightarrow> upload_file_state" where
  \<comment> \<open>the vector of the current block, the hashes so far and what is left of the file\<close>
  "upload_at st v hs rest = st\<lparr>up_cur_block := (up_cur_block st)\<lparr>sb_data := v\<rparr>, up_mf := (up_mf st)\<lparr>mf_blocks := hs\<rparr>,
     up_len := of_nat (length rest), up_in := rest\<rparr>"

lemma upload_at_simps [simp]:
  "up_cur_block (upload_at st v hs rest) = (up_cur_block st)\<lparr>sb_data := v\<rparr>" "up_mf (upload_at st v hs rest) = (up_mf st)\<lparr>mf_blocks := hs\<rparr>"
  "up_len (upload_at st v hs rest) = of_nat (length rest)" "up_in (upload_at st v hs rest) = rest"
  "up_bf (upload_at st v hs rest) = up_bf st" "up_bf_key (upload_at st v hs rest) = up_bf_key st"
  "up_payto (upload_at st v hs rest) = up_payto st" "up_closure (upload_at st v hs rest) = up_closure st"
  by (simp_all add: upload_at_def)

lemma whole_step:
  assumes "rest \<noteq> []" and "8 dvd length rest" and "length rest < 2 ^ 63"
  shows "(of_nat (length rest) :: u64) > 0"
    and "read_into rest (resize (block_len (of_nat (length rest))) v) = take block_limit rest"
    and "of_nat (length rest) - of_nat (length (take block_limit rest)) = (of_nat (length (drop block_limit rest)) :: u64)"
    and "drop (length (take block_limit rest)) rest = drop block_limit rest"
    and "whole (take block_limit rest)"
    and "8 dvd length (drop block_limit rest)"
proof -
  show "(of_nat (length rest) :: u64) > 0"
    using assms(1,3) unat_of_nat_u64 [of "length rest"] by (simp add: word_less_nat_alt)
  have "block_len (of_nat (length rest)) = min block_limit (length rest)"
    using block_len_of [OF assms(3)] by (simp only: round_up8 [OF assms(2)])
  then show "read_into rest (resize (block_len (of_nat (length rest))) v) = take block_limit rest"
    by (simp add: read_into_full) (simp add: min_def)
  show "of_nat (length rest) - of_nat (length (take block_limit rest)) = (of_nat (length (drop block_limit rest)) :: u64)"
    by (simp add: min_def)
  show "drop (length (take block_limit rest)) rest = drop block_limit rest" by (simp add: min_def)
  show "whole (take block_limit rest)"
    using chunks_whole [OF assms(2), of "take block_limit rest"] assms(1) by (simp add: chunks.simps [of rest])
  show "8 dvd length (drop block_limit rest)"
    using assms(2) by (cases "block_limit \<le> length rest") (auto simp: block_limit_def intro: dvd_diff_nat)
qed

lemma send_block_more:
  assumes s: "upload_over s i u" and rest: "rest \<noteq> []" "8 dvd length rest" "length rest < 2 ^ 63" and bf: "reset_chain (up_bf st) = up_bf st"
  defines "c \<equiv> enc (up_bf st) (take block_limit rest)"
  shows "send_block E W u False (stage s i u (Some (upload_at st v hs rest)) [])
    = (Inr (), stage s i u (Some (upload_at st c (hs @ [e_sha1 (se_env E) c]) (drop block_limit rest)))
        [(wr_message W (store_msg W (up_payto st) c), Send_Block u)])"
proof -
  let ?st = "upload_at st v hs rest"
  note step = whole_step [OF rest]
  have "?st\<lparr>up_cur_block := (up_cur_block ?st)\<lparr>sb_data := c\<rparr>, up_bf := reset_chain (up_bf ?st),
      up_mf := (up_mf ?st)\<lparr>mf_blocks := mf_blocks (up_mf ?st) @ [e_sha1 (se_env E) c]\<rparr>,
      up_len := up_len ?st - of_nat (length c), up_in := drop (length (take block_limit rest)) (up_in ?st)\<rparr>
    = upload_at st c (hs @ [e_sha1 (se_env E) c]) (drop block_limit rest)"
    using step(3,4) bf by (cases st) (simp add: upload_at_def c_def)
  then show ?thesis
    by (simp add: send_block_def bindP_def [of "the_upload u"] stage_upload [OF s] step(1,2) encrypt_whole [OF step(5)] c_def [symmetric]
        bindP_def [of "set_upload u x" for x] stage_set [OF s] stage_send [OF s] Let_def)
qed

lemma send_block_meta:
  fixes E :: "'d share_env" and v :: bytes and hs :: "sha1 list"
  assumes s: "upload_over s i u" and ne: "se_pack_metafile E v ((up_mf st)\<lparr>mf_blocks := hs\<rparr>) \<noteq> []"
  defines "c \<equiv> enc (up_bf st) (pad8 (se_pack_metafile E v ((up_mf st)\<lparr>mf_blocks := hs\<rparr>)))"
  shows "\<exists>st'. up_closure st' = up_closure st \<and> send_block E W u False (stage s i u (Some (upload_at st v hs [])) [])
    = (Inr (), stage s i u (Some st') [(wr_message W (store_msg W (up_payto st) c), Cleanup u (make_urn E (up_bf_key st) (e_sha1 (se_env E) c)))])"
  by (rule exI [of _ "(upload_at st v hs [])\<lparr>up_cur_block := (up_cur_block st)\<lparr>sb_data := c\<rparr>\<rparr>"])
    (simp add: send_block_def bindP_def [of "the_upload u"] stage_upload [OF s] seal_metafile_packed [OF ne] c_def [symmetric]
        bindP_def [of "set_upload u x" for x] stage_set [OF s] stage_send [OF s] Let_def)

definition done_calling :: "'d net_state \<Rightarrow> nat option \<Rightarrow> string \<Rightarrow> 'd net_state" where
  "done_calling s c urn = s\<lparr>ns_calls := ns_calls s @ (case c of None \<Rightarrow> [] | Some k \<Rightarrow> [Upload_Done k urn False])\<rparr>"

lemma cleanup_stage:
  assumes "upload_over s i u"
  shows "cleanup u False urn (stage s i u (Some st) ws) = (Inr (), stage (done_calling s (up_closure st) urn) i u None ws)"
  using assms stage_upload [OF assms]
  by (simp add: cleanup_def bindP_def call_back_def modify_def ret_def set_upload_def stage_def put_peer_def done_calling_def
      split: option.split)

lemma upload_continues:
  fixes W :: share_wire and E :: "'d share_env" and v :: bytes and hs :: "sha1 list"
  assumes s: "upload_over s i u" and bf: "reset_chain (up_bf st) = up_bf st"
    and rest: "8 dvd length rest" "length rest < 2 ^ 63"
  defines "msg \<equiv> \<lambda>c. wr_message W (store_msg W (up_payto st) c)"
  defines "cs \<equiv> map (enc (up_bf st)) (chunks rest)"
  defines "pm \<equiv> se_pack_metafile E (last (v # cs)) ((up_mf st)\<lparr>mf_blocks := hs @ map (e_sha1 (se_env E)) cs\<rparr>)"
  defines "meta \<equiv> enc (up_bf st) (pad8 pm)"
  assumes ne: "pm \<noteq> []"
  shows "complete_writes E W i (length (chunks rest) + 2) (stage s i u (Some (upload_at st v hs rest)) [(b, Send_Block u)])
    = (b # map msg (cs @ [meta]),
       stage (done_calling s (up_closure st) (make_urn E (up_bf_key st) (e_sha1 (se_env E) meta))) i u None [])"
  using rest ne unfolding meta_def pm_def cs_def
proof (induction rest arbitrary: v hs b rule: chunks.induct)
  case (1 rest)
  show ?case
  proof (cases "rest = []")
    case True
    have ne: "se_pack_metafile E v ((up_mf st)\<lparr>mf_blocks := hs\<rparr>) \<noteq> []" using 1(4) by (simp add: True chunks.simps)
    obtain st' where st': "up_closure st' = up_closure st" and run: "send_block E W u False (stage s i u (Some (upload_at st v hs [])) [])
      = (Inr (), stage s i u (Some st') [(msg (enc (up_bf st) (pad8 (se_pack_metafile E v ((up_mf st)\<lparr>mf_blocks := hs\<rparr>)))),
          Cleanup u (make_urn E (up_bf_key st) (e_sha1 (se_env E) (enc (up_bf st) (pad8 (se_pack_metafile E v ((up_mf st)\<lparr>mf_blocks := hs\<rparr>)))))))])"
      using send_block_meta [where st = st and v = v and hs = hs and W = W, OF s ne] unfolding msg_def by blast
    show ?thesis
      by (simp add: True chunks.simps numeral_2_eq_2 stage_complete [OF s] run cleanup_stage [OF s] st')
  next
    case False
    let ?c = "enc (up_bf st) (take block_limit rest)"
    let ?rest = "drop block_limit rest"
    have ch: "chunks rest = take block_limit rest # chunks ?rest" using False by (simp add: chunks.simps [of rest])
    have len: "length ?rest < 2 ^ 63" using 1(3) by simp
    note run = send_block_more [where st = st and v = v and hs = hs and W = W and E = E, OF s False 1(2,3) bf]
    note IH = 1(1) [OF False whole_step(6) [OF False 1(2,3)] len, where v = ?c and hs = "hs @ [e_sha1 (se_env E) ?c]"]
    have "complete_writes E W i (Suc (length (chunks ?rest) + 2)) (stage s i u (Some (upload_at st v hs rest)) [(b, Send_Block u)])
      = (case complete_writes E W i (length (chunks ?rest) + 2)
            (stage s i u (Some (upload_at st ?c (hs @ [e_sha1 (se_env E) ?c]) ?rest)) [(msg ?c, Send_Block u)]) of (bs, t) \<Rightarrow> (b # bs, t))"
      by (simp only: complete_writes.simps stage_complete [OF s] list.case prod.case closure.distinct if_False run_closure.simps run sum.case msg_def)
    then show ?thesis using IH 1(4) by (simp add: ch)
  qed
qed

lemma upload_file_run:
  fixes W :: share_wire and E :: "'d share_env" and payto :: string
  assumes f: "sn_files (ns_node s) filename = Some f" "8 dvd length f" "length f < 2 ^ 63"
    and ne: "packed_meta E filename f \<noteq> []"
    and con: "ns_connections s = i # cons" "i < length (ns_peers s)" "pc_writes (ns_peers s ! i) = []"
  defines "msg \<equiv> \<lambda>c. wr_message W (store_msg W payto c)"
  obtains s1 s2 where "upload_file E W payto filename c s = (Inr (), s1)"
    and "complete_writes E W i (length (stored_parts E filename f)) s1 = (map msg (stored_parts E filename f), s2)"
    and "ns_calls s2 = ns_calls s @ (case c of None \<Rightarrow> [] | Some k \<Rightarrow> [Upload_Done k (file_urn E filename f) False])"
    and "ns_node s2 = ns_node s"
proof -
  let ?u = "length (ns_uploads s)" and ?key = "share_key E filename"
  let ?bf = "cipher_of E ?key"
  note bf = share_cipher_of [where E = E, OF share_key_ne [of E filename]]
  define st where "st = \<lparr>up_len = of_nat (length f), up_mf = \<lparr>mf_name = se_filename E filename, mf_size = of_nat (length f), mf_blocks = []\<rparr>,
     up_bf_key = ?key, up_bf = ?bf, up_cur_block = (shared_block_new E)\<lparr>sb_data := resize block_limit []\<rparr>,
     up_payto = payto, up_closure = c, up_in = f\<rparr>"
  define t where "t = s\<lparr>ns_uploads := ns_uploads s @ [Some st]\<rparr>"
  have over: "upload_over t i ?u" using con by (simp add: upload_over_def t_def)
  have bfst: "reset_chain (up_bf st) = up_bf st" using bf(2) by (simp add: st_def)
  have st: "st = upload_at st (resize block_limit []) [] f" by (simp add: st_def upload_at_def)
  have t: "t = stage t i ?u (Some (upload_at st (resize block_limit []) [] f)) []"
    using con(2,3) by (simp add: stage_def t_def put_peer_def st [symmetric] list_update_append flip: con(3))
  have fmeta: "file_meta E filename f = (up_mf st)\<lparr>mf_blocks := map (e_sha1 (se_env E)) (file_parts E filename f)\<rparr>"
    by (simp add: file_meta_def st_def)
  have sel: "up_bf st = ?bf" "up_payto st = payto" "up_closure st = c" "up_bf_key st = ?key" by (simp_all add: st_def)
  have start: "upload_file E W payto filename c s = destroy_on_throw (send_block E W ?u False) (set_upload ?u None) t"
    by (simp add: upload_file_def bindP_def asks_def f(1) liftE_def bf(1) modify_def Let_def t_def st_def)
  have nodes: "ns_calls (stage (done_calling t c urn) i ?u None []) = ns_calls s @ (case c of None \<Rightarrow> [] | Some k \<Rightarrow> [Upload_Done k urn False])"
      "ns_node (stage (done_calling t c urn) i ?u None []) = ns_node s" for urn
    by (simp_all add: stage_def done_calling_def t_def put_peer_def)
  show ?thesis
  proof (cases "f = []")
    case True
    then have parts: "file_parts E filename f = []" by (simp add: file_parts_def chunks.simps)
    have ne': "se_pack_metafile E (resize block_limit []) ((up_mf st)\<lparr>mf_blocks := []\<rparr>) \<noteq> []"
      using ne by (simp add: packed_meta_def parts fmeta)
    have meta: "enc ?bf (pad8 (se_pack_metafile E (resize block_limit []) ((up_mf st)\<lparr>mf_blocks := []\<rparr>))) = sealed_meta E filename f"
      by (simp add: sealed_meta_def packed_meta_def parts fmeta)
    obtain st' where st': "up_closure st' = c" "send_block E W ?u False (stage t i ?u (Some (upload_at st (resize block_limit []) [] [])) [])
        = (Inr (), stage t i ?u (Some st') [(wr_message W (store_msg W payto (sealed_meta E filename f)),
             Cleanup ?u (make_urn E ?key (e_sha1 (se_env E) (sealed_meta E filename f))))])"
      using send_block_meta [where st = st and hs = "[]" and W = W, OF over ne', unfolded sel meta] by (elim exE conjE) (rule that)
    have "stage t i ?u (Some (upload_at st (resize block_limit []) [] [])) [] = t" using t unfolding True by (rule sym)
    note st' = st' [unfolded this, folded file_urn_def]
    show ?thesis
      by (rule that [OF _ _ nodes])
        (simp_all add: start destroy_on_throw_def st'(2), simp add: stored_parts_def parts stage_complete [OF over]
          cleanup_stage [OF over] st'(1) sel msg_def)
  next
    case False
    let ?c = "enc ?bf (take block_limit f)" and ?rest = "drop block_limit f"
    have parts: "file_parts E filename f = ?c # map (enc ?bf) (chunks ?rest)" using False by (simp add: file_parts_def chunks.simps [of f])
    have run: "send_block E W ?u False t
        = (Inr (), stage t i ?u (Some (upload_at st ?c [e_sha1 (se_env E) ?c] ?rest)) [(msg ?c, Send_Block ?u)])"
      using send_block_more [where st = st and hs = "[]" and W = W and E = E and v = "resize block_limit []", OF over False f(2,3) bfst]
      unfolding t [symmetric] sel msg_def append_Nil .
    have len: "length ?rest < 2 ^ 63" using f(3) by simp
    have ne': "se_pack_metafile E (last (?c # map (enc (up_bf st)) (chunks ?rest)))
        ((up_mf st)\<lparr>mf_blocks := [e_sha1 (se_env E) ?c] @ map (e_sha1 (se_env E)) (map (enc (up_bf st)) (chunks ?rest))\<rparr>) \<noteq> []"
      using ne by (simp add: packed_meta_def parts fmeta sel)
    have meta: "enc ?bf (pad8 (se_pack_metafile E (last (?c # map (enc ?bf) (chunks ?rest)))
        ((up_mf st)\<lparr>mf_blocks := [e_sha1 (se_env E) ?c] @ map (e_sha1 (se_env E)) (map (enc ?bf) (chunks ?rest))\<rparr>)))
      = sealed_meta E filename f"
      by (simp add: sealed_meta_def packed_meta_def parts fmeta)
    have n: "length (stored_parts E filename f) = length (chunks ?rest) + 2" by (simp add: stored_parts_def parts)
    have all: "complete_writes E W i (length (stored_parts E filename f)) (snd (send_block E W ?u False t))
        = (map msg (stored_parts E filename f), stage (done_calling t c (file_urn E filename f)) i ?u None [])"
      unfolding n run snd_conv
      using upload_continues [where st = st and W = W and E = E and b = "msg ?c", OF over bfst whole_step(6) [OF False f(2,3)] len ne']
      unfolding sel meta msg_def [symmetric] file_urn_def [symmetric]
      by (simp add: stored_parts_def parts)
    show ?thesis
      by (rule that [OF _ all nodes]) (simp add: start destroy_on_throw_def run)
  qed
qed

section \<open>The receiver\<close>

lemma store_msg_handled:
  assumes W: "share_wire_laws W" and c: "c \<noteq> []" "length c < share_limit" and payto: "length payto < share_limit"
  shows "peer_handle_message E W j (store_msg W payto c) q
    = (Inr (), q\<lparr>ns_node := (ns_node q)\<lparr>sn_blocks := set_block E (e_sha1 (se_env E) c)
        ((shared_block_new E)\<lparr>sb_payto_address := payto, sb_data := c\<rparr>) (sn_blocks (ns_node q))\<rparr>\<rparr>)"
proof -
  have "cast_message (wr_store_block W) store_block_id (store_msg W payto c) = Inr \<lparr>sm_payto_address = payto, sm_data = c\<rparr>"
    using W c(2) payto by (simp add: share_wire_laws_def cast_message_def store_msg_def message_of_def)
  moreover have "m_id (store_msg W payto c) = store_block_id" by (simp add: store_msg_def message_of_def)
  ultimately show ?thesis
    using c(1) by (simp add: peer_handle_message_def share_ids peer_store_block_def bindP_def liftE_def on_share_def store_block_def modify_def)
qed

definition idle_peer :: "'d net_state \<Rightarrow> nat \<Rightarrow> bool" where
  "idle_peer q j \<longleftrightarrow> j < length (ns_peers q) \<and> ready (ns_peers q ! j) \<and> pc_input (ns_peers q ! j) = [] \<and> pc_writes (ns_peers q ! j) = []"

lemma receives_blocks:
  assumes W: "share_wire_laws W" and payto: "length payto < share_limit"
    and cs: "\<forall>c \<in> set cs. c \<noteq> [] \<and> length c < share_limit"
    and q: "j < length (ns_peers q)" "ready (ns_peers q ! j)"
      "pc_input (ns_peers q ! j) = concat (map (\<lambda>c. wr_message W (store_msg W payto c)) cs)"
  shows "\<exists>q'. complete_reads E W j (3 * length cs) q = (Inr (), q')
    \<and> ns_node q' = (ns_node q)\<lparr>sn_blocks := store_all E ((shared_block_new E)\<lparr>sb_payto_address := payto\<rparr>) cs (sn_blocks (ns_node q))\<rparr>
    \<and> length (ns_peers q') = length (ns_peers q) \<and> ready (ns_peers q' ! j) \<and> pc_input (ns_peers q' ! j) = []
    \<and> pc_writes (ns_peers q' ! j) = pc_writes (ns_peers q ! j)"
  using cs q
proof (induction cs arbitrary: q)
  case (Cons c cs)
  let ?m = "store_msg W payto c"
  let ?rest = "concat (map (\<lambda>c. wr_message W (store_msg W payto c)) cs)"
  let ?r = "put_peer j (reading (ns_peers q ! j) ?m ?rest) q"
  let ?b = "(shared_block_new E)\<lparr>sb_payto_address := payto, sb_data := c\<rparr>"
  let ?n = "(ns_node q)\<lparr>sn_blocks := set_block E (e_sha1 (se_env E) c) ?b (sn_blocks (ns_node q))\<rparr>"
  let ?q1 = "put_peer j (peer_async_read 1 2 (reading (ns_peers q ! j) ?m ?rest)) (q\<lparr>ns_node := ?n\<rparr>)"
  have m: "length (m_data ?m) < 2 ^ 32"
    using W Cons.prems(1) payto by (simp add: share_wire_laws_def store_msg_def message_of_def)
  have "peer_handle_message E W j ?m ?r = (Inr (), ?r\<lparr>ns_node := ?n\<rparr>)"
    using store_msg_handled [OF W _ _ payto, of c E j ?r] Cons.prems(1) by simp
  then have one: "complete_reads E W j 3 q = (Inr (), ?q1)"
    using Cons.prems(2-4) reads_message [OF W m Cons.prems(2,3), of ?rest]
    by (simp add: bindP_def change_peer_put) (simp add: put_peer_def)
  have "\<exists>q'. complete_reads E W j (3 * length cs) ?q1 = (Inr (), q')
    \<and> ns_node q' = (ns_node ?q1)\<lparr>sn_blocks := store_all E ((shared_block_new E)\<lparr>sb_payto_address := payto\<rparr>) cs (sn_blocks (ns_node ?q1))\<rparr>
    \<and> length (ns_peers q') = length (ns_peers ?q1) \<and> ready (ns_peers q' ! j) \<and> pc_input (ns_peers q' ! j) = []
    \<and> pc_writes (ns_peers q' ! j) = pc_writes (ns_peers ?q1 ! j)"
    using Cons.prems(1,2) by (intro Cons.IH) (simp_all add: put_peer_def ready_def peer_async_read_def reading_def)
  then obtain q' where q': "complete_reads E W j (3 * length cs) ?q1 = (Inr (), q')"
      "ns_node q' = (ns_node ?q1)\<lparr>sn_blocks := store_all E ((shared_block_new E)\<lparr>sb_payto_address := payto\<rparr>) cs (sn_blocks (ns_node ?q1))\<rparr>"
      "length (ns_peers q') = length (ns_peers ?q1)" "ready (ns_peers q' ! j)" "pc_input (ns_peers q' ! j) = []"
      "pc_writes (ns_peers q' ! j) = pc_writes (ns_peers ?q1 ! j)" by blast
  have n: "3 * length (c # cs) = 3 + 3 * length cs" by simp
  then have "complete_reads E W j (3 * length (c # cs)) q = (Inr (), q')"
    by (simp only: n complete_reads_add bindP_def one q'(1) prod.case sum.case)
  then show ?case
    using q'(2-6) Cons.prems(2) by (simp add: store_all_def put_peer_def peer_async_read_def reading_def)
qed (simp add: ret_def store_all_def)

section \<open>Properties\<close>

text \<open>C35: when a file is uploaded, every write completes and the other node reads what was written,
  the callback gets the name of the file, and exporting that name there writes the file.\<close>

theorem upload_then_export:
  assumes laws: "share_laws E ents" "share_wire_laws W"
    and file_s: "sn_files (ns_node s) filename = Some f" "storable E filename f" "length payto < share_limit"
    and con: "ns_connections s = i # cons" "idle_peer s i"
    and peer: "idle_peer q j" "holds_blocks E ents (sn_blocks (ns_node q)) m"
  shows "\<exists>s1 bs s2 q' urn. upload_file E W payto filename (Some k) s = (Inr (), s1)
    \<and> complete_writes E W i (length (stored_parts E filename f)) s1 = (bs, s2)
    \<and> ns_calls s2 = ns_calls s @ [Upload_Done k urn False]
    \<and> complete_reads E W j (3 * length bs) (snd (bytes_arrive j (concat bs) q)) = (Inr (), q')
    \<and> export_file E urn dir (ns_node q')
      = (Inr (), (ns_node q')\<lparr>sn_files := (sn_files (ns_node q))(se_join E dir (se_filename E filename) \<mapsto> f)\<rparr>)"
proof -
  let ?msg = "\<lambda>c. wr_message W (store_msg W payto c)" and ?parts = "stored_parts E filename f"
  have f: "8 dvd length f" "length f < 2 ^ 63" "length (packed_meta E filename f) < share_limit"
    using file_s(2) by (simp_all add: storable_def)
  note parts = storable_parts [OF laws(1) file_s(2)]
  obtain s1 s2 where up: "upload_file E W payto filename (Some k) s = (Inr (), s1)"
      "complete_writes E W i (length ?parts) s1 = (map ?msg ?parts, s2)"
      "ns_calls s2 = ns_calls s @ (case Some k of None \<Rightarrow> [] | Some k \<Rightarrow> [Upload_Done k (file_urn E filename f) False])"
    using con(2) by (rule_tac upload_file_run [where c = "Some k" and W = W and payto = payto, OF file_s(1) f(1,2) parts(1) con(1)])
      (auto simp: idle_peer_def)
  let ?q = "snd (bytes_arrive j (concat (map ?msg ?parts)) q)"
  have q: "j < length (ns_peers ?q)" "ready (ns_peers ?q ! j)" "pc_input (ns_peers ?q ! j) = concat (map ?msg ?parts)" "ns_node ?q = ns_node q"
    using peer(1) by (simp_all add: bytes_arrive_def change_peer_put idle_peer_def ready_def)
  obtain q' where q': "complete_reads E W j (3 * length ?parts) ?q = (Inr (), q')"
      "ns_node q' = (ns_node q)\<lparr>sn_blocks := store_all E ((shared_block_new E)\<lparr>sb_payto_address := payto\<rparr>) ?parts (sn_blocks (ns_node q))\<rparr>"
    using receives_blocks [OF laws(2) file_s(3) parts(2) q(1-3)] by (auto simp only: q(4))
  have "\<forall>c \<in> set ?parts. has_block E (sn_blocks (ns_node q')) c"
    using stored_parts_found [OF laws(1) peer(2) file_s(2,3)] by (simp add: q'(2))
  from export_file_run [OF laws(1) f this, of dir]
  have "export_file E (file_urn E filename f) dir (ns_node q')
      = (Inr (), (ns_node q')\<lparr>sn_files := (sn_files (ns_node q))(se_join E dir (se_filename E filename) \<mapsto> f)\<rparr>)"
    by (simp add: q'(2))
  with up q'(1) show ?thesis
    by (intro exI [of _ s1] exI [of _ "map ?msg ?parts"] exI [of _ s2] exI [of _ q'] exI [of _ "file_urn E filename f"]) simp
qed

end
