(* ===== verification/PeerDownloads.thy ===== *)
theory PeerDownloads
  imports PeerUploads
begin

text \<open>
  A download: the node asks the other node for one block after the other, and the answers write
  the file. \<open>exchange\<close> is one request and its answer between the two nodes.
\<close>

section \<open>One request and its answer\<close>

definition carry :: "'d share_env \<Rightarrow> share_wire \<Rightarrow> nat \<Rightarrow> nat \<Rightarrow> 'd net_state \<Rightarrow> 'd net_state \<Rightarrow> 'd net_state \<times> 'd net_state" where
  \<comment> \<open>the first write of connection \<open>i\<close> of one node completes and connection \<open>j\<close> of the other reads it\<close>
  "carry E W i j s q =
     (case pc_writes (ns_peers s ! i) of
        [] \<Rightarrow> (s, q)
      | (b, _) # _ \<Rightarrow> (snd (handle_write_complete E W i False s), snd (complete_reads E W j 3 (snd (bytes_arrive j b q)))))"

definition exchange :: "'d share_env \<Rightarrow> share_wire \<Rightarrow> nat \<Rightarrow> nat \<Rightarrow> 'd net_state \<times> 'd net_state \<Rightarrow> 'd net_state \<times> 'd net_state" where
  "exchange E W i j sq = (case carry E W i j (fst sq) (snd sq) of (s, q) \<Rightarrow> (case carry E W j i q s of (q', s') \<Rightarrow> (s', q')))"

definition request_msg :: "share_wire \<Rightarrow> u64 \<Rightarrow> sha1 \<Rightarrow> message" where
  "request_msg W rid hc = message_of (wr_request_block W) request_block_id
     \<lparr>rq_request_id = rid, rq_block_id = hc, rq_start = 0, rq_len = -1\<rparr>"

definition report_msg :: "share_wire \<Rightarrow> u64 \<Rightarrow> bytes \<Rightarrow> message" where
  "report_msg W rid d = message_of (wr_report_block W) report_block_id \<lparr>rp_request_id = rid, rp_start = 0, rp_data = d\<rparr>"

lemma messages_small:
  assumes "share_wire_laws W"
  shows "length (m_data (request_msg W rid hc)) < 2 ^ 32"
    and "length d < share_limit \<Longrightarrow> length (m_data (report_msg W rid d)) < 2 ^ 32"
  using assms by (simp_all add: share_wire_laws_def request_msg_def report_msg_def message_of_def)

lemma node_same: "ns_node s = n \<Longrightarrow> s\<lparr>ns_node := n\<rparr> = s"
  by (cases s) simp

lemma request_served:
  assumes W: "share_wire_laws W" and q: "idle_peer q j" and c: "has_block E (sn_blocks (ns_node q)) c"
  shows "\<exists>q1. complete_reads E W j 3 (snd (bytes_arrive j (wr_message W (request_msg W rid (e_sha1 (se_env E) c))) q)) = (Inr (), q1)
    \<and> pc_writes (ns_peers q1 ! j) = [(wr_message W (report_msg W rid c), No_Closure)]
    \<and> idle_peer (snd (handle_write_complete E W j False q1)) j
    \<and> ns_node (snd (handle_write_complete E W j False q1)) = ns_node q"
proof -
  let ?m = "request_msg W rid (e_sha1 (se_env E) c)"
  let ?q0 = "snd (bytes_arrive j (wr_message W ?m) q)"
  let ?r = "put_peer j (reading (ns_peers ?q0 ! j) ?m []) ?q0"
  let ?answer = "(wr_message W (report_msg W rid c), No_Closure)"
  have j: "j < length (ns_peers ?q0)" "ready (ns_peers ?q0 ! j)" "pc_input (ns_peers ?q0 ! j) = wr_message W ?m @ []" "j < length (ns_peers q)"
      "pc_writes (ns_peers ?q0 ! j) = []"
    using q by (simp_all add: bytes_arrive_def change_peer_put idle_peer_def ready_def)
  obtain b where b: "get_block E (e_sha1 (se_env E) c) (sn_blocks (ns_node q)) = Inr (Some b)" "sb_data b = c"
    using c by (auto simp: has_block_def)
  have "cast_message (wr_request_block W) request_block_id ?m
      = Inr \<lparr>rq_request_id = rid, rq_block_id = e_sha1 (se_env E) c, rq_start = 0, rq_len = -1\<rparr>"
    using W by (simp add: share_wire_laws_def cast_message_def request_msg_def message_of_def)
  moreover have "m_id ?m = request_block_id" by (simp add: request_msg_def message_of_def)
  moreover have "ns_node ?r = ns_node q" by (simp add: bytes_arrive_def change_peer_put)
  ultimately have "peer_handle_message E W j ?m ?r
      = (Inr (), put_peer j ((reading (ns_peers ?q0 ! j) ?m [])\<lparr>pc_writes := [?answer]\<rparr>) ?q0)"
    using j(1,5)
    by (simp add: peer_handle_message_def share_ids peer_request_block_def bindP_def liftE_def on_share_def read_block_def asks_def
        b ret_def peer_send_def change_peer_put report_msg_def node_same) (simp add: reading_def)
  then have q1: "complete_reads E W j 3 ?q0
      = (Inr (), put_peer j (peer_async_read 1 2 ((reading (ns_peers ?q0 ! j) ?m [])\<lparr>pc_writes := [?answer]\<rparr>)) ?q0)"
    using reads_message [OF W messages_small(1) [OF W] j(1-3)] j(1) by (simp add: bindP_def change_peer_put)
  let ?q1 = "put_peer j (peer_async_read 1 2 ((reading (ns_peers ?q0 ! j) ?m [])\<lparr>pc_writes := [?answer]\<rparr>)) ?q0"
  have w: "pc_writes (ns_peers ?q1 ! j) = [?answer]" using j(1) by (simp add: peer_async_read_def)
  have "idle_peer (snd (handle_write_complete E W j False ?q1)) j \<and> ns_node (snd (handle_write_complete E W j False ?q1)) = ns_node q"
    using j(1,4) by (simp add: handle_write_complete_def bindP_def asks_def w change_peer_put ret_def idle_peer_def ready_def)
      (simp add: peer_async_read_def reading_def bytes_arrive_def change_peer_put)
  then show ?thesis using q1 w by blast
qed

section \<open>The side that asks\<close>

definition awaiting :: "share_wire \<Rightarrow> 'd net_state \<Rightarrow> nat \<Rightarrow> nat \<Rightarrow> closure \<Rightarrow> sha1 \<Rightarrow> bool" where
  \<comment> \<open>connection \<open>i\<close> has just asked for the block \<open>hc\<close> of download \<open>d\<close>\<close>
  "awaiting W s i d cl hc \<longleftrightarrow>
     (let p = ns_peers s ! i in
      i < length (ns_peers s) \<and> (\<exists>cs. ns_connections s = i # cs) \<and> d < length (ns_downloads s) \<and> ready p \<and> pc_input p = []
      \<and> om_find (pc_next_req_id p) (pc_requests p) = Some (d, cl)
      \<and> pc_writes p = [(wr_message W (request_msg W (pc_next_req_id p) hc), No_Closure)])"

definition answered :: "'d net_state \<Rightarrow> nat \<Rightarrow> nat \<Rightarrow> download_urn_state \<Rightarrow> message \<Rightarrow> bytes \<Rightarrow> 'd net_state" where
  \<comment> \<open>the answer has been read and its data stored, its closure not yet called\<close>
  "answered s i d st m c = put_peer i (reading ((ns_peers s ! i)\<lparr>pc_writes := []\<rparr>) m [])
     (s\<lparr>ns_downloads := (ns_downloads s)[d := Some (st\<lparr>dn_blk_data := c\<rparr>)]\<rparr>)"

definition after_answer :: "nat \<Rightarrow> u64 \<Rightarrow> 'd net_state \<Rightarrow> 'd net_state" where
  "after_answer i rid s = put_peer i (peer_async_read 1 2 ((ns_peers s ! i)\<lparr>pc_requests := om_erase rid (pc_requests (ns_peers s ! i))\<rparr>)) s"

lemma exchange_run:
  assumes W: "share_wire_laws W" and s: "awaiting W s i d cl (e_sha1 (se_env E) c)" and st: "ns_downloads s ! d = Some st"
    and q: "idle_peer q j" and c: "has_block E (sn_blocks (ns_node q)) c" "length c < share_limit"
    and run: "run_closure E W cl False (answered s i d st (report_msg W (pc_next_req_id (ns_peers s ! i)) c) c) = (Inr (), t)"
    and t: "i < length (ns_peers t)"
  shows "\<exists>q'. exchange E W i j (s, q) = (after_answer i (pc_next_req_id (ns_peers s ! i)) t, q') \<and> idle_peer q' j \<and> ns_node q' = ns_node q"
proof -
  let ?p = "ns_peers s ! i"
  let ?rid = "pc_next_req_id ?p"
  let ?m = "report_msg W ?rid c"
  let ?s1 = "put_peer i (?p\<lparr>pc_writes := []\<rparr>) s"
  let ?s2 = "snd (bytes_arrive i (wr_message W ?m) ?s1)"
  have p: "i < length (ns_peers s)" "d < length (ns_downloads s)" "ready ?p" "pc_input ?p = []"
      "om_find ?rid (pc_requests ?p) = Some (d, cl)"
      "pc_writes ?p = [(wr_message W (request_msg W ?rid (e_sha1 (se_env E) c)), No_Closure)]"
    using s by (simp_all add: awaiting_def Let_def)
  obtain q1 where q1: "complete_reads E W j 3 (snd (bytes_arrive j (wr_message W (request_msg W ?rid (e_sha1 (se_env E) c))) q)) = (Inr (), q1)"
      "pc_writes (ns_peers q1 ! j) = [(wr_message W ?m, No_Closure)]"
      "idle_peer (snd (handle_write_complete E W j False q1)) j" "ns_node (snd (handle_write_complete E W j False q1)) = ns_node q"
    using request_served [OF W q c(1)] by blast
  have first: "carry E W i j s q = (?s1, q1)"
    using p(1) by (simp add: carry_def p(6) q1(1) handle_write_complete_def bindP_def asks_def change_peer_put ret_def)
  have j2: "i < length (ns_peers ?s2)" "ready (ns_peers ?s2 ! i)" "pc_input (ns_peers ?s2 ! i) = wr_message W ?m @ []"
    using p by (simp_all add: bytes_arrive_def change_peer_put ready_def)
  have cast: "cast_message (wr_report_block W) report_block_id ?m = Inr \<lparr>rp_request_id = ?rid, rp_start = 0, rp_data = c\<rparr>"
    using W c(2) by (simp add: share_wire_laws_def cast_message_def report_msg_def message_of_def)
  have id: "m_id ?m = report_block_id" by (simp add: report_msg_def message_of_def)
  let ?r = "put_peer i (reading (ns_peers ?s2 ! i) ?m []) ?s2"
  have r: "?r = put_peer i (reading (?p\<lparr>pc_writes := []\<rparr>) ?m []) s"
    using p(1) by (simp add: bytes_arrive_def change_peer_put) (simp add: reading_def)
  have "set_download d (Some (st\<lparr>dn_blk_data := c\<rparr>)) ?r = (Inr (), answered s i d st ?m c)"
    unfolding r by (simp add: set_download_def modify_def answered_def put_peer_def)
  moreover have "the_download d ?r = (Inr st, ?r)"
    unfolding r using p(2) st by (simp add: the_download_def bindP_def asks_def ret_def)
  moreover have "om_find ?rid (pc_requests (ns_peers ?r ! i)) = Some (d, cl)"
    unfolding r using p(1,5) by (simp add: reading_def)
  ultimately have "peer_handle_message E W i ?m ?r
      = (Inr (), put_peer i ((ns_peers t ! i)\<lparr>pc_requests := om_erase ?rid (pc_requests (ns_peers t ! i))\<rparr>) t)"
    by (simp add: peer_handle_message_def id share_ids peer_report_block_def cast [unfolded share_ids] bindP_def liftE_def asks_def run change_peer_put)
  then have "complete_reads E W i 3 ?s2 = (Inr (), after_answer i ?rid t)"
    using reads_message [OF W messages_small(2) [OF W c(2)] j2] t by (simp add: bindP_def change_peer_put after_answer_def)
  then have "carry E W j i q1 ?s1 = (snd (handle_write_complete E W j False q1), after_answer i ?rid t)"
    by (simp add: carry_def q1(2))
  then show ?thesis using q1(3,4) by (simp add: exchange_def first)
qed

section \<open>What the closures do\<close>

definition asks_for :: "share_wire \<Rightarrow> 'd net_state \<Rightarrow> nat \<Rightarrow> nat \<Rightarrow> closure \<Rightarrow> sha1 \<Rightarrow> 'd net_state" where
  "asks_for W s i d cl hc =
     (let p = ns_peers s ! i; rid = pc_next_req_id p + 1 in
      put_peer i (p\<lparr>pc_next_req_id := rid, pc_requests := om_set rid (d, cl) (pc_requests p),
        pc_writes := pc_writes p @ [(wr_message W (request_msg W rid hc), No_Closure)]\<rparr>) s)"

lemma download_block_run:
  assumes "ns_connections s = i # cs" and "i < length (ns_peers s)"
  shows "download_block W hc d cl s = (Inr (), asks_for W s i d cl hc)"
  using assms
  by (simp add: download_block_def bindP_def asks_def request_block_def change_peer_put peer_send_def asks_for_def request_msg_def Let_def)

lemma asks_for_simps [simp]:
  "ns_node (asks_for W s i d cl hc) = ns_node s" "ns_calls (asks_for W s i d cl hc) = ns_calls s"
  "ns_downloads (asks_for W s i d cl hc) = ns_downloads s" "ns_connections (asks_for W s i d cl hc) = ns_connections s"
  "length (ns_peers (asks_for W s i d cl hc)) = length (ns_peers s)"
  by (simp_all add: asks_for_def Let_def)

lemma after_answer_simps [simp]:
  "ns_node (after_answer i rid s) = ns_node s" "ns_calls (after_answer i rid s) = ns_calls s"
  "ns_downloads (after_answer i rid s) = ns_downloads s"
  by (simp_all add: after_answer_def)

lemma awaiting_again:
  assumes "i < length (ns_peers a)" and "ns_connections a = i # cs" and "d < length (ns_downloads a)"
    and "pc_writes (ns_peers a ! i) = []" and "pc_input (ns_peers a ! i) = []" and "pc_next_req_id (ns_peers a ! i) = rid"
  shows "awaiting W (after_answer i rid (asks_for W a i d cl hc)) i d cl hc"
  using assms
  by (simp add: awaiting_def Let_def after_answer_def asks_for_def ready_def peer_async_read_def om_erase_find om_find_set)

definition saved :: "'d net_state \<Rightarrow> nat \<Rightarrow> download_urn_state \<Rightarrow> bytes \<Rightarrow> 'd net_state" where
  \<comment> \<open>the object of download \<open>d\<close> is \<open>st\<close> and its file has the contents \<open>out\<close>\<close>
  "saved s d st out = s\<lparr>ns_downloads := (ns_downloads s)[d := Some st],
     ns_node := (ns_node s)\<lparr>sn_files := (sn_files (ns_node s))(dn_ofile st \<mapsto> out)\<rparr>\<rparr>"

definition finished :: "'d net_state \<Rightarrow> nat \<Rightarrow> download_urn_state \<Rightarrow> 'd net_state" where
  "finished s d st = s\<lparr>ns_calls := ns_calls s @ (case dn_c st of None \<Rightarrow> [] | Some k \<Rightarrow> [Download_Done k False]),
     ns_downloads := (ns_downloads s)[d := None]\<rparr>"

lemma finish_run:
  assumes "d < length (ns_downloads s)" and "ns_downloads s ! d = Some st"
  shows "finish_download d False s = (Inr (), finished s d st)"
  using assms
  by (auto simp: finish_download_def the_download_def bindP_def asks_def ret_def call_back_def modify_def set_download_def
      finished_def split: option.split)

definition next_block :: "share_wire \<Rightarrow> 'd net_state \<Rightarrow> nat \<Rightarrow> nat \<Rightarrow> download_urn_state \<Rightarrow> nat \<Rightarrow> 'd net_state" where
  "next_block W a i d st k =
     (if k < length (mf_blocks (dn_mf st)) then asks_for W a i d (Block_Complete d k) (mf_blocks (dn_mf st) ! k) else finished a d st)"

lemma block_complete_run:
  assumes a: "d < length (ns_downloads a)" "ns_downloads a ! d = Some st" "ns_connections a = i # cs" "i < length (ns_peers a)"
    and st: "dn_blk_data st = enc (dn_bf st) x" "whole x" "reset_chain (dn_bf st) = dn_bf st"
      "sn_files (ns_node a) (dn_ofile st) = Some out"
  shows "block_complete E W d k False a
    = (Inr (), next_block W (saved a d (st\<lparr>dn_blk_data := x\<rparr>) (out @ x)) i d (st\<lparr>dn_blk_data := x\<rparr>) (k + 1))"
proof -
  let ?a = "saved a d (st\<lparr>dn_blk_data := x\<rparr>) (out @ x)"
  have "dn_blk_data st \<noteq> []" using st(1,2) by (simp add: whole_def)
  moreover have "st\<lparr>dn_blk_data := x, dn_bf := reset_chain (dn_bf st)\<rparr> = st\<lparr>dn_blk_data := x\<rparr>" using st(3) by (cases st) simp
  ultimately have "block_complete E W d k False a
      = (if k + 1 < length (mf_blocks (dn_mf st)) then download_block W (mf_blocks (dn_mf st) ! (k + 1)) d (Block_Complete d (k + 1))
         else finish_download d False) ?a"
    using a(1,2) st(1,2,4)
    by (simp add: block_complete_def the_download_def bindP_def asks_def ret_def liftE_def decrypt_whole set_download_def modify_def
        on_share_def append_file_def saved_def)
  moreover have "download_block W hc d cl ?a = (Inr (), asks_for W ?a i d cl hc)" for hc cl
    using a(3,4) by (intro download_block_run) (simp_all add: saved_def)
  moreover have "finish_download d False ?a = (Inr (), finished ?a d (st\<lparr>dn_blk_data := x\<rparr>))"
    using a(1) by (intro finish_run) (simp_all add: saved_def)
  ultimately show ?thesis by (simp add: next_block_def)
qed

lemma meta_block_complete_run:
  assumes laws: "share_laws E ents" and f: "storable E filename f"
    and a: "d < length (ns_downloads a)" "ns_downloads a ! d = Some st" "ns_connections a = i # cs" "i < length (ns_peers a)"
    and st: "dn_blk_data st = sealed_meta E filename f" "dn_bf_key st = share_key E filename"
  defines "path \<equiv> se_join E (dn_dir st) (se_filename E filename)"
  defines "st' \<equiv> st\<lparr>dn_bf := cipher_of E (share_key E filename), dn_blk_data := pad8 (packed_meta E filename f),
     dn_mf := file_meta E filename f, dn_ofile := path\<rparr>"
  shows "meta_block_complete E W d False a = (Inr (), next_block W (saved a d st' []) i d st' 0)"
proof -
  let ?bf = "cipher_of E (share_key E filename)"
  let ?a = "saved a d st' []"
  note bf = share_cipher_of [where E = E, OF share_key_ne [of E filename]]
  have ne: "packed_meta E filename f \<noteq> []" by (rule storable_parts(1) [OF laws f])
  have dec: "decrypt_vector ?bf (dn_blk_data st) = Inr (pad8 (packed_meta E filename f))"
    unfolding st(1) sealed_meta_def by (rule decrypt_whole [OF pad8_whole [OF ne]])
  have "length (packed_meta E filename f) < share_limit" using f by (simp add: storable_def)
  then have "se_unpack_metafile E (packed_meta E filename f @ rest) = Inr (file_meta E filename f)" for rest
    using laws unfolding share_laws_def packed_meta_def by blast
  then have unpack: "se_unpack_metafile E (pad8 (packed_meta E filename f)) = Inr (file_meta E filename f)"
    by (subst pad8_eq) simp
  have "meta_block_complete E W d False a
      = (case mf_blocks (file_meta E filename f) of hc # _ \<Rightarrow> download_block W hc d (Block_Complete d 0) | [] \<Rightarrow> finish_download d False) ?a"
    using a(1,2)
    by (simp add: meta_block_complete_def the_download_def bindP_def asks_def ret_def liftE_def st(2) bf dec unpack set_download_def
        modify_def on_share_def saved_def st'_def path_def Let_def file_meta_def)
  moreover have "download_block W hc d cl ?a = (Inr (), asks_for W ?a i d cl hc)" for hc cl
    using a(3,4) by (intro download_block_run) (simp_all add: saved_def)
  moreover have "finish_download d False ?a = (Inr (), finished ?a d st')"
    using a(1) by (intro finish_run) (simp_all add: saved_def)
  moreover have "dn_mf st' = file_meta E filename f" by (simp add: st'_def)
  ultimately show ?thesis by (auto simp: next_block_def split: list.split)
qed

section \<open>The whole download\<close>

lemma answered_simps:
  assumes "i < length (ns_peers s)"
  shows "ns_node (answered s i d st m c) = ns_node s" "ns_calls (answered s i d st m c) = ns_calls s"
    and "ns_connections (answered s i d st m c) = ns_connections s" "length (ns_peers (answered s i d st m c)) = length (ns_peers s)"
    and "length (ns_downloads (answered s i d st m c)) = length (ns_downloads s)"
    and "d < length (ns_downloads s) \<Longrightarrow> ns_downloads (answered s i d st m c) ! d = Some (st\<lparr>dn_blk_data := c\<rparr>)"
    and "pc_writes (ns_peers (answered s i d st m c) ! i) = []" "pc_input (ns_peers (answered s i d st m c) ! i) = []"
    and "pc_next_req_id (ns_peers (answered s i d st m c) ! i) = pc_next_req_id (ns_peers s ! i)"
  using assms by (simp_all add: answered_def put_peer_def reading_def)

definition progressed :: "share_wire \<Rightarrow> nat \<Rightarrow> nat \<Rightarrow> download_urn_state \<Rightarrow> bytes \<Rightarrow> nat \<Rightarrow> 'd net_state \<Rightarrow> 'd net_state \<Rightarrow> bool" where
  \<comment> \<open>the file has the contents \<open>out\<close>, and either block \<open>k\<close> is asked for or the caller was told\<close>
  "progressed W i d st out k s s' \<longleftrightarrow>
     ns_node s' = (ns_node s)\<lparr>sn_files := (sn_files (ns_node s))(dn_ofile st \<mapsto> out)\<rparr>
     \<and> (if k < length (mf_blocks (dn_mf st))
        then awaiting W s' i d (Block_Complete d k) (mf_blocks (dn_mf st) ! k) \<and> ns_downloads s' ! d = Some st \<and> ns_calls s' = ns_calls s
        else ns_calls s' = ns_calls s @ (case dn_c st of None \<Rightarrow> [] | Some k \<Rightarrow> [Download_Done k False]))"

lemma exchange_progress:
  assumes W: "share_wire_laws W" and s: "awaiting W s i d cl (e_sha1 (se_env E) c)" and st: "ns_downloads s ! d = Some st"
    and q: "idle_peer q j" and c: "has_block E (sn_blocks (ns_node q)) c" "length c < share_limit"
    and run: "\<And>a. d < length (ns_downloads a) \<Longrightarrow> ns_downloads a ! d = Some (st\<lparr>dn_blk_data := c\<rparr>) \<Longrightarrow> i < length (ns_peers a) \<Longrightarrow>
      ns_connections a = ns_connections s \<Longrightarrow> ns_node a = ns_node s \<Longrightarrow>
      run_closure E W cl False a = (Inr (), next_block W (saved a d st' out) i d st' k)"
  obtains s' q' where "exchange E W i j (s, q) = (s', q')" and "idle_peer q' j" and "ns_node q' = ns_node q"
    and "progressed W i d st' out k s s'"
proof -
  let ?rid = "pc_next_req_id (ns_peers s ! i)"
  let ?a = "answered s i d st (report_msg W ?rid c) c"
  let ?b = "saved ?a d st' out"
  have p: "i < length (ns_peers s)" "d < length (ns_downloads s)" using s by (simp_all add: awaiting_def Let_def)
  obtain cs where cs: "ns_connections s = i # cs" using s by (auto simp: awaiting_def Let_def)
  note a = answered_simps [OF p(1), where d = d and st = st and m = "report_msg W ?rid c" and c = c]
  have b: "i < length (ns_peers ?b)" "ns_connections ?b = i # cs" "d < length (ns_downloads ?b)" "pc_writes (ns_peers ?b ! i) = []"
      "pc_input (ns_peers ?b ! i) = []" "pc_next_req_id (ns_peers ?b ! i) = ?rid" "ns_calls ?b = ns_calls s"
      "ns_downloads ?b ! d = Some st'" "ns_node ?b = (ns_node s)\<lparr>sn_files := (sn_files (ns_node s))(dn_ofile st' \<mapsto> out)\<rparr>"
    using a p cs by (simp_all add: saved_def)
  have "run_closure E W cl False ?a = (Inr (), next_block W ?b i d st' k)"
    using run a p by simp
  moreover have "i < length (ns_peers (next_block W ?b i d st' k))"
    using b(1) by (simp add: next_block_def finished_def)
  ultimately obtain q' where q': "exchange E W i j (s, q) = (after_answer i ?rid (next_block W ?b i d st' k), q')"
      "idle_peer q' j" "ns_node q' = ns_node q"
    using exchange_run [OF W s st q c] by blast
  have "progressed W i d st' out k s (after_answer i ?rid (next_block W ?b i d st' k))"
    using awaiting_again [OF b(1-6), of W "Block_Complete d k" "mf_blocks (dn_mf st') ! k"] b(7-9)
    by (simp add: progressed_def next_block_def finished_def)
  with q' show ?thesis by (rule that)
qed

lemma blocks_arrive:
  assumes laws: "share_laws E ents" "share_wire_laws W" and f: "storable E filename f"
    and s: "awaiting W s i d (Block_Complete d k) (mf_blocks (file_meta E filename f) ! k)" "ns_downloads s ! d = Some st"
    and st: "dn_mf st = file_meta E filename f" "dn_bf st = cipher_of E (share_key E filename)" "dn_c st = Some kk"
    and out: "sn_files (ns_node s) (dn_ofile st) = Some out" "chunks f = got @ xs" "k = length got" "xs \<noteq> []"
    and q: "idle_peer q j" "\<forall>c \<in> set (stored_parts E filename f). has_block E (sn_blocks (ns_node q)) c"
  shows "\<exists>s' q'. (exchange E W i j ^^ length xs) (s, q) = (s', q') \<and> ns_calls s' = ns_calls s @ [Download_Done kk False]
    \<and> ns_node s' = (ns_node s)\<lparr>sn_files := (sn_files (ns_node s))(dn_ofile st \<mapsto> out @ concat xs)\<rparr>"
  using s st out q
proof (induction xs arbitrary: s st out q k got)
  case (Cons x xs)
  let ?bf = "cipher_of E (share_key E filename)"
  let ?c = "enc ?bf x"
  let ?st = "st\<lparr>dn_blk_data := x\<rparr>"
  note bf = share_cipher_of [where E = E, OF share_key_ne [of E filename]]
  have x: "x \<in> set (chunks f)" "chunks f ! k = x" "k < length (chunks f)" using Cons.prems(7,8) by simp_all
  have whole: "whole x" using chunks_whole [OF _ x(1)] f by (simp add: storable_def)
  have c: "?c \<in> set (stored_parts E filename f)" using x(1) by (simp add: stored_parts_def file_parts_def)
  have small: "length ?c < share_limit" using storable_parts(2) [OF laws(1) f] c by blast
  have hc: "mf_blocks (file_meta E filename f) ! k = e_sha1 (se_env E) ?c"
    using x by (simp add: file_meta_def file_parts_def)
  have n: "length (mf_blocks (file_meta E filename f)) = length (chunks f)" by (simp add: file_meta_def file_parts_def)
  have aw: "awaiting W s i d (Block_Complete d k) (e_sha1 (se_env E) ?c)" using Cons.prems(1) unfolding hc .
  obtain cs where cs: "ns_connections s = i # cs" using aw by (auto simp: awaiting_def Let_def)
  have run: "run_closure E W (Block_Complete d k) False a = (Inr (), next_block W (saved a d ?st (out @ x)) i d ?st (k + 1))"
    if "d < length (ns_downloads a)" "ns_downloads a ! d = Some (st\<lparr>dn_blk_data := ?c\<rparr>)" "i < length (ns_peers a)"
      "ns_connections a = ns_connections s" "ns_node a = ns_node s" for a
    using block_complete_run [OF that(1,2) _ that(3), where x = x and out = out and E = E and W = W and k = k, of cs] that(4,5) cs whole bf(2)
      Cons.prems(4,6) by simp
  have has: "has_block E (sn_blocks (ns_node q)) ?c" using Cons.prems(11) c by blast
  obtain s1 q1 where one: "exchange E W i j (s, q) = (s1, q1)" "idle_peer q1 j" "ns_node q1 = ns_node q"
      "progressed W i d ?st (out @ x) (k + 1) s s1"
    by (rule exchange_progress [OF laws(2) aw Cons.prems(2) Cons.prems(10) has small run])
  show ?case
  proof (cases "xs = []")
    case True
    then have "k + 1 = length (chunks f)" using Cons.prems(7,8) by simp
    then show ?thesis
      using one Cons.prems(3,5) by (simp add: True progressed_def n fun_upd_def)
  next
    case False
    then have k1: "k + 1 < length (mf_blocks (file_meta E filename f))" using Cons.prems(7,8) by (cases xs) (simp_all add: n)
    then have p1: "awaiting W s1 i d (Block_Complete d (k + 1)) (mf_blocks (file_meta E filename f) ! (k + 1))" "ns_downloads s1 ! d = Some ?st"
        "ns_calls s1 = ns_calls s" "ns_node s1 = (ns_node s)\<lparr>sn_files := (sn_files (ns_node s))(dn_ofile st \<mapsto> out @ x)\<rparr>"
      using one(4) Cons.prems(3) by (simp_all add: progressed_def)
    have has1: "\<forall>c \<in> set (stored_parts E filename f). has_block E (sn_blocks (ns_node q1)) c"
      using Cons.prems(11) unfolding one(3) .
    have "\<exists>s' q'. (exchange E W i j ^^ length xs) (s1, q1) = (s', q') \<and> ns_calls s' = ns_calls s1 @ [Download_Done kk False]
        \<and> ns_node s' = (ns_node s1)\<lparr>sn_files := (sn_files (ns_node s1))(dn_ofile ?st \<mapsto> (out @ x) @ concat xs)\<rparr>"
      by (rule Cons.IH [OF p1(1,2) _ _ _ _ _ _ False one(2) has1, where got = "got @ [x]"])
        (use Cons.prems(3,4,5,7,8) p1(4) in simp_all)
    then obtain s' q' where r: "(exchange E W i j ^^ length xs) (s1, q1) = (s', q')" "ns_calls s' = ns_calls s1 @ [Download_Done kk False]"
        "ns_node s' = (ns_node s1)\<lparr>sn_files := (sn_files (ns_node s1))(dn_ofile ?st \<mapsto> (out @ x) @ concat xs)\<rparr>" by blast
    have "ns_node s' = (ns_node s)\<lparr>sn_files := (sn_files (ns_node s))(dn_ofile st \<mapsto> out @ concat (x # xs))\<rparr>"
      unfolding r(3) p1(4) by simp
    moreover have "(exchange E W i j ^^ length (x # xs)) (s, q) = (s', q')"
      by (simp add: one(1) r(1) funpow_Suc_right del: funpow.simps)
    moreover have "ns_calls s' = ns_calls s @ [Download_Done kk False]" using r(2) p1(3) by simp
    ultimately show ?thesis by (intro exI [of _ s'] exI [of _ q'] conjI)
  qed
qed simp

lemma download_starts:
  assumes laws: "share_laws E ents" and con: "ns_connections s = i # cons" "idle_peer s i"
  defines "d \<equiv> length (ns_downloads s)"
  obtains s1 st where "download_urn E W (file_urn E filename f) dir c s = (Inr (), s1)"
    and "awaiting W s1 i d (Meta_Block_Complete d) (e_sha1 (se_env E) (sealed_meta E filename f))"
    and "ns_downloads s1 ! d = Some st" and "dn_bf_key st = share_key E filename" and "dn_dir st = dir" and "dn_c st = c"
    and "ns_node s1 = ns_node s" and "ns_calls s1 = ns_calls s"
proof -
  let ?hc = "e_sha1 (se_env E) (sealed_meta E filename f)"
  define st where "st = \<lparr>dn_bf_key = share_key E filename, dn_hc = ?hc, dn_c = c, dn_bf = se_blank_cipher E, dn_ofile = [],
     dn_mf = \<lparr>mf_name = [], mf_size = 0, mf_blocks = []\<rparr>, dn_dir = dir, dn_blk_data = []\<rparr>"
  define t where "t = s\<lparr>ns_downloads := ns_downloads s @ [Some st]\<rparr>"
  have "split_urn (file_urn E filename f) = (share_key E filename, e_base64_encode (se_env E) (sha1_to_bytes ?hc))"
    unfolding file_urn_def by (rule split_make_urn [OF share_key_no_sep])
  moreover have "download_block W ?hc d cl t = (Inr (), asks_for W t i d cl ?hc)" for cl
    using con by (intro download_block_run) (simp_all add: t_def idle_peer_def)
  ultimately have "download_urn E W (file_urn E filename f) dir c s = (Inr (), asks_for W t i d (Meta_Block_Complete d) ?hc)"
    by (simp add: download_urn_def urn_hash_encoded [OF laws] bindP_def liftE_def asks_def modify_def destroy_on_throw_def
        t_def st_def d_def Let_def)
  moreover have "awaiting W (asks_for W t i d (Meta_Block_Complete d) ?hc) i d (Meta_Block_Complete d) ?hc"
    using con by (simp add: awaiting_def asks_for_def t_def d_def idle_peer_def ready_def om_find_set Let_def)
  ultimately show ?thesis
    by (rule that [where st = st]) (simp_all add: t_def d_def st_def)
qed

section \<open>Properties\<close>

text \<open>C36: a file that one node imported is downloaded by another: after one exchange for the block of
  names and one for every block of the file, the caller is told and the file is written.\<close>

theorem import_then_download:
  assumes laws: "share_laws E ents" "share_wire_laws W" and f: "storable E filename f"
    and import: "holds_blocks E ents (sn_blocks nd) m" "sn_files nd filename = Some f" "import_file E filename nd = (Inr urn, ns_node q)"
    and con: "ns_connections s = i # cons" "idle_peer s i" "idle_peer q j"
  shows "\<exists>s1 s2 q'. download_urn E W urn dir (Some k) s = (Inr (), s1)
    \<and> (exchange E W i j ^^ Suc (length (chunks f))) (s1, q) = (s2, q')
    \<and> ns_calls s2 = ns_calls s @ [Download_Done k False]
    \<and> ns_node s2 = (ns_node s)\<lparr>sn_files := (sn_files (ns_node s))(se_join E dir (se_filename E filename) \<mapsto> f)\<rparr>"
proof -
  let ?d = "length (ns_downloads s)" and ?meta = "sealed_meta E filename f" and ?path = "se_join E dir (se_filename E filename)"
  have len: "8 dvd length f" "length f < 2 ^ 63" using f by (simp_all add: storable_def)
  have urn: "urn = file_urn E filename f"
    and node: "ns_node q = nd\<lparr>sn_blocks := store_all E (shared_block_new E) (stored_parts E filename f) (sn_blocks nd)\<rparr>"
    using import_file_run(1) [OF import(2) len(2) storable_parts(1) [OF laws(1) f] len(1)] import(3) by simp_all
  have "(shared_block_new E)\<lparr>sb_payto_address := []\<rparr> = shared_block_new E" by (simp add: shared_block_new_def)
  then have has: "\<forall>c \<in> set (stored_parts E filename f). has_block E (sn_blocks (ns_node q)) c"
    using stored_parts_found [OF laws(1) import(1) f, of "[]"] by (simp add: share_limit_def node)
  have m: "has_block E (sn_blocks (ns_node q)) ?meta" "length ?meta < share_limit"
    using has storable_parts(2) [OF laws(1) f] by (simp_all add: stored_parts_def)
  obtain s1 st where s1: "download_urn E W (file_urn E filename f) dir (Some k) s = (Inr (), s1)"
      "awaiting W s1 i ?d (Meta_Block_Complete ?d) (e_sha1 (se_env E) ?meta)" "ns_downloads s1 ! ?d = Some st"
      "dn_bf_key st = share_key E filename" "dn_dir st = dir" "dn_c st = Some k" "ns_node s1 = ns_node s" "ns_calls s1 = ns_calls s"
    using con(2) by (rule download_starts [OF laws(1) con(1)])
  define st' where "st' = st\<lparr>dn_bf := cipher_of E (share_key E filename), dn_blk_data := pad8 (packed_meta E filename f),
     dn_mf := file_meta E filename f, dn_ofile := ?path\<rparr>"
  obtain cs where cs: "ns_connections s1 = i # cs" using s1(2) by (auto simp: awaiting_def Let_def)
  have run: "run_closure E W (Meta_Block_Complete ?d) False a = (Inr (), next_block W (saved a ?d st' []) i ?d st' 0)"
    if "?d < length (ns_downloads a)" "ns_downloads a ! ?d = Some (st\<lparr>dn_blk_data := ?meta\<rparr>)" "i < length (ns_peers a)"
      "ns_connections a = ns_connections s1" "ns_node a = ns_node s1" for a
    using meta_block_complete_run [OF laws(1) f that(1,2) _ that(3), where W = W and cs = cs] that(4) cs s1(4,5)
    by (cases st) (simp add: st'_def)
  obtain s2 q2 where two: "exchange E W i j (s1, q) = (s2, q2)" "idle_peer q2 j" "ns_node q2 = ns_node q" "progressed W i ?d st' [] 0 s1 s2"
    by (rule exchange_progress [OF laws(2) s1(2,3) con(3) m run])
  have st': "dn_mf st' = file_meta E filename f" "dn_bf st' = cipher_of E (share_key E filename)" "dn_c st' = Some k" "dn_ofile st' = ?path"
    using s1(6) by (simp_all add: st'_def)
  have n: "length (mf_blocks (file_meta E filename f)) = length (chunks f)" by (simp add: file_meta_def file_parts_def)
  show ?thesis
  proof (cases "f = []")
    case True
    have "mf_blocks (file_meta E filename []) = []" "chunks [] = []" by (simp_all add: file_meta_def file_parts_def chunks.simps)
    then show ?thesis
      using s1(1,7,8) two(1,4) st' by (simp add: progressed_def urn True)
  next
    case False
    then have ch: "chunks f \<noteq> []" by (simp add: chunks.simps [of f])
    then have p2: "awaiting W s2 i ?d (Block_Complete ?d 0) (mf_blocks (file_meta E filename f) ! 0)" "ns_downloads s2 ! ?d = Some st'"
        "ns_calls s2 = ns_calls s" "ns_node s2 = (ns_node s)\<lparr>sn_files := (sn_files (ns_node s))(?path \<mapsto> [])\<rparr>"
      using two(4) s1(7,8) by (simp_all add: progressed_def st' n)
    have "\<exists>s' q'. (exchange E W i j ^^ length (chunks f)) (s2, q2) = (s', q') \<and> ns_calls s' = ns_calls s2 @ [Download_Done k False]
        \<and> ns_node s' = (ns_node s2)\<lparr>sn_files := (sn_files (ns_node s2))(dn_ofile st' \<mapsto> [] @ concat (chunks f))\<rparr>"
      by (rule blocks_arrive [OF laws f p2(1,2) st'(1-3), where got = "[]"])
        (use ch two(2,3) has in \<open>simp_all add: p2(4) st'(4)\<close>)
    then show ?thesis
      using s1(1) by (simp add: urn two(1) p2(3,4) st'(4) concat_chunks funpow_Suc_right del: funpow.simps)
  qed
qed

end
