(* ===== verification/PeerSample.thy ===== *)
theory PeerSample
  imports PeerDownloads RawLayout
begin

text \<open>
  Third-party code that meets the laws of files and peers, two connected nodes, and the theorems
  of the components at concrete files.
\<close>

section \<open>An environment\<close>

definition lay_shared_block :: "shared_block layout" where
  "lay_shared_block = lay_iso
     (\<lambda>b. (sb_publish_date b, sb_last_request b, sb_total_btc b, sb_total_requests b, sb_payto_address b, sb_data b))
     (\<lambda>(p, l, b, r, a, d). \<lparr>sb_publish_date = p, sb_last_request = l, sb_total_btc = b, sb_total_requests = r,
        sb_payto_address = a, sb_data = d\<rparr>)
     (lay_pair (lay_word 8) (lay_pair (lay_word 8) (lay_pair (lay_word 8) (lay_pair (lay_word 8) (lay_pair lay_string lay_bytes)))))"

definition lay_metafile :: "metafile layout" where
  "lay_metafile = lay_iso (\<lambda>m. (mf_name m, mf_size m, mf_blocks m)) (\<lambda>(n, s, b). \<lparr>mf_name = n, mf_size = s, mf_blocks = b\<rparr>)
     (lay_pair lay_string (lay_pair (lay_word 8) (lay_list (lay_word 20))))"

definition lay_store_block :: "store_block_msg layout" where
  "lay_store_block = lay_iso (\<lambda>m. (sm_payto_address m, sm_data m)) (\<lambda>(p, d). \<lparr>sm_payto_address = p, sm_data = d\<rparr>)
     (lay_pair lay_string lay_bytes)"

definition lay_request_block :: "request_block_msg layout" where
  "lay_request_block = lay_iso (\<lambda>m. (rq_request_id m, rq_block_id m, rq_start m, rq_len m))
     (\<lambda>(r, b, s, l). \<lparr>rq_request_id = r, rq_block_id = b, rq_start = s, rq_len = l\<rparr>)
     (lay_pair (lay_word 8) (lay_pair (lay_word 20) (lay_pair (lay_word 8) (lay_word 8))))"

definition lay_report_block :: "report_block_msg layout" where
  "lay_report_block = lay_iso (\<lambda>m. (rp_request_id m, rp_start m, rp_data m))
     (\<lambda>(r, s, d). \<lparr>rp_request_id = r, rp_start = s, rp_data = d\<rparr>)
     (lay_pair (lay_word 8) (lay_pair (lay_word 8) lay_bytes))"

definition lay_create_account :: "create_account layout" where
  "lay_create_account = lay_iso ca_btc_address (\<lambda>a. \<lparr>ca_btc_address = a\<rparr>) lay_string"

definition share_sample :: "(bytes \<times> bytes) list share_env" where
  \<comment> \<open>the hash is the length, which tells the blocks of the small files below apart\<close>
  "share_sample = \<lparr>se_env = raw_env\<lparr>e_sha1 := (\<lambda>bs. of_nat (length bs))\<rparr>, se_block = codec_of lay_shared_block,
     se_pack_metafile = (\<lambda>v. lay lay_metafile), se_unpack_metafile = unpack (codec_of lay_metafile),
     se_filename = (\<lambda>p. p), se_join = (\<lambda>d n. d @ ''/'' @ n),
     se_blank_block = \<lparr>sb_publish_date = 1, sb_last_request = 2, sb_total_btc = 3, sb_total_requests = 4, sb_payto_address = [], sb_data = []\<rparr>,
     se_blank_cipher = blank_cipher, se_blank_hash = replicate 20 7\<rparr>"

definition wire_sample :: share_wire where
  "wire_sample = \<lparr>wr_message = (\<lambda>m. le_bytes 2 (unat (m_id m)) @ le_bytes 4 (length (m_data m)) @ m_data m),
     wr_create_account = codec_of lay_create_account, wr_store_block = codec_of lay_store_block,
     wr_request_block = codec_of lay_request_block, wr_report_block = codec_of lay_report_block\<rparr>"

lemmas lossless_small = lossless_iso lossless_pair lossless_words lossless_string lossless_bytes

lemma lossless_share:
  "lossless lay_shared_block" "lossless lay_metafile" "lossless lay_store_block" "lossless lay_request_block" "lossless lay_report_block"
proof -
  have "lay (lay_word 20 :: sha1 layout) y \<noteq> []" for y
    unfolding length_0_conv [symmetric] by (simp add: lay_word_def del: length_0_conv)
  then have "lossless (lay_list (lay_word 20 :: sha1 layout))"
    by (intro lossless_list lossless_words) simp_all
  then show "lossless lay_metafile" unfolding lay_metafile_def by (intro lossless_small) simp_all
qed (unfold lay_shared_block_def lay_store_block_def lay_request_block_def lay_report_block_def, (intro lossless_small; simp)+)

lemma unpack_packed: "lossless y \<Longrightarrow> length (lay y x) < log_limit \<Longrightarrow> map_sum id fst (parse y (lay y x @ rest)) = Inr x"
  by (simp add: lossless_def)

lemmas lay_lengths = lay_iso_def lay_pair_def lay_word_def lay_string_def lay_bytes_def

lemma lay_share_length:
  "length (lay lay_shared_block b) = 40 + length (sb_payto_address b) + length (sb_data b)"
  "length (lay lay_store_block m) = 8 + length (sm_payto_address m) + length (sm_data m)"
  "length (lay lay_request_block r) = 44"
  "length (lay lay_report_block p) = 20 + length (rp_data p)"
  by (simp_all add: lay_shared_block_def lay_store_block_def lay_request_block_def lay_report_block_def lay_lengths)

lemma lay_metafile_length: "length (lay lay_metafile mf) = 16 + length (mf_name mf) + 20 * length (mf_blocks mf)"
proof -
  have "length (lay_all (lay_word 20 :: sha1 layout) xs) = 20 * length xs" for xs
    by (induction xs) (simp_all add: lay_word_def)
  then show ?thesis by (simp add: lay_metafile_def lay_list_def lay_lengths)
qed

lemma share_sample_laws: "share_laws share_sample (\<lambda>es. es)"
proof -
  have key: "codec_laws (codec_of (lay_word 20 :: sha1 layout)) UNIV"
    by (rule codec_laws_of [OF lossless_word]) (simp_all add: lay_word_def log_limit_def)
  have blocks: "codec_laws (codec_of lay_shared_block) small_blocks"
    by (rule codec_laws_of [OF lossless_share(1)]) (simp add: lay_share_length small_blocks_def share_limit_def log_limit_def)
  have ne: "lay (lay_word 20 :: sha1 layout) h \<noteq> []" "lay lay_shared_block b \<noteq> []" "lay lay_metafile mf \<noteq> []" for h b mf
    unfolding length_0_conv [symmetric] lay_share_length lay_metafile_length by (simp_all add: lay_word_def)
  have meta: "map_sum id fst (parse lay_metafile (lay lay_metafile mf @ rest)) = Inr mf" if "length (lay lay_metafile mf) < share_limit" for mf rest
    using that by (intro unpack_packed lossless_share) (simp add: share_limit_def log_limit_def)
  have base64: "e_base64_decode raw_env (e_base64_encode raw_env bs) = bs" for bs
    by (simp add: raw_env_def comp_def)
  show ?thesis
    by (simp add: share_laws_def share_sample_def kv_ok_def list_bdb_laws key blocks ne meta base64)
qed

lemma wire_sample_laws: "share_wire_laws wire_sample"
proof -
  have "map_sum id fst (parse lay_store_block (lay lay_store_block x)) = Inr x"
    if "length (sm_data x) < share_limit" "length (sm_payto_address x) < share_limit" for x
    using that unpack_packed [OF lossless_share(3), of x "[]"] by (simp add: lay_share_length share_limit_def log_limit_def)
  moreover have "map_sum id fst (parse lay_request_block (lay lay_request_block x)) = Inr x" for x
    using unpack_packed [OF lossless_share(4), of x "[]"] by (simp add: lay_share_length log_limit_def)
  moreover have "map_sum id fst (parse lay_report_block (lay lay_report_block x)) = Inr x" if "length (rp_data x) < share_limit" for x
    using that unpack_packed [OF lossless_share(5), of x "[]"] by (simp add: lay_share_length share_limit_def log_limit_def)
  ultimately show ?thesis
    by (simp add: share_wire_laws_def wire_sample_def lay_share_length share_limit_def)
qed

section \<open>Files and nodes\<close>

definition poem :: bytes where "poem = [1, 2, 3, 4, 5, 6, 7, 8]"

definition share_node_sample :: "(bytes \<times> bytes) list share_node" where
  "share_node_sample = \<lparr>sn_blocks = [], sn_files = [''poem'' \<mapsto> poem, ''odd'' \<mapsto> [1, 2, 3]]\<rparr>"

definition net_sample :: "(bytes \<times> bytes) list share_node \<Rightarrow> (bytes \<times> bytes) list net_state" where
  \<comment> \<open>a node with one connection that waits for a message\<close>
  "net_sample n = \<lparr>ns_node = n, ns_peers = [peer_async_read 1 2 (peer_new 5)], ns_connections = [0],
     ns_uploads = [], ns_downloads = [], ns_calls = [], ns_accepting = True\<rparr>"

lemma net_sample_idle: "ns_connections (net_sample n) = 0 # []" "idle_peer (net_sample n) 0" "ns_node (net_sample n) = n"
  by (simp_all add: net_sample_def idle_peer_def ready_def peer_async_read_def peer_new_def)

lemma sample_holds: "holds_blocks share_sample (\<lambda>es. es) (sn_blocks share_node_sample) []"
  by (simp add: holds_blocks_def kv_rep_def share_node_sample_def kv_repr_def om_wf_def)

lemma sample_files: "sn_files share_node_sample ''poem'' = Some poem" "sn_files share_node_sample ''odd'' = Some [1, 2, 3]"
  by (simp_all add: share_node_sample_def)

lemma sample_packed: "length (packed_meta share_sample filename f) = 16 + length filename + 20 * length (chunks f)"
  by (simp add: packed_meta_def share_sample_def lay_metafile_length file_meta_def file_parts_def)

lemma sample_packed_ne: "packed_meta share_sample filename f \<noteq> []"
  unfolding length_0_conv [symmetric] sample_packed by simp

lemma poem_length: "length poem = 8" "poem \<noteq> []"
  by (simp_all add: poem_def)

lemma poem_chunks: "chunks poem = [poem]"
  by (simp add: chunks.simps [of poem] chunks.simps [of "[]"] poem_length block_limit_def)

lemma poem_storable: "storable share_sample ''poem'' poem"
proof -
  let ?c = "enc (cipher_of share_sample (share_key share_sample ''poem'')) poem" and ?m = "sealed_meta share_sample ''poem'' poem"
  have "stored_parts share_sample ''poem'' poem = [?c, ?m]" by (simp add: stored_parts_def file_parts_def poem_chunks)
  moreover have "length ?c = 8" "length ?m = 40"
    by (simp_all add: poem_length sealed_meta_def pad8_def sample_packed poem_chunks)
  ultimately have "inj_on (e_sha1 (se_env share_sample)) (set (stored_parts share_sample ''poem'' poem))"
    by (auto simp: inj_on_def share_sample_def)
  then show ?thesis by (simp add: storable_def sample_packed poem_chunks share_limit_def poem_length)
qed

section \<open>The theorems there\<close>

lemma import_file_outcome_witness:
  "fst (import_file share_sample ''odd'' share_node_sample) = Inl (Undefined_Behaviour ''front of an empty vector'')
   \<and> fst (import_file share_sample ''poem'' share_node_sample) = Inr (file_urn share_sample ''poem'' poem)"
  using import_file_outcome [OF sample_files(1) _ sample_packed_ne] import_file_outcome [OF sample_files(2) _ sample_packed_ne]
  by (simp add: poem_length dvd_eq_mod_eq_0)

lemma import_export_roundtrip_witness:
  "\<exists>urn nd' nd''. import_file share_sample ''poem'' share_node_sample = (Inr urn, nd')
    \<and> export_file share_sample urn ''out'' nd' = (Inr (), nd'') \<and> sn_files nd'' ''out/poem'' = Some poem"
proof -
  obtain urn nd' where "import_file share_sample ''poem'' share_node_sample = (Inr urn, nd')"
      "export_file share_sample urn ''out'' nd' = (Inr (), nd'\<lparr>sn_files := (sn_files share_node_sample)
        (se_join share_sample ''out'' (se_filename share_sample ''poem'') \<mapsto> poem)\<rparr>)"
    using import_export_roundtrip [OF share_sample_laws sample_holds sample_files(1) poem_storable, of "''out''"] by blast
  then show ?thesis by (intro exI conjI) (assumption, assumption, simp add: share_sample_def)
qed

lemma upload_then_export_witness:
  "\<exists>s1 bs s2 q' urn. upload_file share_sample wire_sample ''me'' ''poem'' (Some 3) (net_sample share_node_sample) = (Inr (), s1)
    \<and> complete_writes share_sample wire_sample 0 2 s1 = (bs, s2) \<and> ns_calls s2 = [Upload_Done 3 urn False]
    \<and> complete_reads share_sample wire_sample 0 (3 * length bs) (snd (bytes_arrive 0 (concat bs) (net_sample share_node_sample))) = (Inr (), q')
    \<and> fst (export_file share_sample urn ''out'' (ns_node q')) = Inr ()"
proof -
  have n: "length (stored_parts share_sample ''poem'' poem) = 2" by (simp add: stored_parts_def file_parts_def poem_chunks)
  have "length ''me'' < share_limit" by (simp add: share_limit_def)
  from upload_then_export [where k = 3 and dir = "''out''", OF share_sample_laws wire_sample_laws, of "net_sample share_node_sample" "''poem''" poem "''me''" 0 "[]"
      "net_sample share_node_sample" 0 "[]", unfolded net_sample_idle(3), OF sample_files(1) poem_storable this net_sample_idle(1,2,2) sample_holds]
  show ?thesis unfolding n by (auto simp: net_sample_def)
qed

lemma import_then_download_witness:
  "\<exists>urn nd s1 s2 q'. import_file share_sample ''poem'' share_node_sample = (Inr urn, nd)
    \<and> download_urn share_sample wire_sample urn ''out'' (Some 4) (net_sample share_node_sample) = (Inr (), s1)
    \<and> (exchange share_sample wire_sample 0 0 ^^ 2) (s1, net_sample nd) = (s2, q')
    \<and> ns_calls s2 = [Download_Done 4 False] \<and> sn_files (ns_node s2) ''out/poem'' = Some poem"
proof -
  have "length poem < 2 ^ 63" "8 dvd length poem" by (simp_all add: poem_length)
  then obtain urn nd where import: "import_file share_sample ''poem'' share_node_sample = (Inr urn, nd)"
    using import_file_run(1) [OF sample_files(1) _ sample_packed_ne] by blast
  then have "import_file share_sample ''poem'' share_node_sample = (Inr urn, ns_node (net_sample nd))"
    by (simp add: net_sample_idle)
  from import_then_download [where k = 4 and dir = "''out''", OF share_sample_laws wire_sample_laws poem_storable sample_holds
      sample_files(1) this net_sample_idle(1,2) [of share_node_sample] net_sample_idle(2)]
  obtain s1 s2 q' where r: "download_urn share_sample wire_sample urn ''out'' (Some 4) (net_sample share_node_sample) = (Inr (), s1)"
      "(exchange share_sample wire_sample 0 0 ^^ Suc (length (chunks poem))) (s1, net_sample nd) = (s2, q')"
      "ns_calls s2 = ns_calls (net_sample share_node_sample) @ [Download_Done 4 False]"
      "ns_node s2 = (ns_node (net_sample share_node_sample))\<lparr>sn_files := (sn_files (ns_node (net_sample share_node_sample)))
        (se_join share_sample ''out'' (se_filename share_sample ''poem'') \<mapsto> poem)\<rparr>" by blast
  have "Suc (length (chunks poem)) = 2" by (simp add: poem_chunks)
  moreover have "ns_calls s2 = [Download_Done 4 False]" using r(3) by (simp add: net_sample_def)
  moreover have "sn_files (ns_node s2) ''out/poem'' = Some poem" unfolding r(4) by (simp add: share_sample_def)
  ultimately show ?thesis using import r(1,2) by metis
qed

end
