(* ===== verification/Console.thy ===== *)
theory Console
  imports NodeBlocks
begin

text \<open>
  programs/free_market/keychain.hpp and the console of programs/free_market/main.cpp: the
  database of the user's keys, the commands that build, sign and submit a transaction, and the
  queries. The state of the program is its node, its keychain and the transaction that is being
  built. What the program prints is \<open>co_out\<close>, without the log.

  Third-party code: the packing of the keychain's structs, RSA key generation (\<open>cl_key_pair i\<close> is
  the i-th pair), and the settings of Qt (\<open>cl_child_groups\<close> and \<open>cl_contains\<close> are what \<open>childGroups\<close> and
  \<open>contains\<close> answer in group \<open>Accounts\<close> after a list of calls of \<open>setValue\<close>). \<open>cl_blank_sig\<close> is a signature that is not
  initialised.
\<close>

section \<open>The keychain\<close>

record key_info =
  ki_alias :: string
  ki_pub :: public_key
  ki_priv :: bytes

definition key_info_new :: key_info where
  \<comment> \<open>the default constructor: a zero public key, an empty private key\<close>
  "key_info_new = \<lparr>ki_alias = [], ki_pub = empty_public_key, ki_priv = []\<rparr>"

record 'd client_env =
  cl_env :: "'d env"
  cl_address :: "string codec" \<comment> \<open>\<open>keychain_address\<close>, a struct around a string\<close>
  cl_key_info :: "key_info codec"
  cl_key_pair :: "nat \<Rightarrow> exn + public_key \<times> bytes"
  cl_child_groups :: "(string \<times> int) list \<Rightarrow> string list"
  cl_contains :: "(string \<times> int) list \<Rightarrow> string \<Rightarrow> bool"
  cl_blank_sig :: signature

definition keychain_valid :: "'d client_env \<Rightarrow> string \<Rightarrow> bool" where
  "keychain_valid C k = validate_address_format (cl_env C) k"

definition keychain_set :: "'d client_env \<Rightarrow> string \<Rightarrow> key_info \<Rightarrow> 'd \<Rightarrow> bool \<times> 'd" where
  "keychain_set C k v d =
     (if \<not> keychain_valid C k then (False, d)
      else (True, kv_set (e_bdb (cl_env C)) (cl_address C) (cl_key_info C) k v d))"

definition keychain_get :: "'d client_env \<Rightarrow> string \<Rightarrow> 'd \<Rightarrow> exn + key_info option" where
  "keychain_get C k d =
     (if \<not> keychain_valid C k then Inr None
      else kv_get (e_bdb (cl_env C)) (cl_address C) (cl_key_info C) k d)"

definition keychain_get_private :: "'d client_env \<Rightarrow> string \<Rightarrow> 'd \<Rightarrow> exn + bytes option" where
  \<comment> \<open>the second \<open>get\<close>\<close>
  "keychain_get_private C k d =
     (if \<not> keychain_valid C k then Inr None
      else map_sum id (map_option ki_priv) (keychain_get C k d))"

definition key_address :: "'d client_env \<Rightarrow> public_key \<Rightarrow> string" where
  \<comment> \<open>the conversion of a public key to a \<open>keychain_address\<close>\<close>
  "key_address C pk = encode_address (cl_env C) pk"

section \<open>The state of the console\<close>

datatype console_output =
    Out_Help
  | Out_Not_Implemented
  | Out_Contents string u64
  | Out_Address string string
  | Out_Key string string
  | Out_Balance string string u64
  | Out_Unknown string

record 'd console =
  co_node :: "'d node"
  co_keys :: 'd
  co_trx :: signed_transaction
  co_pairs :: nat \<comment> \<open>key pairs generated so far\<close>
  co_settings :: "(string \<times> int) list"
  co_out :: "console_output list"

definition strx_new :: signed_transaction where
  \<comment> \<open>\<open>signed_transaction()\<close>, value-initialised\<close>
  "strx_new = \<lparr>strx_trx = \<lparr>trx_utc_time = 0, trx_commands = []\<rparr>, strx_sigs = []\<rparr>"

definition at_node :: "('d node, 'a) prog \<Rightarrow> ('d console, 'a) prog" where
  "at_node f s = (case f (co_node s) of (r, n) \<Rightarrow> (r, s\<lparr>co_node := n\<rparr>))"

definition print_out :: "console_output \<Rightarrow> ('d console, unit) prog" where
  "print_out x = modify (\<lambda>s. s\<lparr>co_out := co_out s @ [x]\<rparr>)"

definition find_key :: "'d client_env \<Rightarrow> string \<Rightarrow> ('d console, key_info option) prog" where
  "find_key C k = bindP (asks co_keys) (\<lambda>d. liftE (keychain_get C k d))"

definition store_key :: "'d client_env \<Rightarrow> string \<Rightarrow> key_info \<Rightarrow> ('d console, unit) prog" where
  "store_key C k v = modify (\<lambda>s. s\<lparr>co_keys := snd (keychain_set C k v (co_keys s))\<rparr>)"

definition generate_address :: "'d client_env \<Rightarrow> ('d console, string \<times> public_key \<times> bytes) prog" where
  "generate_address C =
     bindP (asks co_pairs) (\<lambda>i.
     bindP (modify (\<lambda>s. s\<lparr>co_pairs := Suc i\<rparr>)) (\<lambda>_.
     bindP (liftE (cl_key_pair C i)) (\<lambda>(pub, priv). ret (encode_address (cl_env C) pub, pub, priv))))"

definition push_command :: "command \<Rightarrow> ('d console, unit) prog" where
  "push_command c = modify (\<lambda>s. s\<lparr>co_trx := (co_trx s)\<lparr>strx_trx := (strx_trx (co_trx s))\<lparr>trx_commands := trx_commands (strx_trx (co_trx s)) @ [c]\<rparr>\<rparr>\<rparr>)"

definition add_signature :: "'d client_env \<Rightarrow> bytes \<Rightarrow> ('d console, unit) prog" where
  \<comment> \<open>\<open>trx.sign( priv )\<close>; when RSA fails, the signature that was added stays uninitialised\<close>
  "add_signature C priv s =
     (case strx_sign (cl_env C) priv (co_trx s) of
        Inl e \<Rightarrow> (Inl e, s\<lparr>co_trx := (co_trx s)\<lparr>strx_sigs := strx_sigs (co_trx s) @ [cl_blank_sig C]\<rparr>\<rparr>)
      | Inr t \<Rightarrow> (Inr (), s\<lparr>co_trx := t\<rparr>))"

section \<open>Signing\<close>

text \<open>
  One round of the loop in \<open>sign\<close>: the names that have signed so far, or \<open>None\<close> where the
  function returns false.
\<close>

definition sign_register :: "'d client_env \<Rightarrow> string list \<Rightarrow> command \<Rightarrow> ('d console, string list option) prog" where
  "sign_register C sigs c =
     bindP (liftE (cast_command (e_register_name (cl_env C)) register_name_id c)) (\<lambda>rn.
     if rn_name rn \<in> set sigs then ret (Some sigs)
     else if rn_name rn = encode_address (cl_env C) (rn_pub_key rn) then
       bindP (find_key C (rn_name rn)) (\<lambda>ki.
       case ki of
         Some ki \<Rightarrow> bindP (add_signature C (ki_priv ki)) (\<lambda>_. ret (Some (sigs @ [rn_name rn])))
       | None \<Rightarrow> ret (Some sigs))
     else
       bindP (at_node (get_key_for_name (cl_env C) (rn_name rn))) (\<lambda>old.
       case old of
         None \<Rightarrow> ret (Some sigs)
       | Some old \<Rightarrow>
           bindP (find_key C (key_address C old)) (\<lambda>ki.
           case ki of
             Some ki \<Rightarrow> bindP (add_signature C (ki_priv ki)) (\<lambda>_. ret (Some sigs))
           | None \<Rightarrow> ret None)))"

definition sign_owner :: "'d client_env \<Rightarrow> string list \<Rightarrow> string \<Rightarrow> ('d console, string list option) prog" where
  \<comment> \<open>the part that a transfer and an issue have in common: the owner of a name signs\<close>
  "sign_owner C sigs name =
     bindP (at_node (get_key_for_name (cl_env C) name)) (\<lambda>k.
     case k of
       None \<Rightarrow> ret None
     | Some k \<Rightarrow>
         bindP (find_key C (encode_address (cl_env C) k)) (\<lambda>ki.
         case ki of
           None \<Rightarrow> ret None
         | Some ki \<Rightarrow> bindP (add_signature C (ki_priv ki)) (\<lambda>_. ret (Some (sigs @ [name])))))"

definition sign_transfer :: "'d client_env \<Rightarrow> string list \<Rightarrow> command \<Rightarrow> ('d console, string list option) prog" where
  "sign_transfer C sigs c =
     bindP (liftE (cast_command (e_transfer (cl_env C)) transfer_id c)) (\<lambda>tr.
     if tr_from_name tr \<in> set sigs then ret (Some sigs)
     else if tr_from_name tr \<noteq> [] then sign_owner C sigs (tr_from_name tr)
     else ret (Some sigs))"

definition sign_issue :: "'d client_env \<Rightarrow> string list \<Rightarrow> command \<Rightarrow> ('d console, string list option) prog" where
  "sign_issue C sigs c =
     bindP (liftE (cast_command (e_issue (cl_env C)) issue_id c)) (\<lambda>is.
     if is_stock_name is \<in> set sigs then ret (Some sigs) else sign_owner C sigs (is_stock_name is))"

definition sign_command :: "'d client_env \<Rightarrow> string list \<Rightarrow> command \<Rightarrow> ('d console, string list option) prog" where
  "sign_command C sigs c =
     (if c_id c = register_name_id then sign_register C sigs c
      else if c_id c = transfer_id then sign_transfer C sigs c
      else if c_id c = issue_id then sign_issue C sigs c
      else ret None)"

primrec sign_loop :: "'d client_env \<Rightarrow> command list \<Rightarrow> string list \<Rightarrow> ('d console, bool) prog" where
  "sign_loop C [] sigs = ret True"
| "sign_loop C (c # cs) sigs =
     bindP (sign_command C sigs c) (\<lambda>r. case r of None \<Rightarrow> ret False | Some sigs \<Rightarrow> sign_loop C cs sigs)"

definition sign_all :: "'d client_env \<Rightarrow> ('d console, bool) prog" where
  \<comment> \<open>the function \<open>sign\<close>; any exception makes it return false, with the signatures so far\<close>
  "sign_all C s =
     (case sign_loop C (trx_commands (strx_trx (co_trx s))) [] s of
        (Inl e, s') \<Rightarrow> if catchable e then (Inr False, s') else (Inl e, s')
      | (Inr ok, s') \<Rightarrow> (Inr ok, s'))"

section \<open>Commands that build a transaction\<close>

definition known_destination :: "'d client_env \<Rightarrow> string \<Rightarrow> ('d console, bool) prog" where
  \<comment> \<open>the first check of \<open>transfer\<close>\<close>
  "known_destination C to =
     (if to \<noteq> ''gen'' \<and> \<not> validate_address_format (cl_env C) to then
        bindP (at_node (get_key_for_name (cl_env C) to)) (\<lambda>k. ret (k \<noteq> None))
      else ret True)"

definition transfer_source :: "'d client_env \<Rightarrow> string \<Rightarrow> public_key \<Rightarrow> ('d console, bool) prog" where
  \<comment> \<open>the key of the source: false where \<open>transfer\<close> returns; without a private key it goes on\<close>
  "transfer_source C from from_pub =
     bindP (find_key C (encode_address (cl_env C) from_pub)) (\<lambda>ki.
     case ki of
       Some ki \<Rightarrow> ret True
     | None \<Rightarrow>
         if validate_address_format (cl_env C) from then
           bindP (find_key C from) (\<lambda>ki.
           case ki of
             None \<Rightarrow> ret False
           | Some ki \<Rightarrow>
               bindP (push_command (command_of (e_register_name (cl_env C)) register_name_id
                 \<lparr>rn_name = from, rn_pub_key = ki_pub ki\<rparr>)) (\<lambda>_. ret True))
         else ret True)"

definition transfer_command :: "'d client_env \<Rightarrow> u64 \<Rightarrow> string \<Rightarrow> string \<Rightarrow> string \<Rightarrow> ('d console, unit) prog" where
  \<comment> \<open>the function \<open>transfer\<close>\<close>
  "transfer_command C amnt shares from to =
     bindP (known_destination C to) (\<lambda>ok.
     if \<not> ok then ret ()
     else bindP (at_node (get_key_for_name (cl_env C) shares)) (\<lambda>share_pub.
     if share_pub = None then ret ()
     else bindP (at_node (get_key_for_name (cl_env C) from)) (\<lambda>from_pub.
     case from_pub of
       None \<Rightarrow> ret ()
     | Some from_pub \<Rightarrow>
         bindP (at_node (node_get_balance (cl_env C) from shares)) (\<lambda>from_bal.
         if from_bal < amnt then ret ()
         else bindP (transfer_source C from from_pub) (\<lambda>ok.
           if \<not> ok then ret ()
           else push_command (command_of (e_transfer (cl_env C)) transfer_id
             \<lparr>tr_amount = amnt, tr_stock_name = shares, tr_from_name = from,
              tr_to_name = (if to \<noteq> ''gen'' then to else [])\<rparr>))))))"

definition register_command :: "'d client_env \<Rightarrow> string \<Rightarrow> ('d console, unit) prog" where
  \<comment> \<open>a new key for the name; the key that signs is the outer \<open>ki\<close>, the old one\<close>
  "register_command C name =
     bindP (at_node (get_key_for_name (cl_env C) name)) (\<lambda>old.
     bindP (case old of None \<Rightarrow> ret None | Some old \<Rightarrow> find_key C (encode_address (cl_env C) old)) (\<lambda>old_ki.
     if old \<noteq> None \<and> old_ki = None then ret ()
     else
       bindP (generate_address C) (\<lambda>(addr, pub, priv).
       bindP (store_key C addr \<lparr>ki_alias = name, ki_pub = pub, ki_priv = priv\<rparr>) (\<lambda>_.
       bindP (push_command (command_of (e_register_name (cl_env C)) register_name_id \<lparr>rn_name = name, rn_pub_key = pub\<rparr>)) (\<lambda>_.
       bindP (modify (\<lambda>s. s\<lparr>co_settings := co_settings s @ [(name @ ''/index'', int (length (cl_child_groups C (co_settings s))))]\<rparr>)) (\<lambda>_.
       case old_ki of None \<Rightarrow> ret () | Some ki \<Rightarrow> add_signature C (ki_priv ki)))))))"

definition issue_command :: "'d client_env \<Rightarrow> string \<Rightarrow> ('d console, unit) prog" where
  "issue_command C stock =
     bindP (at_node (has_balance (cl_env C) stock stock)) (\<lambda>issued.
     if issued then ret ()
     else push_command (command_of (e_issue (cl_env C)) issue_id \<lparr>is_stock_name = stock\<rparr>))"

definition genkey_command :: "'d client_env \<Rightarrow> string \<Rightarrow> ('d console, unit) prog" where
  "genkey_command C name =
     bindP (generate_address C) (\<lambda>(addr, pub, priv).
     store_key C (key_address C pub) \<lparr>ki_alias = name, ki_pub = pub, ki_priv = priv\<rparr>)"

definition start_command :: "('d console, unit) prog" where
  \<comment> \<open>\<open>start\<close> and \<open>abort\<close>\<close>
  "start_command = modify (\<lambda>s. s\<lparr>co_trx := strx_new\<rparr>)"

definition commit_command :: "'d client_env \<Rightarrow> ('d console, unit) prog" where
  "commit_command C =
     bindP (at_node utc_clock) (\<lambda>t.
     bindP (modify (\<lambda>s. s\<lparr>co_trx := (co_trx s)\<lparr>strx_trx := (strx_trx (co_trx s))\<lparr>trx_utc_time := t\<rparr>\<rparr>\<rparr>)) (\<lambda>_.
     bindP (sign_all C) (\<lambda>ok.
     bindP (asks co_trx) (\<lambda>trx.
     bindP (if ok then bindP (at_node (add_transaction (cl_env C) trx)) (\<lambda>_. ret ()) else ret ()) (\<lambda>_.
     start_command)))))"

section \<open>Queries\<close>

primrec print_contents :: "'d client_env \<Rightarrow> string \<Rightarrow> string list \<Rightarrow> ('d console, unit) prog" where
  "print_contents C name [] = ret ()"
| "print_contents C name (c # cs) =
     bindP (at_node (node_get_balance (cl_env C) name c)) (\<lambda>b.
     bindP (print_out (Out_Contents c b)) (\<lambda>_. print_contents C name cs))"

definition contents_command :: "'d client_env \<Rightarrow> string \<Rightarrow> ('d console, unit) prog" where
  "contents_command C name = bindP (at_node (node_account_contents (cl_env C) name)) (print_contents C name)"

partial_function (option) list_keys_loop ::
  "'d client_env \<Rightarrow> 'd \<Rightarrow> (string, key_info) kv_iterator \<Rightarrow> console_output list \<Rightarrow> (exn + console_output list) option" where
  "list_keys_loop C d itr out =
     (if it_end itr then Some (Inr out)
      else
        let out = out @ [Out_Key (the (it_key itr)) (ki_alias (the (it_value itr)))] in
        case kv_next (e_bdb (cl_env C)) (cl_address C) (cl_key_info C) itr d of
          Inl e \<Rightarrow> Some (Inl e)
        | Inr itr \<Rightarrow> list_keys_loop C d itr out)"

definition list_keys_command :: "'d client_env \<Rightarrow> ('d console, unit) prog" where
  \<comment> \<open>what was printed before an exception is not kept; the exception ends the program\<close>
  "list_keys_command C =
     bindP (asks co_keys) (\<lambda>d.
     bindP (liftE (kv_begin (e_bdb (cl_env C)) (cl_address C) (cl_key_info C) d)) (\<lambda>itr.
     bindP (loopP (\<lambda>s. map_option (\<lambda>r. (r, s)) (list_keys_loop C d itr []))) (\<lambda>out.
     modify (\<lambda>s. s\<lparr>co_out := co_out s @ out\<rparr>))))"

definition address_of_command :: "'d client_env \<Rightarrow> string \<Rightarrow> ('d console, unit) prog" where
  "address_of_command C name =
     bindP (at_node (get_public_key_t (cl_env C) name)) (\<lambda>pk. print_out (Out_Address name (encode_address (cl_env C) pk)))"

section \<open>Reading a line\<close>

text \<open>
  A \<open>std::stringstream\<close> that is read with \<open>operator>>\<close>: the characters left and whether it has
  failed; after a failure nothing is read. The variables that are read are empty or 0 before.
\<close>

record istream =
  is_rest :: string
  is_failed :: bool

definition is_space :: "char \<Rightarrow> bool" where
  "is_space c = (of_char c \<in> {9, 10, 11, 12, 13, 32 :: nat})"

definition is_digit :: "char \<Rightarrow> bool" where
  "is_digit c = (48 \<le> (of_char c :: nat) \<and> (of_char c :: nat) \<le> 57)"

definition read_word :: "istream \<Rightarrow> string \<times> istream" where
  "read_word i =
     (let r = dropWhile is_space (is_rest i) in
      if is_failed i then ([], i)
      else if r = [] then ([], \<lparr>is_rest = [], is_failed = True\<rparr>)
      else (takeWhile (\<lambda>c. \<not> is_space c) r, \<lparr>is_rest = dropWhile (\<lambda>c. \<not> is_space c) r, is_failed = False\<rparr>))"

definition digits_value :: "string \<Rightarrow> int" where
  "digits_value ds = foldl (\<lambda>n c. 10 * n + (of_char c - 48)) 0 ds"

definition read_int :: "nat \<Rightarrow> istream \<Rightarrow> int \<times> istream" where
  \<comment> \<open>a signed integer of \<open>w\<close> bits in decimal; a number out of range fails and gives the nearest bound\<close>
  "read_int w i =
     (let r = dropWhile is_space (is_rest i);
          neg = (r \<noteq> [] \<and> hd r = CHR ''-'');
          r = (if r \<noteq> [] \<and> hd r \<in> {CHR ''-'', CHR ''+''} then tl r else r);
          ds = takeWhile is_digit r;
          n = (if neg then - digits_value ds else digits_value ds);
          rest = dropWhile is_digit r
      in if is_failed i then (0, i)
         else if ds = [] then (0, \<lparr>is_rest = rest, is_failed = True\<rparr>)
         else if n < - (2 ^ (w - 1)) then (- (2 ^ (w - 1)), \<lparr>is_rest = rest, is_failed = True\<rparr>)
         else if n \<ge> 2 ^ (w - 1) then (2 ^ (w - 1) - 1, \<lparr>is_rest = rest, is_failed = True\<rparr>)
         else (n, \<lparr>is_rest = rest, is_failed = False\<rparr>))"

section \<open>The loop\<close>

definition console_line :: "'d client_env \<Rightarrow> string \<Rightarrow> ('d console, bool) prog" where
  \<comment> \<open>one line of input; true for \<open>exit\<close>\<close>
  "console_line C line =
     (let (cmd, ss) = read_word \<lparr>is_rest = line, is_failed = False\<rparr>;
          (name, ss2) = read_word ss
      in
        if cmd = ''exit'' then bindP (at_node (configure_generation (cl_env C) [] False)) (\<lambda>_. ret True)
        else bindP
          (if cmd = ''help'' then print_out Out_Help
           else if cmd = ''ln'' then print_out Out_Not_Implemented
           else if cmd = ''contents'' then contents_command C name
           else if cmd = ''genkey'' then genkey_command C name
           else if cmd = ''address_of'' then address_of_command C name
           else if cmd = ''list_keys'' then list_keys_command C
           else if cmd = ''generate'' then at_node (configure_generation (cl_env C) name (name \<noteq> ''off''))
           else if cmd = ''dump'' then
             (let (start, ss) = read_int 32 ss; (len, ss) = read_int 32 ss in
              at_node (node_dump (cl_env C) (word_of_int start) (word_of_int len)))
           else if cmd = ''register'' then register_command C name
           else if cmd = ''issue'' then issue_command C name
           else if cmd = ''balance'' then
             (let (stock, ss3) = read_word ss2 in
              bindP (at_node (node_get_balance (cl_env C) name stock)) (\<lambda>b. print_out (Out_Balance name stock b)))
           else if cmd = ''transfer'' then
             (let (amt, ss) = read_int 64 ss; (stock, ss) = read_word ss; (from, ss) = read_word ss; (to, ss) = read_word ss in
              transfer_command C (word_of_int amt) stock from to)
           else if cmd = ''start'' then start_command
           else if cmd = ''commit'' then commit_command C
           else if cmd = ''abort'' then start_command
           else print_out (Out_Unknown line))
          (\<lambda>_. ret False))"

text \<open>
  \<open>stdin_getline\<close> gives an empty line when there is no more input, so the lines go on forever:
  \<open>lines i\<close> is the i-th. What the node does between two lines is left out here.
\<close>

partial_function (option) console_loop ::
  "'d client_env \<Rightarrow> (nat \<Rightarrow> string) \<Rightarrow> nat \<Rightarrow> 'd console \<Rightarrow> ((exn + unit) \<times> 'd console) option" where
  "console_loop C lines i s =
     (case console_line C (lines i) s of
        (Inl e, s) \<Rightarrow> Some (Inl e, s)
      | (Inr done, s) \<Rightarrow> if done then Some (Inr (), s) else console_loop C lines (Suc i) s)"

definition run_console :: "'d client_env \<Rightarrow> (nat \<Rightarrow> string) \<Rightarrow> ('d console, unit) prog" where
  \<comment> \<open>the loop of \<open>main\<close> with its handler\<close>
  "run_console C lines = tryP (bindP (modify (\<lambda>s. s\<lparr>co_trx := strx_new\<rparr>)) (\<lambda>_. loopP (console_loop C lines 0)))"

end
