(* ===== verification/ConsoleProofs.thy ===== *)
theory ConsoleProofs
  imports Console NodeFrames NodeMarket
begin

text \<open>
  The console and the market: its queries give what the market says, the signatures that \<open>sign\<close>
  adds are those the market asks for, and a transfer the console accepts is one the market
  accepts.
\<close>

section \<open>Queries\<close>

text \<open>What a client relies on: the two queries answer from one market and change nothing it can see.\<close>

locale market_view =
  fixes names :: "string set" and view :: "market \<Rightarrow> 's \<Rightarrow> bool" and same :: "'s \<Rightarrow> 's \<Rightarrow> bool"
    and key_at :: "string \<Rightarrow> ('s, public_key option) prog" and balance_at :: "string \<Rightarrow> string \<Rightarrow> ('s, u64) prog"
  assumes key_law: "view m s \<Longrightarrow> n \<in> names \<Longrightarrow> \<exists>s'. key_at n s = (Inr (mk_keys m n), s') \<and> view m s' \<and> same s s'"
    and balance_law: "view m s \<Longrightarrow> a \<in> names \<Longrightarrow> t \<in> names \<Longrightarrow>
      \<exists>s'. balance_at a t s = (Inr (balance m a t), s') \<and> view m s' \<and> same s s'"
begin

lemma key_run:
  assumes "view m s" and "n \<in> names"
  obtains s' where "key_at n s = (Inr (mk_keys m n), s')" "view m s'" "same s s'"
  using key_law [OF assms] by blast

lemma balance_run:
  assumes "view m s" and "a \<in> names" and "t \<in> names"
  obtains s' where "balance_at a t s = (Inr (balance m a t), s')" "view m s'" "same s s'"
  using balance_law [OF assms] by blast

end

lemma get_public_key_kept: "follows kept (get_public_key E n)"
  unfolding get_public_key_def
  by (intro kept.rules get_record_kept | simp add: follows_def name_edit_index_def kept.kept_refl)+

lemma get_balance_kept: "follows kept (get_balance E a t)"
  unfolding get_balance_def get_name_index_def
  by (intro kept.rules get_record_kept | simp add: follows_def name_edit_index_def transfer_index_def kept.kept_refl)+

definition node_view :: "'d env \<Rightarrow> ('d \<Rightarrow> (bytes \<times> bytes) list) \<Rightarrow> market \<Rightarrow> 'd node \<Rightarrow> bool" where
  \<comment> \<open>\<open>m_gen_trx\<close>, which answers the queries, shows the market\<close>
  "node_view E ents m s \<longleftrightarrow> env_laws E ents \<and> (\<exists>db h g. n_states s = States db h g
     \<and> shows_market E ents m (Trx (Some (Trx (Some db) h)) g) \<and> log_size (Trx (Some (Trx (Some db) h)) g) < log_limit)"

definition node_same :: "'d node \<Rightarrow> 'd node \<Rightarrow> bool" where
  "node_same s s' \<longleftrightarrow> s' = s\<lparr>n_states := n_states s'\<rparr>"

lemma on_gen_query:
  assumes "node_view E ents m s" and "follows kept f"
    and "\<And>g. shows_market E ents m g \<Longrightarrow> runs_log f g (Inr v) (shows_market E ents m)"
  shows "\<exists>s'. on_gen f s = (Inr v, s') \<and> node_view E ents m s' \<and> node_same s s'"
proof -
  obtain db h g where s: "n_states s = States db h g" and m: "shows_market E ents m (Trx (Some (Trx (Some db) h)) g)"
    and lim: "log_size (Trx (Some (Trx (Some db) h)) g) < log_limit" and laws: "env_laws E ents"
    using assms(1) unfolding node_view_def by blast
  obtain r t where rt: "f (Trx (Some (Trx (Some db) h)) g) = (r, t)" by fastforce
  have k: "kept (Trx (Some (Trx (Some db) h)) g) t" using followsE [OF assms(2) rt] .
  then have lim': "log_size t < log_limit" using kept_log_size [OF k] lim by simp
  have t: "r = Inr v" "shows_market E ents m t"
    using assms(3) [OF m] rt lim' by (simp_all add: runs_def)
  obtain b where b: "t = Trx (Some b) g" "kept (Trx (Some db) h) b" using kept_TrxD [OF k] by blast
  obtain db' where db': "b = Trx (Some db') h" using kept_TrxD [OF b(2)] by blast
  then show ?thesis
    using rt s b(1) t lim' laws by (auto simp: on_gen_def node_view_def node_same_def)
qed

lemma on_gen_ret: "bindP (on_gen f) (\<lambda>x. ret (v x)) = on_gen (bindP f (\<lambda>x. ret (v x)))"
proof
  fix s
  show "bindP (on_gen f) (\<lambda>x. ret (v x)) s = on_gen (bindP f (\<lambda>x. ret (v x))) s"
  proof (cases "n_states s")
    case (States db h g)
    obtain r t where rt: "f (Trx (Some (Trx (Some db) h)) g) = (r, t)" by fastforce
    then show ?thesis using States
      by (cases r) (auto simp: on_gen_def bindP_def ret_def split: sdb.split option.split)
  qed (simp_all add: on_gen_def bindP_def)
qed

lemma state_open_run: "node_view E ents m s \<Longrightarrow> bindP state_open k s = k () s"
  by (auto simp: node_view_def state_open_def bindP_def prog_simps)

interpretation nodes: market_view "small_names E" "node_view E ents" node_same "get_key_for_name E" "node_get_balance E" for E ents
proof
  fix m s n assume s: "node_view E ents m s" "n \<in> small_names E"
  have laws: "env_laws E ents" using s(1) by (simp add: node_view_def)
  show "\<exists>s'. get_key_for_name E n s = (Inr (mk_keys m n), s') \<and> node_view E ents m s' \<and> node_same s s'"
    unfolding get_key_for_name_def state_open_run [OF s(1)]
    by (rule on_gen_query [OF s(1) get_public_key_kept]) (rule key_shows [OF laws _ s(2)])
next
  fix m s a t assume s: "node_view E ents m s" "a \<in> small_names E" "t \<in> small_names E"
  have laws: "env_laws E ents" using s(1) by (simp add: node_view_def)
  show "\<exists>s'. node_get_balance E a t s = (Inr (balance m a t), s') \<and> node_view E ents m s' \<and> node_same s s'"
  proof -
    let ?f = "bindP (get_balance E a t) (\<lambda>(b, is_null, loc). ret b)"
    have k: "follows kept ?f" by (intro kept.rules get_balance_kept)
    have run: "runs_log ?f w (Inr (balance m a t)) (shows_market E ents m)" if w: "shows_market E ents m w" for w
    proof (rule balance_shows [OF laws w s(2,3)])
      fix loc assume b: "runs_log (get_balance E a t) w (Inr (balance m a t, mk_bals m (a, t) = None, loc)) (shows_market E ents m)"
      show ?thesis
        by (rule runs_bindP [OF b]) (auto intro!: grows_intros simp: runs_def prog_simps)
    qed
    have "node_get_balance E a t s = on_gen ?f s"
      unfolding node_get_balance_def state_open_run [OF s(1)]
      using on_gen_ret [of "get_balance E a t" fst] by (simp add: case_prod_unfold)
    then show ?thesis using on_gen_query [OF s(1) k run] by simp
  qed
qed

definition console_view :: "'d client_env \<Rightarrow> ('d \<Rightarrow> (bytes \<times> bytes) list) \<Rightarrow> market \<Rightarrow> 'd console \<Rightarrow> bool" where
  "console_view C ents m s \<longleftrightarrow> node_view (cl_env C) ents m (co_node s)"

definition console_same :: "'d console \<Rightarrow> 'd console \<Rightarrow> bool" where
  "console_same s s' \<longleftrightarrow> s' = s\<lparr>co_node := co_node s'\<rparr>"

interpretation client: market_view "small_names (cl_env C)" "console_view C ents" console_same
  "\<lambda>n. at_node (get_key_for_name (cl_env C) n)" "\<lambda>a t. at_node (node_get_balance (cl_env C) a t)" for C ents
proof
  fix m and s :: "'a console" and n assume "console_view C ents m s" "n \<in> small_names (cl_env C)"
  then show "\<exists>s'. at_node (get_key_for_name (cl_env C) n) s = (Inr (mk_keys m n), s') \<and> console_view C ents m s' \<and> console_same s s'"
    using nodes.key_law [of "cl_env C" ents m "co_node s" n] by (auto simp: at_node_def console_view_def console_same_def)
next
  fix m and s :: "'a console" and a t
  assume "console_view C ents m s" "a \<in> small_names (cl_env C)" "t \<in> small_names (cl_env C)"
  then show "\<exists>s'. at_node (node_get_balance (cl_env C) a t) s = (Inr (balance m a t), s') \<and> console_view C ents m s' \<and> console_same s s'"
    using nodes.balance_law [of "cl_env C" ents m "co_node s" a t] by (auto simp: at_node_def console_view_def console_same_def)
qed

section \<open>Signatures\<close>

definition keys_match :: "'d client_env \<Rightarrow> 'd \<Rightarrow> bool" where
  \<comment> \<open>the private key stored for an address signs for the public keys with that address\<close>
  "keys_match C d \<longleftrightarrow> (\<forall>k r h sig. keychain_get C (encode_address (cl_env C) k) d = Inr (Some r)
     \<longrightarrow> e_rsa_sign (cl_env C) (ki_priv r) h = Inr sig \<longrightarrow> e_rsa_verify (cl_env C) k h sig)"

definition signed_with :: "'d client_env \<Rightarrow> 'd console \<Rightarrow> public_key \<Rightarrow> bool" where
  "signed_with C s k \<longleftrightarrow> strx_verify (cl_env C) (co_trx s) k"

definition more_signed :: "'d console \<Rightarrow> 'd console \<Rightarrow> bool" where
  \<comment> \<open>what signing keeps\<close>
  "more_signed s s' \<longleftrightarrow> co_keys s' = co_keys s \<and> strx_trx (co_trx s') = strx_trx (co_trx s)
     \<and> set (strx_sigs (co_trx s)) \<subseteq> set (strx_sigs (co_trx s'))"

interpretation more_signed: kept_by_steps more_signed
  by unfold_locales (auto simp: more_signed_def)

lemma more_signed_with: "more_signed s s' \<Longrightarrow> signed_with C s k \<Longrightarrow> signed_with C s' k"
  by (auto simp: more_signed_def signed_with_def strx_verify_iff)

lemma same_more_signed: "console_same s s' \<Longrightarrow> more_signed s s'"
  unfolding console_same_def more_signed_def by (metis console.select_convs(2,3) console.surjective console.update_convs(1) subset_refl)

lemma add_signature_more: "follows more_signed (add_signature C priv)"
  by (rule followsI) (auto simp: add_signature_def more_signed_def strx_sign_def split: sum.split)

lemma add_signature_view:
  "add_signature C priv s = (r, s') \<Longrightarrow> console_view C ents m s \<Longrightarrow> console_view C ents m s'"
  by (auto simp: add_signature_def console_view_def split: sum.splits)

lemma add_signature_signs:
  assumes "keys_match C (co_keys s)" and "keychain_get C (encode_address (cl_env C) k) (co_keys s) = Inr (Some r)"
    and "add_signature C (ki_priv r) s = (Inr (), s')"
  shows "signed_with C s' k"
proof -
  obtain sig where sig: "e_rsa_sign (cl_env C) (ki_priv r) (e_hash_trx (cl_env C) (strx_trx (co_trx s))) = Inr sig"
      "s' = s\<lparr>co_trx := (co_trx s)\<lparr>strx_sigs := strx_sigs (co_trx s) @ [sig]\<rparr>\<rparr>"
    using assms(3) by (auto simp: add_signature_def strx_sign_def split: sum.splits)
  then show ?thesis using assms(1,2) unfolding keys_match_def by (auto simp: signed_with_def strx_verify_iff)
qed

lemma find_key_run: "bindP (find_key C n) k s =
    (case keychain_get C n (co_keys s) of Inl e \<Rightarrow> (Inl e, s) | Inr ki \<Rightarrow> k ki s)"
  by (simp add: find_key_def bindP_def prog_simps split: sum.split)

text \<open>The owner of a name signs: when this succeeds, the name has a key and the transaction its signature.\<close>

lemma sign_owner_run:
  assumes view: "console_view C ents m s" and n: "n \<in> small_names (cl_env C)" and keys: "keys_match C (co_keys s)"
    and run: "sign_owner C sigs n s = (Inr (Some sigs'), s')"
  obtains k where "mk_keys m n = Some k" "signed_with C s' k" "sigs' = sigs @ [n]" "console_view C ents m s'" "more_signed s s'"
proof -
  obtain s1 where s1: "console_view C ents m s1" "console_same s s1"
    "at_node (get_key_for_name (cl_env C) n) s = (Inr (mk_keys m n), s1)"
    using client.key_run [OF view n] by metis
  have q: "bindP (at_node (get_key_for_name (cl_env C) n)) k s = k (mk_keys m n) s1"
    for k :: "_ \<Rightarrow> ('a console, string list option) prog"
    by (rule bindP_run_Inr) (rule s1(3))
  obtain k where k: "mk_keys m n = Some k"
    using run s1(3) by (cases "mk_keys m n") (simp_all add: sign_owner_def q prog_simps)
  then obtain r where r: "keychain_get C (encode_address (cl_env C) k) (co_keys s1) = Inr (Some r)"
      "bindP (add_signature C (ki_priv r)) (\<lambda>_. ret (Some (sigs @ [n]))) s1 = (Inr (Some sigs'), s')"
    using run by (auto simp: sign_owner_def q find_key_run prog_simps split: sum.splits option.splits)
  then have a: "add_signature C (ki_priv r) s1 = (Inr (), s')" "sigs' = sigs @ [n]"
    by (auto simp: prog_simps elim!: bindP_InrE)
  have more: "more_signed s s1" using same_more_signed [OF s1(2)] .
  then have "keys_match C (co_keys s1)" using keys by (simp add: more_signed_def)
  then show thesis
    using that [OF k] add_signature_signs [OF _ r(1) a(1)] a(2) add_signature_view [OF a(1) s1(1)]
      more_signed.kept_trans [OF more followsE [OF add_signature_more a(1)]] by blast
qed

lemma at_node_more: "follows more_signed (at_node f)"
  by (rule followsI) (simp add: at_node_def more_signed_def split: prod.split)

lemma find_key_more: "follows more_signed (find_key C n)"
  unfolding find_key_def by (intro more_signed.rules)

lemma sign_loop_more: "follows more_signed (sign_loop C cs sigs)"
proof (induction cs arbitrary: sigs)
  case (Cons c cs)
  have "follows more_signed (sign_command C sigs c)"
    unfolding sign_command_def sign_register_def sign_transfer_def sign_issue_def sign_owner_def
    by (intro more_signed.rules at_node_more find_key_more add_signature_more)
  with Cons show ?case unfolding sign_loop.simps by (intro more_signed.rules)
qed (simp add: more_signed.plain)

text \<open>
  The transactions whose signatures depend on the market before them alone: a name whose key the
  transaction sets is not used before, and is used after only if it is the address of that key,
  and the keychain has that address. \<open>own\<close> are the addresses registered so far, \<open>changed\<close> the other
  names, \<open>seen\<close> the names used so far.
\<close>

primrec plain_commands :: "'d client_env \<Rightarrow> 'd \<Rightarrow> string \<Rightarrow> string set \<Rightarrow> string set \<Rightarrow> string set \<Rightarrow> command list \<Rightarrow> bool" where
  "plain_commands C d gen own changed seen [] \<longleftrightarrow> True"
| "plain_commands C d gen own changed seen (c # cs) \<longleftrightarrow>
     (if c_id c = register_name_id then
        (case unpack (e_register_name (cl_env C)) (c_data c) of
           Inl e \<Rightarrow> False
         | Inr rn \<Rightarrow>
             rn_name rn \<in> small_names (cl_env C) \<and> rn_name rn \<notin> changed \<and>
             (if rn_name rn = encode_address (cl_env C) (rn_pub_key rn) then
                (rn_name rn \<in> own \<or> rn_name rn \<notin> seen) \<and> keychain_get C (rn_name rn) d \<noteq> Inr None
                \<and> plain_commands C d gen (insert (rn_name rn) own) changed seen cs
              else rn_name rn \<notin> own \<and> rn_name rn \<notin> seen
                \<and> plain_commands C d gen own (insert (rn_name rn) changed) seen cs))
      else if c_id c = issue_id then
        (case unpack (e_issue (cl_env C)) (c_data c) of
           Inl e \<Rightarrow> False
         | Inr is \<Rightarrow> is_stock_name is \<in> small_names (cl_env C) \<and> is_stock_name is \<notin> changed
             \<and> plain_commands C d gen own changed (insert (is_stock_name is) seen) cs)
      else if c_id c = transfer_id then
        (case unpack (e_transfer (cl_env C)) (c_data c) of
           Inl e \<Rightarrow> False
         | Inr tr \<Rightarrow> tr_from_name tr \<in> small_names (cl_env C) \<and> tr_from_name tr \<notin> changed \<and> tr_from_name tr \<noteq> []
             \<and> plain_commands C d gen own changed ({tr_from_name tr, destination gen tr} \<union> seen) cs)
      else False)"

definition owners_signed :: "'d client_env \<Rightarrow> market \<Rightarrow> string set \<Rightarrow> string set \<Rightarrow> string list \<Rightarrow> 'd console \<Rightarrow> bool" where
  "owners_signed C m own seen sigs s \<longleftrightarrow>
     (\<forall>x \<in> own. \<forall>k. encode_address (cl_env C) k = x \<longrightarrow> signed_with C s k)
     \<and> (\<forall>x \<in> set sigs. x \<in> own \<or> x \<in> seen \<and> (\<exists>k. mk_keys m x = Some k \<and> signed_with C s k))"

definition keys_follow :: "'d client_env \<Rightarrow> market \<Rightarrow> string set \<Rightarrow> string set \<Rightarrow> string set \<Rightarrow> market \<Rightarrow> bool" where
  "keys_follow C m own changed seen m' \<longleftrightarrow>
     (\<forall>x \<in> own. \<exists>k. mk_keys m' x = Some k \<and> encode_address (cl_env C) k = x)
     \<and> (\<forall>x. x \<notin> own \<longrightarrow> x \<notin> changed \<longrightarrow> mk_keys m' x = mk_keys m x \<or> mk_keys m x = None \<and> x \<in> seen)"

lemma owners_signed_more:
  "owners_signed C m own seen sigs s \<Longrightarrow> more_signed s s' \<Longrightarrow> seen \<subseteq> seen' \<Longrightarrow> owners_signed C m own seen' sigs s'"
  unfolding owners_signed_def using more_signed_with by blast

lemma owners_signed_key:
  assumes "owners_signed C m own seen sigs s" and "keys_follow C m own changed seen m'" and "x \<notin> changed"
    and "x \<in> own \<or> (\<exists>k. mk_keys m x = Some k \<and> signed_with C s k)" and "mk_keys m' x = Some k"
  shows "signed_with C s k"
  using assms unfolding owners_signed_def keys_follow_def by (metis option.discI option.inject)

lemma pay_step:
  assumes inv: "owners_signed C m own seen sigs s" and view: "console_view C ents m s" and keys: "keys_match C (co_keys s)"
    and n: "n \<in> small_names (cl_env C)"
    and run: "(if n \<in> set sigs then ret (Some sigs) else sign_owner C sigs n) s = (Inr (Some sigs'), s')"
  shows "owners_signed C m own (insert n seen) sigs' s' \<and> console_view C ents m s'
     \<and> (n \<in> own \<or> (\<exists>k. mk_keys m n = Some k \<and> signed_with C s' k))"
proof (cases "n \<in> set sigs")
  case True
  then have "sigs' = sigs" "s' = s" using run by (simp_all add: prog_simps)
  then show ?thesis
    using inv view True owners_signed_more [OF inv more_signed.kept_refl, of "insert n seen"] unfolding owners_signed_def by auto
next
  case False
  with run have "sign_owner C sigs n s = (Inr (Some sigs'), s')" by simp
  then obtain k where k: "mk_keys m n = Some k" "signed_with C s' k" "sigs' = sigs @ [n]" "console_view C ents m s'" "more_signed s s'"
    by (rule sign_owner_run [OF view n keys])
  then show ?thesis
    using owners_signed_more [OF inv k(5), of "insert n seen"] by (auto simp: owners_signed_def)
qed

lemma register_address_step:
  assumes inv: "owners_signed C m own seen sigs s" and view: "console_view C ents m s" and keys: "keys_match C (co_keys s)"
    and c: "c_id c = register_name_id" "unpack (e_register_name (cl_env C)) (c_data c) = Inr rn"
    and n: "rn_name rn = encode_address (cl_env C) (rn_pub_key rn)" "rn_name rn \<in> own \<or> rn_name rn \<notin> seen"
      "keychain_get C (rn_name rn) (co_keys s) \<noteq> Inr None"
    and run: "sign_register C sigs c s = (Inr (Some sigs'), s')"
  shows "owners_signed C m (insert (rn_name rn) own) seen sigs' s' \<and> console_view C ents m s'"
proof (cases "rn_name rn \<in> set sigs")
  case True
  then have "sigs' = sigs" "s' = s" using run c by (simp_all add: sign_register_def cast_command_def bindP_def prog_simps)
  then show ?thesis using True inv view n(2) by (auto simp: owners_signed_def)
next
  case False
  then obtain r where r: "keychain_get C (rn_name rn) (co_keys s) = Inr (Some r)"
      "bindP (add_signature C (ki_priv r)) (\<lambda>_. ret (Some (sigs @ [rn_name rn]))) s = (Inr (Some sigs'), s')"
    using run c n(1,3)
    by (auto simp: sign_register_def cast_command_def find_key_run prog_simps split: sum.splits option.splits)
  then have a: "add_signature C (ki_priv r) s = (Inr (), s')" "sigs' = sigs @ [rn_name rn]"
    by (auto simp: prog_simps elim!: bindP_InrE)
  have "signed_with C s' k" if "encode_address (cl_env C) k = rn_name rn" for k
    using add_signature_signs [OF keys _ a(1)] r(1) that by metis
  then show ?thesis
    using owners_signed_more [OF inv followsE [OF add_signature_more a(1)] subset_refl] add_signature_view [OF a(1) view] a(2)
    by (auto simp: owners_signed_def)
qed

lemma register_name_step:
  assumes inv: "owners_signed C m own seen sigs s" and view: "console_view C ents m s" and keys: "keys_match C (co_keys s)"
    and c: "c_id c = register_name_id" "unpack (e_register_name (cl_env C)) (c_data c) = Inr rn"
    and n: "rn_name rn \<noteq> encode_address (cl_env C) (rn_pub_key rn)" "rn_name rn \<notin> own" "rn_name rn \<notin> seen"
      "rn_name rn \<in> small_names (cl_env C)"
    and run: "sign_register C sigs c s = (Inr (Some sigs'), s')"
  shows "owners_signed C m own seen sigs' s' \<and> console_view C ents m s' \<and> (\<forall>k. mk_keys m (rn_name rn) = Some k \<longrightarrow> signed_with C s' k)"
proof -
  obtain s1 where s1: "console_view C ents m s1" "console_same s s1"
    "at_node (get_key_for_name (cl_env C) (rn_name rn)) s = (Inr (mk_keys m (rn_name rn)), s1)"
    using client.key_run [OF view n(4)] by metis
  have q: "bindP (at_node (get_key_for_name (cl_env C) (rn_name rn))) k s = k (mk_keys m (rn_name rn)) s1"
    for k :: "_ \<Rightarrow> ('a console, string list option) prog"
    by (rule bindP_run_Inr) (rule s1(3))
  have more: "more_signed s s1" using same_more_signed [OF s1(2)] .
  have new: "rn_name rn \<notin> set sigs" using inv n(2,3) by (auto simp: owners_signed_def)
  show ?thesis
  proof (cases "mk_keys m (rn_name rn)")
    case None
    then have "sigs' = sigs" "s' = s1" using run c n(1) new by (simp_all add: sign_register_def cast_command_def q prog_simps)
    then show ?thesis using None s1(1) owners_signed_more [OF inv more subset_refl] by simp
  next
    case (Some k)
    then obtain r where r: "keychain_get C (encode_address (cl_env C) k) (co_keys s1) = Inr (Some r)"
        "bindP (add_signature C (ki_priv r)) (\<lambda>_. ret (Some sigs)) s1 = (Inr (Some sigs'), s')"
      using run c n(1) new
      by (auto simp: sign_register_def cast_command_def q find_key_run key_address_def prog_simps split: sum.splits option.splits)
    then have a: "add_signature C (ki_priv r) s1 = (Inr (), s')" "sigs' = sigs"
      by (auto simp: prog_simps elim!: bindP_InrE)
    have "keys_match C (co_keys s1)" using keys more by (simp add: more_signed_def)
    then show ?thesis
      using add_signature_signs [OF _ r(1) a(1)] Some a(2) add_signature_view [OF a(1) s1(1)]
        owners_signed_more [OF inv more_signed.kept_trans [OF more followsE [OF add_signature_more a(1)]] subset_refl] by simp
  qed
qed

definition trusting :: "'d env \<Rightarrow> 'd env" where
  \<comment> \<open>every signature is accepted\<close>
  "trusting E = E\<lparr>e_rsa_verify := \<lambda>k h sig. True\<rparr>"

lemma trusting_sel [simp]:
  "encode_address (trusting E) k = encode_address E k" "validate_address_format (trusting E) a = validate_address_format E a"
  "e_register_name (trusting E) = e_register_name E" "e_issue (trusting E) = e_issue E" "e_transfer (trusting E) = e_transfer E"
  by (simp_all add: trusting_def encode_address_def validate_address_format_def)

lemma trusting_verify: "strx_verify E trx k \<Longrightarrow> strx_verify (trusting E) trx k"
  by (auto simp: strx_verify_iff trusting_def)

lemma trusting_signed_by:
  "(\<And>k. ko = Some k \<Longrightarrow> strx_verify E trx k) \<Longrightarrow> signed_by (trusting E) trx ko = signed_by E trx ko"
  by (cases ko) (auto simp: signed_by_def dest: trusting_verify)

lemma keys_follow_set:
  assumes "keys_follow C m own changed seen m'"
  shows "encode_address (cl_env C) pk = n \<Longrightarrow> keys_follow C m (insert n own) changed seen (m_set_key n pk m')"
    and "n \<notin> own \<Longrightarrow> keys_follow C m own (insert n changed) seen (m_set_key n pk m')"
    and "mk_keys m' n = None \<Longrightarrow> keys_follow C m own changed (insert n seen) (m_set_key n pk m')"
  using assms by (auto simp: keys_follow_def m_set_key_def)

lemma keys_follow_mono: "keys_follow C m own changed seen m' \<Longrightarrow> seen \<subseteq> seen' \<Longrightarrow> mk_keys m'' = mk_keys m' \<Longrightarrow> keys_follow C m own changed seen' m''"
  by (auto simp: keys_follow_def)

lemma transfer_follows:
  assumes "keys_follow C m own changed seen m'" and "m_transfer E trx gen tr m' = (True, m'')"
  shows "keys_follow C m own changed ({tr_from_name tr, destination gen tr} \<union> seen) m''"
proof -
  let ?to = "destination gen tr"
  let ?m = "if mk_keys m' ?to = None then m_set_key ?to empty_public_key m' else m'"
  have "keys_follow C m own changed (insert ?to seen) ?m"
    using keys_follow_set(3) [OF assms(1), of ?to] keys_follow_mono [OF assms(1) subset_insertI] by auto
  moreover have "mk_keys m'' = mk_keys ?m"
    using assms(2) by (auto simp: m_transfer_def Let_def m_move_def split: if_splits)
  ultimately show ?thesis using keys_follow_mono by (metis Un_insert_left insert_is_Un subset_insertI)
qed

lemma command_step:
  assumes inv: "owners_signed C m own seen sigs s" and follow: "keys_follow C m own changed seen m'"
    and view: "console_view C ents m s" and keys: "keys_match C (co_keys s)"
    and plain: "plain_commands C (co_keys s) gen own changed seen (c # cs)"
    and run: "sign_command C sigs c s = (Inr (Some sigs'), s')"
    and trx: "\<And>k. signed_with C s' k \<Longrightarrow> strx_verify (cl_env C) trx k"
  obtains own' changed' seen' where "plain_commands C (co_keys s) gen own' changed' seen' cs"
    "owners_signed C m own' seen' sigs' s'" "console_view C ents m s'"
    "m_command (cl_env C) trx gen c m' = m_command (trusting (cl_env C)) trx gen c m'"
    "\<And>m''. m_command (cl_env C) trx gen c m' = (Inr True, m'') \<Longrightarrow> keys_follow C m own' changed' seen' m''"
proof (cases "c_id c = register_name_id")
  case reg: True
  then obtain rn where rn: "unpack (e_register_name (cl_env C)) (c_data c) = Inr rn" "rn_name rn \<in> small_names (cl_env C)" "rn_name rn \<notin> changed"
    using plain by (auto split: sum.splits)
  have r: "sign_register C sigs c s = (Inr (Some sigs'), s')" using run reg by (simp add: sign_command_def)
  have next_market: "m'' = m_set_key (rn_name rn) (rn_pub_key rn) m'" if "m_command (cl_env C) trx gen c m' = (Inr True, m'')" for m''
    using that reg rn(1) by (auto simp: m_command_def m_register_def apfst_def split: if_splits)
  show thesis
  proof (cases "rn_name rn = encode_address (cl_env C) (rn_pub_key rn)")
    case True
    have p: "rn_name rn \<in> own \<or> rn_name rn \<notin> seen" "keychain_get C (rn_name rn) (co_keys s) \<noteq> Inr None"
        "plain_commands C (co_keys s) gen (insert (rn_name rn) own) changed seen cs"
      using plain reg rn(1) True by auto
    have step: "owners_signed C m (insert (rn_name rn) own) seen sigs' s'" "console_view C ents m s'"
      using register_address_step [OF inv view keys reg rn(1) True p(1,2) r] by blast+
    show thesis
    proof (rule that [OF p(3) step])
      show "m_command (cl_env C) trx gen c m' = m_command (trusting (cl_env C)) trx gen c m'"
        using reg rn(1) True by (simp add: m_command_def m_register_def)
      show "keys_follow C m (insert (rn_name rn) own) changed seen m''" if "m_command (cl_env C) trx gen c m' = (Inr True, m'')" for m''
        unfolding next_market [OF that] by (rule keys_follow_set(1) [OF follow True [symmetric]])
    qed
  next
    case False
    have p: "rn_name rn \<notin> own" "rn_name rn \<notin> seen" "plain_commands C (co_keys s) gen own (insert (rn_name rn) changed) seen cs"
      using plain reg rn(1) False by auto
    have step: "owners_signed C m own seen sigs' s'" "console_view C ents m s'" and k: "\<And>k. mk_keys m (rn_name rn) = Some k \<Longrightarrow> signed_with C s' k"
      using register_name_step [OF inv view keys reg rn(1) False p(1,2) rn(2) r] by blast+
    have "mk_keys m' (rn_name rn) = mk_keys m (rn_name rn)" using follow p(1,2) rn(3) by (auto simp: keys_follow_def)
    then have "signed_by (trusting (cl_env C)) trx (mk_keys m' (rn_name rn)) = signed_by (cl_env C) trx (mk_keys m' (rn_name rn))"
      using trusting_signed_by k trx by metis
    then have eq: "m_command (cl_env C) trx gen c m' = m_command (trusting (cl_env C)) trx gen c m'"
      using reg rn(1) by (simp add: m_command_def m_register_def)
    show thesis
      by (rule that [OF p(3) step eq]) (use next_market keys_follow_set(2) [OF follow p(1)] in blast)
  qed
next
  case not_reg: False
  show thesis
  proof (cases "c_id c = issue_id")
    case iss: True
    then obtain ic where ic: "unpack (e_issue (cl_env C)) (c_data c) = Inr ic" "is_stock_name ic \<in> small_names (cl_env C)" "is_stock_name ic \<notin> changed"
        "plain_commands C (co_keys s) gen own changed (insert (is_stock_name ic) seen) cs"
      using plain not_reg by (auto split: sum.splits)
    have "(if is_stock_name ic \<in> set sigs then ret (Some sigs) else sign_owner C sigs (is_stock_name ic)) s = (Inr (Some sigs'), s')"
      using run iss not_reg ic(1) by (simp add: sign_command_def sign_issue_def cast_command_def issue_id_def transfer_id_def register_name_id_def)
    note step = pay_step [OF inv view keys ic(2) this]
    have "strx_verify (cl_env C) trx k" if "mk_keys m' (is_stock_name ic) = Some k" for k
      using trx owners_signed_key [OF _ keys_follow_mono [OF follow subset_insertI refl] ic(3)] step that by blast
    then have "signed_by (trusting (cl_env C)) trx (mk_keys m' (is_stock_name ic)) = signed_by (cl_env C) trx (mk_keys m' (is_stock_name ic))"
      by (rule trusting_signed_by)
    then have eq: "m_command (cl_env C) trx gen c m' = m_command (trusting (cl_env C)) trx gen c m'"
      using iss not_reg ic(1) by (simp add: m_command_def m_issue_def)
    show thesis
      by (rule that [OF ic(4) _ _ eq])
        (use step iss not_reg ic(1) keys_follow_mono [OF follow subset_insertI] in
          \<open>auto simp: m_command_def m_issue_def m_issue_all_def apfst_def split: if_splits\<close>)
  next
    case not_iss: False
    then obtain tr where tr: "c_id c = transfer_id" "unpack (e_transfer (cl_env C)) (c_data c) = Inr tr" "tr_from_name tr \<in> small_names (cl_env C)"
        "tr_from_name tr \<notin> changed" "tr_from_name tr \<noteq> []"
        "plain_commands C (co_keys s) gen own changed ({tr_from_name tr, destination gen tr} \<union> seen) cs"
      using plain not_reg by (auto split: sum.splits if_splits)
    let ?seen = "{tr_from_name tr, destination gen tr} \<union> seen"
    have "(if tr_from_name tr \<in> set sigs then ret (Some sigs) else sign_owner C sigs (tr_from_name tr)) s = (Inr (Some sigs'), s')"
      using run tr(1,2,5) by (simp add: sign_command_def sign_transfer_def cast_command_def transfer_id_def register_name_id_def split: if_splits)
    note step = pay_step [OF inv view keys tr(3) this]
    have signed: "owners_signed C m own ?seen sigs' s'"
      using step owners_signed_more [OF _ more_signed.kept_refl, of C m own "insert (tr_from_name tr) seen" sigs' s' ?seen] by auto
    have "strx_verify (cl_env C) trx k" if "mk_keys m' (tr_from_name tr) = Some k" for k
      using trx owners_signed_key [OF signed keys_follow_mono [OF follow _ refl] tr(4)] step that by blast
    then have "signed_by (trusting (cl_env C)) trx (mk_keys m' (tr_from_name tr)) = signed_by (cl_env C) trx (mk_keys m' (tr_from_name tr))"
      by (rule trusting_signed_by)
    then have eq: "m_command (cl_env C) trx gen c m' = m_command (trusting (cl_env C)) trx gen c m'"
      using not_reg not_iss tr(1,2)
      by (simp add: m_command_def m_transfer_def Let_def)
    have "keys_follow C m own changed ?seen m''" if "m_command (cl_env C) trx gen c m' = (Inr True, m'')" for m''
      using that not_reg not_iss tr(1,2) transfer_follows [OF follow] by (cases "m_transfer (cl_env C) trx gen tr m'") (simp add: m_command_def)
    then show thesis using that [OF tr(6) signed _ eq] step by blast
  qed
qed

lemma sign_loop_enough:
  assumes "owners_signed C m own seen sigs s" and "keys_follow C m own changed seen m'"
    and "console_view C ents m s" and "keys_match C (co_keys s)"
    and "plain_commands C (co_keys s) gen own changed seen cs"
    and "sign_loop C cs sigs s = (Inr True, s')"
  shows "m_commands (cl_env C) (co_trx s') gen cs m' = m_commands (trusting (cl_env C)) (co_trx s') gen cs m'"
  using assms
proof (induction cs arbitrary: own changed seen sigs s m')
  case (Cons c cs)
  from Cons.prems(6) obtain r s1 where r: "sign_command C sigs c s = (Inr r, s1)"
      "(case r of None \<Rightarrow> ret False | Some sigs \<Rightarrow> sign_loop C cs sigs) s1 = (Inr True, s')"
    by (auto elim!: bindP_InrE)
  then obtain sigs1 where c: "sign_command C sigs c s = (Inr (Some sigs1), s1)" "sign_loop C cs sigs1 s1 = (Inr True, s')"
    by (cases r) (simp_all add: prog_simps)
  have "follows more_signed (sign_loop C [c] sigs)" by (rule sign_loop_more)
  then have more: "more_signed s s1" using followsD [of more_signed "sign_loop C [c] sigs" s] c(1) by (simp add: bindP_def prog_simps)
  have final: "strx_verify (cl_env C) (co_trx s') k" if "signed_with C s1 k" for k
    using more_signed_with [OF followsE [OF sign_loop_more c(2)] that] by (simp add: signed_with_def)
  show ?case
  proof (rule command_step [OF Cons.prems(1-5) c(1) final])
    fix own' changed' seen'
    assume a: "plain_commands C (co_keys s) gen own' changed' seen' cs" "owners_signed C m own' seen' sigs1 s1" "console_view C ents m s1"
      and eq: "m_command (cl_env C) (co_trx s') gen c m' = m_command (trusting (cl_env C)) (co_trx s') gen c m'"
      and follow: "\<And>m''. m_command (cl_env C) (co_trx s') gen c m' = (Inr True, m'') \<Longrightarrow> keys_follow C m own' changed' seen' m''"
    have keys: "co_keys s1 = co_keys s" using more by (simp add: more_signed_def)
    show ?thesis
    proof (cases "\<exists>m''. m_command (cl_env C) (co_trx s') gen c m' = (Inr True, m'')")
      case True
      then obtain m'' where m'': "m_command (cl_env C) (co_trx s') gen c m' = (Inr True, m'')" by blast
      have "m_commands (cl_env C) (co_trx s') gen cs m'' = m_commands (trusting (cl_env C)) (co_trx s') gen cs m''"
        by (rule Cons.IH [OF a(2) follow [OF m''] a(3)]) (use Cons.prems(4) a(1) keys c(2) in simp_all)
      then show ?thesis using m'' eq by simp
    next
      case False
      obtain a m2 where a: "m_command (cl_env C) (co_trx s') gen c m' = (a, m2)" by fastforce
      moreover have "m_command (trusting (cl_env C)) (co_trx s') gen c m' = (a, m2)" using eq a by simp
      ultimately show ?thesis using False by (cases a) auto
    qed
  qed
qed simp

lemma sign_all_run:
  assumes "sign_all C s = (Inr True, s')"
  shows "sign_loop C (trx_commands (strx_trx (co_trx s))) [] s = (Inr True, s')"
  using assms by (auto simp: sign_all_def split: prod.splits sum.splits if_splits)

text \<open>C10: A transaction that the console has signed is never refused for want of a signature: if its
  \<open>sign\<close> returns true, the market answers the commands as if it accepted every signature. This
  holds for transactions that do not use a name after changing its key (\<open>plain_commands\<close>); the
  keychain holds for each address the private key of the public keys with this address.
\<close>

theorem signed_is_enough:
  assumes "node_view (cl_env C) ents m (co_node s)" and "keys_match C (co_keys s)"
    and "plain_commands C (co_keys s) gen {} {} {} (trx_commands (strx_trx (co_trx s)))"
    and "sign_all C s = (Inr True, s')"
  shows "m_commands (cl_env C) (co_trx s') gen (trx_commands (strx_trx (co_trx s))) m =
    m_commands (trusting (cl_env C)) (co_trx s') gen (trx_commands (strx_trx (co_trx s))) m
    \<and> strx_trx (co_trx s') = strx_trx (co_trx s)"
proof
  show "m_commands (cl_env C) (co_trx s') gen (trx_commands (strx_trx (co_trx s))) m =
    m_commands (trusting (cl_env C)) (co_trx s') gen (trx_commands (strx_trx (co_trx s))) m"
    by (rule sign_loop_enough [OF _ _ _ assms(2,3) sign_all_run [OF assms(4)]])
      (use assms(1) in \<open>simp_all add: owners_signed_def keys_follow_def console_view_def\<close>)
  show "strx_trx (co_trx s') = strx_trx (co_trx s)"
    using followsE [OF sign_loop_more sign_all_run [OF assms(4)]] by (simp add: more_signed_def)
qed

section \<open>Transfers\<close>

lemma console_same_refl: "console_same s s"
  by (simp add: console_same_def)

lemma console_same_trans: "console_same s t \<Longrightarrow> console_same t u \<Longrightarrow> console_same s u"
  unfolding console_same_def by (metis console.update_convs(1) console.surjective)

lemma console_same_sel: "console_same s s' \<Longrightarrow> co_keys s' = co_keys s \<and> co_trx s' = co_trx s"
  unfolding console_same_def by (metis console.select_convs(2,3) console.surjective console.update_convs(1))

lemma known_destination_run:
  assumes "console_view C ents m s" and "to \<in> small_names (cl_env C)"
  obtains s' where "known_destination C to s = (Inr (to = ''gen'' \<or> validate_address_format (cl_env C) to \<or> mk_keys m to \<noteq> None), s')"
    "console_view C ents m s'" "console_same s s'"
proof (cases "to \<noteq> ''gen'' \<and> \<not> validate_address_format (cl_env C) to")
  case True
  obtain s' where "at_node (get_key_for_name (cl_env C) to) s = (Inr (mk_keys m to), s')" "console_view C ents m s'" "console_same s s'"
    using client.key_run [OF assms] by metis
  then show ?thesis using True that by (simp add: known_destination_def bindP_def prog_simps)
next
  case False
  then have "known_destination C to s = (Inr True, s)" by (auto simp: known_destination_def prog_simps)
  then show ?thesis using that [OF _ assms(1) console_same_refl] False by auto
qed

lemma transfer_source_run:
  "keychain_get C (encode_address (cl_env C) k) (co_keys s) = Inr (Some r) \<Longrightarrow> transfer_source C from k s = (Inr True, s)"
  by (simp add: transfer_source_def find_key_run prog_simps)

text \<open>The command with its queries answered.\<close>

lemma transfer_command_run:
  assumes view: "console_view C ents m s" and names: "to \<in> small_names (cl_env C)" "shares \<in> small_names (cl_env C)" "from \<in> small_names (cl_env C)"
    and key: "\<And>k. mk_keys m from = Some k \<Longrightarrow> \<exists>r. keychain_get C (encode_address (cl_env C) k) (co_keys s) = Inr (Some r)"
  obtains s' where "console_view C ents m s'" "console_same s s'"
    "transfer_command C amnt shares from to s =
      (if (to = ''gen'' \<or> validate_address_format (cl_env C) to \<or> mk_keys m to \<noteq> None) \<and> mk_keys m shares \<noteq> None
          \<and> mk_keys m from \<noteq> None \<and> amnt \<le> balance m from shares
       then push_command (command_of (e_transfer (cl_env C)) transfer_id
         \<lparr>tr_amount = amnt, tr_stock_name = shares, tr_from_name = from, tr_to_name = (if to \<noteq> ''gen'' then to else [])\<rparr>) s'
       else (Inr (), s'))"
proof -
  let ?c = "command_of (e_transfer (cl_env C)) transfer_id
    \<lparr>tr_amount = amnt, tr_stock_name = shares, tr_from_name = from, tr_to_name = (if to \<noteq> ''gen'' then to else [])\<rparr>"
  define D where "D \<longleftrightarrow> to = ''gen'' \<or> validate_address_format (cl_env C) to \<or> mk_keys m to \<noteq> None"
  define goal where "goal s' \<longleftrightarrow> transfer_command C amnt shares from to s =
      (if D \<and> mk_keys m shares \<noteq> None \<and> mk_keys m from \<noteq> None \<and> amnt \<le> balance m from shares
       then push_command ?c s' else (Inr (), s'))" for s'
  obtain s1 where s1: "known_destination C to s = (Inr D, s1)" "console_view C ents m s1" "console_same s s1"
    using known_destination_run [OF view names(1)] unfolding D_def by metis
  obtain s2 where s2: "at_node (get_key_for_name (cl_env C) shares) s1 = (Inr (mk_keys m shares), s2)"
      "console_view C ents m s2" "console_same s1 s2"
    using client.key_run [OF s1(2) names(2)] by metis
  obtain s3 where s3: "at_node (get_key_for_name (cl_env C) from) s2 = (Inr (mk_keys m from), s3)"
      "console_view C ents m s3" "console_same s2 s3"
    using client.key_run [OF s2(2) names(3)] by metis
  obtain s4 where s4: "at_node (node_get_balance (cl_env C) from shares) s3 = (Inr (balance m from shares), s4)"
      "console_view C ents m s4" "console_same s3 s4"
    using client.balance_run [OF s3(2) names(3,2)] by metis
  have same: "console_same s s2" "console_same s s3" "console_same s s4"
    using console_same_trans s1(3) s2(3) s3(3) s4(3) by blast+
  note run = goal_def transfer_command_def bindP_def prog_simps s1(1) s2(1) s3(1) s4(1)
  have "\<exists>s'. console_view C ents m s' \<and> console_same s s' \<and> goal s'"
  proof (cases "D \<and> mk_keys m shares \<noteq> None \<and> mk_keys m from \<noteq> None")
    case False
    then consider "\<not> D" | "D" "mk_keys m shares = None" | "D" "mk_keys m shares \<noteq> None" "mk_keys m from = None" by blast
    then show ?thesis
    proof cases
      case 1
      then have "goal s1" by (simp add: run)
      then show ?thesis using s1 by blast
    next
      case 2
      then have "goal s2" by (simp add: run)
      then show ?thesis using s2 same by blast
    next
      case 3
      then have "goal s3" by (auto simp: run)
      then show ?thesis using s3 same by blast
    qed
  next
    case known: True
    then obtain k where k: "mk_keys m from = Some k" by blast
    then obtain r where "keychain_get C (encode_address (cl_env C) k) (co_keys s4) = Inr (Some r)"
      using key console_same_sel [OF same(3)] by metis
    then have "transfer_source C from k s4 = (Inr True, s4)" by (rule transfer_source_run)
    then have "goal s4" using known k by (cases "balance m from shares < amnt") (auto simp: run)
    then show ?thesis using s4 same by blast
  qed
  then show thesis using that unfolding goal_def D_def by blast
qed

lemma add_signature_run:
  assumes "e_rsa_sign (cl_env C) priv (e_hash_trx (cl_env C) (strx_trx (co_trx s))) = Inr sig"
  shows "add_signature C priv s = (Inr (), s\<lparr>co_trx := (co_trx s)\<lparr>strx_sigs := strx_sigs (co_trx s) @ [sig]\<rparr>\<rparr>)"
  using assms by (simp add: add_signature_def strx_sign_def)

lemma sign_one_transfer:
  assumes view: "console_view C ents m s" and keys: "keys_match C (co_keys s)"
    and c: "trx_commands (strx_trx (co_trx s)) = [c]" "c_id c = transfer_id" "unpack (e_transfer (cl_env C)) (c_data c) = Inr tr"
    and n: "tr_from_name tr \<in> small_names (cl_env C)" "tr_from_name tr \<noteq> []" "mk_keys m (tr_from_name tr) = Some k"
    and r: "keychain_get C (encode_address (cl_env C) k) (co_keys s) = Inr (Some r)" "\<And>h. \<exists>sig. e_rsa_sign (cl_env C) (ki_priv r) h = Inr sig"
  shows "\<exists>s'. sign_all C s = (Inr True, s') \<and> strx_verify (cl_env C) (co_trx s') k"
proof -
  obtain s1 where s1: "at_node (get_key_for_name (cl_env C) (tr_from_name tr)) s = (Inr (Some k), s1)" "console_same s s1"
    using client.key_run [OF view n(1)] n(3) by metis
  have sel: "co_keys s1 = co_keys s" "co_trx s1 = co_trx s" using console_same_sel [OF s1(2)] by simp_all
  obtain s2 where s2: "add_signature C (ki_priv r) s1 = (Inr (), s2)" using add_signature_run r(2) by metis
  have "sign_loop C [c] [] s = (Inr True, s2)"
    using c(2,3) n(2) s1(1) r(1) s2 sel(1)
    by (simp add: sign_command_def sign_transfer_def cast_command_def sign_owner_def bindP_def find_key_def prog_simps
        transfer_id_def register_name_id_def)
  moreover have "signed_with C s2 k" using add_signature_signs [of C s1 k r s2] keys r(1) s2 sel(1) by simp
  ultimately show ?thesis using c(1) by (simp add: sign_all_def signed_with_def)
qed

lemma m_transfer_cond:
  fixes m :: market
  assumes "from \<noteq> to" and "to \<noteq> []" and "mk_keys m gen \<noteq> None \<or> V gen"
  shows "\<exists>m'. \<forall>E t. validate_address_format E = V \<longrightarrow> m_transfer E t gen
      \<lparr>tr_amount = amnt, tr_stock_name = shares, tr_from_name = from, tr_to_name = (if to \<noteq> ''gen'' then to else [])\<rparr> m =
    (if (to = ''gen'' \<or> V to \<or> mk_keys m to \<noteq> None) \<and> mk_keys m shares \<noteq> None
        \<and> signed_by E t (mk_keys m from) \<and> amnt \<le> balance m from shares then (True, m') else (False, m))"
proof -
  let ?to = "if to = ''gen'' then gen else to"
  show ?thesis
    by (rule exI [of _ "m_move from ?to shares amnt (if mk_keys m ?to = None then m_set_key ?to empty_public_key m else m)"])
      (use assms in \<open>auto simp: m_transfer_def destination_def not_less Let_def\<close>)
qed

text \<open>The market's answer to a transfer that every signature would allow, and to one that is signed.\<close>

lemma m_transfer_trusting:
  fixes m :: market and E :: "'d env"
  assumes "from \<noteq> to" and "to \<noteq> []" and "mk_keys m gen \<noteq> None \<or> validate_address_format E gen" and "strx_sigs t \<noteq> []"
    and tr: "tr = \<lparr>tr_amount = amnt, tr_stock_name = shares, tr_from_name = from, tr_to_name = (if to \<noteq> ''gen'' then to else [])\<rparr>"
  obtains m' where "m_transfer (trusting E) t gen tr m =
      (if (to = ''gen'' \<or> validate_address_format E to \<or> mk_keys m to \<noteq> None) \<and> mk_keys m shares \<noteq> None
          \<and> mk_keys m from \<noteq> None \<and> amnt \<le> balance m from shares then (True, m') else (False, m))"
    "\<And>t' k. fst (m_transfer (trusting E) t gen tr m) \<Longrightarrow> mk_keys m from = Some k \<Longrightarrow> strx_verify E t' k
      \<Longrightarrow> m_transfer E t' gen tr m = (True, m')"
proof -
  obtain m1 where m1: "\<forall>(E' :: 'd env) t'. validate_address_format E' = validate_address_format E \<longrightarrow> m_transfer E' t' gen tr m =
      (if (to = ''gen'' \<or> validate_address_format E to \<or> mk_keys m to \<noteq> None) \<and> mk_keys m shares \<noteq> None
          \<and> signed_by E' t' (mk_keys m from) \<and> amnt \<le> balance m from shares then (True, m1) else (False, m))"
    using m_transfer_cond [where V = "validate_address_format E", OF assms(1-3), of amnt shares] unfolding tr by (rule exE)
  have vaf: "validate_address_format (trusting E) = validate_address_format E" by (rule ext) simp
  have "signed_by (trusting E) t (mk_keys m from) \<longleftrightarrow> mk_keys m from \<noteq> None"
    using assms(4) by (cases "strx_sigs t") (auto simp: signed_by_def strx_verify_def trusting_def split: option.split)
  then have a: "m_transfer (trusting E) t gen tr m =
      (if (to = ''gen'' \<or> validate_address_format E to \<or> mk_keys m to \<noteq> None) \<and> mk_keys m shares \<noteq> None
          \<and> mk_keys m from \<noteq> None \<and> amnt \<le> balance m from shares then (True, m1) else (False, m))"
    using m1 [rule_format, OF vaf] by simp
  show thesis
  proof (rule that [OF a])
    show "m_transfer E t' gen tr m = (True, m1)"
      if "fst (m_transfer (trusting E) t gen tr m)" "mk_keys m from = Some k" "strx_verify E t' k" for t' k
      using that m1 [rule_format, OF refl, of t'] unfolding a by (simp add: signed_by_def split: if_splits)
  qed
qed

text \<open>C11: The console adds a transfer to the transaction exactly when the market would accept it from
  whoever owns the account; then \<open>sign\<close> succeeds and the market makes the transfer. The keychain
  has the key of the account, the account is not the destination, and \<open>gen\<close> is a name or an address.
\<close>

theorem transfer_command_accepted:
  assumes "node_view (cl_env C) ents m (co_node s)" and "keys_match C (co_keys s)"
    and "trx_commands (strx_trx (co_trx s)) = []" and "{to, shares, from} \<subseteq> small_names (cl_env C)"
    and "\<forall>k. mk_keys m from = Some k \<longrightarrow> (\<exists>r. keychain_get C (encode_address (cl_env C) k) (co_keys s) = Inr (Some r)
      \<and> (\<forall>h. \<exists>sig. e_rsa_sign (cl_env C) (ki_priv r) h = Inr sig))"
    and "from \<noteq> []" and "to \<noteq> []" and "from \<noteq> to" and "mk_keys m gen \<noteq> None \<or> validate_address_format (cl_env C) gen"
    and "tr = \<lparr>tr_amount = amnt, tr_stock_name = shares, tr_from_name = from, tr_to_name = (if to \<noteq> ''gen'' then to else [])\<rparr>"
    and "unpack (e_transfer (cl_env C)) (pack (e_transfer (cl_env C)) tr) = Inr tr" and "strx_sigs t \<noteq> []"
  shows "\<exists>s'. transfer_command C amnt shares from to s = (Inr (), s')
    \<and> (case m_transfer (trusting (cl_env C)) t gen tr m of
        (False, m') \<Rightarrow> co_trx s' = co_trx s
      | (True, m') \<Rightarrow> trx_commands (strx_trx (co_trx s')) = [command_of (e_transfer (cl_env C)) transfer_id tr]
          \<and> (\<exists>s''. sign_all C s' = (Inr True, s'')
              \<and> m_commands (cl_env C) (co_trx s'') gen (trx_commands (strx_trx (co_trx s'))) m = (Inr True, m')))"
proof -
  let ?c = "command_of (e_transfer (cl_env C)) transfer_id tr"
  have view: "console_view C ents m s" using assms(1) by (simp add: console_view_def)
  have names: "to \<in> small_names (cl_env C)" "shares \<in> small_names (cl_env C)" "from \<in> small_names (cl_env C)" using assms(4) by simp_all
  obtain m1 where market: "m_transfer (trusting (cl_env C)) t gen tr m =
      (if (to = ''gen'' \<or> validate_address_format (cl_env C) to \<or> mk_keys m to \<noteq> None) \<and> mk_keys m shares \<noteq> None
          \<and> mk_keys m from \<noteq> None \<and> amnt \<le> balance m from shares then (True, m1) else (False, m))"
    and accepts: "\<And>t' k. fst (m_transfer (trusting (cl_env C)) t gen tr m) \<Longrightarrow> mk_keys m from = Some k \<Longrightarrow> strx_verify (cl_env C) t' k
      \<Longrightarrow> m_transfer (cl_env C) t' gen tr m = (True, m1)"
    by (rule m_transfer_trusting [OF assms(8,7,9,12,10)], rule that, assumption, simp)
  have key: "\<exists>r. keychain_get C (encode_address (cl_env C) k) (co_keys s) = Inr (Some r)" if "mk_keys m from = Some k" for k
    using assms(5) that by blast
  have cond: "fst (m_transfer (trusting (cl_env C)) t gen tr m) \<longleftrightarrow>
      (to = ''gen'' \<or> validate_address_format (cl_env C) to \<or> mk_keys m to \<noteq> None) \<and> mk_keys m shares \<noteq> None
        \<and> mk_keys m from \<noteq> None \<and> amnt \<le> balance m from shares"
    using market by simp
  obtain s1 where s1: "console_view C ents m s1" "console_same s s1" "transfer_command C amnt shares from to s =
      (if fst (m_transfer (trusting (cl_env C)) t gen tr m) then push_command ?c s1 else (Inr (), s1))"
    by (rule transfer_command_run [OF view names key, of amnt, folded assms(10) cond])
  have sel: "co_keys s1 = co_keys s" "co_trx s1 = co_trx s" using console_same_sel [OF s1(2)] by simp_all
  show ?thesis
  proof (cases "fst (m_transfer (trusting (cl_env C)) t gen tr m)")
    case False
    then show ?thesis using s1(3) sel market by (auto split: if_splits)
  next
    case True
    then have out: "m_transfer (trusting (cl_env C)) t gen tr m = (True, m1)" and "mk_keys m from \<noteq> None"
      using market by (simp_all split: if_splits)
    then obtain k r where k: "mk_keys m from = Some k" "keychain_get C (encode_address (cl_env C) k) (co_keys s) = Inr (Some r)"
        "\<And>h. \<exists>sig. e_rsa_sign (cl_env C) (ki_priv r) h = Inr sig"
      using assms(5) by auto
    obtain s2 where s2: "push_command ?c s1 = (Inr (), s2)" "trx_commands (strx_trx (co_trx s2)) = [?c]" "co_keys s2 = co_keys s"
        "console_view C ents m s2"
      using assms(3) sel s1(1) by (simp add: push_command_def prog_simps console_view_def)
    have c: "c_id ?c = transfer_id" "unpack (e_transfer (cl_env C)) (c_data ?c) = Inr tr" "tr_from_name tr = from"
      using assms(10,11) by (simp_all add: command_of_def)
    have "\<exists>s'. sign_all C s2 = (Inr True, s') \<and> strx_verify (cl_env C) (co_trx s') k"
      by (rule sign_one_transfer [OF s2(4) _ s2(2) c(1,2) _ _ _ _ k(3)]) (simp_all add: s2(3) assms(2,6) names(3) k(1,2) c(3))
    then obtain s3 where s3: "sign_all C s2 = (Inr True, s3)" "strx_verify (cl_env C) (co_trx s3) k" by blast
    have "m_commands (cl_env C) (co_trx s3) gen [?c] m = (Inr True, m1)"
      using accepts [OF True k(1) s3(2)] c by (simp add: m_command_def transfer_id_def register_name_id_def issue_id_def)
    then show ?thesis using out s1(3) s2 s3(1) by auto
  qed
qed

section \<open>The end of the input\<close>

text \<open>After the end of the input every line is empty, which is an unknown command: the loop goes on forever.\<close>

lemma empty_line: "console_line C [] s = (Inr False, s\<lparr>co_out := co_out s @ [Out_Unknown []]\<rparr>)"
  by (simp add: console_line_def read_word_def print_out_def bindP_def prog_simps)

lemma console_loop_stuck:
  assumes "\<forall>j \<ge> i. lines j = []"
  shows "console_loop C lines i s = None"
proof -
  have "\<exists>j \<ge> i. lines j \<noteq> []" if "console_loop C lines i s = Some y" for y
  proof (rule console_loop.raw_induct [rotated, OF that, where P = "\<lambda>C lines i s y. \<exists>j \<ge> i. lines j \<noteq> []"])
    fix rec C lines i s y
    assume IH: "\<And>C lines i s y. rec C lines i s = Some y \<Longrightarrow> \<exists>j \<ge> i. lines j \<noteq> []"
      and run: "(case console_line C (lines i) s of (Inl e, s) \<Rightarrow> Some (Inl e, s)
        | (Inr done, s) \<Rightarrow> if done then Some (Inr (), s) else rec C lines (Suc i) s) = Some y"
    show "\<exists>j \<ge> i. lines j \<noteq> []"
    proof (cases "lines i = []")
      case True
      then have "rec C lines (Suc i) (s\<lparr>co_out := co_out s @ [Out_Unknown []]\<rparr>) = Some y" using run by (simp add: empty_line)
      then show ?thesis using IH Suc_leD by blast
    qed blast
  qed
  then show ?thesis using assms by (cases "console_loop C lines i s") blast+
qed

lemma run_console_stuck: "run_console C (\<lambda>i. []) s = (Inl Diverges, s\<lparr>co_trx := strx_new\<rparr>)"
  by (simp add: run_console_def tryP_def bindP_def loopP_def console_loop_stuck prog_simps)

end
