(* ===== verification/ConsoleSample.thy ===== *)
theory ConsoleSample
  imports ConsoleProofs NodeSample
begin

text \<open>
  The properties of the console on a node whose market has two names and a stock, with a keychain
  that holds the key of one of the names. In \<open>address_env\<close> a signature is by every public key that
  has the address of the signer.
\<close>

definition address_env :: "(bytes \<times> bytes) list env" where
  "address_env = raw_env\<lparr>e_rsa_verify := \<lambda>k h sig. encode_address raw_env k = encode_address raw_env sig\<rparr>"

lemma address_env_sel [simp]:
  "e_record address_env = e_record raw_env" "e_define_name address_env = e_define_name raw_env" "e_update_name address_env = e_update_name raw_env"
  "e_transfer_log address_env = e_transfer_log raw_env" "e_start_trx address_env = e_start_trx raw_env" "e_end_block address_env = e_end_block raw_env"
  "e_register_name address_env = e_register_name raw_env" "e_issue address_env = e_issue raw_env" "e_transfer address_env = e_transfer raw_env"
  "e_account_key address_env = e_account_key raw_env" "e_string address_env = e_string raw_env" "e_uint64 address_env = e_uint64 raw_env"
  "e_bdb address_env = list_bdb" "e_rsa_verify address_env k h sig \<longleftrightarrow> encode_address raw_env k = encode_address raw_env sig"
  "e_rsa_sign address_env p h = Inr (of_nat (le_val p))"
  "encode_address address_env pk = encode_address raw_env pk" "validate_address_format address_env a = validate_address_format raw_env a"
  "small_names address_env = small_names raw_env"
  by (simp_all add: address_env_def small_names_def encode_address_def validate_address_format_def del: raw_env_sel(1-16))
    (simp_all add: raw_env_def)

lemma address_env_laws: "env_laws address_env (\<lambda>es. es)"
  using raw_env_laws by (simp add: env_laws_def)

section \<open>The keychain\<close>

definition lay_key_info :: "key_info layout" where
  "lay_key_info = lay_iso (\<lambda>k. (ki_alias k, ki_pub k, ki_priv k)) (\<lambda>(a, p, q). \<lparr>ki_alias = a, ki_pub = p, ki_priv = q\<rparr>)
     (lay_pair lay_string (lay_pair (lay_word 256) lay_bytes))"

definition sample_client :: "(bytes \<times> bytes) list client_env" where
  "sample_client = \<lparr>cl_env = address_env, cl_address = codec_of lay_string, cl_key_info = codec_of lay_key_info,
     cl_key_pair = (\<lambda>i. Inr (of_nat i, le_bytes 8 i)), cl_child_groups = map fst, cl_contains = (\<lambda>st k. k \<in> fst ` set st), cl_blank_sig = 0\<rparr>"

lemma sample_client_sel [simp]: "cl_env sample_client = address_env"
  by (simp add: sample_client_def)

definition sample_key :: key_info where
  "sample_key = \<lparr>ki_alias = ''A'', ki_pub = 1, ki_priv = [1]\<rparr>"

definition sample_keys :: "(bytes \<times> bytes) list" where
  "sample_keys = snd (keychain_set sample_client (encode_address raw_env 1) sample_key [])"

definition small_keys :: "key_info set" where
  "small_keys = {k. length (lay lay_key_info k) < log_limit}"

lemma raw_address_valid: "validate_address_format raw_env (encode_address raw_env k)"
  by (rule encode_address_format) (simp add: raw_env_def comp_def)

lemma lay_key_ok: "lossless lay_key_info" "sample_key \<in> small_keys"
proof -
  show "lossless lay_key_info"
    unfolding lay_key_info_def by (intro lossless_iso lossless_pair lossless_words lossless_string lossless_bytes) auto
  show "sample_key \<in> small_keys"
    by (simp add: small_keys_def lay_key_info_def sample_key_def length_lay lay_bytes_def log_limit_def)
qed

lemma keychain_laws: "kv_ok list_bdb (\<lambda>es. es) (codec_of lay_string) (codec_of lay_key_info) (small_names raw_env) small_keys"
proof -
  have str: "codec_laws (codec_of lay_string) (small_names raw_env)"
    by (rule codec_laws_of [OF lossless_string]) (simp add: small_names_def)
  have key: "codec_laws (codec_of lay_key_info) small_keys"
    by (rule codec_laws_of [OF lay_key_ok(1)]) (simp add: small_keys_def)
  have ne: "lay lay_string n \<noteq> []" "lay lay_key_info k \<noteq> []" for n k
    unfolding length_0_conv [symmetric]
    by (simp_all add: lay_key_info_def length_lay lay_bytes_def del: length_0_conv)
  show ?thesis unfolding kv_ok_def by (intro conjI ballI list_bdb_laws str key) (simp_all add: ne)
qed

lemma address_small: "encode_address raw_env k \<in> small_names raw_env"
proof -
  have "length (encode_address raw_env k) \<le> 20"
    by (simp add: encode_address_def Let_def raw_env_def sha1_to_bytes_def)
  then show ?thesis by (intro raw_small_names) simp
qed

lemma sample_keychain:
  "keychain_get sample_client (encode_address raw_env k) sample_keys =
     Inr (if encode_address raw_env k = encode_address raw_env 1 then Some sample_key else None)"
proof -
  have "kv_rep (\<lambda>es. es) (codec_of lay_string) (codec_of lay_key_info) (small_names raw_env) small_keys [] om_empty"
    by (simp add: kv_rep_def kv_repr_def om_empty_def)
  from kv_set_map [OF keychain_laws this address_small lay_key_ok(2), of 1]
  have "kv_rep (\<lambda>es. es) (codec_of lay_string) (codec_of lay_key_info) (small_names raw_env) small_keys sample_keys
      (om_set (encode_address raw_env 1) sample_key om_empty)"
    by (simp add: sample_keys_def keychain_set_def keychain_valid_def raw_address_valid sample_client_def)
  from kv_get_map [OF keychain_laws this address_small, of k] show ?thesis
    by (simp add: keychain_get_def keychain_valid_def raw_address_valid sample_client_def om_find_set)
qed

lemma sample_keys_match: "keys_match sample_client sample_keys"
  by (auto simp: keys_match_def sample_keychain sample_key_def split: if_splits)

section \<open>The node and the console\<close>

definition sample_gen :: "(bytes \<times> bytes) list sdb" where
  "sample_gen = Trx (Some (Trx (Some sample_disk) empty_layer)) empty_layer"

definition traded_states :: "(bytes \<times> bytes) list states" where
  \<comment> \<open>the states after the sample transaction\<close>
  "traded_states =
     (case snd (apply_trx address_env sample_trx [] sample_gen) of
        Trx (Some (Trx (Some db) h)) g \<Rightarrow> States db h g
      | _ \<Rightarrow> No_State)"

definition traded_market :: market where
  "traded_market = snd (m_commands address_env sample_trx [] sample_commands empty_market)"

definition sample_console :: "command list \<Rightarrow> (bytes \<times> bytes) list console" where
  "sample_console cs = \<lparr>co_node = (sample_node [sample_first])\<lparr>n_states := traded_states\<rparr>, co_keys = sample_keys,
     co_trx = strx_new\<lparr>strx_trx := \<lparr>trx_utc_time = 9, trx_commands = cs\<rparr>\<rparr>, co_pairs = 0, co_settings = [], co_out = []\<rparr>"

lemma sample_console_sel [simp]:
  "co_keys (sample_console cs) = sample_keys" "trx_commands (strx_trx (co_trx (sample_console cs))) = cs"
  by (simp_all add: sample_console_def strx_new_def)

lemma traded_market_is:
  "mk_keys traded_market = [''A'' \<mapsto> 1, ''B'' \<mapsto> 2]" "balance traded_market ''A'' ''A'' = - 6"
  unfolding traded_market_def
  by (simp_all add: sample_commands_def m_command_def command_of_def m_register_def m_issue_def m_transfer_def m_set_key_def
      empty_market_def m_issue_all_def signed_by_def strx_verify_def sample_trx_def balance_def destination_def m_move_def
      apfst_def map_prod_def Let_def split: prod.split)

lemma sample_console_view: "node_view address_env (\<lambda>es. es) traded_market (co_node (sample_console cs))"
proof -
  have shows0: "shows_market address_env (\<lambda>es. es) empty_market sample_gen"
    unfolding sample_gen_def by (rule shows_fresh [OF shows_fresh [OF sample_disk_shows]])
  have names: "names_of address_env = names_of raw_env" by (rule ext) (simp only: names_of_def address_env_sel)
  have small: "small_trx address_env [] (trx_commands (strx_trx sample_trx))"
    using sample_small by (simp add: small_trx_def names)
  have bound: "record_bound address_env {n. length n < 30} 304"
    using raw_record_bound by (simp add: record_bound_def entry_len_def)
  have "adds (304 + 2 * 304 * length (trx_commands (strx_trx sample_trx))) (apply_trx address_env sample_trx [])"
    by (rule adds_trx [OF bound]) (use sample_names in \<open>simp_all add: sample_trx_def names\<close>)
  then have "log_size (snd (apply_trx address_env sample_trx [] sample_gen)) \<le> log_size sample_gen + (304 + 2 * 304 * 4)"
    by (rule addsD [THEN order_trans]) (simp add: sample_trx_def sample_commands_def)
  then have lim: "log_size (snd (apply_trx address_env sample_trx [] sample_gen)) < log_limit"
    by (simp add: sample_gen_def sample_disk_def empty_layer_def log_size_def log_limit_def)
  have shows1: "shows_market address_env (\<lambda>es. es) traded_market (snd (apply_trx address_env sample_trx [] sample_gen))"
    using apply_trx_run(2) [OF address_env_laws shows0 small lim] by (simp add: traded_market_def sample_trx_def)
  obtain b l where b: "snd (apply_trx address_env sample_trx [] sample_gen) = Trx (Some b) l" "kept (Trx (Some sample_disk) empty_layer) b"
    using followsD [OF below_apply_trx [of address_env sample_trx "[]"], of sample_gen] by (auto simp: sample_gen_def below_kept_Trx)
  then obtain db where "b = Trx (Some db) empty_layer" using kept_TrxD by blast
  then show ?thesis
    using b(1) shows1 lim address_env_laws by (simp add: node_view_def sample_console_def traded_states_def)
qed

section \<open>The properties\<close>

definition sample_transfer :: transfer_cmd where
  "sample_transfer = \<lparr>tr_amount = 7, tr_stock_name = ''A'', tr_from_name = ''A'', tr_to_name = ''B''\<rparr>"

definition sample_order :: command where
  "sample_order = command_of (e_transfer raw_env) transfer_id sample_transfer"

lemma sample_order_sel [simp]:
  "c_id sample_order = transfer_id" "parse lay_transfer (c_data sample_order) = Inr (sample_transfer, [])"
  "tr_from_name sample_transfer = ''A''" "destination gen sample_transfer = ''B''"
  by (simp_all add: sample_order_def command_of_def sample_transfer_def destination_def)

lemma sample_order_signed: "\<exists>s'. sign_all sample_client (sample_console [sample_order]) = (Inr True, s')"
proof -
  have view: "console_view sample_client (\<lambda>es. es) traded_market (sample_console [sample_order])"
    using sample_console_view by (simp add: console_view_def)
  have "\<exists>s'. sign_all sample_client (sample_console [sample_order]) = (Inr True, s')
      \<and> strx_verify (cl_env sample_client) (co_trx s') 1"
    by (rule sign_one_transfer [OF view, where c = sample_order and r = sample_key and tr = sample_transfer])
      (simp_all add: sample_keys_match raw_small_names traded_market_is sample_keychain)
  then show ?thesis by blast
qed

theorem signed_is_enough_witness:
  "\<exists>s'. sign_all sample_client (sample_console [sample_order]) = (Inr True, s')
    \<and> m_commands address_env (co_trx s') [] [sample_order] traded_market =
        m_commands (trusting address_env) (co_trx s') [] [sample_order] traded_market"
proof -
  obtain s' where s': "sign_all sample_client (sample_console [sample_order]) = (Inr True, s')"
    using sample_order_signed by blast
  have plain: "plain_commands sample_client (co_keys (sample_console [sample_order])) [] {} {} {}
      (trx_commands (strx_trx (co_trx (sample_console [sample_order]))))"
    by (simp add: raw_small_names transfer_id_def register_name_id_def issue_id_def)
  have "node_view (cl_env sample_client) (\<lambda>es. es) traded_market (co_node (sample_console [sample_order]))"
    "keys_match sample_client (co_keys (sample_console [sample_order]))"
    by (simp_all add: sample_console_view sample_keys_match)
  from signed_is_enough [OF this plain s'] s' show ?thesis by simp
qed

lemma sample_transfer_trusted:
  "\<exists>m'. m_transfer (trusting address_env) sample_trx ''B'' sample_transfer traded_market = (True, m')"
  by (simp add: m_transfer_def Let_def destination_def sample_transfer_def traded_market_is signed_by_def
      strx_verify_def trusting_def sample_trx_def)

theorem transfer_command_accepted_witness:
  "\<exists>s' s'' m'. transfer_command sample_client 7 ''A'' ''A'' ''B'' (sample_console []) = (Inr (), s')
    \<and> trx_commands (strx_trx (co_trx s')) = [sample_order] \<and> sign_all sample_client s' = (Inr True, s'')
    \<and> m_commands address_env (co_trx s'') ''B'' [sample_order] traded_market = (Inr True, m')"
proof -
  have "\<exists>s'. transfer_command sample_client 7 ''A'' ''A'' ''B'' (sample_console []) = (Inr (), s')
    \<and> (case m_transfer (trusting (cl_env sample_client)) sample_trx ''B'' sample_transfer traded_market of
        (False, m') \<Rightarrow> co_trx s' = co_trx (sample_console [])
      | (True, m') \<Rightarrow> trx_commands (strx_trx (co_trx s')) = [command_of (e_transfer (cl_env sample_client)) transfer_id sample_transfer]
          \<and> (\<exists>s''. sign_all sample_client s' = (Inr True, s'')
              \<and> m_commands (cl_env sample_client) (co_trx s'') ''B'' (trx_commands (strx_trx (co_trx s'))) traded_market = (Inr True, m')))"
  proof (rule transfer_command_accepted)
    show "node_view (cl_env sample_client) (\<lambda>es. es) traded_market (co_node (sample_console []))"
      by (simp add: sample_console_view)
    show "unpack (e_transfer (cl_env sample_client)) (pack (e_transfer (cl_env sample_client)) sample_transfer) = Inr sample_transfer"
      by (simp add: sample_transfer_def)
  qed (simp_all add: sample_keys_match raw_small_names traded_market_is sample_keychain sample_transfer_def sample_trx_def)
  then show ?thesis using sample_transfer_trusted by (auto simp: sample_order_def)
qed

end
