(* ===== verification/Windows.thy ===== *)
theory Windows
  imports Console FileShare
begin

text \<open>
  The windows of programs/free_market as far as they compute: the tables of accounts, of the
  contents of an account and of its transactions (AccountTableModel, ContentTableModel,
  TrxTableModel), the slots of MainWindow, and what the forms of a transaction ask for. The
  widgets of Qt are third-party code: a slot gets what it reads from them as arguments.
\<close>

section \<open>Tables\<close>

datatype variant =
    No_Value \<comment> \<open>\<open>QVariant()\<close>\<close>
  | Text string
  | Number u64

record model_index =
  mi_valid :: bool
  mi_row :: int
  mi_column :: int

definition account_data :: "string list \<Rightarrow> model_index \<Rightarrow> bool \<Rightarrow> exn + variant" where
  \<comment> \<open>\<open>AccountTableModel::data\<close>; the row is compared as an unsigned number, with \<open>>\<close> for \<open>>=\<close>\<close>
  "account_data names i display =
     (if \<not> mi_valid i then Inr No_Value
      else if mi_row i > int (length names) \<or> mi_row i < 0 then Inr No_Value
      else if display then
        (if mi_row i < int (length names) then Inr (Text (names ! nat (mi_row i)))
         else Inl (Undefined_Behaviour ''index past the end of the known names''))
      else Inr No_Value)"

definition content_data :: "(string \<times> u64) list \<Rightarrow> model_index \<Rightarrow> bool \<Rightarrow> variant" where
  "content_data rows i display =
     (if \<not> mi_valid i then No_Value
      else if mi_row i \<ge> int (length rows) \<or> mi_row i < 0 then No_Value
      else if display then
        (if mi_column i = 0 then Text (fst (rows ! nat (mi_row i))) else Number (snd (rows ! nat (mi_row i))))
      else No_Value)"

definition trx_data :: "(u64 \<Rightarrow> string) \<Rightarrow> string \<Rightarrow> trx_log list \<Rightarrow> model_index \<Rightarrow> bool \<Rightarrow> variant" where
  \<comment> \<open>\<open>show_date\<close> is the third-party conversion of seconds since 1970\<close>
  "trx_data show_date acnt log i display =
     (if \<not> mi_valid i then No_Value
      else if mi_row i \<ge> int (length log) \<or> mi_row i < 0 then No_Value
      else if display then
        (let l = log ! nat (mi_row i) in
         if mi_column i = 0 then Text (if acnt = lo_from l then lo_to l else lo_from l)
         else if mi_column i = 1 then Text (lo_type l)
         else if mi_column i = 2 then Text ((if lo_to l = acnt then [] else ''-'') @ decimal (unat (lo_amnt l)))
         else if mi_column i = 3 then Number (if lo_from l = acnt then lo_from_bal l else lo_to_bal l)
         else if mi_column i = 4 then Text (show_date (lo_date l div 1000000))
         else No_Value)
      else No_Value)"

section \<open>The main window\<close>

record 'd window =
  wi_console :: "'d console"
  wi_names :: "string list option" \<comment> \<open>the static vector of \<open>get_known_names\<close>, once it was called\<close>
  wi_rows :: "(string \<times> u64) list"
  wi_acnt :: string
  wi_log :: "trx_log list"
  wi_selected_acnt :: string
  wi_selected_type :: string

definition on_console :: "('d console, 'a) prog \<Rightarrow> ('d window, 'a) prog" where
  "on_console f w = (case f (wi_console w) of (r, c) \<Rightarrow> (r, w\<lparr>wi_console := c\<rparr>))"

definition on_window_node :: "('d node, 'a) prog \<Rightarrow> ('d window, 'a) prog" where
  "on_window_node f = on_console (at_node f)"

definition get_known_names :: "'d client_env \<Rightarrow> ('d window, string list) prog" where
  \<comment> \<open>the settings are read by the first call only\<close>
  "get_known_names C w =
     (case wi_names w of
        Some names \<Rightarrow> (Inr names, w)
      | None \<Rightarrow>
          let names = cl_child_groups C (co_settings (wi_console w)) in (Inr names, w\<lparr>wi_names := Some names\<rparr>))"

definition account_name_at :: "'d client_env \<Rightarrow> int \<Rightarrow> ('d window, string) prog" where
  \<comment> \<open>\<open>AccountTableModel::getName\<close>\<close>
  "account_name_at C i =
     bindP (get_known_names C) (\<lambda>names.
     if 0 \<le> i \<and> i < int (length names) then ret (names ! nat i)
     else throw (Undefined_Behaviour ''index past the end of the known names''))"

definition add_account :: "'d client_env \<Rightarrow> string \<Rightarrow> ('d window, unit) prog" where
  "add_account C text =
     bindP (asks (\<lambda>w. co_settings (wi_console w))) (\<lambda>st.
     if cl_contains C st text then ret ()
     else
       bindP (get_known_names C) (\<lambda>names.
       bindP (on_console (modify (\<lambda>s. s\<lparr>co_settings := co_settings s @ [(text @ ''/index'', int (length names))]\<rparr>))) (\<lambda>_.
       modify (\<lambda>w. w\<lparr>wi_names := Some (names @ [text])\<rparr>))))"

definition new_account :: "'d client_env \<Rightarrow> bool \<Rightarrow> string \<Rightarrow> ('d window, unit) prog" where
  \<comment> \<open>\<open>ok\<close> and \<open>text\<close> come from the dialog\<close>
  "new_account C ok text =
     (if ok \<and> text \<noteq> [] then
        bindP (on_window_node (get_key_for_name (cl_env C) text)) (\<lambda>k.
        case k of None \<Rightarrow> ret () | Some k \<Rightarrow> add_account C text)
      else ret ())"

definition window_generate :: "'d client_env \<Rightarrow> bool \<Rightarrow> ('d window, unit) prog" where
  "window_generate C checked =
     on_window_node (bindP (asks n_gen_name) (\<lambda>name. configure_generation (cl_env C) name checked))"

definition window_configure_generation :: "'d client_env \<Rightarrow> bool \<Rightarrow> string \<Rightarrow> bool \<Rightarrow> ('d window, unit) prog" where
  "window_configure_generation C ok text checked =
     (if ok \<and> text \<noteq> [] then on_window_node (configure_generation (cl_env C) text checked) else ret ())"

primrec select_types :: "int list \<Rightarrow> ('d window, unit) prog" where
  "select_types [] = ret ()"
| "select_types (i # rows) =
     bindP (asks wi_rows) (\<lambda>r.
     if 0 \<le> i \<and> i < int (length r) then
       bindP (modify (\<lambda>w. w\<lparr>wi_selected_type := fst (r ! nat i)\<rparr>)) (\<lambda>_. select_types rows)
     else throw (Undefined_Behaviour ''index past the end of the table''))"

definition content_selection_changed :: "'d client_env \<Rightarrow> int list \<Rightarrow> transfer_it \<Rightarrow> ('d window, unit) prog" where
  \<comment> \<open>the rows are those of the sorted view, used as rows of the table behind it; the dates 0 and -1 are
    the default arguments of \<open>get_transaction_log\<close>, \<open>t0\<close> its iterator before it is set\<close>
  "content_selection_changed C rows t0 =
     bindP (select_types rows) (\<lambda>_.
     bindP (asks wi_selected_acnt) (\<lambda>a.
     bindP (asks wi_selected_type) (\<lambda>t.
     bindP (on_window_node (get_transaction_log (cl_env C) a t 0 (-1) t0)) (\<lambda>log.
     modify (\<lambda>w. w\<lparr>wi_acnt := a, wi_log := log\<rparr>)))))"

primrec content_rows :: "'d client_env \<Rightarrow> int \<Rightarrow> string list \<Rightarrow> ('d window, (string \<times> u64) list) prog" where
  "content_rows C i [] = ret []"
| "content_rows C i (c # cs) =
     bindP (account_name_at C i) (\<lambda>name.
     bindP (on_window_node (node_get_balance (cl_env C) name c)) (\<lambda>b.
     bindP (content_rows C i cs) (\<lambda>rows. ret ((c, b) # rows))))"

primrec select_accounts :: "'d client_env \<Rightarrow> int list \<Rightarrow> ('d window, (string \<times> u64) list) prog" where
  "select_accounts C [] = ret []"
| "select_accounts C (i # is) =
     bindP (account_name_at C i) (\<lambda>name.
     bindP (on_window_node (node_account_contents (cl_env C) name)) (\<lambda>ct.
     bindP (content_rows C i ct) (\<lambda>rows.
     bindP (modify (\<lambda>w. w\<lparr>wi_selected_acnt := name\<rparr>)) (\<lambda>_.
     bindP (select_accounts C is) (\<lambda>more. ret (rows @ more))))))"

definition account_selection_changed :: "'d client_env \<Rightarrow> int list \<Rightarrow> ('d window, unit) prog" where
  \<comment> \<open>up to the selection of the first row in the table of contents, which Qt reports by another slot\<close>
  "account_selection_changed C is = bindP (select_accounts C is) (\<lambda>rows. modify (\<lambda>w. w\<lparr>wi_rows := rows\<rparr>))"

section \<open>Forms\<close>

text \<open>A form with the texts of its fields; \<open>No_Form\<close> is the null \<open>m_cur\<close> of a command editor.\<close>

datatype form =
    Transfer_Form (form_from: string)
  | Register_Form (form_name: string) (form_key_name: string)
  | Issue_Form (form_stock: string)
  | No_Form

definition required_signatures :: "'d client_env \<Rightarrow> form \<Rightarrow> ('d window, string list) prog" where
  "required_signatures C f =
     (case f of
        Transfer_Form from \<Rightarrow> ret [from]
      | Register_Form name key_name \<Rightarrow>
          bindP (on_window_node (can_register (cl_env C) name)) (\<lambda>free. ret (if free then [] else [name]))
      | Issue_Form stock \<Rightarrow> ret [stock]
      | No_Form \<Rightarrow> throw (Undefined_Behaviour ''null m_cur''))"

definition form_errors :: "'d client_env \<Rightarrow> form \<Rightarrow> ('d window, string list) prog" where
  "form_errors C f =
     (case f of
        Register_Form name key_name \<Rightarrow>
          bindP (on_window_node (can_register (cl_env C) name)) (\<lambda>free.
          ret (if free then [] else [''Unable to register name '' @ [CHR 0x27] @ name @ [CHR 0x27] @ ''.'']))
      | No_Form \<Rightarrow> throw (Undefined_Behaviour ''null m_cur'')
      | _ \<Rightarrow> ret [])"

definition create_command :: "'d client_env \<Rightarrow> form \<Rightarrow> command \<Rightarrow> ('d window, command) prog" where
  \<comment> \<open>transfers and issues leave the command as it was; an unknown key name gives a zero key\<close>
  "create_command C f c =
     (case f of
        Register_Form name key_name \<Rightarrow>
          bindP (on_window_node (get_key_for_name (cl_env C) key_name)) (\<lambda>k.
          ret (command_of (e_register_name (cl_env C)) register_name_id
            \<lparr>rn_name = name, rn_pub_key = (case k of None \<Rightarrow> empty_public_key | Some k \<Rightarrow> k)\<rparr>))
      | No_Form \<Rightarrow> throw (Undefined_Behaviour ''null m_cur'')
      | _ \<Rightarrow> ret c)"

primrec stock_items :: "'d client_env \<Rightarrow> string \<Rightarrow> string list \<Rightarrow> ('d window, string list) prog" where
  "stock_items C account [] = ret []"
| "stock_items C account (c # cs) =
     bindP (on_window_node (node_get_balance (cl_env C) account c)) (\<lambda>b.
     bindP (stock_items C account cs) (\<lambda>more. ret ((c @ '' ('' @ decimal (unat b) @ '')'') # more)))"

definition current_from_changed :: "'d client_env \<Rightarrow> string \<Rightarrow> ('d window, string list) prog" where
  \<comment> \<open>the stocks that a transfer from the account offers\<close>
  "current_from_changed C account = bindP (on_window_node (node_account_contents (cl_env C) account)) (stock_items C account)"

definition new_key :: "'d client_env \<Rightarrow> ('d window, string) prog" where
  \<comment> \<open>the address that is put into the list of keys\<close>
  "new_key C =
     on_console (bindP (generate_address C) (\<lambda>(gen, pub, priv).
       bindP (store_key C (encode_address (cl_env C) pub) \<lparr>ki_alias = [], ki_pub = pub, ki_priv = priv\<rparr>) (\<lambda>_. ret gen)))"

primrec collect_signatures :: "'d client_env \<Rightarrow> form option list \<Rightarrow> ('d window, string list) prog" where
  \<comment> \<open>\<open>None\<close> is an item of the layout that is not a form\<close>
  "collect_signatures C [] = ret []"
| "collect_signatures C (f # fs) =
     bindP (case f of None \<Rightarrow> ret [] | Some f \<Rightarrow> required_signatures C f) (\<lambda>rs.
     bindP (collect_signatures C fs) (\<lambda>more. ret (rs @ more)))"

fun clear_boxes :: "'b list \<Rightarrow> 'b list" where
  \<comment> \<open>deleting a widget takes its item out of the layout, so the loop over the positions skips every second one\<close>
  "clear_boxes [] = []"
| "clear_boxes [b] = []"
| "clear_boxes (b # b' # bs) = b' # clear_boxes bs"

definition update_signatures :: "'d client_env \<Rightarrow> form option list \<Rightarrow> string list \<Rightarrow> ('d window, string list) prog" where
  \<comment> \<open>the check boxes after it, given those before it\<close>
  "update_signatures C fs boxes =
     bindP (collect_signatures C fs) (\<lambda>req. ret (clear_boxes boxes @ remdups_adj (sort req)))"

end
